(* ===== verification/Prelude.thy ===== *)
theory Prelude
  imports Main "HOL-Library.Word" "HOL-Library.Monad_Syntax"
begin

text \<open>
  Shared vocabulary of the Sparrow-OS development: machine integer types, the
  result type of kernel code, the \<open>ASSERT\<close> macro, lemma collections and the
  generic facts on words, lists and options that the component theories use.

  A kernel function returns \<open>Some\<close> of its result and state, or \<open>None\<close> when
  control never comes back: \<open>panic_spin\<close> (kernel/debug.c) and \<open>user_spin\<close>
  (lib/user/assert.c) both print a message and then execute \<open>while(1);\<close>, so a
  failed \<open>ASSERT\<close> is indistinguishable, for the caller, from a loop that does
  not terminate.  The same value is used for the behaviours C leaves undefined
  (a write through a null pointer, an overrun of a fixed array), each of which
  is marked where it occurs.
\<close>

unbundle bit_operations_syntax

type_synonym u8 = "8 word"
type_synonym u16 = "16 word"
type_synonym u32 = "32 word"

text \<open>Collections that the component proofs draw on.\<close>

named_theorems kernel_defs \<open>definitions of straight-line kernel operations\<close>
named_theorems inv_rules \<open>preservation of component invariants\<close>
named_theorems frame_simps \<open>fields and cells that an operation leaves alone\<close>

subsection \<open>ASSERT and the option monad\<close>

definition panic_spin :: "'a option" where
  "panic_spin = None"

definition ASSERT :: "bool \<Rightarrow> unit option" where
  "ASSERT c = (if c then Some () else panic_spin)"

lemma ASSERT_True [simp]: "ASSERT True = Some ()"
  by (simp add: ASSERT_def)

lemma ASSERT_False [simp]: "ASSERT False = None"
  by (simp add: ASSERT_def panic_spin_def)

lemma ASSERT_eq_Some [simp]: "ASSERT c = Some u \<longleftrightarrow> c"
  by (simp add: ASSERT_def panic_spin_def)

lemma ASSERT_eq_None [simp]: "ASSERT c = None \<longleftrightarrow> \<not> c"
  by (simp add: ASSERT_def panic_spin_def)

lemma bind_ASSERT_eq_Some [simp]:
  "Option.bind (ASSERT c) f = Some r \<longleftrightarrow> c \<and> f () = Some r"
  by (simp add: ASSERT_def panic_spin_def)

lemma bind_ASSERT_holds: "c \<Longrightarrow> Option.bind (ASSERT c) f = f ()"
  by (simp add: ASSERT_def)

lemma bind_ASSERT_fails: "\<not> c \<Longrightarrow> Option.bind (ASSERT c) f = None"
  by (simp add: ASSERT_def panic_spin_def)

subsection \<open>Words\<close>

lemma unat_less_pow [simp]: "unat (x :: u32) < 4294967296"
  using unsigned_less [of x] by simp

lemma unat_u8_less [simp]: "unat (x :: u8) < 256"
  using unsigned_less [of x] by simp

lemma bit_u32_less: "bit (x :: u32) n \<Longrightarrow> n < 32"
  using bit_imp_le_length [of x n] by simp

lemma unat_plus_small:
  "unat (a :: u32) + unat b < 4294967296 \<Longrightarrow> unat (a + b) = unat a + unat b"
  by (simp add: unat_word_ariths)

lemma unat_Suc_small: "unat (a :: u32) < 4294967295 \<Longrightarrow> unat (a + 1) = Suc (unat a)"
  using unat_plus_small [of a 1] by simp

lemma unat_of_nat_small: "n < 4294967296 \<Longrightarrow> unat (of_nat n :: u32) = n"
  by (simp add: unat_of_nat)

lemma u32_eq_iff_unat: "(a :: u32) = b \<longleftrightarrow> unat a = unat b"
  by (rule word_unat_eq_iff)

lemma of_nat_unat_u32 [simp]: "of_nat (unat (x :: u32)) = x"
  by (simp add: word_unat_eq_iff)

lemma unat_div_num [simp]: "unat ((a :: u32) div 8) = unat a div 8"
  by (simp add: unat_div)

lemma unat_mod_num [simp]: "unat ((a :: u32) mod 8) = unat a mod 8"
  by (simp add: unat_mod)

lemma of_nat_unat_div: "of_nat (unat (x :: u32) div 8) = x div 8"
  by (metis unat_div_num of_nat_unat_u32)

lemma unat_minus_small:
  "unat (b :: u32) \<le> unat a \<Longrightarrow> unat (a - b) = unat a - unat b"
  by (simp add: unat_sub word_le_nat_alt)

lemma unat_dec: "0 < (a :: u32) \<Longrightarrow> unat (a - 1) = unat a - 1"
  using unat_minus_small [of 1 a] by (simp add: word_less_nat_alt Suc_leI)

lemma unat_dec_less [simp]: "0 < (a :: u32) \<Longrightarrow> unat (a - 1) < unat a"
  using unat_dec [of a] by (simp add: word_less_nat_alt)

lemma unat_neg_one: "unat (-1 :: u32) = 4294967295"
  by (simp add: unsigned_minus_1_eq_mask mask_eq_exp_minus_1)

lemma sint_small: "unat (x :: u32) < 2147483648 \<Longrightarrow> sint x = int (unat x)"
proof -
  assume "unat x < 2147483648"
  moreover have u: "uint x = int (unat x)" by simp
  ultimately have "uint x < 2147483648" by linarith
  then have "uint x < 2 ^ 31" by simp
  moreover have "- (2 ^ 31) \<le> uint x" by (rule order_trans [of _ 0]) simp_all
  ultimately have "signed_take_bit 31 (uint x) = uint x" by (intro signed_take_bit_int_eq_self)
  then have "sint x = uint x" by (simp add: sint_uint)
  then show ?thesis using u by (rule trans)
qed

subsection \<open>Lists\<close>

lemma nth_append_mid [simp]: "(xs @ x # ys) ! length xs = x"
  by simp

lemma distinct_mid: "distinct (xs @ x # ys) \<Longrightarrow> x \<notin> set xs \<and> x \<notin> set ys"
  by simp

lemma remove1_mid: "x \<notin> set xs \<Longrightarrow> remove1 x (xs @ x # ys) = xs @ ys"
  by (induction xs) auto

lemma takeWhile_stop: "x \<notin> set xs \<Longrightarrow> takeWhile (\<lambda>c. c \<noteq> x) (xs @ x # r) = xs"
  by (induction xs) auto

end
