(* ===== verification/Interrupt.thy ===== *)
theory Interrupt
  imports Prelude
begin

text \<open>
  The interrupt layer of kernel/interrupt.c: the processor's interrupt flag and
  the save/restore discipline around critical sections, the interrupt descriptor
  table that \<open>idt_desc_init\<close> fills, and the handler table.  Programming the
  8259A (\<open>pic_init\<close>) and loading \<open>idtr\<close> are port and register writes.
\<close>

datatype intr_status = INTR_OFF | INTR_ON

record cpu =
  eflags :: u32

definition EFLAGS_IF :: u32 where
  "EFLAGS_IF = 0x200"

definition sti :: "'a cpu_scheme \<Rightarrow> 'a cpu_scheme" where
  "sti s = s\<lparr>eflags := eflags s OR EFLAGS_IF\<rparr>"

definition cli :: "'a cpu_scheme \<Rightarrow> 'a cpu_scheme" where
  "cli s = s\<lparr>eflags := eflags s AND NOT EFLAGS_IF\<rparr>"

definition intr_get_status :: "'a cpu_scheme \<Rightarrow> intr_status" where
  "intr_get_status s = (if EFLAGS_IF AND eflags s \<noteq> 0 then INTR_ON else INTR_OFF)"

definition intr_enable :: "'a cpu_scheme \<Rightarrow> intr_status \<times> 'a cpu_scheme" where
  "intr_enable s =
     (if INTR_ON = intr_get_status s then (INTR_ON, s) else (INTR_OFF, sti s))"

definition intr_disable :: "'a cpu_scheme \<Rightarrow> intr_status \<times> 'a cpu_scheme" where
  "intr_disable s =
     (if INTR_ON = intr_get_status s then (INTR_ON, cli s) else (INTR_OFF, s))"

definition intr_set_status :: "intr_status \<Rightarrow> 'a cpu_scheme \<Rightarrow> intr_status \<times> 'a cpu_scheme" where
  "intr_set_status st s = (case st of INTR_ON \<Rightarrow> intr_enable s | INTR_OFF \<Rightarrow> intr_disable s)"

subsection \<open>Descriptor table\<close>

record gate_desc =
  func_offset_low_word :: u16
  selector :: u16
  dcount :: u8
  attribute :: u8
  func_offset_high_word :: u16

definition SELECTOR_K_CODE :: u16 where
  "SELECTOR_K_CODE = push_bit 3 1 + push_bit 2 0 + 0"

definition IDT_DESC_ATTR_DPL0 :: u8 where
  "IDT_DESC_ATTR_DPL0 = push_bit 7 1 + push_bit 5 0 + 0xE"

definition IDT_DESC_ATTR_DPL3 :: u8 where
  "IDT_DESC_ATTR_DPL3 = push_bit 7 1 + push_bit 5 3 + 0xE"

definition IDT_DESC_CNT :: nat where
  "IDT_DESC_CNT = 0x81"

definition make_idt_desc :: "u8 \<Rightarrow> u32 \<Rightarrow> gate_desc" where
  "make_idt_desc attr function =
     \<lparr>func_offset_low_word = ucast (function AND 0x0000FFFF),
      selector = SELECTOR_K_CODE,
      dcount = 0,
      attribute = attr,
      func_offset_high_word = ucast (drop_bit 16 (function AND 0xFFFF0000))\<rparr>"

definition idt_desc_init :: "(nat \<Rightarrow> u32) \<Rightarrow> u32 \<Rightarrow> gate_desc list" where
  "idt_desc_init intr_entry_table syscall_handler =
     (let idt = map (\<lambda>i. make_idt_desc IDT_DESC_ATTR_DPL0 (intr_entry_table i)) [0..<IDT_DESC_CNT];
          lastindex = IDT_DESC_CNT - 1
      in idt[lastindex := make_idt_desc IDT_DESC_ATTR_DPL3 syscall_handler])"

definition register_handler :: "u8 \<Rightarrow> u32 \<Rightarrow> u32 list \<Rightarrow> u32 list" where
  "register_handler vector_no function idt_table = idt_table[unat vector_no := function]"

text \<open>The processor's view of a gate: where it jumps to, and the least privilege that may call it.\<close>

definition gate_target :: "gate_desc \<Rightarrow> u32" where
  "gate_target g = push_bit 16 (ucast (func_offset_high_word g)) OR ucast (func_offset_low_word g)"

definition gate_dpl :: "gate_desc \<Rightarrow> u8" where
  "gate_dpl g = drop_bit 5 (attribute g) AND 3"

subsection \<open>The interrupt flag\<close>

lemma EFLAGS_IF_exp: "EFLAGS_IF = 2 ^ 9"
  by (simp add: EFLAGS_IF_def)

lemma EFLAGS_IF_bit: "EFLAGS_IF AND x \<noteq> 0 \<longleftrightarrow> bit x 9"
  unfolding EFLAGS_IF_exp by (subst and.commute) (simp only: and_exp_eq_0_iff_not_bit not_not)

lemma get_status_On: "intr_get_status s = INTR_ON \<longleftrightarrow> bit (eflags s) 9"
  by (simp add: intr_get_status_def EFLAGS_IF_bit)

lemma get_status_cases: "intr_get_status s = INTR_OFF \<longleftrightarrow> intr_get_status s \<noteq> INTR_ON"
  by (cases "intr_get_status s") auto

lemma bit_EFLAGS_IF: "n < 32 \<Longrightarrow> bit EFLAGS_IF n \<longleftrightarrow> n = 9"
  unfolding EFLAGS_IF_exp by (simp only: bit_exp_iff) auto

lemma get_status_cli [simp]: "intr_get_status (cli s) = INTR_OFF"
  by (simp add: get_status_cases get_status_On cli_def bit_and_iff bit_not_iff bit_EFLAGS_IF)

lemma get_status_sti [simp]: "intr_get_status (sti s) = INTR_ON"
  by (simp add: get_status_On sti_def bit_or_iff bit_EFLAGS_IF)

lemma intr_disable_fst [simp]: "fst (intr_disable s) = intr_get_status s"
  by (cases "intr_get_status s") (simp_all add: intr_disable_def)

lemma intr_disable_off [simp]: "intr_get_status (snd (intr_disable s)) = INTR_OFF"
  by (cases "intr_get_status s") (simp_all add: intr_disable_def)

lemma sti_cli: "intr_get_status s = INTR_ON \<Longrightarrow> sti (cli s) = s"
proof -
  assume "intr_get_status s = INTR_ON"
  then have on: "bit (eflags s) 9" by (simp add: get_status_On)
  have "(eflags s AND NOT EFLAGS_IF) OR EFLAGS_IF = eflags s"
    by (rule bit_eqI) (use on in \<open>auto simp: bit_or_iff bit_and_iff bit_not_iff bit_EFLAGS_IF\<close>)
  then show "sti (cli s) = s" by (simp add: sti_def cli_def)
qed

text \<open>
  Critical sections bracket their body with \<open>intr_disable\<close> and \<open>intr_set_status\<close>:
  a body that leaves \<open>eflags\<close> alone runs with interrupts off and the flag is as
  before afterwards.
\<close>

lemma eflags_cli [simp]: "eflags (cli s) = eflags s AND NOT EFLAGS_IF"
  by (simp add: cli_def)

lemma eflags_sti [simp]: "eflags (sti s) = eflags s OR EFLAGS_IF"
  by (simp add: sti_def)

lemma get_status_cong: "eflags s = eflags t \<Longrightarrow> intr_get_status s = intr_get_status t"
  by (simp add: intr_get_status_def)

lemma restore_eflags:
  assumes "eflags t = eflags (snd (intr_disable s))"
  shows "eflags (snd (intr_set_status (intr_get_status s) t)) = eflags s"
proof (cases "intr_get_status s")
  case INTR_OFF
  with assms have "eflags t = eflags s" by (simp add: intr_disable_def)
  with INTR_OFF get_status_cong [of t s] show ?thesis
    by (simp add: intr_set_status_def intr_disable_def)
next
  case INTR_ON
  with assms have t: "eflags t = eflags (cli s)" by (simp add: intr_disable_def)
  from sti_cli [OF INTR_ON] have "eflags (sti (cli s)) = eflags s" by simp
  with INTR_ON t get_status_cong [of t "cli s"] show ?thesis
    by (simp add: intr_set_status_def intr_enable_def)
qed

text \<open>The same discipline as equations on whole states, for records that extend \<open>cpu\<close>.\<close>

lemma flag_clear: "intr_get_status s = INTR_OFF \<Longrightarrow> eflags s AND NOT EFLAGS_IF = eflags s"
  by (rule bit_eqI) (auto simp: get_status_cases get_status_On bit_and_iff bit_not_iff bit_EFLAGS_IF)

lemma flag_set: "intr_get_status s = INTR_ON \<Longrightarrow> (eflags s AND NOT EFLAGS_IF) OR EFLAGS_IF = eflags s"
  using sti_cli [of s] eflags_sti [of "cli s"] by simp

lemma intr_disable_eq:
  "intr_disable s = (intr_get_status s, s\<lparr>eflags := eflags s AND NOT EFLAGS_IF\<rparr>)"
  by (cases "intr_get_status s") (simp_all add: intr_disable_def cli_def flag_clear)

lemma flag_off [simp]: "eflags t = x AND NOT EFLAGS_IF \<Longrightarrow> intr_get_status t = INTR_OFF"
  by (simp add: get_status_cases get_status_On bit_and_iff bit_not_iff bit_EFLAGS_IF)

lemma intr_restore:
  assumes "eflags t = eflags s AND NOT EFLAGS_IF"
  shows "snd (intr_set_status (intr_get_status s) t) = t\<lparr>eflags := eflags s\<rparr>"
proof (cases "intr_get_status s")
  case INTR_OFF
  with assms flag_clear [of s] have "eflags t = eflags s" by simp
  with assms INTR_OFF show ?thesis by (simp add: intr_set_status_def intr_disable_def)
next
  case INTR_ON
  with assms flag_set [of s] show ?thesis by (simp add: intr_set_status_def intr_enable_def sti_def)
qed

subsection \<open>Properties\<close>

lemma split_word16:
  "push_bit 16 (ucast (ucast (drop_bit 16 (f AND 0xFFFF0000)) :: u16)) OR
    ucast (ucast (f AND 0x0000FFFF) :: u16) = (f :: u32)"
proof -
  have lo: "(0x0000FFFF :: u32) = mask 16" and hi: "(0xFFFF0000 :: u32) = NOT (mask 16)"
    by (simp_all add: mask_eq_exp_minus_1)
  show ?thesis unfolding lo hi by (rule bit_eqI) (auto simp: bit_simps)
qed

lemma gate_target_make [simp]: "gate_target (make_idt_desc attr f) = f"
  unfolding gate_target_def make_idt_desc_def gate_desc.simps by (rule split_word16)

lemma gate_dpl_make [simp]:
  "gate_dpl (make_idt_desc IDT_DESC_ATTR_DPL0 f) = 0"
  "gate_dpl (make_idt_desc IDT_DESC_ATTR_DPL3 f) = 3"
  by (simp_all add: gate_dpl_def make_idt_desc_def IDT_DESC_ATTR_DPL0_def IDT_DESC_ATTR_DPL3_def)

lemma idt_entry:
  "i < 0x80 \<Longrightarrow> idt_desc_init entries sysc ! i = make_idt_desc IDT_DESC_ATTR_DPL0 (entries i)"
  "idt_desc_init entries sysc ! 0x80 = make_idt_desc IDT_DESC_ATTR_DPL3 sysc"
  "length (idt_desc_init entries sysc) = IDT_DESC_CNT"
  by (simp_all add: idt_desc_init_def IDT_DESC_CNT_def Let_def)

text \<open>Every gate leads to the routine it was built for; only vector 0x80 may be raised by ring 3.\<close>

lemma idt_gates_lead_to_their_entries:
  "length (idt_desc_init entries sysc) = IDT_DESC_CNT \<and>
   gate_target (idt_desc_init entries sysc ! 0x80) = sysc \<and>
   gate_dpl (idt_desc_init entries sysc ! 0x80) = 3 \<and>
   (\<forall>i < 0x80. gate_target (idt_desc_init entries sysc ! i) = entries i
             \<and> gate_dpl (idt_desc_init entries sysc ! i) = 0)"
  by (simp add: idt_entry)

lemma idt_gates_lead_to_their_entries_demo:
  "gate_target (idt_desc_init (\<lambda>i. 0xc0001000 + of_nat i * 16) 0xc0009000 ! 0x20) = 0xc0001200 \<and>
   gate_target (idt_desc_init (\<lambda>i. 0xc0001000 + of_nat i * 16) 0xc0009000 ! 0x80) = 0xc0009000 \<and>
   gate_dpl (idt_desc_init (\<lambda>i. 0xc0001000 + of_nat i * 16) 0xc0009000 ! 0x20) = 0"
  using idt_gates_lead_to_their_entries [where entries = "\<lambda>i. 0xc0001000 + of_nat i * 16" and sysc = "0xc0009000"] by simp

end
