(* ===== verification/Paging.thy ===== *)
theory Paging
  imports Interrupt
begin

text \<open>
  Two-level paging as kernel/memory.c uses it.  Physical memory is a function
  from dword addresses to dwords; \<open>mmu\<close> is the translation the processor performs
  from \<open>cr3\<close> (the lookaside buffer is not modelled: the kernel flushes an entry
  whenever it clears one).  The kernel edits its own tables through the last
  directory entry, which leads back to the directory; \<open>pde_ptr\<close> and \<open>pte_ptr\<close>
  compute where an entry then appears.  An access that does not translate raises
  a page fault, whose handler never returns.
\<close>

record machine = cpu +
  phys :: "u32 \<Rightarrow> u32"
  cr3 :: u32
  esp :: u32
  esp0 :: u32

definition PG_SIZE :: u32 where
  "PG_SIZE = 4096"

definition PG_P_1 :: u32 where
  "PG_P_1 = 1"

definition PG_RW_W :: u32 where
  "PG_RW_W = 2"

definition PG_US_U :: u32 where
  "PG_US_U = 4"

definition PDE_IDX :: "u32 \<Rightarrow> u32" where
  "PDE_IDX addr = drop_bit 22 (addr AND 0xffc00000)"

definition PTE_IDX :: "u32 \<Rightarrow> u32" where
  "PTE_IDX addr = drop_bit 12 (addr AND 0x003ff000)"

definition pde_ptr :: "u32 \<Rightarrow> u32" where
  "pde_ptr vaddr = 0xfffff000 + PDE_IDX vaddr * 4"

definition pte_ptr :: "u32 \<Rightarrow> u32" where
  "pte_ptr vaddr = 0xffc00000 + drop_bit 10 (vaddr AND 0xffc00000) + PTE_IDX vaddr * 4"

subsection \<open>The processor's translation\<close>

definition frame :: "u32 \<Rightarrow> u32" where
  "frame entry = entry AND 0xfffff000"

definition present :: "u32 \<Rightarrow> bool" where
  "present entry \<longleftrightarrow> entry AND 1 \<noteq> 0"

text \<open>Physical address of the directory entry of \<open>va\<close>, and of its entry in the table at frame \<open>pt\<close>.\<close>

definition pde_at :: "'a machine_scheme \<Rightarrow> u32 \<Rightarrow> u32" where
  "pde_at s va = frame (cr3 s) OR push_bit 2 (PDE_IDX va)"

definition pte_in :: "u32 \<Rightarrow> u32 \<Rightarrow> u32" where
  "pte_in pt va = pt OR push_bit 2 (PTE_IDX va)"

definition mmu :: "'a machine_scheme \<Rightarrow> u32 \<Rightarrow> u32 option" where
  "mmu s va =
     (let pde = phys s (pde_at s va)
      in if present pde then
           (let pte = phys s (pte_in (frame pde) va)
            in if present pte then Some (frame pte OR (va AND 0xfff)) else None)
         else None)"

definition vread :: "'a machine_scheme \<Rightarrow> u32 \<Rightarrow> u32 option" where
  "vread s va = map_option (phys s) (mmu s va)"

definition vwrite :: "u32 \<Rightarrow> u32 \<Rightarrow> 'a machine_scheme \<Rightarrow> 'a machine_scheme option" where
  "vwrite va v s = map_option (\<lambda>pa. s\<lparr>phys := (phys s)(pa := v)\<rparr>) (mmu s va)"

text \<open>\<open>memset(va, 0, PG_SIZE)\<close> for a page-aligned address: one translation serves the whole page.\<close>

definition clear_frame :: "u32 \<Rightarrow> (u32 \<Rightarrow> u32) \<Rightarrow> u32 \<Rightarrow> u32" where
  "clear_frame f m = (\<lambda>a. if frame a = f then 0 else m a)"

definition page_clear :: "u32 \<Rightarrow> 'a machine_scheme \<Rightarrow> 'a machine_scheme option" where
  "page_clear va s = map_option (\<lambda>pa. s\<lparr>phys := clear_frame (frame pa) (phys s)\<rparr>) (mmu s va)"

subsection \<open>Operations of memory.c on one entry\<close>

definition addr_v2p :: "'a machine_scheme \<Rightarrow> u32 \<Rightarrow> u32 option" where
  "addr_v2p s vaddr =
     do {
       pte \<leftarrow> vread s (pte_ptr vaddr);
       Some ((pte AND 0xfffff000) + (vaddr AND 0x00000fff))
     }"

definition page_table_pte_remove :: "u32 \<Rightarrow> 'a machine_scheme \<Rightarrow> 'a machine_scheme option" where
  "page_table_pte_remove vaddr s =
     do {
       pte \<leftarrow> vread s (pte_ptr vaddr);
       vwrite (pte_ptr vaddr) (pte AND NOT PG_P_1) s
     }"

lemma mmu_cong: "phys s = phys t \<Longrightarrow> cr3 s = cr3 t \<Longrightarrow> mmu s va = mmu t va"
  by (simp add: mmu_def pde_at_def Let_def)

lemma addr_v2p_cong: "phys s = phys t \<Longrightarrow> cr3 s = cr3 t \<Longrightarrow> addr_v2p s va = addr_v2p t va"
  using mmu_cong [of s t "pte_ptr va"] by (simp add: addr_v2p_def vread_def)

subsection \<open>Index arithmetic\<close>

lemma mask_consts:
  "(0xffc00000 :: u32) = NOT (mask 22)" "(0xfffff000 :: u32) = NOT (mask 12)"
  "(0xfff :: u32) = mask 12" "(0x003ff000 :: u32) = push_bit 12 (mask 10)" "(1 :: u32) = mask 1"
  by (simp_all add: mask_eq_exp_minus_1)

lemma PDE_IDX_drop: "PDE_IDX va = drop_bit 22 va"
  unfolding PDE_IDX_def mask_consts by (rule bit_eqI) (auto simp: bit_simps dest: bit_u32_less)

lemma PTE_IDX_take: "PTE_IDX va = take_bit 10 (drop_bit 12 va)"
  unfolding PTE_IDX_def mask_consts by (rule bit_eqI) (auto simp: bit_simps dest: bit_u32_less)

lemma frame_bits: "frame e = e AND NOT (mask 12)"
  by (simp add: frame_def mask_consts)

lemma present_bit: "present e \<longleftrightarrow> bit e 0"
  by (simp add: present_def and_one_eq odd_iff_mod_2_eq_one bit_0)

lemma frame_frame [simp]: "frame (frame e) = frame e"
  by (simp add: frame_bits)

lemma times_4: "x * 4 = push_bit 2 (x :: u32)"
  by (simp add: push_bit_eq_mult)

lemma pde_ptr_or: "pde_ptr va = NOT (mask 12) OR push_bit 2 (PDE_IDX va)"
  unfolding pde_ptr_def times_4 mask_consts PDE_IDX_drop
  by (rule disjunctive_add_eq_or, rule bit_eqI) (auto simp: bit_simps dest: bit_u32_less)

lemma pte_ptr_or:
  "pte_ptr va = NOT (mask 22) OR push_bit 12 (PDE_IDX va) OR push_bit 2 (PTE_IDX va)"
proof -
  have d: "drop_bit 10 (va AND NOT (mask 22)) = push_bit 12 (drop_bit 22 va)"
    by (rule bit_eqI) (auto simp: bit_simps dest: bit_u32_less)
  have "NOT (mask 22) + push_bit 12 (drop_bit 22 va) = NOT (mask 22) OR push_bit 12 (drop_bit 22 va)"
    by (rule disjunctive_add_eq_or, rule bit_eqI) (auto simp: bit_simps dest: bit_u32_less)
  moreover have "(NOT (mask 22) OR push_bit 12 (drop_bit 22 va)) + push_bit 2 (take_bit 10 (drop_bit 12 va))
      = NOT (mask 22) OR push_bit 12 (drop_bit 22 va) OR push_bit 2 (take_bit 10 (drop_bit 12 va))"
    unfolding or.assoc [symmetric]
    by (rule disjunctive_add_eq_or, rule bit_eqI) (auto simp: bit_simps dest: bit_u32_less)
  ultimately show ?thesis
    unfolding pte_ptr_def times_4 mask_consts PDE_IDX_drop PTE_IDX_take d by simp
qed

text \<open>Where the pointers themselves translate: the last directory entry is used once or twice.\<close>

lemma pde_ptr_idx [simp]: "PDE_IDX (pde_ptr va) = mask 10" "PTE_IDX (pde_ptr va) = mask 10"
  "pde_ptr va AND mask 12 = push_bit 2 (PDE_IDX va)"
  unfolding PDE_IDX_drop PTE_IDX_take pde_ptr_or
  by (rule bit_eqI; auto simp: bit_simps dest: bit_u32_less)+

lemma pte_ptr_idx [simp]: "PDE_IDX (pte_ptr va) = mask 10" "PTE_IDX (pte_ptr va) = PDE_IDX va"
  "pte_ptr va AND mask 12 = push_bit 2 (PTE_IDX va)"
  unfolding PDE_IDX_drop PTE_IDX_take pte_ptr_or
  by (rule bit_eqI; auto simp: bit_simps dest: bit_u32_less)+


subsection \<open>The recursive directory entry\<close>

definition self_mapped :: "'a machine_scheme \<Rightarrow> bool" where
  "self_mapped s \<longleftrightarrow>
     (let e = phys s (frame (cr3 s) OR push_bit 2 (mask 10)) in present e \<and> frame e = frame (cr3 s))"

lemma mmu_pde_ptr: "self_mapped s \<Longrightarrow> mmu s (pde_ptr va) = Some (pde_at s va)"
  by (simp add: mmu_def pde_at_def pte_in_def self_mapped_def Let_def mask_consts(3))

lemma mmu_pte_ptr:
  "self_mapped s \<Longrightarrow> present (phys s (pde_at s va)) \<Longrightarrow>
     mmu s (pte_ptr va) = Some (pte_in (frame (phys s (pde_at s va))) va)"
  by (simp add: mmu_def pde_at_def pte_in_def self_mapped_def Let_def mask_consts(3))

lemma mmu_pte_ptr_absent:
  "self_mapped s \<Longrightarrow> \<not> present (phys s (pde_at s va)) \<Longrightarrow> mmu s (pte_ptr va) = None"
  by (simp add: mmu_def pde_at_def pte_in_def self_mapped_def Let_def)

lemma frame_or_low: "frame (frame e OR push_bit 2 (PTE_IDX va)) = frame e"
  "frame (frame e OR push_bit 2 (PDE_IDX va)) = frame e"
  unfolding PDE_IDX_drop PTE_IDX_take frame_bits
  by (rule bit_eqI; auto simp: bit_simps dest: bit_u32_less)+

lemma frame_pte_in [simp]: "frame (pte_in (frame e) va) = frame e"
  by (simp add: pte_in_def frame_or_low)

lemma frame_pde_at [simp]: "frame (pde_at s va) = frame (cr3 s)"
  by (simp add: pde_at_def frame_or_low)

lemma frame_plus_offset: "frame e + (va AND mask 12) = frame e OR (va AND mask 12)"
  unfolding frame_bits by (rule disjunctive_add_eq_or, rule bit_eqI) (auto simp: bit_simps)

lemma low_part: "(frame e OR push_bit 2 (PTE_IDX va)) AND mask 12 = push_bit 2 (PTE_IDX va)"
  "(frame e OR push_bit 2 (PDE_IDX va)) AND mask 12 = push_bit 2 (PDE_IDX va)"
  unfolding PDE_IDX_drop PTE_IDX_take frame_bits
  by (rule bit_eqI; auto simp: bit_simps dest: bit_u32_less)+

lemma push_2_inj:
  "push_bit 2 (PTE_IDX a) = push_bit 2 (PTE_IDX b) \<longleftrightarrow> PTE_IDX a = PTE_IDX b"
  "push_bit 2 (PDE_IDX a) = push_bit 2 (PDE_IDX b) \<longleftrightarrow> PDE_IDX a = PDE_IDX b"
proof -
  have "drop_bit 2 (push_bit 2 (PTE_IDX v)) = PTE_IDX v" "drop_bit 2 (push_bit 2 (PDE_IDX v)) = PDE_IDX v" for v
    unfolding PDE_IDX_drop PTE_IDX_take
    by (rule bit_eqI; auto simp: bit_simps dest: bit_u32_less)+
  then show "push_bit 2 (PTE_IDX a) = push_bit 2 (PTE_IDX b) \<longleftrightarrow> PTE_IDX a = PTE_IDX b"
    "push_bit 2 (PDE_IDX a) = push_bit 2 (PDE_IDX b) \<longleftrightarrow> PDE_IDX a = PDE_IDX b"
    by metis+
qed

lemma pte_in_inj: "pte_in (frame e) a = pte_in (frame e) b \<longleftrightarrow> PTE_IDX a = PTE_IDX b"
  unfolding pte_in_def by (metis low_part(1) push_2_inj(1))

lemma pde_at_inj: "pde_at s a = pde_at s b \<longleftrightarrow> PDE_IDX a = PDE_IDX b"
  unfolding pde_at_def by (metis low_part(2) push_2_inj(2))

text \<open>A page is given by its two indices.\<close>

lemma same_page: "frame a = frame b \<longleftrightarrow> PDE_IDX a = PDE_IDX b \<and> PTE_IDX a = PTE_IDX b"
proof
  assume f: "frame a = frame b"
  have "PDE_IDX v = PDE_IDX (frame v)" "PTE_IDX v = PTE_IDX (frame v)" for v
    unfolding PDE_IDX_drop PTE_IDX_take frame_bits
    by (rule bit_eqI; auto simp: bit_simps dest: bit_u32_less)+
  with f show "PDE_IDX a = PDE_IDX b \<and> PTE_IDX a = PTE_IDX b" by metis
next
  have "frame v = push_bit 22 (PDE_IDX v) OR push_bit 12 (PTE_IDX v)" for v
    unfolding PDE_IDX_drop PTE_IDX_take frame_bits
  proof (rule bit_eqI)
    fix n
    show "bit (v AND NOT (mask 12)) n = bit (push_bit 22 (drop_bit 22 v) OR push_bit 12 (take_bit 10 (drop_bit 12 v))) n"
      by (cases "n < 22") (auto simp: bit_simps dest: bit_u32_less)
  qed
  then show "PDE_IDX a = PDE_IDX b \<and> PTE_IDX a = PTE_IDX b \<Longrightarrow> frame a = frame b" by metis
qed

lemma addr_v2p_agrees: "self_mapped s \<Longrightarrow> mmu s va = Some pa \<Longrightarrow> addr_v2p s va = Some pa"
  using frame_plus_offset
  by (auto simp: addr_v2p_def vread_def mmu_def [of s va] mmu_pte_ptr Let_def mask_consts(3)
      frame_def [symmetric] split: if_splits)

subsection \<open>Writing one table entry\<close>

text \<open>
  \<open>table_private s va\<close>: the table that serves \<open>va\<close> is neither the directory itself nor shared
  with another directory entry.
\<close>

definition table_private :: "'a machine_scheme \<Rightarrow> u32 \<Rightarrow> bool" where
  "table_private s va \<longleftrightarrow>
     (let f = frame (phys s (pde_at s va)) in f \<noteq> frame (cr3 s) \<and>
        (\<forall>va'. present (phys s (pde_at s va')) \<and> frame (phys s (pde_at s va')) = f
                \<longrightarrow> PDE_IDX va' = PDE_IDX va))"

definition set_pte :: "u32 \<Rightarrow> u32 \<Rightarrow> 'a machine_scheme \<Rightarrow> 'a machine_scheme" where
  "set_pte va v s =
     s\<lparr>phys := (phys s)(pte_in (frame (phys s (pde_at s va))) va := v)\<rparr>"

lemma pde_at_cong [simp]:
  "pde_at (s\<lparr>phys := m\<rparr>) va = pde_at s va" "pde_at (set_pte v e s) va = pde_at s va"
  by (simp_all add: pde_at_def set_pte_def)

lemma set_pte_fields [simp]:
  "cr3 (set_pte va v s) = cr3 s" "eflags (set_pte va v s) = eflags s"
  "machine.more (set_pte va v s) = machine.more s" "esp (set_pte va v s) = esp s" "esp0 (set_pte va v s) = esp0 s"
  by (simp_all add: set_pte_def)

text \<open>Writing into a table that is not the directory leaves the directory alone.\<close>

lemma set_pte_dir:
  assumes "frame (phys s (pde_at s va)) \<noteq> frame (cr3 s)"
  shows "phys (set_pte va v s) (pde_at s va') = phys s (pde_at s va')"
proof -
  have "pde_at s va' \<noteq> pte_in (frame (phys s (pde_at s va))) va"
    using assms by (metis frame_pte_in frame_pde_at)
  then show ?thesis by (simp add: set_pte_def)
qed

lemma set_pte_pde: "table_private s va \<Longrightarrow> phys (set_pte va v s) (pde_at s va') = phys s (pde_at s va')"
  by (rule set_pte_dir) (simp add: table_private_def Let_def)

lemma self_entry_at: "frame (cr3 s) OR push_bit 2 (mask 10) = pde_at s (-1)"
proof -
  have "PDE_IDX (-1) = mask 10"
    unfolding PDE_IDX_drop by (rule bit_eqI) (auto simp: bit_simps)
  then show ?thesis by (simp add: pde_at_def)
qed

lemma set_pte_dir_self: "frame (phys s (pde_at s va)) \<noteq> frame (cr3 s) \<Longrightarrow> self_mapped (set_pte va v s) = self_mapped s"
  using set_pte_dir [of s va v "-1"]
  by (simp add: self_mapped_def self_entry_at [symmetric] Let_def)

lemma set_pte_self_mapped: "table_private s va \<Longrightarrow> self_mapped (set_pte va v s) = self_mapped s"
  by (rule set_pte_dir_self) (simp add: table_private_def Let_def)

text \<open>
  \<open>same_entry s va a\<close>: the processor finds the translation of \<open>a\<close> in the table entry of \<open>va\<close>.  These are the addresses
  that an assignment to the entry concerns; with a private table they are those of one page.
\<close>

definition same_entry :: "'a machine_scheme \<Rightarrow> u32 \<Rightarrow> u32 \<Rightarrow> bool" where
  "same_entry s va a \<longleftrightarrow> present (phys s (pde_at s a)) \<and>
     frame (phys s (pde_at s a)) = frame (phys s (pde_at s va)) \<and> PTE_IDX a = PTE_IDX va"

lemma same_entry_slot:
  assumes "present (phys s (pde_at s a))"
  shows "pte_in (frame (phys s (pde_at s a))) a = pte_in (frame (phys s (pde_at s va))) va \<longleftrightarrow> same_entry s va a"
proof
  let ?f = "frame (phys s (pde_at s va))" and ?f' = "frame (phys s (pde_at s a))"
  assume eq: "pte_in ?f' a = pte_in ?f va"
  then have "?f' = ?f" using frame_pte_in by metis
  with eq assms show "same_entry s va a" by (simp add: same_entry_def pte_in_inj)
qed (simp add: same_entry_def pte_in_inj)

lemma set_pte_mmu_entry:
  assumes "frame (phys s (pde_at s va)) \<noteq> frame (cr3 s)"
  shows "mmu (set_pte va v s) a =
           (if same_entry s va a then (if present v then Some (frame v OR (a AND mask 12)) else None) else mmu s a)"
proof (cases "present (phys s (pde_at s a))")
  case True
  then have "phys (set_pte va v s) (pte_in (frame (phys s (pde_at s a))) a) =
      (if same_entry s va a then v else phys s (pte_in (frame (phys s (pde_at s a))) a))"
    using same_entry_slot [OF True, of va] by (simp add: set_pte_def)
  with True set_pte_dir [OF assms, of v a] show ?thesis by (simp add: mmu_def Let_def mask_consts(3))
next
  case False
  with set_pte_dir [OF assms, of v a] show ?thesis by (simp add: mmu_def Let_def same_entry_def)
qed

lemma same_entry_page: "present (phys s (pde_at s va)) \<Longrightarrow> frame a = frame va \<Longrightarrow> same_entry s va a"
  by (metis same_entry_def same_page pde_at_inj)

lemma private_entry:
  assumes "table_private s va" "present (phys s (pde_at s va))"
  shows "same_entry s va a \<longleftrightarrow> frame a = frame va"
proof
  assume "same_entry s va a"
  then have "PDE_IDX a = PDE_IDX va" "PTE_IDX a = PTE_IDX va"
    using assms(1) unfolding same_entry_def table_private_def Let_def by blast+
  then show "frame a = frame va" by (simp add: same_page)
qed (rule same_entry_page [OF assms(2)])

lemma set_pte_mmu:
  assumes "table_private s va" "present (phys s (pde_at s va))"
  shows "mmu (set_pte va v s) va' =
           (if frame va' = frame va then (if present v then Some (frame v OR (va' AND mask 12)) else None)
            else mmu s va')"
  using set_pte_mmu_entry [of s va v va'] private_entry [OF assms] assms(1) by (simp add: table_private_def Let_def)

text \<open>
  \<open>kernel_table s va\<close>: the table of the kernel address \<open>va\<close> is not the directory, and no other entry of the kernel's quarter of the
  directory names it.  An entry of the lower three quarters may: the boot loader leaves one.
\<close>

definition kernel_table :: "'a machine_scheme \<Rightarrow> u32 \<Rightarrow> bool" where
  "kernel_table s va \<longleftrightarrow> 768 \<le> PDE_IDX va \<and> frame (phys s (pde_at s va)) \<noteq> frame (cr3 s) \<and>
     (\<forall>a. 768 \<le> PDE_IDX a \<and> present (phys s (pde_at s a)) \<and>
        frame (phys s (pde_at s a)) = frame (phys s (pde_at s va)) \<longrightarrow> PDE_IDX a = PDE_IDX va)"

definition low_twin :: "'a machine_scheme \<Rightarrow> u32 \<Rightarrow> u32 \<Rightarrow> bool" where
  "low_twin s va a \<longleftrightarrow> PDE_IDX a < 768 \<and> same_entry s va a"

lemma kernel_entry:
  assumes "kernel_table s va" "present (phys s (pde_at s va))"
  shows "same_entry s va a \<longleftrightarrow> frame a = frame va \<or> low_twin s va a"
proof
  assume e: "same_entry s va a"
  show "frame a = frame va \<or> low_twin s va a"
  proof (cases "768 \<le> PDE_IDX a")
    case True
    then have "PDE_IDX a = PDE_IDX va" "PTE_IDX a = PTE_IDX va"
      using assms(1) e unfolding same_entry_def kernel_table_def by blast+
    then show ?thesis by (simp add: same_page)
  next
    case False
    then show ?thesis using e by (simp add: low_twin_def not_le)
  qed
qed (use same_entry_page [OF assms(2)] in \<open>auto simp: low_twin_def\<close>)

lemma set_pte_kernel_mmu:
  assumes "kernel_table s va" "present (phys s (pde_at s va))"
  shows "mmu (set_pte va v s) a =
           (if frame a = frame va \<or> low_twin s va a then (if present v then Some (frame v OR (a AND mask 12)) else None)
            else mmu s a)"
  using set_pte_mmu_entry [of s va v a] kernel_entry [OF assms] assms(1) by (simp add: kernel_table_def)

lemma vwrite_pte:
  "self_mapped s \<Longrightarrow> present (phys s (pde_at s va)) \<Longrightarrow> vwrite (pte_ptr va) v s = Some (set_pte va v s)"
  by (simp add: vwrite_def mmu_pte_ptr set_pte_def)

lemma vread_pte:
  "self_mapped s \<Longrightarrow> present (phys s (pde_at s va)) \<Longrightarrow>
     vread s (pte_ptr va) = Some (phys s (pte_in (frame (phys s (pde_at s va))) va))"
  by (simp add: vread_def mmu_pte_ptr)

subsection \<open>Properties\<close>

text \<open>
  Property C29: through the recursive directory entry, \<open>pde_ptr\<close> and \<open>pte_ptr\<close> show exactly the
  directory and table entries the processor uses for an address, an absent table
  faults, and \<open>addr_v2p\<close> returns the translation of every mapped address.
\<close>

theorem page_table_window:
  assumes "self_mapped s"
  shows "vread s (pde_ptr va) = Some (phys s (pde_at s va)) \<and>
         vread s (pte_ptr va) =
           (if present (phys s (pde_at s va))
            then Some (phys s (pte_in (frame (phys s (pde_at s va))) va)) else None) \<and>
         (\<forall>pa. mmu s va = Some pa \<longrightarrow> addr_v2p s va = Some pa)"
  using assms mmu_pde_ptr [OF assms] vread_pte [OF assms] mmu_pte_ptr_absent [OF assms]
    addr_v2p_agrees [OF assms] by (simp add: vread_def)

definition demo_machine :: machine where
  "demo_machine =
     \<lparr>eflags = 0,
      phys = (\<lambda>_. 0)(0x100ffc := 0x100007, 0x100c00 := 0x101007, 0x101400 := 0x200007),
      cr3 = 0x100000, esp = 0xc009f000, esp0 = 0\<rparr>"

lemma demo_machine_self: "self_mapped demo_machine"
  by (simp add: self_mapped_def demo_machine_def frame_def present_def Let_def mask_eq_exp_minus_1)

lemma demo_machine_pde: "pde_at demo_machine 0xc0100000 = 0x100c00"
  by (simp add: pde_at_def demo_machine_def frame_def PDE_IDX_def)

lemma demo_machine_map: "mmu demo_machine 0xc0100abc = Some 0x200abc"
  by (simp add: mmu_def pde_at_def pte_in_def demo_machine_def frame_def present_def PDE_IDX_def
      PTE_IDX_def Let_def)

theorem page_table_window_witness:
  "vread demo_machine (pte_ptr 0xc0100abc) = Some 0x200007 \<and> addr_v2p demo_machine 0xc0100abc = Some 0x200abc"
proof -
  have "PDE_IDX 0xc0100abc = PDE_IDX 0xc0100000" by (simp add: PDE_IDX_def)
  then have "pde_at demo_machine 0xc0100abc = 0x100c00" using demo_machine_pde by (simp add: pde_at_def)
  then show ?thesis
    using page_table_window [OF demo_machine_self, of "0xc0100abc"] demo_machine_map
    by (simp add: demo_machine_def present_def frame_def pte_in_def PTE_IDX_def)
qed

text \<open>\<open>page_table_pte_remove\<close> unmaps exactly the page of its argument.\<close>

lemma pte_remove_unmaps_one_page:
  assumes "self_mapped s" "table_private s va" "mmu s va = Some pa"
  shows "\<exists>s'. page_table_pte_remove va s = Some s' \<and> self_mapped s' \<and>
           (\<forall>va'. mmu s' va' = (if frame va' = frame va then None else mmu s va'))"
proof -
  have p: "present (phys s (pde_at s va))" using assms(3) by (auto simp: mmu_def Let_def split: if_splits)
  let ?e = "phys s (pte_in (frame (phys s (pde_at s va))) va) AND NOT PG_P_1"
  have "\<not> present ?e" by (simp add: present_bit PG_P_1_def bit_simps)
  then show ?thesis
    using vread_pte [OF assms(1) p] vwrite_pte [OF assms(1) p, of ?e] set_pte_mmu [OF assms(2) p, of ?e]
      set_pte_self_mapped [OF assms(2), of ?e] assms(1)
    by (auto simp: page_table_pte_remove_def)
qed

lemma demo_machine_private: "table_private demo_machine 0xc0100000"
proof -
  have idx: "PDE_IDX va' = PDE_IDX 0xc0100000"
    if "frame (phys demo_machine (pde_at demo_machine va')) = 0x101000" for va'
  proof -
    have "pde_at demo_machine va' \<noteq> 0x101400"
      using frame_pde_at [of demo_machine va'] by (auto simp: demo_machine_def frame_def)
    with that have "pde_at demo_machine va' = 0x100c00"
      by (auto simp: demo_machine_def frame_def split: if_splits)
    then show ?thesis using pde_at_inj [of demo_machine va' "0xc0100000"] demo_machine_pde by simp
  qed
  have f: "frame (phys demo_machine 0x100c00) = 0x101000" by (simp add: demo_machine_def frame_def)
  have c: "frame (cr3 demo_machine) = 0x100000" by (simp add: demo_machine_def frame_def)
  show ?thesis unfolding table_private_def Let_def demo_machine_pde f c
    using idx by (intro conjI allI impI) (simp, blast)
qed

lemma pte_remove_unmaps_one_page_demo:
  "\<exists>s'. page_table_pte_remove 0xc0100000 demo_machine = Some s' \<and> mmu s' 0xc0100abc = None"
proof -
  have "mmu demo_machine 0xc0100000 = Some 0x200000"
    by (simp add: mmu_def pde_at_def pte_in_def demo_machine_def frame_def present_def PDE_IDX_def
        PTE_IDX_def Let_def)
  moreover have "frame 0xc0100abc = frame 0xc0100000" by (simp add: frame_def)
  ultimately show ?thesis
    using pte_remove_unmaps_one_page [OF demo_machine_self demo_machine_private, of "0x200000"] by metis
qed

end
