(* ===== verification/Bitmap.thy ===== *)
theory Bitmap
  imports Prelude
begin

text \<open>
  The bitmap of lib/kernel/bitmap.c, the allocator under physical frames,
  virtual pages, pids, inodes and disk blocks.  The bytes are a function of the
  byte index, because \<open>bitmap_scan\<close> reads one byte past the end of the map before
  it compares the index with the length; what that byte holds is up to the
  memory behind the map.
\<close>

record bitmap =
  btmp_bytes_len :: u32
  bits :: "u32 \<Rightarrow> u8"

definition BITMAP_MASK :: u8 where
  "BITMAP_MASK = 1"

definition bitmap_init :: "bitmap \<Rightarrow> bitmap" where
  "bitmap_init btmp = btmp\<lparr>bits := (\<lambda>i. if i < btmp_bytes_len btmp then 0 else bits btmp i)\<rparr>"

definition bitmap_scan_test :: "bitmap \<Rightarrow> u32 \<Rightarrow> u8" where
  "bitmap_scan_test btmp bit_idx =
     (let byte_idx = bit_idx div 8;
          bit_odd = bit_idx mod 8
      in bits btmp byte_idx AND push_bit (unat bit_odd) BITMAP_MASK)"

text \<open>The first inner loop: skip the bits that are set.\<close>

partial_function (option) scan_ones :: "bitmap \<Rightarrow> u32 \<Rightarrow> u32 option" where
  "scan_ones bitmap area_start =
     (if bitmap_scan_test bitmap area_start \<noteq> 0 \<and> area_start div 8 < btmp_bytes_len bitmap
      then scan_ones bitmap (area_start + 1) else Some area_start)"

text \<open>
  The second inner loop: extend the run of clear bits.  \<open>None\<close> is the
  \<open>return -1\<close> at the end of the map, \<open>Some area_size\<close> the exit by \<open>break\<close>
  or by reaching \<open>cnt\<close>.
\<close>

function scan_run :: "bitmap \<Rightarrow> u32 \<Rightarrow> u32 \<Rightarrow> u32 \<Rightarrow> u32 option" where
  "scan_run bitmap area_start cnt area_size =
     (if area_size < cnt then
        if (area_start + area_size) div 8 < btmp_bytes_len bitmap then
          if bitmap_scan_test bitmap (area_start + area_size) = 0
          then scan_run bitmap area_start cnt (area_size + 1)
          else Some area_size
        else None
      else Some area_size)"
  by pat_completeness auto
termination
proof (relation "measure (\<lambda>(b, s, cnt, sz). unat cnt - unat sz)", simp, goal_cases)
  case (1 b s cnt sz)
  then have "unat sz < unat cnt" by (simp add: word_less_nat_alt)
  moreover have "unat cnt < 4294967296" by simp
  ultimately have "unat (sz + 1) = Suc (unat sz)" by (intro unat_Suc_small) linarith
  with \<open>unat sz < unat cnt\<close> show ?case by simp
qed

declare scan_run.simps [simp del]

partial_function (option) bitmap_scan_from :: "bitmap \<Rightarrow> u32 \<Rightarrow> u32 \<Rightarrow> u32 option" where
  "bitmap_scan_from bitmap cnt area_start =
     Option.bind (scan_ones bitmap area_start) (\<lambda>area_start.
       if area_start div 8 \<ge> btmp_bytes_len bitmap then Some (-1)
       else case scan_run bitmap area_start cnt 1 of
              None \<Rightarrow> Some (-1)
            | Some area_size \<Rightarrow>
                if area_size = cnt then Some area_start
                else bitmap_scan_from bitmap cnt (area_start + (area_size + 1)))"

definition bitmap_scan :: "bitmap \<Rightarrow> u32 \<Rightarrow> u32 option" where
  "bitmap_scan bitmap cnt = bitmap_scan_from bitmap cnt 0"

definition bitmap_set :: "bitmap \<Rightarrow> u32 \<Rightarrow> u8 \<Rightarrow> bitmap option" where
  "bitmap_set btmp bit_idx v =
     do {
       ASSERT (v = 0 \<or> v = 1);
       let byte_idx = bit_idx div 8;
       let bit_odd = unat (bit_idx mod 8);
       Some (if v \<noteq> 0
             then btmp\<lparr>bits := (bits btmp)(byte_idx := bits btmp byte_idx OR push_bit bit_odd BITMAP_MASK)\<rparr>
             else btmp\<lparr>bits := (bits btmp)(byte_idx := bits btmp byte_idx AND NOT (push_bit bit_odd BITMAP_MASK))\<rparr>)
     }"

subsection \<open>Single bits\<close>

text \<open>
  The abstract view: a bitmap is a predicate on bit numbers below \<open>btmp_bits\<close>.
  \<open>btmp_ok\<close> bounds the map so that bit numbers fit a non-negative \<open>int\<close>, as every
  caller's use of the result \<open>-1\<close> requires.
\<close>

definition bit_at :: "bitmap \<Rightarrow> nat \<Rightarrow> bool" where
  "bit_at b i \<longleftrightarrow> bit (bits b (of_nat (i div 8))) (i mod 8)"

definition btmp_bits :: "bitmap \<Rightarrow> nat" where
  "btmp_bits b = 8 * unat (btmp_bytes_len b)"

definition btmp_ok :: "bitmap \<Rightarrow> bool" where
  "btmp_ok b \<longleftrightarrow> btmp_bits b < 2147483648"

lemma scan_test_iff: "bitmap_scan_test b i \<noteq> 0 \<longleftrightarrow> bit_at b (unat i)"
  by (simp add: of_nat_unat_div bitmap_scan_test_def bit_at_def BITMAP_MASK_def
      and_exp_eq_0_iff_not_bit Let_def)

lemma scan_test_eq_0: "bitmap_scan_test b i = 0 \<longleftrightarrow> \<not> bit_at b (unat i)"
  using scan_test_iff by blast

lemma in_map_iff: "i div 8 < btmp_bytes_len b \<longleftrightarrow> unat i < btmp_bits b"
  by (simp add: word_less_nat_alt btmp_bits_def) linarith

lemma past_map_iff: "btmp_bytes_len b \<le> i div 8 \<longleftrightarrow> btmp_bits b \<le> unat i"
  using in_map_iff [of i b] by (simp add: linorder_not_less [symmetric])

lemma bitmap_init_clear: "i < btmp_bits b \<Longrightarrow> \<not> bit_at (bitmap_init b) i"
proof -
  assume i: "i < btmp_bits b"
  have len: "unat (btmp_bytes_len b) < 4294967296" by simp
  from i have "i div 8 < unat (btmp_bytes_len b)" by (simp add: btmp_bits_def)
  moreover from this len have "unat (of_nat (i div 8) :: u32) = i div 8"
    by (intro unat_of_nat_small) linarith
  ultimately have "(of_nat (i div 8) :: u32) < btmp_bytes_len b"
    by (simp add: word_less_nat_alt)
  then show ?thesis by (simp add: bit_at_def bitmap_init_def)
qed

lemma bitmap_init_len [simp]: "btmp_bytes_len (bitmap_init b) = btmp_bytes_len b"
  by (simp add: bitmap_init_def)

text \<open>\<open>bitmap_set\<close> never fails for the two values its callers pass, and changes one bit.\<close>

definition set_bit_at :: "bitmap \<Rightarrow> u32 \<Rightarrow> bool \<Rightarrow> bitmap" where
  "set_bit_at b i v = the (bitmap_set b i (if v then 1 else 0))"

lemma bitmap_set_1: "bitmap_set b i 1 = Some (set_bit_at b i True)"
  by (simp add: bitmap_set_def set_bit_at_def Let_def)

lemma bitmap_set_0: "bitmap_set b i 0 = Some (set_bit_at b i False)"
  by (simp add: bitmap_set_def set_bit_at_def Let_def)

lemma bitmap_set_bad: "v \<noteq> 0 \<Longrightarrow> v \<noteq> 1 \<Longrightarrow> bitmap_set b i v = None"
  by (simp add: bitmap_set_def)

lemma set_bit_at_len [simp]: "btmp_bytes_len (set_bit_at b i v) = btmp_bytes_len b"
  by (simp add: set_bit_at_def bitmap_set_def Let_def)

lemma set_bit_at_bits [simp]: "btmp_bits (set_bit_at b i v) = btmp_bits b"
  by (simp add: btmp_bits_def)

lemma set_bit_at_ok [simp]: "btmp_ok (set_bit_at b i v) = btmp_ok b"
  by (simp add: btmp_ok_def)

lemma set_bit_at_byte:
  "bits (set_bit_at b i v) =
     (bits b)(i div 8 := (if v then set_bit (unat i mod 8) (bits b (i div 8))
                          else unset_bit (unat i mod 8) (bits b (i div 8))))"
  by (simp add: set_bit_at_def bitmap_set_def Let_def BITMAP_MASK_def set_bit_eq_or unset_bit_eq_and_not)

lemma bit_at_set:
  assumes "j < 4294967296"
  shows "bit_at (set_bit_at b i v) j = (if j = unat i then v else bit_at b j)"
proof (cases "j div 8 = unat i div 8")
  case True
  then have byte: "of_nat (j div 8) = i div 8"
    by (simp add: of_nat_unat_div)
  from True have "j = unat i \<longleftrightarrow> j mod 8 = unat i mod 8"
    by (metis div_mult_mod_eq)
  with byte show ?thesis
    by (auto simp: bit_at_def set_bit_at_byte bit_set_bit_iff bit_unset_bit_iff)
next
  case False
  from assms have "unat (of_nat (j div 8) :: u32) = j div 8"
    by (intro unat_of_nat_small) simp
  with False have "(of_nat (j div 8) :: u32) \<noteq> i div 8"
    by (metis unat_div_num)
  with False show ?thesis by (auto simp: bit_at_def set_bit_at_byte)
qed

lemma btmp_bits_le: "btmp_bits b < 34359738368"
proof -
  have "unat (btmp_bytes_len b) < 4294967296" by simp
  then show ?thesis by (simp add: btmp_bits_def)
qed

subsection \<open>First fit\<close>

text \<open>
  What a caller of \<open>bitmap_scan\<close> wants: \<open>fits b cnt k\<close> says that the \<open>cnt\<close> bits
  from \<open>k\<close> on lie inside the map and are clear.
\<close>

definition fits :: "bitmap \<Rightarrow> nat \<Rightarrow> nat \<Rightarrow> bool" where
  "fits b cnt k \<longleftrightarrow> k + cnt \<le> btmp_bits b \<and> (\<forall>j < cnt. \<not> bit_at b (k + j))"

lemma fits_1: "fits b (Suc 0) k \<longleftrightarrow> k < btmp_bits b \<and> \<not> bit_at b k"
  by (auto simp: fits_def)

text \<open>The least index from \<open>i\<close> on that is clear or past the end of the map.\<close>

lemma scan_ones_correct:
  assumes "btmp_ok b" and "unat i \<le> btmp_bits b + 1"
  shows "\<exists>k. scan_ones b i = Some (of_nat k) \<and> unat i \<le> k \<and> k \<le> max (unat i) (btmp_bits b)
            \<and> (\<forall>j. unat i \<le> j \<and> j < k \<longrightarrow> bit_at b j) \<and> (k < btmp_bits b \<longrightarrow> \<not> bit_at b k)"
  using assms(2)
proof (induction "btmp_bits b - unat i" arbitrary: i rule: less_induct)
  case less
  show ?case
  proof (cases "bit_at b (unat i) \<and> unat i < btmp_bits b")
    case True
    have i1: "unat (i + 1) = Suc (unat i)"
      using True assms(1) by (intro unat_Suc_small) (simp add: btmp_ok_def)
    from True have eq: "scan_ones b i = scan_ones b (i + 1)"
      by (subst scan_ones.simps) (simp add: scan_test_iff in_map_iff)
    obtain k where k: "scan_ones b (i + 1) = Some (of_nat k)" "Suc (unat i) \<le> k"
      "k \<le> max (Suc (unat i)) (btmp_bits b)"
      "\<forall>j. Suc (unat i) \<le> j \<and> j < k \<longrightarrow> bit_at b j" "k < btmp_bits b \<longrightarrow> \<not> bit_at b k"
      using less.hyps [of "i + 1"] True i1 by (fastforce simp: max_def)
    have "\<forall>j. unat i \<le> j \<and> j < k \<longrightarrow> bit_at b j"
      using k(4) True by (metis Suc_leI le_neq_implies_less)
    with k True show ?thesis by (intro exI [of _ k]) (auto simp: eq)
  next
    case False
    then have "scan_ones b i = Some i"
      by (subst scan_ones.simps) (auto simp: scan_test_iff in_map_iff)
    with False show ?thesis by (intro exI [of _ "unat i"]) auto
  qed
qed

text \<open>The run from \<open>s\<close>: it stops at the first set bit, at \<open>cnt\<close>, or at the end of the map.\<close>

lemma scan_run_correct:
  assumes "btmp_ok b" and "unat s < btmp_bits b" and "unat s + unat sz \<le> btmp_bits b"
    and "\<forall>j < unat sz. \<not> bit_at b (unat s + j)" and "unat sz \<le> unat cnt"
  shows "case scan_run b s cnt sz of
           None \<Rightarrow> btmp_bits b < unat s + unat cnt
         | Some r \<Rightarrow> unat r \<le> unat cnt \<and> unat sz \<le> unat r \<and> unat s + unat r \<le> btmp_bits b
             \<and> (\<forall>j < unat r. \<not> bit_at b (unat s + j))
             \<and> (r \<noteq> cnt \<longrightarrow> unat s + unat r < btmp_bits b \<and> bit_at b (unat s + unat r))"
  using assms
proof (induction b s cnt sz rule: scan_run.induct)
  case (1 b s cnt sz)
  note prems = "1.prems"
  have sum: "unat (s + sz) = unat s + unat sz"
    using prems(1,3) by (intro unat_plus_small) (simp add: btmp_ok_def)
  show ?case
  proof (cases "sz < cnt")
    case False
    with prems(5) have "sz = cnt" by (simp add: word_less_nat_alt word_unat_eq_iff)
    with prems show ?thesis by (simp add: scan_run.simps [of b s cnt cnt])
  next
    case True
    then have lt: "unat sz < unat cnt" by (simp add: word_less_nat_alt)
    show ?thesis
    proof (cases "unat s + unat sz < btmp_bits b \<and> \<not> bit_at b (unat s + unat sz)")
      case go: True
      have sz1: "unat (sz + 1) = Suc (unat sz)"
        using go prems(1) by (intro unat_Suc_small) (simp add: btmp_ok_def)
      have "scan_run b s cnt sz = scan_run b s cnt (sz + 1)"
        using True go by (simp add: scan_run.simps [of b s cnt sz] in_map_iff scan_test_eq_0 sum)
      moreover have "\<forall>j < unat (sz + 1). \<not> bit_at b (unat s + j)"
        using prems(4) go sz1 by (auto simp: less_Suc_eq)
      ultimately show ?thesis
        using "1.IH" [OF True] prems(1,2) go lt sz1
        by (auto simp: in_map_iff scan_test_eq_0 sum split: option.splits)
    next
      case stop: False
      with True lt prems show ?thesis
        by (auto simp: scan_run.simps [of b s cnt sz] in_map_iff scan_test_eq_0 sum)
    qed
  qed
qed

text \<open>
  The outer loop finds the first run that fits, from \<open>i\<close> on.  A run that ends
  at a set bit rules out every start up to that bit, so skipping
  \<open>area_size + 1\<close> bits loses nothing.
\<close>

lemma run_excludes:
  assumes "bit_at b (s + r)" and "s \<le> k" and "k \<le> s + r" and "r < cnt"
  shows "\<not> fits b cnt k"
proof
  assume "fits b cnt k"
  moreover have "s + r - k < cnt" and "k + (s + r - k) = s + r" using assms by auto
  ultimately show False using assms(1) by (metis fits_def)
qed

lemma ones_exclude: "bit_at b k \<Longrightarrow> 0 < cnt \<Longrightarrow> \<not> fits b cnt k"
  by (auto simp: fits_def intro!: exI [of _ 0])

lemma scan_run_from_one:
  assumes "btmp_ok b" and "0 < unat cnt" and "k < btmp_bits b" and "\<not> bit_at b k"
    and k: "unat (s :: u32) = k"
  shows "case scan_run b s cnt 1 of
           None \<Rightarrow> btmp_bits b < k + unat cnt
         | Some r \<Rightarrow> if r = cnt then fits b (unat cnt) k
                    else unat r < unat cnt \<and> k + unat r < btmp_bits b \<and> bit_at b (k + unat r)"
proof (cases "scan_run b s cnt 1")
  case None
  with scan_run_correct [of b s 1 cnt] assms show ?thesis by simp
next
  case (Some r)
  with scan_run_correct [of b s 1 cnt] assms have
    "unat r \<le> unat cnt" "k + unat r \<le> btmp_bits b" "\<forall>j < unat r. \<not> bit_at b (k + j)"
    "r \<noteq> cnt \<longrightarrow> k + unat r < btmp_bits b \<and> bit_at b (k + unat r)"
    by simp_all
  moreover have "r \<noteq> cnt \<Longrightarrow> unat r \<noteq> unat cnt" by (simp add: word_unat_eq_iff)
  ultimately show ?thesis using Some by (auto simp: fits_def)
qed

text \<open>One round of the outer loop: it stops with the answer, or moves on past starts that do not fit.\<close>

lemma scan_from_round:
  assumes ok: "btmp_ok b" and cnt: "0 < unat cnt" and i: "unat i \<le> btmp_bits b + 1"
  obtains
    (absent) "bitmap_scan_from b cnt i = Some (-1)" "\<forall>j \<ge> unat i. \<not> fits b (unat cnt) j"
  | (found) k where "bitmap_scan_from b cnt i = Some (of_nat k)" "unat i \<le> k" "fits b (unat cnt) k"
      "\<forall>j. unat i \<le> j \<and> j < k \<longrightarrow> \<not> fits b (unat cnt) j"
  | (skip) i' where "bitmap_scan_from b cnt i = bitmap_scan_from b cnt i'" "unat i < unat i'"
      "unat i' \<le> btmp_bits b" "\<forall>j. unat i \<le> j \<and> j < unat i' \<longrightarrow> \<not> fits b (unat cnt) j"
proof -
  obtain k where k: "scan_ones b i = Some (of_nat k)" "unat i \<le> k" "k \<le> max (unat i) (btmp_bits b)"
    "\<forall>j. unat i \<le> j \<and> j < k \<longrightarrow> bit_at b j" "k < btmp_bits b \<longrightarrow> \<not> bit_at b k"
    using scan_ones_correct [OF ok i] by blast
  have uk: "unat (of_nat k :: u32) = k"
    using k(3) i ok by (intro unat_of_nat_small) (auto simp: btmp_ok_def)
  have before: "\<not> fits b (unat cnt) j" if "unat i \<le> j" "j < k" for j
    using that k(4) cnt ones_exclude by blast
  have eq: "bitmap_scan_from b cnt i =
     (if btmp_bits b \<le> k then Some (-1)
      else case scan_run b (of_nat k) cnt 1 of None \<Rightarrow> Some (-1)
           | Some r \<Rightarrow> if r = cnt then Some (of_nat k)
                      else bitmap_scan_from b cnt (of_nat k + (r + 1)))"
    by (subst bitmap_scan_from.simps) (simp add: k(1) past_map_iff uk)
  show ?thesis
  proof (cases "k < btmp_bits b")
    case False
    moreover from False have "\<not> fits b (unat cnt) j" if "unat i \<le> j" for j
      using that before [of j] cnt by (cases "j < k") (auto simp: fits_def)
    ultimately show ?thesis using eq by (intro absent) auto
  next
    case True
    with k(5) have run: "case scan_run b (of_nat k) cnt 1 of
           None \<Rightarrow> btmp_bits b < k + unat cnt
         | Some r \<Rightarrow> if r = cnt then fits b (unat cnt) k
                    else unat r < unat cnt \<and> k + unat r < btmp_bits b \<and> bit_at b (k + unat r)"
      by (intro scan_run_from_one ok cnt uk) auto
    consider (n) "scan_run b (of_nat k) cnt 1 = None" | (c) "scan_run b (of_nat k) cnt 1 = Some cnt"
      | (r) r where "scan_run b (of_nat k) cnt 1 = Some r" "r \<noteq> cnt"
      by (cases "scan_run b (of_nat k) cnt 1") auto
    then show ?thesis
    proof cases
      case n
      with run have "\<not> fits b (unat cnt) j" if "unat i \<le> j" for j
        using that before [of j] by (cases "j < k") (auto simp: fits_def)
      with n eq True show ?thesis by (intro absent) auto
    next
      case c
      with run eq True k(2) before show ?thesis by (intro found [of k]) auto
    next
      case r
      with run have lt: "unat r < unat cnt" and inb: "k + unat r < btmp_bits b"
        and one: "bit_at b (k + unat r)" by auto
      have "unat (r + 1) = Suc (unat r)"
        using inb ok by (intro unat_Suc_small) (simp add: btmp_ok_def)
      then have nxt: "unat (of_nat k + (r + 1)) = k + Suc (unat r)"
        using inb ok uk by (subst unat_plus_small) (simp_all add: btmp_ok_def)
      have "\<not> fits b (unat cnt) j" if "unat i \<le> j" "j < k + Suc (unat r)" for j
        using that before [of j] run_excludes [OF one _ _ lt, of j] by linarith
      with r eq True k(2) nxt inb show ?thesis by (intro skip [of "of_nat k + (r + 1)"]) auto
    qed
  qed
qed

lemma scan_from_correct:
  assumes ok: "btmp_ok b" and cnt: "0 < unat cnt" and "unat i \<le> btmp_bits b + 1"
  shows "(\<exists>k. bitmap_scan_from b cnt i = Some (of_nat k) \<and> unat i \<le> k \<and> fits b (unat cnt) k
              \<and> (\<forall>j. unat i \<le> j \<and> j < k \<longrightarrow> \<not> fits b (unat cnt) j))
       \<or> (bitmap_scan_from b cnt i = Some (-1) \<and> (\<forall>j \<ge> unat i. \<not> fits b (unat cnt) j))"
  using assms(3)
proof (induction "btmp_bits b + 1 - unat i" arbitrary: i rule: less_induct)
  case less
  show ?case
  proof (cases rule: scan_from_round [OF ok cnt less.prems, case_names absent found skip])
    case absent
    then show ?thesis by blast
  next
    case (found k)
    then show ?thesis by blast
  next
    case (skip i')
    then have "btmp_bits b + 1 - unat i' < btmp_bits b + 1 - unat i" and "unat i' \<le> btmp_bits b + 1"
      by auto
    note IH = less.hyps [OF this]
    have split: "unat i \<le> j \<Longrightarrow> unat i \<le> j \<and> j < unat i' \<or> unat i' \<le> j" for j
      by linarith
    from IH show ?thesis
    proof (elim disjE exE conjE)
      fix k assume "bitmap_scan_from b cnt i' = Some (of_nat k)" "unat i' \<le> k" "fits b (unat cnt) k"
        "\<forall>j. unat i' \<le> j \<and> j < k \<longrightarrow> \<not> fits b (unat cnt) j"
      with skip split show ?thesis by (intro disjI1 exI [of _ k]) auto
    next
      assume "bitmap_scan_from b cnt i' = Some (-1)" "\<forall>j \<ge> unat i'. \<not> fits b (unat cnt) j"
      with skip split show ?thesis by (intro disjI2) auto
    qed
  qed
qed

text \<open>
  The contract the clients use.  A failed scan returns \<open>-1\<close>; the bound \<open>btmp_ok\<close>
  keeps every real index different from it.
\<close>

lemma bitmap_scan_found:
  assumes "btmp_ok b" and "0 < unat cnt" and "bitmap_scan b cnt = Some r" and "r \<noteq> -1"
  shows "fits b (unat cnt) (unat r) \<and> (\<forall>j < unat r. \<not> fits b (unat cnt) j)"
proof -
  obtain k where r: "r = of_nat k" and fit: "fits b (unat cnt) k"
    and first: "\<forall>j < k. \<not> fits b (unat cnt) j"
    using scan_from_correct [OF assms(1,2), of 0] assms(3,4) by (auto simp: bitmap_scan_def)
  from fit assms(1,2) have "unat r = k"
    unfolding r by (intro unat_of_nat_small) (auto simp: fits_def btmp_ok_def)
  with fit first show ?thesis by simp
qed

lemma bitmap_scan_absent:
  assumes "btmp_ok b" and "0 < unat cnt" and "bitmap_scan b cnt = Some (-1)"
  shows "\<not> fits b (unat cnt) k"
proof
  assume fit: "fits b (unat cnt) k"
  have "(-1 :: u32) \<noteq> of_nat m" if "fits b (unat cnt) m" for m
  proof
    assume "(-1 :: u32) = of_nat m"
    moreover have "unat (of_nat m :: u32) = m"
      using that assms(1,2) by (intro unat_of_nat_small) (auto simp: fits_def btmp_ok_def)
    ultimately show False using that assms(1,2) unat_neg_one
      by (auto simp: fits_def btmp_ok_def)
  qed
  with scan_from_correct [OF assms(1,2), of 0] assms(3) fit show False
    by (auto simp: bitmap_scan_def)
qed

lemma bitmap_scan_returns:
  assumes "btmp_ok b" and "0 < unat cnt"
  shows "\<exists>r. bitmap_scan b cnt = Some r"
  using scan_from_correct [OF assms, of 0] by (auto simp: bitmap_scan_def)

subsection \<open>The allocator interface\<close>

text \<open>
  Physical frames, virtual pages, pids, inodes and disk blocks are all handed
  out the same way: scan a bitmap for a clear bit, give up on \<open>-1\<close>, otherwise
  set the bit.  The locale states what those clients rely on; its lemmas are
  what they prove once about a single allocation.
\<close>

locale slot_map =
  fixes used :: "'m \<Rightarrow> nat \<Rightarrow> bool"
    and slots :: "'m \<Rightarrow> nat"
    and ok :: "'m \<Rightarrow> bool"
    and scan :: "'m \<Rightarrow> u32 \<Rightarrow> u32 option"
    and mark :: "'m \<Rightarrow> u32 \<Rightarrow> u8 \<Rightarrow> 'm option"
  assumes scan_some: "ok m \<Longrightarrow> \<exists>r. scan m 1 = Some r"
    and scan_free: "ok m \<Longrightarrow> scan m 1 = Some r \<Longrightarrow> r \<noteq> -1 \<Longrightarrow> unat r < slots m \<and> \<not> used m (unat r)"
    and scan_full: "ok m \<Longrightarrow> scan m 1 = Some (-1) \<Longrightarrow> k < slots m \<Longrightarrow> used m k"
    and mark_some: "v = 0 \<or> v = 1 \<Longrightarrow> \<exists>m'. mark m i v = Some m'"
    and mark_used: "mark m i v = Some m' \<Longrightarrow> ok m \<Longrightarrow> k < slots m \<Longrightarrow>
                      used m' k = (if k = unat i then v \<noteq> 0 else used m k)"
    and mark_slots: "mark m i v = Some m' \<Longrightarrow> slots m' = slots m"
    and mark_ok: "mark m i v = Some m' \<Longrightarrow> ok m' = ok m"
begin

lemma alloc_one:
  assumes "ok m" and "scan m 1 = Some r" and "r \<noteq> -1" and "mark m r 1 = Some m'"
  shows "unat r < slots m" and "\<not> used m (unat r)" and "used m' (unat r)"
    and "slots m' = slots m" and "ok m'"
    and "k < slots m \<Longrightarrow> k \<noteq> unat r \<Longrightarrow> used m' k = used m k"
  using scan_free [OF assms(1-3)] mark_used [OF assms(4,1)] mark_slots [OF assms(4)]
    mark_ok [OF assms(4)] assms(1) by auto

lemma alloc_one_succeeds:
  assumes "ok m" and "k < slots m" and "\<not> used m k"
  shows "\<exists>r m'. scan m 1 = Some r \<and> r \<noteq> -1 \<and> mark m r 1 = Some m'"
proof -
  obtain r where r: "scan m 1 = Some r" using scan_some [OF assms(1)] by blast
  with scan_full [OF assms(1)] assms(2,3) have "r \<noteq> -1" by blast
  moreover obtain m' where "mark m r 1 = Some m'" using mark_some by blast
  ultimately show ?thesis using r by blast
qed

lemma alloc_one_free_count:
  assumes "ok m" and "scan m 1 = Some r" and "r \<noteq> -1" and "mark m r 1 = Some m'"
  shows "card {k. k < slots m \<and> \<not> used m k} = Suc (card {k. k < slots m' \<and> \<not> used m' k})"
proof -
  note a = alloc_one [OF assms]
  have "{k. k < slots m \<and> \<not> used m k} = insert (unat r) {k. k < slots m' \<and> \<not> used m' k}"
    using a by auto
  moreover have "unat r \<notin> {k. k < slots m' \<and> \<not> used m' k}" using a by simp
  ultimately show ?thesis by simp
qed

lemma free_undoes_alloc:
  assumes "ok m" and "scan m 1 = Some r" and "r \<noteq> -1" and "mark m r 1 = Some m'"
    and "mark m' r 0 = Some m''" and "k < slots m"
  shows "used m'' k = used m k"
  using alloc_one [OF assms(1-4)] mark_used [OF assms(5)] assms(6) by (cases "k = unat r") auto

end

lemma btmp_bits_small: "btmp_ok b \<Longrightarrow> k < btmp_bits b \<Longrightarrow> k < 4294967296"
  by (simp add: btmp_ok_def)

lemma bitmap_set_cases:
  "bitmap_set b i v = Some b' \<longleftrightarrow> (v = 0 \<or> v = 1) \<and> b' = set_bit_at b i (v \<noteq> 0)"
proof -
  consider "v = 0" | "v = 1" | "v \<noteq> 0" "v \<noteq> 1" by blast
  then show ?thesis by cases (auto simp: bitmap_set_0 bitmap_set_1 bitmap_set_bad)
qed

interpretation btm: slot_map bit_at btmp_bits btmp_ok bitmap_scan bitmap_set
proof
  fix b r k
  show "btmp_ok b \<Longrightarrow> \<exists>r. bitmap_scan b 1 = Some r"
    by (rule bitmap_scan_returns) simp_all
  show "btmp_ok b \<Longrightarrow> bitmap_scan b 1 = Some r \<Longrightarrow> r \<noteq> -1 \<Longrightarrow>
          unat r < btmp_bits b \<and> \<not> bit_at b (unat r)"
    using bitmap_scan_found [of b 1 r] by (simp add: fits_1)
  show "btmp_ok b \<Longrightarrow> bitmap_scan b 1 = Some (-1) \<Longrightarrow> k < btmp_bits b \<Longrightarrow> bit_at b k"
    using bitmap_scan_absent [of b 1 k] by (simp add: fits_1)
next
  fix v :: u8 and b i b' k
  show "v = 0 \<or> v = 1 \<Longrightarrow> \<exists>b'. bitmap_set b i v = Some b'"
    by (auto simp: bitmap_set_cases)
  assume "bitmap_set b i v = Some b'"
  then have b': "b' = set_bit_at b i (v \<noteq> 0)" by (simp add: bitmap_set_cases)
  show "btmp_ok b \<Longrightarrow> k < btmp_bits b \<Longrightarrow> bit_at b' k = (if k = unat i then v \<noteq> 0 else bit_at b k)"
    using btmp_bits_small [of b k] by (simp add: b' bit_at_set)
  show "btmp_bits b' = btmp_bits b" and "btmp_ok b' = btmp_ok b"
    by (simp_all add: b')
qed

subsection \<open>Properties\<close>

text \<open>
  Property C28: for a positive count, \<open>bitmap_scan\<close> returns, and it returns the start of
  the first run of \<open>cnt\<close> clear bits inside the map, or \<open>-1\<close> exactly when no such
  run exists.
\<close>

theorem bitmap_scan_first_fit:
  assumes "btmp_ok b" and "0 < unat cnt"
  shows "\<exists>r. bitmap_scan b cnt = Some r \<and>
           (if r = -1 then \<forall>k. \<not> fits b (unat cnt) k
            else fits b (unat cnt) (unat r) \<and> (\<forall>j < unat r. \<not> fits b (unat cnt) j))"
proof -
  obtain r where r: "bitmap_scan b cnt = Some r" using bitmap_scan_returns [OF assms] by blast
  with bitmap_scan_found [OF assms] bitmap_scan_absent [OF assms] show ?thesis by auto
qed

text \<open>A two-byte map whose first byte holds 10111011 and second 00000001; three clear bits start at 9.\<close>

definition demo_map :: bitmap where
  "demo_map = \<lparr>btmp_bytes_len = 2, bits = (\<lambda>i. if i = 0 then 187 else if i = 1 then 1 else 255)\<rparr>"

lemma demo_map_ok: "btmp_ok demo_map"
  by (simp add: btmp_ok_def btmp_bits_def demo_map_def)

theorem bitmap_scan_first_fit_witness:
  "\<exists>r. bitmap_scan demo_map 3 = Some r \<and>
       (if r = -1 then \<forall>k. \<not> fits demo_map (unat (3 :: u32)) k
        else fits demo_map (unat (3 :: u32)) (unat r) \<and> (\<forall>j < unat r. \<not> fits demo_map (unat (3 :: u32)) j))"
  using bitmap_scan_first_fit [OF demo_map_ok, of 3] by simp

text \<open>The byte that \<open>bitmap_scan\<close> reads past the end of the map never influences its result.\<close>

lemma bitmap_scan_reads_only_the_map:
  assumes "btmp_ok b" and "0 < unat cnt" and "btmp_bytes_len b' = btmp_bytes_len b"
    and "\<And>i. i < btmp_bytes_len b \<Longrightarrow> bits b' i = bits b i"
  shows "bitmap_scan b' cnt = bitmap_scan b cnt"
proof -
  have bits: "btmp_bits b' = btmp_bits b" using assms(3) by (simp add: btmp_bits_def)
  then have ok': "btmp_ok b'" using assms(1) by (simp add: btmp_ok_def)
  have "bit_at b' k = bit_at b k" if "k < btmp_bits b" for k
  proof -
    have "unat (of_nat (k div 8) :: u32) = k div 8"
      using that assms(1) by (intro unat_of_nat_small) (auto simp: btmp_ok_def)
    with that have "(of_nat (k div 8) :: u32) < btmp_bytes_len b"
      by (simp add: word_less_nat_alt btmp_bits_def)
    then show ?thesis using assms(4) by (simp add: bit_at_def)
  qed
  then have same: "fits b' (unat cnt) k = fits b (unat cnt) k" for k
    by (auto simp: fits_def bits)
  obtain r r' where r: "bitmap_scan b cnt = Some r" and r': "bitmap_scan b' cnt = Some r'"
    using bitmap_scan_returns assms(1,2) ok' by meson
  have "r' = r"
    using bitmap_scan_found [OF assms(1,2) r] bitmap_scan_absent [OF assms(1,2)] r
      bitmap_scan_found [OF ok' assms(2) r'] bitmap_scan_absent [OF ok' assms(2)] r' same
    by (metis linorder_neqE_nat u32_eq_iff_unat)
  with r r' show ?thesis by simp
qed

lemma bitmap_scan_reads_only_the_map_demo:
  "bitmap_scan (demo_map\<lparr>bits := (bits demo_map)(2 := 0)\<rparr>) 3 = bitmap_scan demo_map 3"
  by (rule bitmap_scan_reads_only_the_map [OF demo_map_ok]) (auto simp: demo_map_def)

end
