(* ===== verification/Sched.thy ===== *)
theory Sched
  imports Paging Bitmap
begin

text \<open>
  Process control blocks and the scheduler: thread/thread.h, the scheduling part
  of thread/thread.c, the activation of a task's address space
  (userprog/process.c, userprog/tss.c) and the timer interrupt (device/timer.c).

  Control blocks live in a store indexed by their page address, which is how
  \<open>running_thread\<close> finds the current one from the stack pointer.  The ready list and
  the list of all tasks hold control-block addresses; the operations on them are
  those of the list component on the sequence a list holds.  A function that gives the
  processor away is modelled up to the switch: its result is the state in which
  the next task runs.
\<close>

subsection \<open>Data\<close>

datatype task_status =
  TASK_RUNNING | TASK_READY | TASK_BLOCKED | TASK_WAITING | TASK_HANGING | TASK_DIED

record virtual_addr =
  vaddr_bitmap :: bitmap
  vaddr_bits :: u32
  vaddr_start :: u32

text \<open>\<open>vaddr_bits\<close> is the address the bitmap's bytes live at, \<open>vaddr_bitmap\<close> holds the bytes.\<close>

record mem_block_desc =
  block_size :: u32
  blocks_per_arena :: u32
  free_list :: "u32 list"

text \<open>An arena's header; \<open>desc\<close> names the descriptor by its index, \<open>None\<close> is the null pointer.\<close>

record arena =
  desc :: "nat option"
  arena_cnt :: u32
  large :: bool

record task_struct =
  self_kstack :: u32
  task_pid :: u16
  status :: task_status
  priority :: u8
  task_name :: "u8 list"
  task_ticks :: u8
  elapsed_ticks :: u32
  pgdir :: u32
  userprog_vaddr :: virtual_addr
  fd_table :: "u32 list"
  cwd_inode_nr :: u32
  parent_pid :: u16
  u_block_desc :: "mem_block_desc list"
  u_arenas :: "u32 \<Rightarrow> arena"
  exit_status :: u8
  stack_magic :: u32

record sched = machine +
  tasks :: "u32 \<Rightarrow> task_struct"
  ready_list :: "u32 list"
  all_list :: "u32 list"
  idle_thread :: u32
  main_thread :: u32
  ticks :: u32

definition upd_task :: "u32 \<Rightarrow> (task_struct \<Rightarrow> task_struct) \<Rightarrow> 'a sched_scheme \<Rightarrow> 'a sched_scheme" where
  "upd_task t f s = s\<lparr>tasks := (tasks s)(t := f (tasks s t))\<rparr>"

definition set_status :: "u32 \<Rightarrow> task_status \<Rightarrow> 'a sched_scheme \<Rightarrow> 'a sched_scheme" where
  "set_status t st = upd_task t (\<lambda>p. p\<lparr>status := st\<rparr>)"

subsection \<open>Operations\<close>

definition running_thread :: "'a sched_scheme \<Rightarrow> u32" where
  "running_thread s = esp s AND 0xfffff000"

definition update_tss_esp :: "u32 \<Rightarrow> 'a sched_scheme \<Rightarrow> 'a sched_scheme" where
  "update_tss_esp pthread s = s\<lparr>esp0 := pthread + PG_SIZE\<rparr>"

definition page_dir_activate :: "u32 \<Rightarrow> 'a sched_scheme \<Rightarrow> 'a sched_scheme option" where
  "page_dir_activate p_thread s =
     do {
       pagedir_phy_addr \<leftarrow>
         (if pgdir (tasks s p_thread) \<noteq> 0 then addr_v2p s (pgdir (tasks s p_thread)) else Some 0x100000);
       Some (s\<lparr>cr3 := pagedir_phy_addr\<rparr>)
     }"

definition process_activate :: "u32 \<Rightarrow> 'a sched_scheme \<Rightarrow> 'a sched_scheme option" where
  "process_activate p_thread s =
     do {
       ASSERT (p_thread \<noteq> 0);
       s \<leftarrow> page_dir_activate p_thread s;
       Some (if pgdir (tasks s p_thread) \<noteq> 0 then update_tss_esp p_thread s else s)
     }"

text \<open>
  \<open>switch_to\<close> (thread/switch.S): four registers are pushed, the stack pointer is
  saved in the first field of the old block and loaded from that of the new one,
  and the four registers are popped.
\<close>

definition switch_to :: "u32 \<Rightarrow> u32 \<Rightarrow> 'a sched_scheme \<Rightarrow> 'a sched_scheme" where
  "switch_to cur nxt s =
     (let s = upd_task cur (\<lambda>p. p\<lparr>self_kstack := esp s - 16\<rparr>) s
      in s\<lparr>esp := self_kstack (tasks s nxt) + 16\<rparr>)"

definition thread_unblock :: "u32 \<Rightarrow> 'a sched_scheme \<Rightarrow> 'a sched_scheme option" where
  "thread_unblock pthread s =
     (let (old_status, s) = intr_disable s in
      do {
        ASSERT (status (tasks s pthread) = TASK_BLOCKED \<or> status (tasks s pthread) = TASK_WAITING \<or>
                status (tasks s pthread) = TASK_HANGING);
        s \<leftarrow> (if status (tasks s pthread) \<noteq> TASK_READY then
                do {
                  ASSERT (pthread \<notin> set (ready_list s));
                  (if pthread \<in> set (ready_list s) then panic_spin else Some ());
                  Some (set_status pthread TASK_READY (s\<lparr>ready_list := pthread # ready_list s\<rparr>))
                }
              else Some s);
        Some (snd (intr_set_status old_status s))
      })"

definition schedule :: "'a sched_scheme \<Rightarrow> 'a sched_scheme option" where
  "schedule s =
     do {
       ASSERT (intr_get_status s = INTR_OFF);
       let cur = running_thread s;
       s \<leftarrow> (if status (tasks s cur) = TASK_RUNNING then
               do {
                 ASSERT (cur \<notin> set (ready_list s));
                 Some (upd_task cur (\<lambda>p. p\<lparr>task_ticks := priority p, status := TASK_READY\<rparr>)
                         (s\<lparr>ready_list := ready_list s @ [cur]\<rparr>))
               }
             else Some s);
       s \<leftarrow> (if ready_list s = [] then thread_unblock (idle_thread s) s else Some s);
       ASSERT (ready_list s \<noteq> []);
       let nxt = hd (ready_list s);
       let s = set_status nxt TASK_RUNNING (s\<lparr>ready_list := tl (ready_list s)\<rparr>);
       s \<leftarrow> process_activate nxt s;
       Some (switch_to cur nxt s)
     }"

text \<open>
  \<open>thread_block\<close> and \<open>thread_yield\<close> up to the switch; the first component of the
  result is the interrupt state that the caller restores when it is resumed.
\<close>

definition thread_block :: "task_status \<Rightarrow> 'a sched_scheme \<Rightarrow> (intr_status \<times> 'a sched_scheme) option" where
  "thread_block stat s =
     do {
       ASSERT (stat = TASK_BLOCKED \<or> stat = TASK_WAITING \<or> stat = TASK_HANGING);
       let (old_status, s) = intr_disable s;
       let cur_thread = running_thread s;
       s \<leftarrow> schedule (set_status cur_thread stat s);
       Some (old_status, s)
     }"

definition thread_yield :: "'a sched_scheme \<Rightarrow> (intr_status \<times> 'a sched_scheme) option" where
  "thread_yield s =
     (let cur = running_thread s;
          (old_status, s) = intr_disable s
      in do {
        ASSERT (cur \<notin> set (ready_list s));
        s \<leftarrow> schedule (set_status cur TASK_READY (s\<lparr>ready_list := ready_list s @ [cur]\<rparr>));
        Some (old_status, s)
      })"

text \<open>What a task does when \<open>switch_to\<close> returns to it inside \<open>thread_block\<close> or \<open>thread_yield\<close>.\<close>

definition resume :: "intr_status \<Rightarrow> 'a sched_scheme \<Rightarrow> 'a sched_scheme" where
  "resume old_status s = snd (intr_set_status old_status s)"

text \<open>The timer interrupt arrives through an interrupt gate, so interrupts are off in the handler.\<close>

definition intr_timer_handler :: "'a sched_scheme \<Rightarrow> 'a sched_scheme option" where
  "intr_timer_handler s =
     do {
       let cur_thread = running_thread s;
       ASSERT (stack_magic (tasks s cur_thread) = 0x19870916);
       let s = upd_task cur_thread (\<lambda>p. p\<lparr>elapsed_ticks := elapsed_ticks p + 1\<rparr>) s;
       let s = s\<lparr>ticks := ticks s + 1\<rparr>;
       (if task_ticks (tasks s cur_thread) = 0 then schedule s
        else Some (upd_task cur_thread (\<lambda>p. p\<lparr>task_ticks := task_ticks p - 1\<rparr>) s))
     }"

definition pid_check :: "'a sched_scheme \<Rightarrow> u32 \<Rightarrow> u32 \<Rightarrow> bool" where
  "pid_check s pthread p \<longleftrightarrow> ucast (task_pid (tasks s pthread)) = p"

definition pid2thread :: "'a sched_scheme \<Rightarrow> u32 \<Rightarrow> u32" where
  "pid2thread s p = (case find (\<lambda>t. pid_check s t p) (all_list s) of None \<Rightarrow> 0 | Some t \<Rightarrow> t)"

subsection \<open>Fields that survive\<close>

lemma upd_task_fields [simp]:
  "tasks (upd_task t f s) = (tasks s)(t := f (tasks s t))" "ready_list (upd_task t f s) = ready_list s"
  "all_list (upd_task t f s) = all_list s" "idle_thread (upd_task t f s) = idle_thread s"
  "main_thread (upd_task t f s) = main_thread s" "ticks (upd_task t f s) = ticks s"
  "esp (upd_task t f s) = esp s" "eflags (upd_task t f s) = eflags s" "phys (upd_task t f s) = phys s"
  "cr3 (upd_task t f s) = cr3 s" "esp0 (upd_task t f s) = esp0 s" "sched.more (upd_task t f s) = sched.more s"
  by (simp_all add: upd_task_def)

lemma set_status_fields [simp]:
  "tasks (set_status t st s) = (tasks s)(t := (tasks s t)\<lparr>status := st\<rparr>)" "ready_list (set_status t st s) = ready_list s"
  "all_list (set_status t st s) = all_list s" "idle_thread (set_status t st s) = idle_thread s"
  "main_thread (set_status t st s) = main_thread s" "ticks (set_status t st s) = ticks s"
  "esp (set_status t st s) = esp s" "eflags (set_status t st s) = eflags s" "phys (set_status t st s) = phys s"
  "cr3 (set_status t st s) = cr3 s" "esp0 (set_status t st s) = esp0 s" "sched.more (set_status t st s) = sched.more s"
  by (simp_all add: set_status_def)

lemma running_thread_frame: "running_thread s = frame (esp s)"
  by (simp add: running_thread_def frame_def)

lemma thread_unblock_eq:
  "thread_unblock t s =
     (if (status (tasks s t) = TASK_BLOCKED \<or> status (tasks s t) = TASK_WAITING \<or> status (tasks s t) = TASK_HANGING)
         \<and> t \<notin> set (ready_list s)
      then Some (set_status t TASK_READY (s\<lparr>ready_list := t # ready_list s\<rparr>)) else None)"
  by (auto simp: thread_unblock_def intr_disable_eq Let_def set_status_def upd_task_def
      ASSERT_def panic_spin_def intr_restore)

subsection \<open>Well-formed scheduler states\<close>

text \<open>
  \<open>sched_wf\<close> holds around every scheduling decision, whatever the status of the
  current task: the ready list holds exactly the tasks that are ready, nobody but
  the current task is running, the idle task can always be woken, and every task
  that is not on the processor has a saved stack pointer inside its own block.
  \<open>sched_inv\<close> adds that the current task is running.
\<close>

definition sched_wf :: "'a sched_scheme \<Rightarrow> bool" where
  "sched_wf s \<longleftrightarrow>
     distinct (ready_list s) \<and> distinct (all_list s) \<and>
     running_thread s \<in> set (all_list s) \<and> idle_thread s \<in> set (all_list s) \<and> 0 \<notin> set (all_list s) \<and>
     (\<forall>t. t \<in> set (ready_list s) \<longleftrightarrow> t \<in> set (all_list s) \<and> status (tasks s t) = TASK_READY) \<and>
     (\<forall>t \<in> set (all_list s) - {running_thread s}. status (tasks s t) \<noteq> TASK_RUNNING) \<and>
     status (tasks s (idle_thread s)) \<in> {TASK_RUNNING, TASK_READY, TASK_BLOCKED} \<and>
     (\<forall>t \<in> set (all_list s) - {running_thread s}. frame (self_kstack (tasks s t) + 16) = t)"

definition sched_inv :: "'a sched_scheme \<Rightarrow> bool" where
  "sched_inv s \<longleftrightarrow> sched_wf s \<and> status (tasks s (running_thread s)) = TASK_RUNNING"

text \<open>The queue as \<open>schedule\<close> sees it after its first two steps.\<close>

definition candidates :: "'a sched_scheme \<Rightarrow> u32 list" where
  "candidates s =
     (let q = ready_list s @ (if status (tasks s (running_thread s)) = TASK_RUNNING then [running_thread s] else [])
      in if q = [] then [idle_thread s] else q)"

definition activatable :: "'a sched_scheme \<Rightarrow> u32 \<Rightarrow> bool" where
  "activatable s t \<longleftrightarrow> pgdir (tasks s t) = 0 \<or> addr_v2p s (pgdir (tasks s t)) \<noteq> None"

text \<open>The state \<open>schedule\<close> reaches before it takes the head of the queue.\<close>

definition requeue_cur :: "'a sched_scheme \<Rightarrow> 'a sched_scheme" where
  "requeue_cur s =
     (if status (tasks s (running_thread s)) = TASK_RUNNING
      then upd_task (running_thread s) (\<lambda>p. p\<lparr>task_ticks := priority p, status := TASK_READY\<rparr>)
             (s\<lparr>ready_list := ready_list s @ [running_thread s]\<rparr>)
      else s)"

definition requeue :: "'a sched_scheme \<Rightarrow> 'a sched_scheme" where
  "requeue s =
     (if ready_list (requeue_cur s) = []
      then set_status (idle_thread s) TASK_READY (requeue_cur s\<lparr>ready_list := [idle_thread s]\<rparr>)
      else requeue_cur s)"

lemma requeue_cur_fields [simp]:
  "all_list (requeue_cur s) = all_list s" "idle_thread (requeue_cur s) = idle_thread s"
  "esp (requeue_cur s) = esp s" "eflags (requeue_cur s) = eflags s"
  "phys (requeue_cur s) = phys s" "cr3 (requeue_cur s) = cr3 s"
  "self_kstack (tasks (requeue_cur s) t) = self_kstack (tasks s t)"
  "pgdir (tasks (requeue_cur s) t) = pgdir (tasks s t)"
  by (auto simp: requeue_cur_def)

lemma requeue_fields [simp]:
  "all_list (requeue s) = all_list s" "idle_thread (requeue s) = idle_thread s"
  "esp (requeue s) = esp s" "eflags (requeue s) = eflags s"
  "phys (requeue s) = phys s" "cr3 (requeue s) = cr3 s"
  "self_kstack (tasks (requeue s) t) = self_kstack (tasks s t)"
  "pgdir (tasks (requeue s) t) = pgdir (tasks s t)"
  by (simp_all add: requeue_def)

lemma requeue_list [simp]: "ready_list (requeue s) = candidates s"
  by (simp add: requeue_def requeue_cur_def candidates_def Let_def)

lemma candidates_nonempty [simp]: "candidates s \<noteq> []"
  by (simp add: candidates_def Let_def)

lemma wf_ready: "sched_wf s \<Longrightarrow> t \<in> set (ready_list s) \<longleftrightarrow> t \<in> set (all_list s) \<and> status (tasks s t) = TASK_READY"
  by (simp add: sched_wf_def)

lemma wf_running: "sched_wf s \<Longrightarrow> t \<in> set (all_list s) \<Longrightarrow> status (tasks s t) = TASK_RUNNING \<Longrightarrow> t = running_thread s"
  by (auto simp: sched_wf_def)

lemma idle_wakeable:
  assumes "sched_wf s" "ready_list (requeue_cur s) = []"
  shows "status (tasks s (idle_thread s)) = TASK_BLOCKED" "status (tasks s (running_thread s)) \<noteq> TASK_RUNNING"
proof -
  show cur: "status (tasks s (running_thread s)) \<noteq> TASK_RUNNING"
    using assms(2) by (auto simp: requeue_cur_def split: if_splits)
  have idle: "idle_thread s \<in> set (all_list s)" using assms(1) by (simp add: sched_wf_def)
  have "status (tasks s (idle_thread s)) \<noteq> TASK_READY"
    using assms cur wf_ready [OF assms(1)] idle by (auto simp: requeue_cur_def)
  moreover have "status (tasks s (idle_thread s)) \<noteq> TASK_RUNNING"
    using cur wf_running [OF assms(1) idle] by auto
  ultimately show "status (tasks s (idle_thread s)) = TASK_BLOCKED"
    using assms(1) by (auto simp: sched_wf_def)
qed

lemma requeue_status:
  assumes "sched_wf s"
  shows "t \<in> set (candidates s) \<longleftrightarrow> t \<in> set (all_list s) \<and> status (tasks (requeue s) t) = TASK_READY"
    and "t \<in> set (all_list s) \<Longrightarrow> status (tasks (requeue s) t) \<noteq> TASK_RUNNING"
    and "status (tasks (requeue s) t) = status (tasks s t) \<or> status (tasks (requeue s) t) = TASK_READY"
proof -
  have cur: "running_thread s \<in> set (all_list s)" and idle: "idle_thread s \<in> set (all_list s)"
    using assms by (simp_all add: sched_wf_def)
  have e: "ready_list (requeue_cur s) = [] \<longleftrightarrow> candidates s = [idle_thread s] \<and> ready_list s = [] \<and>
      status (tasks s (running_thread s)) \<noteq> TASK_RUNNING"
    by (auto simp: requeue_cur_def candidates_def Let_def)
  show "t \<in> set (candidates s) \<longleftrightarrow> t \<in> set (all_list s) \<and> status (tasks (requeue s) t) = TASK_READY"
  proof (cases "ready_list (requeue_cur s) = []")
    case True
    then show ?thesis using wf_ready [OF assms, of t] idle e by (auto simp: requeue_def requeue_cur_def)
  next
    case False
    then show ?thesis using wf_ready [OF assms, of t] cur
      by (auto simp: requeue_def requeue_cur_def candidates_def Let_def split: if_splits)
  qed
  show "t \<in> set (all_list s) \<Longrightarrow> status (tasks (requeue s) t) \<noteq> TASK_RUNNING"
  proof (cases "t = running_thread s")
    case True
    then show ?thesis by (simp add: requeue_def requeue_cur_def)
  next
    case False
    moreover assume "t \<in> set (all_list s)"
    ultimately have "status (tasks s t) \<noteq> TASK_RUNNING" using wf_running [OF assms] by blast
    with False show ?thesis by (simp add: requeue_def requeue_cur_def)
  qed
  show "status (tasks (requeue s) t) = status (tasks s t) \<or> status (tasks (requeue s) t) = TASK_READY"
    by (auto simp: requeue_def requeue_cur_def)
qed

lemma candidates_distinct:
  assumes "sched_wf s"
  shows "distinct (candidates s)"
proof -
  have "distinct (ready_list s)" using assms by (simp add: sched_wf_def)
  with wf_ready [OF assms, of "running_thread s"] show ?thesis
    by (cases "status (tasks s (running_thread s)) = TASK_RUNNING") (simp_all add: candidates_def Let_def)
qed

text \<open>\<open>dispatch nxt\<close>: take \<open>nxt\<close>, the head of the queue, onto the processor.\<close>

definition dispatch :: "'a sched_scheme \<Rightarrow> 'a sched_scheme option" where
  "dispatch s =
     (let nxt = hd (ready_list s) in
      do {
        s' \<leftarrow> process_activate nxt (set_status nxt TASK_RUNNING (s\<lparr>ready_list := tl (ready_list s)\<rparr>));
        Some (switch_to (running_thread s) nxt s')
      })"

lemma schedule_dispatch:
  assumes "sched_wf s" "intr_get_status s = INTR_OFF"
  shows "schedule s = dispatch (requeue s)"
proof -
  have cur: "status (tasks s (running_thread s)) = TASK_RUNNING \<Longrightarrow> running_thread s \<notin> set (ready_list s)"
    using wf_ready [OF assms(1)] by auto
  have idle: "thread_unblock (idle_thread s) (requeue_cur s) = Some (requeue s)"
    if "ready_list (requeue_cur s) = []"
    using idle_wakeable [OF assms(1) that] that
    by (simp add: thread_unblock_eq requeue_def requeue_cur_def)
  have run: "running_thread (requeue s) = running_thread s" by (simp add: running_thread_def)
  have "schedule s =
     do { s1 \<leftarrow> (if ready_list (requeue_cur s) = [] then thread_unblock (idle_thread s) (requeue_cur s) else Some (requeue_cur s));
       ASSERT (ready_list s1 \<noteq> []);
       let nxt = hd (ready_list s1);
       s' \<leftarrow> process_activate nxt (set_status nxt TASK_RUNNING (s1\<lparr>ready_list := tl (ready_list s1)\<rparr>));
       Some (switch_to (running_thread s) nxt s') }"
    using assms(2) cur by (cases "status (tasks s (running_thread s)) = TASK_RUNNING")
      (simp_all add: schedule_def requeue_cur_def Let_def)
  also have "\<dots> = dispatch (requeue s)"
  proof (cases "ready_list (requeue_cur s) = []")
    case True
    with idle run show ?thesis by (simp add: dispatch_def Let_def)
  next
    case False
    then have "requeue_cur s = requeue s" by (simp add: requeue_def)
    with False run show ?thesis by (simp add: dispatch_def Let_def)
  qed
  finally show ?thesis .
qed

lemma addr_v2p_upd [simp]:
  "addr_v2p (upd_task t f s) va = addr_v2p s va" "addr_v2p (set_status t st s) va = addr_v2p s va"
  "addr_v2p (s\<lparr>ready_list := l\<rparr>) va = addr_v2p s va" "addr_v2p (requeue s) va = addr_v2p s va"
  by (auto intro: addr_v2p_cong)

lemma process_activate_ok:
  assumes "activatable s t" "t \<noteq> 0"
  shows "\<exists>c e. process_activate t s = Some (s\<lparr>cr3 := c, esp0 := e\<rparr>) \<and>
           (pgdir (tasks s t) = 0 \<longrightarrow> c = 0x100000) \<and>
           (pgdir (tasks s t) \<noteq> 0 \<longrightarrow> addr_v2p s (pgdir (tasks s t)) = Some c \<and> e = t + PG_SIZE)"
proof (cases "pgdir (tasks s t) = 0")
  case True
  then show ?thesis using assms(2)
    by (intro exI [of _ "0x100000"] exI [of _ "esp0 s"]) (simp add: process_activate_def page_dir_activate_def)
next
  case False
  with assms obtain c where "addr_v2p s (pgdir (tasks s t)) = Some c" by (auto simp: activatable_def)
  with False assms(2) show ?thesis
    by (intro exI [of _ c] exI [of _ "t + PG_SIZE"])
      (simp add: process_activate_def page_dir_activate_def update_tss_esp_def)
qed

text \<open>\<open>schedule\<close> never fails an assertion on a well-formed state, and runs the head of the queue.\<close>

lemma schedule_correct:
  assumes wf: "sched_wf s" and off: "intr_get_status s = INTR_OFF"
    and act: "activatable s (hd (candidates s))"
  obtains s' where "schedule s = Some s'" "sched_inv s'" "running_thread s' = hd (candidates s)"
    "ready_list s' = tl (candidates s)" "all_list s' = all_list s" "eflags s' = eflags s"
    "idle_thread s' = idle_thread s"
    "\<And>t. pgdir (tasks s' t) = pgdir (tasks s t)"
    "\<And>t. t \<noteq> hd (candidates s) \<Longrightarrow> status (tasks s' t) = status (tasks (requeue s) t)"
proof -
  let ?n = "hd (candidates s)" and ?cur = "running_thread s" and ?q = "requeue s"
  let ?s1 = "set_status ?n TASK_RUNNING (?q\<lparr>ready_list := tl (candidates s)\<rparr>)"
  have n: "?n \<in> set (candidates s)" by simp
  then have n_all: "?n \<in> set (all_list s)" using requeue_status(1) [OF wf] by blast
  then have "?n \<noteq> 0" using wf by (auto simp: sched_wf_def)
  moreover have "activatable ?s1 ?n" using act by (simp add: activatable_def)
  ultimately obtain c e where pa: "process_activate ?n ?s1 = Some (?s1\<lparr>cr3 := c, esp0 := e\<rparr>)"
    using process_activate_ok by blast
  define s' where "s' = switch_to ?cur ?n (?s1\<lparr>cr3 := c, esp0 := e\<rparr>)"
  have run_q: "running_thread ?q = ?cur" by (simp add: running_thread_def)
  have sch: "schedule s = Some s'"
    unfolding schedule_dispatch [OF wf off] using pa run_q by (simp add: dispatch_def s'_def Let_def)
  have st: "status (tasks s' t) = (if t = ?n then TASK_RUNNING else status (tasks ?q t))" for t
    by (simp add: s'_def switch_to_def Let_def)
  have ks: "self_kstack (tasks s' t) = (if t = ?cur then esp s - 16 else self_kstack (tasks s t))" for t
    by (simp add: s'_def switch_to_def Let_def)
  have run: "running_thread s' = ?n"
  proof -
    have "running_thread s' = frame (self_kstack (tasks s' ?n) + 16)"
      by (simp add: s'_def switch_to_def Let_def running_thread_frame)
    then show ?thesis using n_all wf
      by (cases "?n = ?cur") (simp_all add: ks running_thread_frame sched_wf_def)
  qed
  have fields: "ready_list s' = tl (candidates s)" "all_list s' = all_list s"
    "idle_thread s' = idle_thread s" "eflags s' = eflags s"
    by (simp_all add: s'_def switch_to_def Let_def)
  have pd: "pgdir (tasks s' t) = pgdir (tasks s t)" for t
    by (simp add: s'_def switch_to_def Let_def)
  have inv: "sched_inv s'"
  proof -
    have d: "distinct (candidates s)" by (rule candidates_distinct [OF wf])
    have tl: "t \<in> set (tl (candidates s)) \<longleftrightarrow> t \<in> set (candidates s) \<and> t \<noteq> ?n" for t
      using d by (cases "candidates s") auto
    have idle: "status (tasks s' (idle_thread s)) \<in> {TASK_RUNNING, TASK_READY, TASK_BLOCKED}"
      using requeue_status(3) [OF wf, of "idle_thread s"] wf st by (auto simp: sched_wf_def)
    have kst: "frame (self_kstack (tasks s' t) + 16) = t" if "t \<in> set (all_list s)" "t \<noteq> ?n" for t
      using that wf by (simp add: ks running_thread_frame sched_wf_def)
    have rdy: "t \<in> set (tl (candidates s)) \<longleftrightarrow> t \<in> set (all_list s) \<and> status (tasks s' t) = TASK_READY" for t
      using tl [of t] requeue_status(1) [OF wf, of t] st by auto
    have one: "t = ?n" if "t \<in> set (all_list s)" "status (tasks s' t) = TASK_RUNNING" for t
      using that requeue_status(2) [OF wf, of t] st by (auto split: if_splits)
    have "distinct (all_list s)" "idle_thread s \<in> set (all_list s)" "0 \<notin> set (all_list s)"
      using wf by (simp_all add: sched_wf_def)
    moreover have "\<forall>t. t \<in> set (tl (candidates s)) \<longleftrightarrow> t \<in> set (all_list s) \<and> status (tasks s' t) = TASK_READY"
      using rdy by blast
    moreover have "\<forall>t \<in> set (all_list s) - {?n}. status (tasks s' t) \<noteq> TASK_RUNNING"
      using one by blast
    moreover have "\<forall>t \<in> set (all_list s) - {?n}. frame (self_kstack (tasks s' t) + 16) = t"
      using kst by blast
    moreover have "status (tasks s' ?n) = TASK_RUNNING" using st by simp
    ultimately show ?thesis
      unfolding sched_inv_def sched_wf_def run fields using distinct_tl [OF d] n_all idle by blast
  qed
  show thesis using that [OF sch inv run fields(1,2,4,3) pd] st by simp
qed

text \<open>A switch that happened was possible, so nothing need be assumed about address spaces after the fact.\<close>

lemma schedule_Some_activatable:
  assumes "sched_wf s" "intr_get_status s = INTR_OFF" "schedule s = Some s'"
  shows "activatable s (hd (candidates s))"
proof -
  obtain s1 where "process_activate (hd (candidates s))
      (set_status (hd (candidates s)) TASK_RUNNING (requeue s\<lparr>ready_list := tl (candidates s)\<rparr>)) = Some s1"
    using assms(3) unfolding schedule_dispatch [OF assms(1,2)]
    by (auto simp: dispatch_def Let_def bind_eq_Some_conv)
  then show ?thesis
    by (auto simp: process_activate_def page_dir_activate_def activatable_def bind_eq_Some_conv split: if_splits)
qed

text \<open>Task \<open>t\<close> is runnable in \<open>s'\<close> if it was in \<open>s\<close>; otherwise its status is the same.\<close>

definition keeps_state :: "'a sched_scheme \<Rightarrow> 'a sched_scheme \<Rightarrow> u32 \<Rightarrow> bool" where
  "keeps_state s s' t \<longleftrightarrow>
     (status (tasks s t) \<in> {TASK_RUNNING, TASK_READY} \<longrightarrow> status (tasks s' t) \<in> {TASK_RUNNING, TASK_READY}) \<and>
     (status (tasks s t) \<notin> {TASK_RUNNING, TASK_READY} \<longrightarrow> status (tasks s' t) = status (tasks s t))"

lemma schedule_effect:
  assumes wf: "sched_wf s" and off: "intr_get_status s = INTR_OFF" and some: "schedule s = Some s'"
  shows "sched_inv s'" "all_list s' = all_list s" "idle_thread s' = idle_thread s"
    and "t \<in> set (all_list s) \<Longrightarrow> t \<noteq> idle_thread s \<or> status (tasks s (running_thread s)) = TASK_RUNNING \<Longrightarrow>
           keeps_state (s) (s') t"
proof -
  obtain s1 where s1: "schedule s = Some s1" "sched_inv s1" "running_thread s1 = hd (candidates s)"
    "all_list s1 = all_list s" "idle_thread s1 = idle_thread s"
    "\<And>t. t \<noteq> hd (candidates s) \<Longrightarrow> status (tasks s1 t) = status (tasks (requeue s) t)"
    using wf off schedule_Some_activatable [OF assms] by (rule schedule_correct) blast
  then have [simp]: "s1 = s'" using some by simp
  show "sched_inv s'" "all_list s' = all_list s" "idle_thread s' = idle_thread s" using s1(2,4,5) by simp_all
  assume t: "t \<in> set (all_list s)" "t \<noteq> idle_thread s \<or> status (tasks s (running_thread s)) = TASK_RUNNING"
  show "keeps_state (s) (s') t"
  proof (cases "t = hd (candidates s)")
    case True
    then have "status (tasks s' t) = TASK_RUNNING" using s1(2,3) by (simp add: sched_inv_def)
    moreover have "status (tasks (requeue s) t) = TASK_READY"
      using True requeue_status(1) [OF wf, of t] by simp
    then have "status (tasks s t) \<in> {TASK_RUNNING, TASK_READY}"
      using t(2) by (auto simp: requeue_def requeue_cur_def split: if_splits)
    ultimately show ?thesis by (simp add: keeps_state_def)
  next
    case False
    with s1(6) [of t] have "status (tasks s' t) = status (tasks (requeue s) t)" by simp
    then show ?thesis using t requeue_status(2) [OF wf t(1)]
      by (auto simp: keeps_state_def requeue_def requeue_cur_def split: if_splits)
  qed
qed

subsection \<open>Blocking, waking and yielding\<close>

lemma inv_facts:
  assumes "sched_inv s"
  shows "running_thread s \<notin> set (ready_list s)" "status (tasks s (running_thread s)) = TASK_RUNNING"
    "running_thread s \<in> set (all_list s)" "sched_wf s"
  using assms wf_ready [of s "running_thread s"] by (auto simp: sched_inv_def sched_wf_def)

lemma running_thread_cong [simp]:
  "running_thread (set_status t st s) = running_thread s" "running_thread (upd_task t f s) = running_thread s"
  "running_thread (s\<lparr>ready_list := l\<rparr>) = running_thread s" "running_thread (s\<lparr>eflags := e\<rparr>) = running_thread s"
  by (simp_all add: running_thread_def)

lemma wf_leave:
  assumes inv: "sched_inv s" and st: "st = TASK_BLOCKED \<or> st = TASK_WAITING \<or> st = TASK_HANGING"
    and idle: "running_thread s = idle_thread s \<Longrightarrow> st = TASK_BLOCKED"
  shows "sched_wf (set_status (running_thread s) st (s\<lparr>eflags := e\<rparr>))"
proof -
  note f = inv_facts [OF inv]
  have "\<forall>t. t \<in> set (ready_list s) \<longleftrightarrow>
      t \<in> set (all_list s) \<and> status (((tasks s)(running_thread s := tasks s (running_thread s)\<lparr>status := st\<rparr>)) t) = TASK_READY"
    using wf_ready [OF f(4)] f(1) st by auto
  then show ?thesis using f(4) idle unfolding sched_wf_def by simp blast
qed

lemma thread_unblock_inv [inv_rules]:
  assumes inv: "sched_inv s" and t: "t \<in> set (all_list s)"
    and st: "status (tasks s t) \<in> {TASK_BLOCKED, TASK_WAITING, TASK_HANGING}"
  shows "thread_unblock t s = Some (set_status t TASK_READY (s\<lparr>ready_list := t # ready_list s\<rparr>))"
    and "sched_inv (set_status t TASK_READY (s\<lparr>ready_list := t # ready_list s\<rparr>))"
proof -
  note f = inv_facts [OF inv]
  have nr: "t \<notin> set (ready_list s)" using wf_ready [OF f(4), of t] st by auto
  then show "thread_unblock t s = Some (set_status t TASK_READY (s\<lparr>ready_list := t # ready_list s\<rparr>))"
    using st by (auto simp: thread_unblock_eq)
  have ne: "t \<noteq> running_thread s" using f(2) st by auto
  have "\<forall>x. x \<in> set (t # ready_list s) \<longleftrightarrow>
      x \<in> set (all_list s) \<and> status (((tasks s)(t := tasks s t\<lparr>status := TASK_READY\<rparr>)) x) = TASK_READY"
    using wf_ready [OF f(4)] t by auto
  then show "sched_inv (set_status t TASK_READY (s\<lparr>ready_list := t # ready_list s\<rparr>))"
    using f nr ne unfolding sched_inv_def sched_wf_def by simp
qed

text \<open>Whom \<open>thread_block\<close> hands the processor to.\<close>

definition successor :: "'a sched_scheme \<Rightarrow> u32" where
  "successor s = hd (ready_list s @ [idle_thread s])"

lemma thread_block_inv:
  assumes inv: "sched_inv s" and st: "st = TASK_BLOCKED \<or> st = TASK_WAITING \<or> st = TASK_HANGING"
    and idle: "running_thread s = idle_thread s \<Longrightarrow> st = TASK_BLOCKED"
    and act: "activatable s (successor s)"
  obtains s' where "thread_block st s = Some (intr_get_status s, s')" "sched_inv s'"
    "running_thread s' = successor s" "ready_list s' = tl (ready_list s)" "all_list s' = all_list s"
    "intr_get_status s' = INTR_OFF"
    "\<And>t. t \<noteq> successor s \<Longrightarrow> status (tasks s' t) = (if t = running_thread s then st else status (tasks s t))"
proof -
  let ?e = "eflags s AND NOT EFLAGS_IF"
  let ?b = "set_status (running_thread s) st (s\<lparr>eflags := ?e\<rparr>)"
  have wf: "sched_wf ?b" using inv st idle by (rule wf_leave)
  have c: "candidates ?b = (if ready_list s = [] then [idle_thread s] else ready_list s)"
    using st by (auto simp: candidates_def Let_def)
  then have hd_c: "hd (candidates ?b) = successor s" and tl_c: "tl (candidates ?b) = tl (ready_list s)"
    by (simp_all add: successor_def)
  have a: "activatable ?b (hd (candidates ?b))"
    using act addr_v2p_cong [of "s\<lparr>eflags := ?e\<rparr>" s] unfolding hd_c
    by (cases "successor s = running_thread s") (simp_all add: activatable_def)
  obtain s' where s': "schedule ?b = Some s'" "sched_inv s'" "running_thread s' = hd (candidates ?b)"
    "ready_list s' = tl (candidates ?b)" "all_list s' = all_list ?b" "eflags s' = eflags ?b"
    "\<And>t. t \<noteq> hd (candidates ?b) \<Longrightarrow> status (tasks s' t) = status (tasks (requeue ?b) t)"
    using wf _ a by (rule schedule_correct) simp_all
  have tb: "thread_block st s = Some (intr_get_status s, s')"
    using st s'(1) by (simp add: thread_block_def intr_disable_eq)
  have stat: "status (tasks s' t) = (if t = running_thread s then st else status (tasks s t))"
    if "t \<noteq> successor s" for t
  proof -
    have "status (tasks s' t) = status (tasks (requeue ?b) t)" using that s'(7) [of t] hd_c by simp
    moreover have "requeue_cur ?b = ?b" using st by (auto simp: requeue_cur_def)
    ultimately show ?thesis using that by (auto simp: requeue_def successor_def split: if_splits)
  qed
  have off: "intr_get_status s' = INTR_OFF" using s'(6) by simp
  show thesis using that [OF tb s'(2)] s'(3-5) off stat hd_c tl_c by simp
qed

lemma thread_block_returns:
  assumes "sched_inv s" "running_thread s \<noteq> idle_thread s" "activatable s (successor s)"
  shows "\<exists>s'. thread_block TASK_BLOCKED s = Some (intr_get_status s, s')"
proof -
  obtain s' where "thread_block TASK_BLOCKED s = Some (intr_get_status s, s')"
    using assms(1) disjI1 [OF refl] _ assms(3) by (rule thread_block_inv) (use assms(2) in auto)
  then show ?thesis by blast
qed

lemma thread_yield_inv:
  assumes inv: "sched_inv s" and act: "activatable s (hd (ready_list s @ [running_thread s]))"
  obtains s' where "thread_yield s = Some (intr_get_status s, s')" "sched_inv s'"
    "running_thread s' # ready_list s' = ready_list s @ [running_thread s]" "all_list s' = all_list s"
proof -
  note f = inv_facts [OF inv]
  let ?cur = "running_thread s" and ?e = "eflags s AND NOT EFLAGS_IF"
  let ?b = "set_status ?cur TASK_READY (s\<lparr>eflags := ?e, ready_list := ready_list s @ [?cur]\<rparr>)"
  have "\<forall>t. t \<in> set (ready_list s @ [?cur]) \<longleftrightarrow>
      t \<in> set (all_list s) \<and> status (((tasks s)(?cur := tasks s ?cur\<lparr>status := TASK_READY\<rparr>)) t) = TASK_READY"
    using wf_ready [OF f(4)] f by auto
  then have wf: "sched_wf ?b" using f(1,4) unfolding sched_wf_def by simp blast
  have c: "candidates ?b = ready_list s @ [?cur]" by (simp add: candidates_def Let_def)
  have a: "activatable ?b (hd (candidates ?b))"
    using act addr_v2p_cong [of "s\<lparr>eflags := ?e, ready_list := ready_list s @ [?cur]\<rparr>" s] unfolding c
    by (cases "hd (ready_list s @ [?cur]) = ?cur") (simp_all add: activatable_def)
  obtain s' where s': "schedule ?b = Some s'" "sched_inv s'" "running_thread s' = hd (candidates ?b)"
    "ready_list s' = tl (candidates ?b)" "all_list s' = all_list ?b"
    using wf _ a by (rule schedule_correct) simp_all
  have "thread_yield s = Some (intr_get_status s, s')"
    using s'(1) f(1) by (simp add: thread_yield_def intr_disable_eq Let_def)
  moreover have "running_thread s' # ready_list s' = ready_list s @ [?cur]"
    using s'(3,4) c by (metis candidates_nonempty list.collapse)
  ultimately show thesis using that [of s'] s'(2,5) by simp
qed

subsection \<open>Properties\<close>

text \<open>
  Property C14: on a well-formed state with interrupts off, no assertion of \<open>schedule\<close> fails; the
  task at the head of the queue (the idle task when nobody else can run) gets the
  processor, the current task goes to the back if its slice ended, and the
  scheduler invariant holds again.
\<close>

theorem schedule_runs_queue_head:
  assumes "sched_wf s" "intr_get_status s = INTR_OFF" "activatable s (hd (candidates s))"
  shows "\<exists>s'. schedule s = Some s' \<and> sched_inv s' \<and>
           running_thread s' # ready_list s' = candidates s \<and> all_list s' = all_list s"
proof -
  obtain s' where s': "schedule s = Some s'" "sched_inv s'" "running_thread s' = hd (candidates s)"
    "ready_list s' = tl (candidates s)" "all_list s' = all_list s"
    using assms by (rule schedule_correct)
  then show ?thesis by (simp add: list.collapse)
qed

definition demo_task :: "u32 \<Rightarrow> task_status \<Rightarrow> task_struct" where
  "demo_task t st =
     \<lparr>self_kstack = t + 3664, task_pid = 1, status = st, priority = 31, task_name = [], task_ticks = 2,
      elapsed_ticks = 0, pgdir = 0,
      userprog_vaddr = \<lparr>vaddr_bitmap = \<lparr>btmp_bytes_len = 0, bits = \<lambda>_. 0\<rparr>, vaddr_bits = 0, vaddr_start = 0\<rparr>,
      fd_table = [0, 1, 2, -1, -1, -1, -1, -1], cwd_inode_nr = 0, parent_pid = -1, u_block_desc = [],
      u_arenas = (\<lambda>_. \<lparr>desc = None, arena_cnt = 0, large = False\<rparr>), exit_status = 0,
      stack_magic = 0x19870916\<rparr>"

text \<open>The main task runs, one worker is ready and the idle task sleeps.\<close>

definition demo_sched :: sched where
  "demo_sched =
     \<lparr>eflags = 0, phys = (\<lambda>_. 0), cr3 = 0x100000, esp = 0xc009ef00, esp0 = 0,
      tasks = (\<lambda>t. demo_task t (if t = 0xc009e000 then TASK_RUNNING else if t = 0xc0101000 then TASK_READY
                                else TASK_BLOCKED)),
      ready_list = [0xc0101000], all_list = [0xc009e000, 0xc0100000, 0xc0101000],
      idle_thread = 0xc0100000, main_thread = 0xc009e000, ticks = 0\<rparr>"

lemma demo_sched_inv: "sched_inv demo_sched"
  unfolding sched_inv_def sched_wf_def
  by (simp add: demo_sched_def demo_task_def running_thread_def frame_def)

lemma demo_sched_act: "activatable demo_sched t"
  by (simp add: activatable_def demo_sched_def demo_task_def)

lemma demo_sched_run: "running_thread demo_sched = 0xc009e000"
  by (simp add: demo_sched_def running_thread_def)

lemma demo_sched_off: "intr_get_status demo_sched = INTR_OFF"
  by (simp add: demo_sched_def intr_get_status_def)

theorem schedule_runs_queue_head_witness:
  "\<exists>s'. schedule demo_sched = Some s' \<and> sched_inv s' \<and>
     running_thread s' # ready_list s' = [0xc0101000, 0xc009e000]"
proof -
  have "candidates demo_sched = [0xc0101000, 0xc009e000]"
    unfolding candidates_def demo_sched_run by (simp add: demo_sched_def demo_task_def Let_def)
  moreover have "sched_wf demo_sched" using demo_sched_inv by (simp add: sched_inv_def)
  ultimately show ?thesis
    using schedule_runs_queue_head [OF _ demo_sched_off demo_sched_act] by force
qed

text \<open>Blocking takes the caller off the processor and unblocking puts it back at the head of the ready list.\<close>

lemma block_then_unblock:
  assumes "sched_inv s" "st = TASK_BLOCKED \<or> st = TASK_WAITING \<or> st = TASK_HANGING"
    and "running_thread s \<noteq> idle_thread s" "activatable s (successor s)"
  shows "\<exists>s1 s2. thread_block st s = Some (intr_get_status s, s1) \<and> sched_inv s1 \<and>
           running_thread s1 = hd (ready_list s @ [idle_thread s]) \<and>
           status (tasks s1 (running_thread s)) = st \<and> running_thread s \<notin> set (ready_list s1) \<and>
           thread_unblock (running_thread s) s1 = Some s2 \<and> sched_inv s2 \<and>
           ready_list s2 = running_thread s # ready_list s1"
proof -
  let ?cur = "running_thread s"
  note f = inv_facts [OF assms(1)]
  obtain s1 where s1: "thread_block st s = Some (intr_get_status s, s1)" "sched_inv s1"
    "running_thread s1 = successor s" "all_list s1 = all_list s"
    "\<And>t. t \<noteq> successor s \<Longrightarrow> status (tasks s1 t) = (if t = ?cur then st else status (tasks s t))"
    using assms(1,2) _ assms(4) by (rule thread_block_inv) (use assms(3) in auto)
  have "?cur \<noteq> successor s" using f(1) assms(3) by (cases "ready_list s") (auto simp: successor_def)
  with s1(5) have st: "status (tasks s1 ?cur) = st" by simp
  then have nr: "?cur \<notin> set (ready_list s1)"
    using wf_ready [OF inv_facts(4) [OF s1(2)], of ?cur] assms(2) by auto
  have "?cur \<in> set (all_list s1)" using f(3) s1(4) by simp
  then show ?thesis
    using thread_unblock_inv [OF s1(2), of ?cur] st nr assms(2) s1(1,2,3)
    by (auto simp: successor_def)
qed

lemma block_then_unblock_demo:
  "\<exists>s1. thread_block TASK_BLOCKED demo_sched = Some (INTR_OFF, s1) \<and> running_thread s1 = 0xc0101000"
proof -
  have "running_thread demo_sched \<noteq> idle_thread demo_sched"
    by (simp add: demo_sched_run) (simp add: demo_sched_def)
  moreover have "ready_list demo_sched = [0xc0101000]" by (simp add: demo_sched_def)
  ultimately show ?thesis
    using block_then_unblock [OF demo_sched_inv _ _ demo_sched_act, of TASK_BLOCKED] demo_sched_off by auto
qed

text \<open>\<open>expiries n\<close>: the time slice ends \<open>n\<close> times.\<close>

primrec expiries :: "nat \<Rightarrow> 'a sched_scheme \<Rightarrow> 'a sched_scheme option" where
  "expiries 0 s = Some s"
| "expiries (Suc n) s = do { s' \<leftarrow> schedule s; expiries n s' }"



text \<open>\<open>timer_intrs n\<close>: \<open>n\<close> timer interrupts in a row.\<close>

primrec timer_intrs :: "nat \<Rightarrow> 'a sched_scheme \<Rightarrow> 'a sched_scheme option" where
  "timer_intrs 0 s = Some s"
| "timer_intrs (Suc n) s = do { s' \<leftarrow> intr_timer_handler s; timer_intrs n s' }"

text \<open>
  Property C30: a task with \<open>k\<close> ticks left keeps the processor for \<open>k\<close> timer interrupts, each of
  which is charged to it, and the next one calls \<open>schedule\<close>.
\<close>

theorem time_slice_is_honoured:
  assumes "stack_magic (tasks s (running_thread s)) = 0x19870916"
    and "n \<le> unat (task_ticks (tasks s (running_thread s)))"
  shows "\<exists>s'. timer_intrs n s = Some s' \<and> running_thread s' = running_thread s \<and>
           ready_list s' = ready_list s \<and> ticks s' = ticks s + of_nat n \<and>
           elapsed_ticks (tasks s' (running_thread s)) = elapsed_ticks (tasks s (running_thread s)) + of_nat n \<and>
           unat (task_ticks (tasks s' (running_thread s))) = unat (task_ticks (tasks s (running_thread s))) - n \<and>
           (n = unat (task_ticks (tasks s (running_thread s))) \<longrightarrow>
              intr_timer_handler s' =
                schedule ((upd_task (running_thread s) (\<lambda>p. p\<lparr>elapsed_ticks := elapsed_ticks p + 1\<rparr>) s')
                            \<lparr>ticks := ticks s' + 1\<rparr>))"
  using assms
proof (induction n arbitrary: s)
  case 0
  then show ?case by (auto simp: intr_timer_handler_def unat_eq_0 Let_def)
next
  case (Suc n)
  let ?c = "running_thread s"
  define s1 where "s1 = upd_task ?c (\<lambda>p. p\<lparr>task_ticks := task_ticks p - 1\<rparr>)
    ((upd_task ?c (\<lambda>p. p\<lparr>elapsed_ticks := elapsed_ticks p + 1\<rparr>) s)\<lparr>ticks := ticks s + 1\<rparr>)"
  have nz: "task_ticks (tasks s ?c) \<noteq> 0" using Suc.prems(2) by (metis Suc_n_not_le_n le_zero_eq unat_0 zero_le le_trans not_less_eq_eq)
  then have h: "intr_timer_handler s = Some s1" using Suc.prems(1) by (simp add: intr_timer_handler_def s1_def Let_def)
  have dec: "unat (task_ticks (tasks s ?c) - 1) = unat (task_ticks (tasks s ?c)) - 1"
    using nz by (simp add: unat_minus_one)
  have run: "running_thread s1 = ?c" by (simp add: s1_def running_thread_def)
  have "n \<le> unat (task_ticks (tasks s1 (running_thread s1)))"
    using Suc.prems(2) dec unfolding run by (simp add: s1_def)
  moreover have "stack_magic (tasks s1 (running_thread s1)) = 0x19870916"
    using Suc.prems(1) unfolding run by (simp add: s1_def)
  ultimately obtain s' where s': "timer_intrs n s1 = Some s'" "running_thread s' = ?c"
    "ready_list s' = ready_list s1" "ticks s' = ticks s1 + of_nat n"
    "elapsed_ticks (tasks s' ?c) = elapsed_ticks (tasks s1 ?c) + of_nat n"
    "unat (task_ticks (tasks s' ?c)) = unat (task_ticks (tasks s1 ?c)) - n"
    "n = unat (task_ticks (tasks s1 ?c)) \<longrightarrow> intr_timer_handler s' =
       schedule ((upd_task ?c (\<lambda>p. p\<lparr>elapsed_ticks := elapsed_ticks p + 1\<rparr>) s')\<lparr>ticks := ticks s' + 1\<rparr>)"
    using Suc.IH [of s1] unfolding run by blast
  have "timer_intrs (Suc n) s = Some s'" "ready_list s' = ready_list s" "ticks s' = ticks s + of_nat (Suc n)"
    "elapsed_ticks (tasks s' ?c) = elapsed_ticks (tasks s ?c) + of_nat (Suc n)"
    "unat (task_ticks (tasks s' ?c)) = unat (task_ticks (tasks s ?c)) - Suc n"
    using h s'(1,3-6) dec by (simp_all add: s1_def)
  moreover have "n = unat (task_ticks (tasks s1 ?c))" if "Suc n = unat (task_ticks (tasks s ?c))"
    using that dec by (simp add: s1_def)
  ultimately show ?case using s'(2,7) by blast
qed

theorem time_slice_is_honoured_witness:
  "\<exists>s'. timer_intrs 2 demo_sched = Some s' \<and> running_thread s' = 0xc009e000 \<and> ticks s' = 2"
proof -
  have "stack_magic (tasks demo_sched (running_thread demo_sched)) = 0x19870916"
    "task_ticks (tasks demo_sched (running_thread demo_sched)) = 2" "ticks demo_sched = 0"
    by (simp_all add: demo_sched_def demo_task_def)
  then show ?thesis using time_slice_is_honoured [of demo_sched 2] demo_sched_run by auto
qed

end
