(* ===== verification/Sync.thy ===== *)
theory Sync
  imports Sched
begin

text \<open>
  Semaphores and re-entrant locks: thread/sync.c.  Interrupts are off from the
  start of \<open>sema_down\<close> and \<open>sema_up\<close> to their end, so the only point inside them at
  which other tasks run is the switch in \<open>thread_block\<close>.  \<open>sema_down\<close> is therefore cut
  into runs: one run goes from entry, or from the return of the switch, to either
  the end of the function (\<open>Inr\<close>) or the next switch (\<open>Inl\<close>).

  The second half is the interleaving of any number of tasks that use one lock:
  a step relation whose steps are the runs above, the plain statements of
  \<open>lock_acquire\<close> and \<open>lock_release\<close> between them, timer preemption and unrelated sleeping
  and waking.
\<close>

subsection \<open>Operations\<close>

record semaphore =
  sema_value :: u8
  waiters :: "u32 list"

record lock =
  holder :: u32
  lock_sema :: semaphore
  holder_repeat_nr :: u32

definition sema_init :: "u8 \<Rightarrow> semaphore" where
  "sema_init v = \<lparr>sema_value = v, waiters = []\<rparr>"

definition lock_init :: lock where
  "lock_init = \<lparr>holder = 0, lock_sema = sema_init 1, holder_repeat_nr = 0\<rparr>"

text \<open>The loop test and what follows it, with interrupts off; \<open>old_status\<close> is restored at the end.\<close>

definition sema_down_run ::
  "intr_status \<Rightarrow> semaphore \<Rightarrow> 'a sched_scheme \<Rightarrow> (semaphore \<times> 'a sched_scheme + semaphore \<times> 'a sched_scheme) option"
where
  "sema_down_run old_status psema s =
     (if sema_value psema = 0 then
        do {
          ASSERT (running_thread s \<notin> set (waiters psema));
          (if running_thread s \<in> set (waiters psema) then panic_spin else Some ());
          let psema = psema\<lparr>waiters := waiters psema @ [running_thread s]\<rparr>;
          (_, s) \<leftarrow> thread_block TASK_BLOCKED s;
          Some (Inl (psema, s))
        }
      else
        do {
          let psema = psema\<lparr>sema_value := sema_value psema - 1\<rparr>;
          ASSERT (sema_value psema = 0);
          Some (Inr (psema, snd (intr_set_status old_status s)))
        })"

definition sema_down ::
  "semaphore \<Rightarrow> 'a sched_scheme \<Rightarrow> intr_status \<times> (semaphore \<times> 'a sched_scheme + semaphore \<times> 'a sched_scheme) option"
where
  "sema_down psema s =
     (let (old_status, s) = intr_disable s in (old_status, sema_down_run old_status psema s))"

definition sema_up :: "semaphore \<Rightarrow> 'a sched_scheme \<Rightarrow> (semaphore \<times> 'a sched_scheme) option" where
  "sema_up psema s =
     (let (old_status, s) = intr_disable s in
      do {
        ASSERT (sema_value psema = 0);
        (psema, s) \<leftarrow>
          (if waiters psema \<noteq> [] then
             do {
               let thread_blocked = hd (waiters psema);
               s \<leftarrow> thread_unblock thread_blocked s;
               Some (psema\<lparr>waiters := tl (waiters psema)\<rparr>, s)
             }
           else Some (psema, s));
        let psema = psema\<lparr>sema_value := sema_value psema + 1\<rparr>;
        ASSERT (sema_value psema = 1);
        Some (psema, snd (intr_set_status old_status s))
      })"

text \<open>\<open>lock_acquire\<close> after \<open>sema_down\<close> has returned, and \<open>lock_release\<close> before it calls \<open>sema_up\<close>.\<close>

definition lock_take :: "u32 \<Rightarrow> lock \<Rightarrow> lock option" where
  "lock_take self plock =
     do {
       let plock = plock\<lparr>holder := self\<rparr>;
       ASSERT (holder_repeat_nr plock = 0);
       Some (plock\<lparr>holder_repeat_nr := 1\<rparr>)
     }"

definition lock_give :: "lock \<Rightarrow> lock option" where
  "lock_give plock =
     do {
       ASSERT (holder_repeat_nr plock = 1);
       Some (plock\<lparr>holder := 0, holder_repeat_nr := 0\<rparr>)
     }"

text \<open>
  The whole functions, run without interruption.  \<open>None\<close> in \<open>lock_acquire\<close> also stands for
  the case that the caller goes to sleep, since it does not return before another task has run.
\<close>

definition lock_acquire :: "lock \<Rightarrow> 'a sched_scheme \<Rightarrow> (lock \<times> 'a sched_scheme) option" where
  "lock_acquire plock s =
     (if holder plock \<noteq> running_thread s then
        (case snd (sema_down (lock_sema plock) s) of
           Some (Inr (sem, s)) \<Rightarrow>
             do {
               plock \<leftarrow> lock_take (running_thread s) (plock\<lparr>lock_sema := sem\<rparr>);
               Some (plock, s)
             }
         | _ \<Rightarrow> None)
      else Some (plock\<lparr>holder_repeat_nr := holder_repeat_nr plock + 1\<rparr>, s))"

definition lock_release :: "lock \<Rightarrow> 'a sched_scheme \<Rightarrow> (lock \<times> 'a sched_scheme) option" where
  "lock_release plock s =
     do {
       ASSERT (holder plock = running_thread s);
       (if holder_repeat_nr plock > 1
        then Some (plock\<lparr>holder_repeat_nr := holder_repeat_nr plock - 1\<rparr>, s)
        else
          do {
            plock \<leftarrow> lock_give plock;
            (sem, s) \<leftarrow> sema_up (lock_sema plock) s;
            Some (plock\<lparr>lock_sema := sem\<rparr>, s)
          })
     }"

subsection \<open>Uncontended use\<close>

definition lock_free :: "lock \<Rightarrow> bool" where
  "lock_free l \<longleftrightarrow> holder l = 0 \<and> sema_value (lock_sema l) = 1 \<and> waiters (lock_sema l) = [] \<and> holder_repeat_nr l = 0"

definition lock_held :: "u32 \<Rightarrow> u32 \<Rightarrow> lock \<Rightarrow> bool" where
  "lock_held t n l \<longleftrightarrow> holder l = t \<and> sema_value (lock_sema l) = 0 \<and> waiters (lock_sema l) = [] \<and> holder_repeat_nr l = n"

lemma restore_self [simp]: "snd (intr_set_status (intr_get_status s) (s\<lparr>eflags := eflags s AND NOT EFLAGS_IF\<rparr>)) = s"
  using intr_restore [of "s\<lparr>eflags := eflags s AND NOT EFLAGS_IF\<rparr>" s] by simp

lemma lock_init_free [simp]: "lock_free lock_init"
  by (simp add: lock_free_def lock_init_def sema_init_def)

lemma lock_acquire_free:
  assumes "lock_free l" "running_thread s \<noteq> 0"
  obtains l' where "lock_acquire l s = Some (l', s)" "lock_held (running_thread s) 1 l'"
proof -
  let ?l = "l\<lparr>lock_sema := (lock_sema l)\<lparr>sema_value := 0\<rparr>, holder := running_thread s, holder_repeat_nr := 1\<rparr>"
  have "lock_acquire l s = Some (?l, s)"
    using assms by (simp add: lock_acquire_def sema_down_def sema_down_run_def intr_disable_eq Let_def
        lock_free_def lock_take_def)
  moreover have "lock_held (running_thread s) 1 ?l"
    using assms by (simp add: lock_held_def lock_free_def)
  ultimately show thesis by (rule that)
qed

lemma lock_release_held:
  assumes "lock_held (running_thread s) 1 l"
  obtains l' where "lock_release l s = Some (l', s)" "lock_free l'"
proof -
  let ?l = "l\<lparr>holder := 0, holder_repeat_nr := 0, lock_sema := (lock_sema l)\<lparr>sema_value := 1\<rparr>\<rparr>"
  have "lock_release l s = Some (?l, s)"
    using assms by (simp add: lock_release_def lock_give_def sema_up_def intr_disable_eq Let_def lock_held_def)
  moreover have "lock_free ?l" using assms by (simp add: lock_held_def lock_free_def)
  ultimately show thesis by (rule that)
qed

lemma lock_nested:
  assumes "lock_held (running_thread s) n l" "0 < n" "n \<noteq> -1"
  obtains l1 l2 where "lock_acquire l s = Some (l1, s)" "lock_held (running_thread s) (n + 1) l1"
    "lock_release l1 s = Some (l2, s)" "l2 = l"
proof -
  have "unat n \<noteq> 4294967295" using assms(3) by (metis unat_neg_one u32_eq_iff_unat)
  with unat_less_pow [of n] have "unat (n + 1) = Suc (unat n)" by (intro unat_Suc_small) linarith
  with assms(2) have "1 < n + 1" by (simp add: word_less_nat_alt)
  then show thesis using assms
    by (intro that [of "l\<lparr>holder_repeat_nr := n + 1\<rparr>" l])
      (simp_all add: lock_acquire_def lock_release_def lock_held_def)
qed

text \<open>
  The contract that the allocators and queues rely on when they bracket their work
  with a lock nobody else holds.
\<close>

locale mutex =
  fixes acquire :: "'l \<Rightarrow> 's \<Rightarrow> ('l \<times> 's) option"
    and release :: "'l \<Rightarrow> 's \<Rightarrow> ('l \<times> 's) option"
    and free :: "'l \<Rightarrow> bool"
    and held :: "u32 \<Rightarrow> 'l \<Rightarrow> bool"
    and self :: "'s \<Rightarrow> u32"
  assumes acquire_free: "free l \<Longrightarrow> self s \<noteq> 0 \<Longrightarrow> \<exists>l'. acquire l s = Some (l', s) \<and> held (self s) l'"
    and release_held: "held (self s) l \<Longrightarrow> \<exists>l'. release l s = Some (l', s) \<and> free l'"
begin

lemma bracket:
  assumes "free l" "self s \<noteq> 0"
  obtains l1 where "acquire l s = Some (l1, s)" "held (self s) l1"
    "\<And>s'. self s' = self s \<Longrightarrow> \<exists>l2. release l1 s' = Some (l2, s') \<and> free l2"
proof -
  obtain l1 where l1: "acquire l s = Some (l1, s)" "held (self s) l1" using acquire_free [OF assms] by blast
  moreover have "\<exists>l2. release l1 s' = Some (l2, s') \<and> free l2" if "self s' = self s" for s'
    using release_held [of s' l1] l1(2) that by simp
  ultimately show thesis using that by blast
qed

end

interpretation mx: mutex lock_acquire lock_release lock_free "\<lambda>t. lock_held t 1" running_thread
proof
  fix l :: lock and s :: "'a sched_scheme"
  show "lock_free l \<Longrightarrow> running_thread s \<noteq> 0 \<Longrightarrow>
          \<exists>l'. lock_acquire l s = Some (l', s) \<and> lock_held (running_thread s) 1 l'"
    using lock_acquire_free [of l s] by blast
  show "lock_held (running_thread s) 1 l \<Longrightarrow> \<exists>l'. lock_release l s = Some (l', s) \<and> lock_free l'"
    using lock_release_held [of s l] by blast
qed

subsection \<open>Interleaved use\<close>

text \<open>
  Where a task stands with respect to the lock: outside; inside \<open>sema_down\<close>, with the
  interrupt state it has to restore; past \<open>sema_down\<close> but not yet recorded as holder;
  holding; or between clearing \<open>holder\<close> and \<open>sema_up\<close>.
\<close>

datatype pc = Outside | Down intr_status | Got | Own | Giving

record sync_state =
  sc :: sched
  lk :: lock
  pc :: "u32 \<Rightarrow> pc"

abbreviation me :: "sync_state \<Rightarrow> u32" where
  "me c \<equiv> running_thread (sc c)"

definition set_sema :: "semaphore \<Rightarrow> lock \<Rightarrow> lock" where
  "set_sema sem l = l\<lparr>lock_sema := sem\<rparr>"

inductive sync_step :: "sync_state \<Rightarrow> sync_state \<Rightarrow> bool" where
  acquire_pass:
    "pc c (me c) = Outside \<Longrightarrow> me c \<noteq> idle_thread (sc c) \<Longrightarrow> holder (lk c) \<noteq> me c \<Longrightarrow>
     sema_down (lock_sema (lk c)) (sc c) = (old, Some (Inr (sem, s))) \<Longrightarrow>
     sync_step c (c\<lparr>sc := s, lk := set_sema sem (lk c), pc := (pc c)(me c := Got)\<rparr>)"
| acquire_sleep:
    "pc c (me c) = Outside \<Longrightarrow> me c \<noteq> idle_thread (sc c) \<Longrightarrow> holder (lk c) \<noteq> me c \<Longrightarrow>
     sema_down (lock_sema (lk c)) (sc c) = (old, Some (Inl (sem, s))) \<Longrightarrow>
     sync_step c (c\<lparr>sc := s, lk := set_sema sem (lk c), pc := (pc c)(me c := Down old)\<rparr>)"
| retry_pass:
    "pc c (me c) = Down old \<Longrightarrow>
     sema_down_run old (lock_sema (lk c)) (sc c) = Some (Inr (sem, s)) \<Longrightarrow>
     sync_step c (c\<lparr>sc := s, lk := set_sema sem (lk c), pc := (pc c)(me c := Got)\<rparr>)"
| retry_sleep:
    "pc c (me c) = Down old \<Longrightarrow>
     sema_down_run old (lock_sema (lk c)) (sc c) = Some (Inl (sem, s)) \<Longrightarrow>
     sync_step c (c\<lparr>sc := s, lk := set_sema sem (lk c)\<rparr>)"
| take:
    "pc c (me c) = Got \<Longrightarrow> lock_take (me c) (lk c) = Some l \<Longrightarrow>
     sync_step c (c\<lparr>lk := l, pc := (pc c)(me c := Own)\<rparr>)"
| nest:
    "pc c (me c) = Own \<Longrightarrow> holder (lk c) = me c \<Longrightarrow> holder_repeat_nr (lk c) \<noteq> -1 \<Longrightarrow>
     sync_step c (c\<lparr>lk := (lk c)\<lparr>holder_repeat_nr := holder_repeat_nr (lk c) + 1\<rparr>\<rparr>)"
| unnest:
    "pc c (me c) = Own \<Longrightarrow> holder (lk c) = me c \<Longrightarrow> holder_repeat_nr (lk c) > 1 \<Longrightarrow>
     sync_step c (c\<lparr>lk := (lk c)\<lparr>holder_repeat_nr := holder_repeat_nr (lk c) - 1\<rparr>\<rparr>)"
| give:
    "pc c (me c) = Own \<Longrightarrow> \<not> holder_repeat_nr (lk c) > 1 \<Longrightarrow> lock_give (lk c) = Some l \<Longrightarrow>
     sync_step c (c\<lparr>lk := l, pc := (pc c)(me c := Giving)\<rparr>)"
| up:
    "pc c (me c) = Giving \<Longrightarrow> sema_up (lock_sema (lk c)) (sc c) = Some (sem, s) \<Longrightarrow>
     sync_step c (c\<lparr>sc := s, lk := set_sema sem (lk c), pc := (pc c)(me c := Outside)\<rparr>)"
| preempt:
    "schedule ((sc c)\<lparr>eflags := eflags (sc c) AND NOT EFLAGS_IF\<rparr>) = Some s \<Longrightarrow>
     sync_step c (c\<lparr>sc := s\<rparr>)"
| sleep:
    "(\<And>old. pc c (me c) \<noteq> Down old) \<Longrightarrow> me c \<noteq> idle_thread (sc c) \<or> st = TASK_BLOCKED \<Longrightarrow>
     thread_block st (sc c) = Some (old, s) \<Longrightarrow>
     sync_step c (c\<lparr>sc := s\<rparr>)"
| wake:
    "t \<in> set (all_list (sc c)) \<Longrightarrow> t \<notin> set (waiters (lock_sema (lk c))) \<Longrightarrow>
     thread_unblock t (sc c) = Some s \<Longrightarrow>
     sync_step c (c\<lparr>sc := s\<rparr>)"
| irq:
    "sync_step c (c\<lparr>sc := (sc c)\<lparr>eflags := e\<rparr>\<rparr>)"

inductive sync_reach :: "sync_state \<Rightarrow> bool" where
  init: "sched_inv s \<Longrightarrow> sync_reach \<lparr>sc = s, lk = lock_init, pc = (\<lambda>_. Outside)\<rparr>"
| step: "sync_reach c \<Longrightarrow> sync_step c c' \<Longrightarrow> sync_reach c'"

text \<open>The invariant.\<close>

definition owners :: "sync_state \<Rightarrow> u32 set" where
  "owners c = {t. pc c t = Got \<or> pc c t = Own \<or> pc c t = Giving}"

definition in_down :: "sync_state \<Rightarrow> u32 \<Rightarrow> bool" where
  "in_down c t \<longleftrightarrow> (\<exists>old. pc c t = Down old)"

definition awake :: "sched \<Rightarrow> u32 \<Rightarrow> bool" where
  "awake s t \<longleftrightarrow> status (tasks s t) = TASK_READY \<or> status (tasks s t) = TASK_RUNNING"

definition wait_inv :: "sync_state \<Rightarrow> bool" where
  "wait_inv c \<longleftrightarrow>
     distinct (waiters (lock_sema (lk c))) \<and>
     (\<forall>t \<in> set (waiters (lock_sema (lk c))).
        t \<in> set (all_list (sc c)) \<and> status (tasks (sc c) t) = TASK_BLOCKED \<and> in_down c t) \<and>
     (\<forall>t. in_down c t \<and> t \<notin> set (waiters (lock_sema (lk c))) \<longrightarrow> awake (sc c) t) \<and>
     (\<forall>t. pc c t \<noteq> Outside \<longrightarrow> t \<in> set (all_list (sc c)) \<and> t \<noteq> idle_thread (sc c))"

definition own_inv :: "sync_state \<Rightarrow> bool" where
  "own_inv c \<longleftrightarrow>
     (sema_value (lock_sema (lk c)) = 1 \<and> owners c = {} \<or>
      sema_value (lock_sema (lk c)) = 0 \<and> (\<exists>t. owners c = {t})) \<and>
     (\<forall>t. pc c t = Own \<longrightarrow> holder (lk c) = t \<and> holder_repeat_nr (lk c) \<noteq> 0) \<and>
     (\<forall>t. pc c t = Got \<or> pc c t = Giving \<longrightarrow> holder (lk c) = 0) \<and>
     (owners c = {} \<longrightarrow> holder (lk c) = 0) \<and>
     (holder (lk c) = 0 \<longrightarrow> holder_repeat_nr (lk c) = 0)"

definition wake_inv :: "sync_state \<Rightarrow> bool" where
  "wake_inv c \<longleftrightarrow>
     (waiters (lock_sema (lk c)) \<noteq> [] \<and> sema_value (lock_sema (lk c)) = 1 \<longrightarrow>
        (\<exists>t. in_down c t \<and> t \<notin> set (waiters (lock_sema (lk c)))))"

definition sync_inv :: "sync_state \<Rightarrow> bool" where
  "sync_inv c \<longleftrightarrow> sched_inv (sc c) \<and> wait_inv c \<and> own_inv c \<and> wake_inv c"

subsection \<open>Effects of the runs\<close>

lemma sched_inv_eflags [simp]: "sched_inv (s\<lparr>eflags := e\<rparr>) = sched_inv s"
  by (simp add: sched_inv_def sched_wf_def)

lemma intr_set_status_eflags: "\<exists>e. snd (intr_set_status st s) = s\<lparr>eflags := e\<rparr>"
  by (cases st) (auto simp: intr_set_status_def intr_enable_def intr_disable_eq sti_def intro: exI [of _ "eflags s"])

lemma block_effect:
  assumes inv: "sched_inv s" and b: "thread_block st s = Some (old, s')"
    and idle: "running_thread s \<noteq> idle_thread s \<or> st = TASK_BLOCKED"
  shows "sched_inv s'" "all_list s' = all_list s" "idle_thread s' = idle_thread s" "old = intr_get_status s"
    and "running_thread s \<noteq> idle_thread s \<Longrightarrow> status (tasks s' (running_thread s)) = st"
    and "t \<in> set (all_list s) \<Longrightarrow> t \<noteq> idle_thread s \<Longrightarrow> t \<noteq> running_thread s \<Longrightarrow>
           keeps_state s s' t"
proof -
  let ?b = "set_status (running_thread s) st (s\<lparr>eflags := eflags s AND NOT EFLAGS_IF\<rparr>)"
  from b have st: "st = TASK_BLOCKED \<or> st = TASK_WAITING \<or> st = TASK_HANGING"
    and sch: "schedule ?b = Some s'" and old: "old = intr_get_status s"
    by (auto simp: thread_block_def intr_disable_eq bind_eq_Some_conv)
  have wf: "sched_wf ?b" using inv st idle by (intro wf_leave) auto
  have off: "intr_get_status ?b = INTR_OFF" by simp
  note e = schedule_effect [OF wf off sch]
  from e(1-3) old show "sched_inv s'" "all_list s' = all_list s" "idle_thread s' = idle_thread s" "old = intr_get_status s"
    by simp_all
  show "running_thread s \<noteq> idle_thread s \<Longrightarrow> status (tasks s' (running_thread s)) = st"
    using e(4) [of "running_thread s"] inv_facts(3) [OF inv] st by (auto simp: keeps_state_def)
  show "t \<in> set (all_list s) \<Longrightarrow> t \<noteq> idle_thread s \<Longrightarrow> t \<noteq> running_thread s \<Longrightarrow>
           keeps_state s s' t"
    using e(4) [of t] by (simp add: keeps_state_def)
qed

lemma sema_down_run_cases:
  assumes "sema_down_run old p s = Some r"
  shows "sema_value p = 0 \<and> running_thread s \<notin> set (waiters p) \<and>
           (\<exists>o' s'. thread_block TASK_BLOCKED s = Some (o', s') \<and>
              r = Inl (p\<lparr>waiters := waiters p @ [running_thread s]\<rparr>, s')) \<or>
         sema_value p = 1 \<and> r = Inr (p\<lparr>sema_value := 0\<rparr>, snd (intr_set_status old s))"
  using assms by (auto simp: sema_down_run_def bind_eq_Some_conv Let_def split: if_splits)

lemma sema_up_cases:
  assumes "sema_up p s = Some (p', s')"
  shows "sema_value p = 0 \<and>
           (waiters p = [] \<and> p' = p\<lparr>sema_value := 1\<rparr> \<and> s' = s \<or>
            waiters p \<noteq> [] \<and> p' = p\<lparr>waiters := tl (waiters p), sema_value := 1\<rparr> \<and>
              thread_unblock (hd (waiters p)) s = Some s')"
proof -
  let ?s = "s\<lparr>eflags := eflags s AND NOT EFLAGS_IF\<rparr>"
  have unb: "thread_unblock t s = Some (snd (intr_set_status (intr_get_status s) s1))"
    if "thread_unblock t ?s = Some s1" for t s1
  proof -
    from that have s1: "s1 = set_status t TASK_READY (?s\<lparr>ready_list := t # ready_list s\<rparr>)"
      by (auto simp: thread_unblock_eq split: if_splits)
    then have "snd (intr_set_status (intr_get_status s) s1) = s1\<lparr>eflags := eflags s\<rparr>"
      by (intro intr_restore) simp
    also have "\<dots> = set_status t TASK_READY (s\<lparr>ready_list := t # ready_list s\<rparr>)"
      by (simp add: s1 set_status_def upd_task_def)
    finally show ?thesis using that by (auto simp: thread_unblock_eq split: if_splits)
  qed
  show ?thesis using assms unb
    by (auto simp: sema_up_def intr_disable_eq bind_eq_Some_conv Let_def split: if_splits)
qed

lemma unblock_effect:
  assumes "sched_inv s" "thread_unblock t s = Some s'" "t \<in> set (all_list s)"
  shows "sched_inv s'" "all_list s' = all_list s" "idle_thread s' = idle_thread s"
    "running_thread s' = running_thread s"
    "status (tasks s' x) = (if x = t then TASK_READY else status (tasks s x))"
proof -
  from assms(2) have st: "status (tasks s t) \<in> {TASK_BLOCKED, TASK_WAITING, TASK_HANGING}"
    and s': "s' = set_status t TASK_READY (s\<lparr>ready_list := t # ready_list s\<rparr>)"
    by (auto simp: thread_unblock_eq split: if_splits)
  show "sched_inv s'" unfolding s' by (rule thread_unblock_inv(2) [OF assms(1,3) st])
  show "all_list s' = all_list s" "idle_thread s' = idle_thread s" "running_thread s' = running_thread s"
    "status (tasks s' x) = (if x = t then TASK_READY else status (tasks s x))"
    by (simp_all add: s')
qed

subsection \<open>Preservation\<close>

lemma sync_inv_sc:
  assumes "sync_inv c" "sched_inv s" "all_list s = all_list (sc c)" "idle_thread s = idle_thread (sc c)"
    and "\<And>t. t \<in> set (waiters (lock_sema (lk c))) \<Longrightarrow> status (tasks s t) = TASK_BLOCKED"
    and "\<And>t. in_down c t \<Longrightarrow> t \<notin> set (waiters (lock_sema (lk c))) \<Longrightarrow> awake s t"
  shows "sync_inv (c\<lparr>sc := s\<rparr>)"
  using assms unfolding sync_inv_def wait_inv_def own_inv_def wake_inv_def owners_def in_down_def by simp

lemma pc_facts:
  assumes "sync_inv c" "pc c t \<noteq> Outside"
  shows "t \<in> set (all_list (sc c))" "t \<noteq> idle_thread (sc c)"
  using assms unfolding sync_inv_def wait_inv_def by blast+

lemma in_down_pc: "in_down c t \<Longrightarrow> pc c t \<noteq> Outside"
  by (auto simp: in_down_def)

lemma waiter_facts:
  assumes "sync_inv c" "t \<in> set (waiters (lock_sema (lk c)))"
  shows "t \<in> set (all_list (sc c))" "status (tasks (sc c) t) = TASK_BLOCKED" "in_down c t"
    "t \<noteq> idle_thread (sc c)" "t \<noteq> me c"
proof -
  show a: "t \<in> set (all_list (sc c))" and b: "status (tasks (sc c) t) = TASK_BLOCKED" and d: "in_down c t"
    using assms by (auto simp: sync_inv_def wait_inv_def)
  show "t \<noteq> idle_thread (sc c)" using pc_facts(2) [OF assms(1) in_down_pc [OF d]] .
  show "t \<noteq> me c" using assms(1) b by (auto simp: sync_inv_def sched_inv_def)
qed

lemma down_facts:
  assumes "sync_inv c" "in_down c t" "t \<notin> set (waiters (lock_sema (lk c)))"
  shows "t \<in> set (all_list (sc c))" "t \<noteq> idle_thread (sc c)"
    "status (tasks (sc c) t) \<in> {TASK_RUNNING, TASK_READY}"
  using assms pc_facts [OF assms(1) in_down_pc [OF assms(2)]]
  by (auto simp: sync_inv_def wait_inv_def awake_def)

lemma sync_inv_keeps:
  assumes inv: "sync_inv c" and s: "sched_inv s" "all_list s = all_list (sc c)" "idle_thread s = idle_thread (sc c)"
    and k: "\<And>t. t \<in> set (all_list (sc c)) \<Longrightarrow> t \<noteq> idle_thread (sc c) \<Longrightarrow> in_down c t \<Longrightarrow> keeps_state (sc c) s t"
  shows "sync_inv (c\<lparr>sc := s\<rparr>)"
proof (rule sync_inv_sc [OF inv s])
  fix t
  show "status (tasks s t) = TASK_BLOCKED" if "t \<in> set (waiters (lock_sema (lk c)))"
    using waiter_facts [OF inv that] k [of t] by (simp add: keeps_state_def)
  show "awake s t" if "in_down c t" "t \<notin> set (waiters (lock_sema (lk c)))"
    using down_facts [OF inv that] k [of t] that(1) by (auto simp: keeps_state_def awake_def)
qed

lemma not_waiting: "sync_inv c \<Longrightarrow> me c \<notin> set (waiters (lock_sema (lk c)))"
  using waiter_facts(5) by blast

text \<open>One run of \<open>sema_down\<close> that goes to sleep, and one that passes.\<close>

lemma down_sleep_inv:
  assumes inv: "sync_inv c" and p: "pc c (me c) = Outside \<or> in_down c (me c)" and ni: "me c \<noteq> idle_thread (sc c)"
    and v: "sema_value (lock_sema (lk c)) = 0"
    and b: "thread_block TASK_BLOCKED ((sc c)\<lparr>eflags := e\<rparr>) = Some (o', s)"
  shows "sync_inv (c\<lparr>sc := s,
           lk := set_sema ((lock_sema (lk c))\<lparr>waiters := waiters (lock_sema (lk c)) @ [me c]\<rparr>) (lk c),
           pc := (pc c)(me c := Down d)\<rparr>)" (is "sync_inv ?c")
proof -
  have si: "sched_inv ((sc c)\<lparr>eflags := e\<rparr>)" using inv by (simp add: sync_inv_def)
  note be = block_effect [OF si b]
  have s: "sched_inv s" "all_list s = all_list (sc c)" "idle_thread s = idle_thread (sc c)"
    "status (tasks s (me c)) = TASK_BLOCKED"
    using be(1-3,5) ni by simp_all
  have others: "keeps_state (sc c) s t"
    if "t \<in> set (all_list (sc c))" "t \<noteq> idle_thread (sc c)" "t \<noteq> me c" for t
    using be(6) [of t] that ni by (simp add: keeps_state_def)
  have own: "owners ?c = owners c" using p by (auto simp: owners_def in_down_def)
  have "wait_inv ?c"
  proof -
    have "status (tasks s t) = TASK_BLOCKED" if "t \<in> set (waiters (lock_sema (lk c)))" for t
      using others [of t] waiter_facts [OF inv that] by (simp add: keeps_state_def)
    moreover have "awake s t" if "in_down c t" "t \<notin> set (waiters (lock_sema (lk c)))" "t \<noteq> me c" for t
      using others [of t] down_facts [OF inv that(1,2)] that(3) by (auto simp: awake_def keeps_state_def)
    moreover have "me c \<in> set (all_list (sc c))" using inv inv_facts(3) by (auto simp: sync_inv_def)
    ultimately show ?thesis using inv s ni not_waiting [OF inv]
      unfolding wait_inv_def sync_inv_def in_down_def by (simp add: set_sema_def)
  qed
  moreover have "own_inv ?c"
    using inv p own unfolding own_inv_def sync_inv_def in_down_def by (auto simp: set_sema_def)
  moreover have "wake_inv ?c" using v by (simp add: wake_inv_def set_sema_def)
  ultimately show ?thesis using s(1) by (simp add: sync_inv_def)
qed

lemma down_pass_inv:
  assumes inv: "sync_inv c" and p: "pc c (me c) = Outside \<or> in_down c (me c)" and ni: "me c \<noteq> idle_thread (sc c)"
    and v: "sema_value (lock_sema (lk c)) = 1"
  shows "sync_inv (c\<lparr>sc := (sc c)\<lparr>eflags := e\<rparr>, lk := set_sema ((lock_sema (lk c))\<lparr>sema_value := 0\<rparr>) (lk c),
           pc := (pc c)(me c := Got)\<rparr>)" (is "sync_inv ?c")
proof -
  have oc: "owners c = {}" and h: "holder (lk c) = 0" using inv v by (auto simp: sync_inv_def own_inv_def)
  then have no: "pc c t \<noteq> Got" "pc c t \<noteq> Own" "pc c t \<noteq> Giving" for t by (auto simp: owners_def)
  have "owners ?c = {me c}" using no by (auto simp: owners_def)
  moreover have "me c \<in> set (all_list (sc c))" using inv inv_facts(3) by (auto simp: sync_inv_def)
  ultimately show ?thesis using inv h no ni not_waiting [OF inv]
    unfolding sync_inv_def wait_inv_def own_inv_def wake_inv_def in_down_def awake_def
    by (auto simp: set_sema_def)
qed

lemma owner_unique:
  assumes "sync_inv c" "t \<in> owners c"
  shows "owners c = {t}" "sema_value (lock_sema (lk c)) = 0"
  using assms by (auto simp: sync_inv_def own_inv_def)

text \<open>A step of the owner that changes only the lock's bookkeeping and its own position.\<close>

lemma owner_step_inv:
  assumes inv: "sync_inv c" and o: "me c \<in> owners c" and p: "p = Got \<or> p = Own \<or> p = Giving"
    and l: "lock_sema l = lock_sema (lk c)"
    and h: "if p = Own then holder l = me c \<and> holder_repeat_nr l \<noteq> 0 else holder l = 0 \<and> holder_repeat_nr l = 0"
  shows "sync_inv (c\<lparr>lk := l, pc := (pc c)(me c := p)\<rparr>)" (is "sync_inv ?c")
proof -
  note u = owner_unique [OF inv o]
  have oc: "owners ?c = {me c}" using u(1) p by (auto simp: owners_def)
  then have other: "t \<noteq> me c \<Longrightarrow> pc c t \<noteq> Got \<and> pc c t \<noteq> Own \<and> pc c t \<noteq> Giving" for t
    using u(1) by (auto simp: owners_def)
  have down: "in_down ?c t = in_down c t" for t
    using o p by (auto simp: in_down_def owners_def)
  have mm: "me c \<in> set (all_list (sc c))" "me c \<noteq> idle_thread (sc c)"
    using pc_facts [OF inv, of "me c"] o by (auto simp: owners_def)
  have "me c \<noteq> 0" using mm(1) inv by (auto simp: sync_inv_def sched_inv_def sched_wf_def)
  then have "own_inv ?c" using oc u(2) p h other l by (auto simp: own_inv_def split: if_splits)
  moreover have "wait_inv ?c" using inv down mm l unfolding sync_inv_def wait_inv_def by auto
  moreover have "wake_inv ?c" using u(2) l by (simp add: wake_inv_def)
  ultimately show ?thesis using inv by (simp add: sync_inv_def)
qed

lemma up_inv:
  assumes inv: "sync_inv c" and g: "pc c (me c) = Giving" and u: "sema_up (lock_sema (lk c)) (sc c) = Some (sem, s)"
  shows "sync_inv (c\<lparr>sc := s, lk := set_sema sem (lk c), pc := (pc c)(me c := Outside)\<rparr>)" (is "sync_inv ?c")
proof -
  let ?w = "waiters (lock_sema (lk c))"
  have "me c \<in> owners c" using g by (simp add: owners_def)
  note ou = owner_unique [OF inv this]
  then have none: "pc c t \<noteq> Got \<and> pc c t \<noteq> Own \<and> pc c t \<noteq> Giving" if "t \<noteq> me c" for t
    using that by (auto simp: owners_def)
  have h: "holder (lk c) = 0" "holder_repeat_nr (lk c) = 0" using inv g by (auto simp: sync_inv_def own_inv_def)
  have oc: "owners ?c = {}" using none by (auto simp: owners_def)
  have down: "in_down ?c t = in_down c t" for t using g by (auto simp: in_down_def)
  have eff: "sched_inv s \<and> all_list s = all_list (sc c) \<and> idle_thread s = idle_thread (sc c) \<and>
      sema_value sem = 1 \<and> waiters sem = tl ?w \<and>
      (\<forall>x. status (tasks s x) = (if ?w \<noteq> [] \<and> x = hd ?w then TASK_READY else status (tasks (sc c) x)))"
  proof (cases ?w)
    case Nil
    then show ?thesis using sema_up_cases [OF u] inv by (auto simp: sync_inv_def)
  next
    case (Cons t ts)
    have t: "t \<in> set (all_list (sc c))" using waiter_facts(1) [OF inv, of t] Cons by simp
    moreover have si: "sched_inv (sc c)" using inv by (simp add: sync_inv_def)
    ultimately show ?thesis using sema_up_cases [OF u] Cons unblock_effect [of "sc c" t s] by auto
  qed
  have own: "own_inv ?c" using eff oc h none by (auto simp: own_inv_def set_sema_def)
  have d: "distinct ?w" using inv by (auto simp: sync_inv_def wait_inv_def)
  have "wait_inv ?c"
  proof -
    have "status (tasks s t) = TASK_BLOCKED" "t \<in> set (all_list s)" "in_down c t" if "t \<in> set (tl ?w)" for t
    proof -
      have w: "t \<in> set ?w" using that by (cases ?w) auto
      moreover have "t \<noteq> hd ?w" using that d by (cases ?w) auto
      ultimately show "status (tasks s t) = TASK_BLOCKED" "t \<in> set (all_list s)" "in_down c t"
        using waiter_facts [OF inv w] eff by auto
    qed
    moreover have "awake s t" if "in_down c t" "t \<notin> set (tl ?w)" for t
    proof (cases "t \<in> set ?w")
      case True
      with that(2) have "?w \<noteq> [] \<and> t = hd ?w" by (cases ?w) auto
      then show ?thesis using eff by (simp add: awake_def)
    next
      case False
      have "hd ?w \<in> set ?w \<or> ?w = []" by (cases ?w) auto
      with False have "status (tasks s t) = status (tasks (sc c) t)" using eff by auto
      with down_facts(3) [OF inv that(1) False] show ?thesis by (auto simp: awake_def)
    qed
    ultimately show ?thesis using eff down pc_facts [OF inv] distinct_tl [OF d]
      unfolding wait_inv_def by (simp add: set_sema_def)
  qed
  moreover have "wake_inv ?c"
  proof (cases ?w)
    case Nil
    then show ?thesis using eff by (simp add: wake_inv_def set_sema_def)
  next
    case (Cons t ts)
    then have "in_down ?c t" "t \<notin> set (tl ?w)" using waiter_facts(3) [OF inv, of t] down d by auto
    then show ?thesis using eff unfolding wake_inv_def set_sema_def by auto
  qed
  ultimately show ?thesis using eff own by (simp add: sync_inv_def)
qed

lemma sema_down_run_inv:
  assumes inv: "sync_inv c" and p: "pc c (me c) = Outside \<or> in_down c (me c)" and ni: "me c \<noteq> idle_thread (sc c)"
    and r: "sema_down_run old (lock_sema (lk c)) ((sc c)\<lparr>eflags := e\<rparr>) = Some r"
  shows "case r of
           Inl (sem, s) \<Rightarrow> sync_inv (c\<lparr>sc := s, lk := set_sema sem (lk c), pc := (pc c)(me c := Down d)\<rparr>)
         | Inr (sem, s) \<Rightarrow> sync_inv (c\<lparr>sc := s, lk := set_sema sem (lk c), pc := (pc c)(me c := Got)\<rparr>)"
proof -
  obtain e' where e': "snd (intr_set_status old ((sc c)\<lparr>eflags := e\<rparr>)) = (sc c)\<lparr>eflags := e'\<rparr>"
    using intr_set_status_eflags [of old "(sc c)\<lparr>eflags := e\<rparr>"] by auto
  from sema_down_run_cases [OF r] show ?thesis
    using down_sleep_inv [OF inv p ni, of e] down_pass_inv [OF inv p ni] e' by auto
qed

lemma sync_step_inv: "sync_step c c' \<Longrightarrow> sync_inv c \<Longrightarrow> sync_inv c'"
proof (induction rule: sync_step.induct)
  case (acquire_pass c old sem s)
  then show ?case
    using sema_down_run_inv [OF acquire_pass.prems, of old "eflags (sc c) AND NOT EFLAGS_IF" "Inr (sem, s)"]
    by (auto simp: sema_down_def intr_disable_eq Let_def)
next
  case (acquire_sleep c old sem s)
  then show ?case
    using sema_down_run_inv [OF acquire_sleep.prems, of old "eflags (sc c) AND NOT EFLAGS_IF" _ old]
    by (auto simp: sema_down_def intr_disable_eq Let_def)
next
  case (retry_pass c old sem s)
  then show ?case
    using sema_down_run_inv [OF retry_pass.prems, of old "eflags (sc c)" "Inr (sem, s)"] pc_facts [OF retry_pass.prems, of "me c"]
    by (auto simp: in_down_def)
next
  case (retry_sleep c old sem s)
  have "(pc c)(me c := Down old) = pc c" using retry_sleep.hyps(1) by (simp add: fun_upd_idem)
  then show ?case using retry_sleep
    sema_down_run_inv [OF retry_sleep.prems, of old "eflags (sc c)" _ old] pc_facts [OF retry_sleep.prems, of "me c"]
    by (auto simp: in_down_def)
next
  case (take c l)
  then show ?case by (intro owner_step_inv) (auto simp: owners_def lock_take_def Let_def)
next
  case (nest c)
  have "(pc c)(me c := Own) = pc c" using nest.hyps(1) by (simp add: fun_upd_idem)
  moreover have "holder_repeat_nr (lk c) + 1 \<noteq> 0" using nest.hyps(3) by (simp add: add_eq_0_iff2)
  ultimately show ?case
    using owner_step_inv [OF nest.prems, of Own "(lk c)\<lparr>holder_repeat_nr := holder_repeat_nr (lk c) + 1\<rparr>"] nest.hyps
    by (simp add: owners_def)
next
  case (unnest c)
  have "(pc c)(me c := Own) = pc c" using unnest.hyps(1) by (simp add: fun_upd_idem)
  moreover have "holder_repeat_nr (lk c) - 1 \<noteq> 0" using unnest.hyps(3) by auto
  ultimately show ?case
    using owner_step_inv [OF unnest.prems, of Own "(lk c)\<lparr>holder_repeat_nr := holder_repeat_nr (lk c) - 1\<rparr>"] unnest.hyps
    by (simp add: owners_def)
next
  case (give c l)
  then show ?case by (intro owner_step_inv) (auto simp: owners_def lock_give_def)
next
  case (up c sem s)
  then show ?case by (intro up_inv)
next
  case (preempt c s)
  let ?s = "(sc c)\<lparr>eflags := eflags (sc c) AND NOT EFLAGS_IF\<rparr>"
  have si: "sched_inv (sc c)" using preempt.prems by (simp add: sync_inv_def)
  then have wf: "sched_wf ?s" using sched_inv_eflags by (auto simp: sched_inv_def)
  have off: "intr_get_status ?s = INTR_OFF" by simp
  note e = schedule_effect [OF wf off preempt.hyps]
  have run: "status (tasks ?s (running_thread ?s)) = TASK_RUNNING" using inv_facts(2) [OF si] by simp
  have k: "keeps_state (sc c) s t" if "t \<in> set (all_list (sc c))" for t
    using e(4) [of t] that run by (simp add: keeps_state_def)
  show ?case
    using e(1-3) k by (intro sync_inv_keeps [OF preempt.prems]) simp_all
next
  case (sleep c st old s)
  have si: "sched_inv (sc c)" using sleep.prems by (simp add: sync_inv_def)
  note e = block_effect [OF si sleep.hyps(3,2)]
  have "\<not> in_down c (me c)" using sleep.hyps(1) by (auto simp: in_down_def)
  then show ?case
    using e(1-3,6) by (intro sync_inv_keeps [OF sleep.prems]) auto
next
  case (wake t c s)
  have si: "sched_inv (sc c)" using wake.prems by (simp add: sync_inv_def)
  note e = unblock_effect [OF si wake.hyps(3,1)]
  show ?case
    using e wake.hyps(2) waiter_facts(2) [OF wake.prems] down_facts(3) [OF wake.prems]
    by (intro sync_inv_sc [OF wake.prems]) (auto simp: awake_def)
next
  case (irq c e)
  then show ?case
    by (intro sync_inv_keeps [OF irq]) (auto simp: keeps_state_def sync_inv_def)
qed

lemma sync_reach_inv: "sync_reach c \<Longrightarrow> sync_inv c"
proof (induction rule: sync_reach.induct)
  case (init s)
  then show ?case
    by (simp add: sync_inv_def wait_inv_def own_inv_def wake_inv_def owners_def in_down_def
        lock_init_def sema_init_def)
next
  case (step c c')
  then show ?case using sync_step_inv by blast
qed

subsection \<open>Properties\<close>

text \<open>
  Property C3: in every interleaving of tasks that share a lock, at most one task is between the
  end of \<open>sema_down\<close> and \<open>sema_up\<close>, and the task that is inside the critical section is the
  recorded holder.
\<close>

theorem lock_mutual_exclusion:
  assumes "sync_reach c" "t \<in> owners c" "t' \<in> owners c"
  shows "t = t' \<and> (pc c t = Own \<longrightarrow> holder (lk c) = t)"
proof -
  have inv: "sync_inv c" using assms(1) by (rule sync_reach_inv)
  have "owners c = {t}" by (rule owner_unique [OF inv assms(2)])
  then show ?thesis using assms(3) inv by (auto simp: sync_inv_def own_inv_def)
qed

lemma demo_acquires:
  "sync_step \<lparr>sc = demo_sched, lk = lock_init, pc = (\<lambda>_. Outside)\<rparr>
     \<lparr>sc = demo_sched, lk = set_sema \<lparr>sema_value = 0, waiters = []\<rparr> lock_init,
      pc = (\<lambda>_. Outside)(0xc009e000 := Got)\<rparr>"
proof -
  let ?c = "\<lparr>sc = demo_sched, lk = lock_init, pc = (\<lambda>_. Outside)\<rparr>"
  have "sema_down (sema_init 1) demo_sched = (INTR_OFF, Some (Inr (\<lparr>sema_value = 0, waiters = []\<rparr>, demo_sched)))"
    using demo_sched_off restore_self [of demo_sched]
    by (simp add: sema_down_def sema_down_run_def intr_disable_eq sema_init_def Let_def)
  moreover have "idle_thread demo_sched \<noteq> 0xc009e000" by (simp add: demo_sched_def)
  ultimately show ?thesis
    using acquire_pass [of ?c INTR_OFF "\<lparr>sema_value = 0, waiters = []\<rparr>" demo_sched]
    by (simp add: demo_sched_run lock_init_def)
qed

theorem lock_mutual_exclusion_witness:
  "\<exists>c. sync_reach c \<and> 0xc009e000 \<in> owners c \<and> (\<forall>t \<in> owners c. t = 0xc009e000)"
proof -
  let ?c = "\<lparr>sc = demo_sched, lk = set_sema \<lparr>sema_value = 0, waiters = []\<rparr> lock_init,
      pc = (\<lambda>_. Outside)(0xc009e000 := Got)\<rparr>"
  have r: "sync_reach ?c" using sync_reach.intros demo_sched_inv demo_acquires by blast
  have o: "0xc009e000 \<in> owners ?c" by (simp add: owners_def)
  show ?thesis using r o lock_mutual_exclusion [OF r _ o] by blast
qed

text \<open>
  Property C12: no assertion of \<open>sema_down\<close>, \<open>sema_up\<close>, \<open>lock_acquire\<close> or \<open>lock_release\<close> ever fails:
  in every reachable interleaving, whatever the current task does next with the
  lock returns, or goes to sleep.
\<close>

theorem lock_assertions_hold:
  assumes "sync_reach c" "activatable (sc c) (successor (sc c))"
  shows "(pc c (me c) = Outside \<and> me c \<noteq> idle_thread (sc c) \<longrightarrow> snd (sema_down (lock_sema (lk c)) (sc c)) \<noteq> None) \<and>
         (pc c (me c) = Down old \<longrightarrow> sema_down_run old (lock_sema (lk c)) (sc c) \<noteq> None) \<and>
         (pc c (me c) = Got \<longrightarrow> lock_take (me c) (lk c) \<noteq> None) \<and>
         (pc c (me c) = Own \<longrightarrow> holder (lk c) = me c \<and> (holder_repeat_nr (lk c) > 1 \<or> lock_give (lk c) \<noteq> None)) \<and>
         (pc c (me c) = Giving \<longrightarrow> sema_up (lock_sema (lk c)) (sc c) \<noteq> None)"
proof -
  have inv: "sync_inv c" using assms(1) by (rule sync_reach_inv)
  have si: "sched_inv (sc c)" using inv by (simp add: sync_inv_def)
  have v: "sema_value (lock_sema (lk c)) = 0 \<or> sema_value (lock_sema (lk c)) = 1"
    using inv by (auto simp: sync_inv_def own_inv_def)
  have down: "sema_down_run old (lock_sema (lk c)) ((sc c)\<lparr>eflags := e\<rparr>) \<noteq> None"
    if "me c \<noteq> idle_thread (sc c)" for old e
  proof -
    let ?s = "(sc c)\<lparr>eflags := e\<rparr>"
    have "activatable ?s (successor ?s)"
      using assms(2) addr_v2p_cong [of ?s "sc c"] by (simp add: activatable_def successor_def)
    then obtain s' where "thread_block TASK_BLOCKED ?s = Some (intr_get_status ?s, s')"
      using thread_block_returns [of ?s] si \<open>me c \<noteq> idle_thread (sc c)\<close> by auto
    then show ?thesis using v not_waiting [OF inv] by (auto simp: sema_down_run_def Let_def)
  qed
  have up: "sema_up (lock_sema (lk c)) (sc c) \<noteq> None" if g: "pc c (me c) = Giving"
  proof -
    have "sema_value (lock_sema (lk c)) = 0" using owner_unique(2) [OF inv, of "me c"] g by (simp add: owners_def)
    moreover have "thread_unblock t ((sc c)\<lparr>eflags := e\<rparr>) \<noteq> None" if "t \<in> set (waiters (lock_sema (lk c)))" for t e
      using thread_unblock_inv(1) [of "(sc c)\<lparr>eflags := e\<rparr>" t] waiter_facts(1,2) [OF inv that] si by simp
    then obtain s1 where "waiters (lock_sema (lk c)) = [] \<or>
        thread_unblock (hd (waiters (lock_sema (lk c)))) ((sc c)\<lparr>eflags := eflags (sc c) AND NOT EFLAGS_IF\<rparr>) = Some s1"
      by (cases "waiters (lock_sema (lk c))") auto
    ultimately show ?thesis
      by (cases "waiters (lock_sema (lk c))") (auto simp: sema_up_def intr_disable_eq Let_def)
  qed
  have own: "holder (lk c) = me c \<and> (holder_repeat_nr (lk c) > 1 \<or> lock_give (lk c) \<noteq> None)" if "pc c (me c) = Own"
  proof -
    have "holder (lk c) = me c" "holder_repeat_nr (lk c) \<noteq> 0" using inv that by (auto simp: sync_inv_def own_inv_def)
    moreover have "n > 1 \<or> n = 1 \<or> n = 0" for n :: u32
      by (auto simp: word_less_nat_alt u32_eq_iff_unat)
    ultimately show ?thesis by (auto simp: lock_give_def)
  qed
  have got: "lock_take (me c) (lk c) \<noteq> None" if "pc c (me c) = Got"
    using inv that by (auto simp: sync_inv_def own_inv_def lock_take_def)
  show ?thesis
    using down [of _ "eflags (sc c)"] down [of "intr_get_status (sc c)" "eflags (sc c) AND NOT EFLAGS_IF"]
      pc_facts(2) [OF inv, of "me c"] got own up
    by (auto simp: sema_down_def intr_disable_eq Let_def)
qed

theorem lock_assertions_hold_witness:
  "\<exists>c. sync_reach c \<and> pc c (me c) = Got \<and> lock_take (me c) (lk c) \<noteq> None"
proof -
  let ?c = "\<lparr>sc = demo_sched, lk = set_sema \<lparr>sema_value = 0, waiters = []\<rparr> lock_init,
      pc = (\<lambda>_. Outside)(0xc009e000 := Got)\<rparr>"
  have r: "sync_reach ?c" using sync_reach.intros demo_sched_inv demo_acquires by blast
  moreover have "pc ?c (me ?c) = Got" by (simp add: demo_sched_run)
  ultimately show ?thesis using lock_assertions_hold [OF r] demo_sched_act by auto
qed

text \<open>
  Property C11: no wake-up is lost: while tasks wait for the lock, somebody owns it, or a task that
  is already awake is about to try again.
\<close>

theorem no_lost_wakeup:
  assumes "sync_reach c" "waiters (lock_sema (lk c)) \<noteq> []"
  shows "(\<exists>t. t \<in> owners c) \<or> (\<exists>t. in_down c t \<and> awake (sc c) t)"
proof -
  have inv: "sync_inv c" using assms(1) by (rule sync_reach_inv)
  then show ?thesis using assms(2)
    unfolding sync_inv_def own_inv_def wake_inv_def wait_inv_def by blast
qed

text \<open>The worker of the demonstration state finds the lock taken and sleeps.\<close>

definition demo_contended :: sync_state where
  "demo_contended =
     \<lparr>sc = demo_sched, lk = set_sema \<lparr>sema_value = 0, waiters = []\<rparr> lock_init,
      pc = (\<lambda>_. Outside)(0xc009e000 := Got)\<rparr>"

theorem no_lost_wakeup_witness:
  "\<exists>c. sync_reach c \<and> waiters (lock_sema (lk c)) \<noteq> [] \<and>
     ((\<exists>t. t \<in> owners c) \<or> (\<exists>t. in_down c t \<and> awake (sc c) t))"
proof -
  have r0: "sync_reach demo_contended"
    unfolding demo_contended_def using sync_reach.intros demo_sched_inv demo_acquires by blast
  have off: "demo_sched\<lparr>eflags := eflags demo_sched AND NOT EFLAGS_IF\<rparr> = demo_sched"
    using flag_clear [OF demo_sched_off] by simp
  obtain s where s: "schedule demo_sched = Some s" "sched_inv s"
    "running_thread s # ready_list s = [0xc0101000, 0xc009e000]" "idle_thread s = idle_thread demo_sched"
    "\<And>t. pgdir (tasks s t) = pgdir (tasks demo_sched t)"
  proof -
    have c: "candidates demo_sched = [0xc0101000, 0xc009e000]"
      unfolding candidates_def demo_sched_run by (simp add: demo_sched_def demo_task_def Let_def)
    obtain s where "schedule demo_sched = Some s" "sched_inv s" "running_thread s = hd (candidates demo_sched)"
      "ready_list s = tl (candidates demo_sched)" "idle_thread s = idle_thread demo_sched"
      "\<And>t. pgdir (tasks s t) = pgdir (tasks demo_sched t)"
      using inv_facts(4) [OF demo_sched_inv] demo_sched_off demo_sched_act by (rule schedule_correct) blast
    then show thesis using c that [of s] by simp
  qed
  have r1: "sync_reach (demo_contended\<lparr>sc := s\<rparr>)"
  proof (rule sync_reach.step [OF r0])
    have "sc demo_contended = demo_sched" by (simp add: demo_contended_def)
    then show "sync_step demo_contended (demo_contended\<lparr>sc := s\<rparr>)"
      using preempt [of demo_contended s] s(1) off by simp
  qed
  have act: "activatable (s\<lparr>eflags := e\<rparr>) t" for e t
    using s(5) [of t] by (simp add: activatable_def demo_sched_def demo_task_def)
  have "running_thread s \<noteq> idle_thread s" using s(3,4) by (simp add: demo_sched_def)
  then obtain o' s' where b: "thread_block TASK_BLOCKED (s\<lparr>eflags := eflags s AND NOT EFLAGS_IF\<rparr>) = Some (o', s')"
    using thread_block_returns [of "s\<lparr>eflags := eflags s AND NOT EFLAGS_IF\<rparr>"] s(2) act by auto
  have d: "sema_down \<lparr>sema_value = 0, waiters = []\<rparr> s =
      (intr_get_status s, Some (Inl (\<lparr>sema_value = 0, waiters = [0xc0101000]\<rparr>, s')))"
    using b s(3) by (simp add: sema_down_def sema_down_run_def intr_disable_eq Let_def)
  let ?c = "demo_contended\<lparr>sc := s', lk := set_sema \<lparr>sema_value = 0, waiters = [0xc0101000]\<rparr> (lk demo_contended),
      pc := (pc demo_contended)(0xc0101000 := Down (intr_get_status s))\<rparr>"
  have "sync_step (demo_contended\<lparr>sc := s\<rparr>) ?c"
    using d s(3,4) acquire_sleep [of "demo_contended\<lparr>sc := s\<rparr>" "intr_get_status s" "\<lparr>sema_value = 0, waiters = [0xc0101000]\<rparr>" s']
    by (simp add: demo_contended_def set_sema_def lock_init_def demo_sched_def)
  with r1 have "sync_reach ?c" by (rule sync_reach.step)
  moreover have "waiters (lock_sema (lk ?c)) \<noteq> []" by (simp add: set_sema_def)
  ultimately show ?thesis using no_lost_wakeup [of ?c] by blast
qed

end
