(* ===== verification/Memory.thy ===== *)
theory Memory
  imports Sync
begin

text \<open>
  The memory manager of kernel/memory.c: physical frame pools, virtual address
  pools, page mapping and unmapping, and whole-page allocation.  The state
  extends the scheduler's, because user allocations work on the current task's
  control block and page tables are edited through the current address space.
  The bytes of a bitmap are kept with the bitmap instead of at the address the
  C structure points to; that address is recorded beside it.
\<close>

datatype pool_flags = PF_KERNEL | PF_USER

record pool =
  pool_bitmap :: bitmap
  pool_bits :: u32
  phy_addr_start :: u32
  pool_size :: u32
  pool_lock :: lock

record memory = sched +
  kernel_pool :: pool
  user_pool :: pool
  kernel_vaddr :: virtual_addr
  k_block_descs :: "mem_block_desc list"
  k_arenas :: "u32 \<Rightarrow> arena"

definition MEM_BITMAP_BASE :: u32 where
  "MEM_BITMAP_BASE = 0xc009a000"

definition K_HEAP_START :: u32 where
  "K_HEAP_START = 0xc0100000"

definition DIV_ROUND_UP :: "u32 \<Rightarrow> u32 \<Rightarrow> u32" where
  "DIV_ROUND_UP X STEP = (X + STEP - 1) div STEP"

subsection \<open>Initialisation of the pools\<close>

text \<open>\<open>all_mem\<close> is the memory size found at boot; page counts are 16 bits wide in the source.\<close>

definition mem_pool_init :: "u32 \<Rightarrow> 'a memory_scheme \<Rightarrow> 'a memory_scheme" where
  "mem_pool_init all_mem s =
     (let page_table_size = PG_SIZE * 256;
          used_mem = page_table_size + 0x100000;
          free_mem = all_mem - used_mem;
          all_free_pages = ucast (free_mem div PG_SIZE) :: u16;
          kernel_free_pages = all_free_pages div 2;
          user_free_pages = all_free_pages - kernel_free_pages;
          kbm_length = ucast (kernel_free_pages div 8) :: u32;
          ubm_length = ucast (user_free_pages div 8) :: u32;
          kp_start = used_mem;
          up_start = kp_start + ucast kernel_free_pages * PG_SIZE;
          kb = bitmap_init ((pool_bitmap (kernel_pool s))\<lparr>btmp_bytes_len := kbm_length\<rparr>);
          ub = bitmap_init ((pool_bitmap (user_pool s))\<lparr>btmp_bytes_len := ubm_length\<rparr>);
          vb = bitmap_init ((vaddr_bitmap (kernel_vaddr s))\<lparr>btmp_bytes_len := kbm_length\<rparr>)
      in s\<lparr>kernel_pool :=
              \<lparr>pool_bitmap = kb, pool_bits = MEM_BITMAP_BASE, phy_addr_start = kp_start,
               pool_size = ucast kernel_free_pages * PG_SIZE, pool_lock = lock_init\<rparr>,
           user_pool :=
              \<lparr>pool_bitmap = ub, pool_bits = MEM_BITMAP_BASE + kbm_length, phy_addr_start = up_start,
               pool_size = ucast user_free_pages * PG_SIZE, pool_lock = lock_init\<rparr>,
           kernel_vaddr :=
              \<lparr>vaddr_bitmap = vb, vaddr_bits = MEM_BITMAP_BASE + kbm_length + ubm_length,
               vaddr_start = K_HEAP_START\<rparr>\<rparr>)"

subsection \<open>Virtual address ranges\<close>

text \<open>The loops \<open>while (cnt < pg_cnt) bitmap_set(..., start + cnt++, v)\<close>, with the number of turns left.\<close>

primrec bitmap_set_range :: "nat \<Rightarrow> bitmap \<Rightarrow> u32 \<Rightarrow> u8 \<Rightarrow> bitmap option" where
  "bitmap_set_range 0 btmp bit_idx v = Some btmp"
| "bitmap_set_range (Suc n) btmp bit_idx v =
     do { btmp \<leftarrow> bitmap_set btmp bit_idx v; bitmap_set_range n btmp (bit_idx + 1) v }"

definition set_user_vaddr :: "bitmap \<Rightarrow> 'a sched_scheme \<Rightarrow> 'a sched_scheme" where
  "set_user_vaddr b s =
     upd_task (running_thread s) (\<lambda>p. p\<lparr>userprog_vaddr := (userprog_vaddr p)\<lparr>vaddr_bitmap := b\<rparr>\<rparr>) s"

definition user_vaddr :: "'a sched_scheme \<Rightarrow> virtual_addr" where
  "user_vaddr s = userprog_vaddr (tasks s (running_thread s))"

definition vaddr_get :: "pool_flags \<Rightarrow> u32 \<Rightarrow> 'a memory_scheme \<Rightarrow> (u32 \<times> 'a memory_scheme) option" where
  "vaddr_get pf pg_cnt s =
     (if pf = PF_KERNEL then
        do {
          bit_idx_start \<leftarrow> bitmap_scan (vaddr_bitmap (kernel_vaddr s)) pg_cnt;
          (if bit_idx_start = -1 then Some (0, s)
           else do {
             b \<leftarrow> bitmap_set_range (unat pg_cnt) (vaddr_bitmap (kernel_vaddr s)) bit_idx_start 1;
             Some (vaddr_start (kernel_vaddr s) + bit_idx_start * PG_SIZE,
                   s\<lparr>kernel_vaddr := (kernel_vaddr s)\<lparr>vaddr_bitmap := b\<rparr>\<rparr>)
           })
        }
      else
        do {
          bit_idx_start \<leftarrow> bitmap_scan (vaddr_bitmap (user_vaddr s)) pg_cnt;
          (if bit_idx_start = -1 then Some (0, s)
           else do {
             b \<leftarrow> bitmap_set_range (unat pg_cnt) (vaddr_bitmap (user_vaddr s)) bit_idx_start 1;
             let vaddr = vaddr_start (user_vaddr s) + bit_idx_start * PG_SIZE;
             ASSERT (vaddr < 0xc0000000 - PG_SIZE);
             Some (vaddr, set_user_vaddr b s)
           })
        })"

definition vaddr_remove :: "pool_flags \<Rightarrow> u32 \<Rightarrow> u32 \<Rightarrow> 'a memory_scheme \<Rightarrow> 'a memory_scheme option" where
  "vaddr_remove pf vaddr pg_cnt s =
     (if pf = PF_KERNEL then
        do {
          let bit_idx_start = (vaddr - vaddr_start (kernel_vaddr s)) div PG_SIZE;
          b \<leftarrow> bitmap_set_range (unat pg_cnt) (vaddr_bitmap (kernel_vaddr s)) bit_idx_start 0;
          Some (s\<lparr>kernel_vaddr := (kernel_vaddr s)\<lparr>vaddr_bitmap := b\<rparr>\<rparr>)
        }
      else
        do {
          let bit_idx_start = (vaddr - vaddr_start (user_vaddr s)) div PG_SIZE;
          b \<leftarrow> bitmap_set_range (unat pg_cnt) (vaddr_bitmap (user_vaddr s)) bit_idx_start 0;
          Some (set_user_vaddr b s)
        })"

subsection \<open>Physical frames\<close>

text \<open>\<open>palloc\<close> returns the null pointer, 0, when the pool is exhausted.\<close>

definition palloc :: "pool \<Rightarrow> (u32 \<times> pool) option" where
  "palloc m_pool =
     do {
       bit_idx \<leftarrow> bitmap_scan (pool_bitmap m_pool) 1;
       (if bit_idx = -1 then Some (0, m_pool)
        else do {
          b \<leftarrow> bitmap_set (pool_bitmap m_pool) bit_idx 1;
          Some (bit_idx * PG_SIZE + phy_addr_start m_pool, m_pool\<lparr>pool_bitmap := b\<rparr>)
        })
     }"

definition get_pool :: "pool_flags \<Rightarrow> 'a memory_scheme \<Rightarrow> pool" where
  "get_pool pf s = (if pf = PF_KERNEL then kernel_pool s else user_pool s)"

definition set_pool :: "pool_flags \<Rightarrow> pool \<Rightarrow> 'a memory_scheme \<Rightarrow> 'a memory_scheme" where
  "set_pool pf p s = (if pf = PF_KERNEL then s\<lparr>kernel_pool := p\<rparr> else s\<lparr>user_pool := p\<rparr>)"

definition palloc_in :: "pool_flags \<Rightarrow> 'a memory_scheme \<Rightarrow> (u32 \<times> 'a memory_scheme) option" where
  "palloc_in pf s = do { (a, p) \<leftarrow> palloc (get_pool pf s); Some (a, set_pool pf p s) }"

definition pfree :: "u32 \<Rightarrow> 'a memory_scheme \<Rightarrow> 'a memory_scheme option" where
  "pfree pg_phy_addr s =
     (let pf = (if pg_phy_addr \<ge> phy_addr_start (user_pool s) then PF_USER else PF_KERNEL);
          mem_pool = get_pool pf s;
          bit_idx = (pg_phy_addr - phy_addr_start mem_pool) div PG_SIZE
      in do {
        b \<leftarrow> bitmap_set (pool_bitmap mem_pool) bit_idx 0;
        Some (set_pool pf (mem_pool\<lparr>pool_bitmap := b\<rparr>) s)
      })"

definition free_a_phy_page :: "u32 \<Rightarrow> 'a memory_scheme \<Rightarrow> 'a memory_scheme option" where
  "free_a_phy_page pg_phy_addr s =
     (let pf = (if pg_phy_addr \<ge> phy_addr_start (user_pool s) then PF_USER else PF_KERNEL);
          mem_pool = get_pool pf s;
          bit_idx = (pg_phy_addr - phy_addr_start mem_pool) div PG_SIZE
      in do {
        b \<leftarrow> bitmap_set (pool_bitmap mem_pool) bit_idx 0;
        Some (set_pool pf (mem_pool\<lparr>pool_bitmap := b\<rparr>) s)
      })"

subsection \<open>Mapping\<close>

text \<open>The result of \<open>palloc\<close> for a new page table is used without a check, as in the source.\<close>

definition page_table_add :: "u32 \<Rightarrow> u32 \<Rightarrow> 'a memory_scheme \<Rightarrow> 'a memory_scheme option" where
  "page_table_add vaddr page_phyaddr s =
     do {
       pde \<leftarrow> vread s (pde_ptr vaddr);
       (if pde AND 1 \<noteq> 0 then
          do {
            pte \<leftarrow> vread s (pte_ptr vaddr);
            ASSERT (pte AND 1 = 0);
            (if pte AND 1 = 0
             then vwrite (pte_ptr vaddr) (page_phyaddr OR PG_US_U OR PG_RW_W OR PG_P_1) s
             else panic_spin)
          }
        else
          do {
            (pde_phyaddr, s) \<leftarrow> palloc_in PF_KERNEL s;
            s \<leftarrow> vwrite (pde_ptr vaddr) (pde_phyaddr OR PG_US_U OR PG_RW_W OR PG_P_1) s;
            s \<leftarrow> page_clear (pte_ptr vaddr AND 0xfffff000) s;
            pte \<leftarrow> vread s (pte_ptr vaddr);
            ASSERT (pte AND 1 = 0);
            vwrite (pte_ptr vaddr) (page_phyaddr OR PG_US_U OR PG_RW_W OR PG_P_1) s
          })
     }"

text \<open>The loop of \<open>malloc_page\<close>; \<open>False\<close> is the early return when a frame is missing.\<close>

primrec malloc_page_loop :: "nat \<Rightarrow> pool_flags \<Rightarrow> u32 \<Rightarrow> 'a memory_scheme \<Rightarrow> (bool \<times> 'a memory_scheme) option" where
  "malloc_page_loop 0 pf vaddr s = Some (True, s)"
| "malloc_page_loop (Suc cnt) pf vaddr s =
     do {
       (page_phyaddr, s) \<leftarrow> palloc_in pf s;
       (if page_phyaddr = 0 then Some (False, s)
        else do {
          s \<leftarrow> page_table_add vaddr page_phyaddr s;
          malloc_page_loop cnt pf (vaddr + PG_SIZE) s
        })
     }"

definition malloc_page :: "pool_flags \<Rightarrow> u32 \<Rightarrow> 'a memory_scheme \<Rightarrow> (u32 \<times> 'a memory_scheme) option" where
  "malloc_page pf pg_cnt s =
     do {
       ASSERT (pg_cnt > 0 \<and> pg_cnt < 3840);
       (start, s) \<leftarrow> vaddr_get pf pg_cnt s;
       (if start = 0 then Some (0, s)
        else do {
          (ok, s) \<leftarrow> malloc_page_loop (unat pg_cnt) pf start s;
          Some (if ok then (start, s) else (0, s))
        })
     }"

subsection \<open>Locked entry points\<close>

definition pool_acquire :: "pool_flags \<Rightarrow> 'a memory_scheme \<Rightarrow> 'a memory_scheme option" where
  "pool_acquire pf s =
     do {
       (l, s) \<leftarrow> lock_acquire (pool_lock (get_pool pf s)) s;
       Some (set_pool pf ((get_pool pf s)\<lparr>pool_lock := l\<rparr>) s)
     }"

definition pool_release :: "pool_flags \<Rightarrow> 'a memory_scheme \<Rightarrow> 'a memory_scheme option" where
  "pool_release pf s =
     do {
       (l, s) \<leftarrow> lock_release (pool_lock (get_pool pf s)) s;
       Some (set_pool pf ((get_pool pf s)\<lparr>pool_lock := l\<rparr>) s)
     }"

text \<open>\<open>memset(vaddr, 0, pg_cnt * PG_SIZE)\<close>, page by page; the routine asserts a non-null address.\<close>

primrec pages_clear_loop :: "nat \<Rightarrow> u32 \<Rightarrow> 'a machine_scheme \<Rightarrow> 'a machine_scheme option" where
  "pages_clear_loop 0 vaddr s = Some s"
| "pages_clear_loop (Suc n) vaddr s =
     do { s \<leftarrow> page_clear vaddr s; pages_clear_loop n (vaddr + PG_SIZE) s }"

definition pages_clear :: "u32 \<Rightarrow> u32 \<Rightarrow> 'a machine_scheme \<Rightarrow> 'a machine_scheme option" where
  "pages_clear vaddr pg_cnt s = do { ASSERT (vaddr \<noteq> 0); pages_clear_loop (unat pg_cnt) vaddr s }"

definition get_kernel_pages :: "u32 \<Rightarrow> 'a memory_scheme \<Rightarrow> (u32 \<times> 'a memory_scheme) option" where
  "get_kernel_pages pg_cnt s =
     do {
       s \<leftarrow> pool_acquire PF_KERNEL s;
       (vaddr, s) \<leftarrow> malloc_page PF_KERNEL pg_cnt s;
       s \<leftarrow> (if vaddr \<noteq> 0 then pages_clear vaddr pg_cnt s else Some s);
       s \<leftarrow> pool_release PF_KERNEL s;
       Some (vaddr, s)
     }"

definition get_user_pages :: "u32 \<Rightarrow> 'a memory_scheme \<Rightarrow> (u32 \<times> 'a memory_scheme) option" where
  "get_user_pages pg_cnt s =
     do {
       s \<leftarrow> pool_acquire PF_USER s;
       (vaddr, s) \<leftarrow> malloc_page PF_USER pg_cnt s;
       s \<leftarrow> pages_clear vaddr pg_cnt s;
       s \<leftarrow> pool_release PF_USER s;
       Some (vaddr, s)
     }"

definition map_one_page :: "pool_flags \<Rightarrow> u32 \<Rightarrow> 'a memory_scheme \<Rightarrow> (u32 \<times> 'a memory_scheme) option" where
  "map_one_page pf vaddr s =
     do {
       (page_phyaddr, s) \<leftarrow> palloc_in pf s;
       (if page_phyaddr = 0 then
          do { s \<leftarrow> pool_release pf s; Some (0, s) }
        else
          do {
            s \<leftarrow> page_table_add vaddr page_phyaddr s;
            s \<leftarrow> pool_release pf s;
            Some (vaddr, s)
          })
     }"

definition get_a_page :: "pool_flags \<Rightarrow> u32 \<Rightarrow> 'a memory_scheme \<Rightarrow> (u32 \<times> 'a memory_scheme) option" where
  "get_a_page pf vaddr s =
     do {
       s \<leftarrow> pool_acquire pf s;
       let cur_pgdir = pgdir (tasks s (running_thread s));
       s \<leftarrow> (if cur_pgdir \<noteq> 0 \<and> pf = PF_USER then
               do {
                 let bit_idx = (vaddr - vaddr_start (user_vaddr s)) div PG_SIZE;
                 ASSERT (sint bit_idx \<ge> 0);
                 b \<leftarrow> bitmap_set (vaddr_bitmap (user_vaddr s)) bit_idx 1;
                 Some (set_user_vaddr b s)
               }
             else if cur_pgdir = 0 \<and> pf = PF_KERNEL then
               do {
                 let bit_idx = (vaddr - vaddr_start (kernel_vaddr s)) div PG_SIZE;
                 ASSERT (sint bit_idx > 0);
                 b \<leftarrow> bitmap_set (vaddr_bitmap (kernel_vaddr s)) bit_idx 1;
                 Some (s\<lparr>kernel_vaddr := (kernel_vaddr s)\<lparr>vaddr_bitmap := b\<rparr>\<rparr>)
               }
             else panic_spin);
       map_one_page pf vaddr s
     }"

definition get_a_page_without_opvaddrbitmap ::
  "pool_flags \<Rightarrow> u32 \<Rightarrow> 'a memory_scheme \<Rightarrow> (u32 \<times> 'a memory_scheme) option" where
  "get_a_page_without_opvaddrbitmap pf vaddr s =
     do { s \<leftarrow> pool_acquire pf s; map_one_page pf vaddr s }"

subsection \<open>Release\<close>

text \<open>The two loops of \<open>mfree_page\<close>, for frames of the user pool and of the kernel pool.\<close>

primrec mfree_user_loop :: "nat \<Rightarrow> u32 \<Rightarrow> 'a memory_scheme \<Rightarrow> 'a memory_scheme option" where
  "mfree_user_loop 0 vaddr s = Some s"
| "mfree_user_loop (Suc n) vaddr s =
     do {
       pg_phy_addr \<leftarrow> addr_v2p s vaddr;
       ASSERT (pg_phy_addr mod PG_SIZE = 0 \<and> pg_phy_addr \<ge> phy_addr_start (user_pool s));
       s \<leftarrow> pfree pg_phy_addr s;
       s \<leftarrow> page_table_pte_remove vaddr s;
       mfree_user_loop n (vaddr + PG_SIZE) s
     }"

primrec mfree_kernel_loop :: "nat \<Rightarrow> u32 \<Rightarrow> 'a memory_scheme \<Rightarrow> 'a memory_scheme option" where
  "mfree_kernel_loop 0 vaddr s = Some s"
| "mfree_kernel_loop (Suc n) vaddr s =
     do {
       pg_phy_addr \<leftarrow> addr_v2p s vaddr;
       ASSERT (pg_phy_addr mod PG_SIZE = 0 \<and> pg_phy_addr \<ge> phy_addr_start (kernel_pool s) \<and>
               pg_phy_addr < phy_addr_start (user_pool s));
       s \<leftarrow> pfree pg_phy_addr s;
       s \<leftarrow> page_table_pte_remove vaddr s;
       mfree_kernel_loop n (vaddr + PG_SIZE) s
     }"

definition mfree_page :: "pool_flags \<Rightarrow> u32 \<Rightarrow> u32 \<Rightarrow> 'a memory_scheme \<Rightarrow> 'a memory_scheme option" where
  "mfree_page pf vaddr pg_cnt s =
     do {
       ASSERT (pg_cnt \<ge> 1 \<and> vaddr mod PG_SIZE = 0);
       pg_phy_addr \<leftarrow> addr_v2p s vaddr;
       ASSERT (pg_phy_addr mod PG_SIZE = 0 \<and> pg_phy_addr \<ge> 0x102000);
       s \<leftarrow> (if pg_phy_addr \<ge> phy_addr_start (user_pool s)
              then mfree_user_loop (unat pg_cnt) vaddr s
              else mfree_kernel_loop (unat pg_cnt) vaddr s);
       vaddr_remove pf vaddr pg_cnt s
     }"

subsection \<open>Frames of a pool\<close>

definition frames :: "pool \<Rightarrow> nat" where
  "frames p = btmp_bits (pool_bitmap p)"

definition frame_used :: "pool \<Rightarrow> nat \<Rightarrow> bool" where
  "frame_used p k = bit_at (pool_bitmap p) k"

definition frame_of :: "pool \<Rightarrow> nat \<Rightarrow> u32" where
  "frame_of p k = phy_addr_start p + of_nat k * PG_SIZE"

text \<open>The pool's range is page-aligned, lies inside the address space and does not start at 0.\<close>

definition pool_ok :: "pool \<Rightarrow> bool" where
  "pool_ok p \<longleftrightarrow> btmp_ok (pool_bitmap p) \<and> phy_addr_start p \<noteq> 0 \<and> 4096 dvd unat (phy_addr_start p) \<and>
     unat (phy_addr_start p) + 4096 * frames p < 4294967296"

lemma unat_frame_of:
  assumes "pool_ok p" "k < frames p"
  shows "unat (frame_of p k) = unat (phy_addr_start p) + 4096 * k"
proof -
  have "4096 * k < 4096 * frames p" using assms(2) by simp
  with assms(1) have lt: "unat (phy_addr_start p) + 4096 * k < 4294967296" by (simp add: pool_ok_def)
  then have "unat (of_nat (4096 * k) :: u32) = 4096 * k" by (intro unat_of_nat_small) linarith
  moreover have "(of_nat k * PG_SIZE :: u32) = of_nat (4096 * k)" by (simp add: PG_SIZE_def mult.commute)
  ultimately show ?thesis unfolding frame_of_def using lt by (simp add: unat_plus_small)
qed

lemma palloc_cases:
  assumes ok: "pool_ok p"
  obtains "\<forall>k < frames p. frame_used p k" "palloc p = Some (0, p)"
  | k p' where "k < frames p" "\<not> frame_used p k" "palloc p = Some (frame_of p k, p')" "frame_of p k \<noteq> 0" "pool_ok p'"
      "frames p' = frames p" "phy_addr_start p' = phy_addr_start p" "pool_lock p' = pool_lock p"
      "\<And>j. j < frames p \<Longrightarrow> frame_used p' j = (frame_used p j \<or> j = k)"
      "p' = p\<lparr>pool_bitmap := set_bit_at (pool_bitmap p) (of_nat k) True\<rparr>"
proof -
  have b: "btmp_ok (pool_bitmap p)" using ok by (simp add: pool_ok_def)
  obtain r where r: "bitmap_scan (pool_bitmap p) 1 = Some r" using btm.scan_some [OF b] by blast
  show thesis
  proof (cases "r = -1")
    case True
    then show thesis using r btm.scan_full [OF b] that(1) by (simp add: palloc_def frames_def frame_used_def)
  next
    case False
    let ?p = "p\<lparr>pool_bitmap := set_bit_at (pool_bitmap p) r True\<rparr>"
    have m: "bitmap_set (pool_bitmap p) r 1 = Some (set_bit_at (pool_bitmap p) r True)" by (rule bitmap_set_1)
    note a = btm.alloc_one [OF b r False m]
    have fr: "r * PG_SIZE + phy_addr_start p = frame_of p (unat r)" by (simp add: frame_of_def)
    have nz: "frame_of p (unat r) \<noteq> 0"
      using unat_frame_of [OF ok, of "unat r"] a(1) ok
      by (auto simp: frames_def pool_ok_def word_unat_eq_iff)
    have used: "frame_used ?p j = (frame_used p j \<or> j = unat r)" if "j < frames p" for j
      using that a(3,6) by (cases "j = unat r") (auto simp: frame_used_def frames_def)
    have "palloc p = Some (frame_of p (unat r), ?p)" using r False m fr by (simp add: palloc_def)
    then show thesis using a(1,2) nz used ok
      by (intro that(2) [of "unat r" ?p]) (simp_all add: frames_def frame_used_def pool_ok_def)
  qed
qed

text \<open>The two pools do not overlap, the kernel's lies below the user's.\<close>

definition pools_ok :: "'a memory_scheme \<Rightarrow> bool" where
  "pools_ok s \<longleftrightarrow> pool_ok (kernel_pool s) \<and> pool_ok (user_pool s) \<and>
     unat (phy_addr_start (kernel_pool s)) + 4096 * frames (kernel_pool s) \<le> unat (phy_addr_start (user_pool s))"

lemma get_pool_ok: "pools_ok s \<Longrightarrow> pool_ok (get_pool pf s)"
  by (simp add: pools_ok_def get_pool_def)

lemma frame_of_side:
  assumes "pools_ok s" "k < frames (get_pool pf s)"
  shows "phy_addr_start (user_pool s) \<le> frame_of (get_pool pf s) k \<longleftrightarrow> pf = PF_USER"
proof -
  note u = unat_frame_of [OF get_pool_ok [OF assms(1)] assms(2)]
  show ?thesis
  proof (cases pf)
    case PF_KERNEL
    then show ?thesis using u assms by (simp add: word_le_nat_alt get_pool_def pools_ok_def)
  next
    case PF_USER
    then show ?thesis using u by (simp add: word_le_nat_alt get_pool_def)
  qed
qed

lemma frame_index:
  assumes "pool_ok p" "k < frames p"
  shows "(frame_of p k - phy_addr_start p) div PG_SIZE = of_nat k"
proof -
  have "unat (frame_of p k - phy_addr_start p) = 4096 * k"
    using unat_frame_of [OF assms] by (simp add: unat_minus_small)
  moreover have "4096 * k < 4096 * frames p" using assms(2) by simp
  with assms(1) have "k < 4294967296" by (simp add: pool_ok_def)
  ultimately show ?thesis by (simp add: u32_eq_iff_unat unat_div PG_SIZE_def unat_of_nat_small)
qed

lemma set_get_pool [simp]:
  "get_pool pf (set_pool pf p s) = p" "pf \<noteq> pf' \<Longrightarrow> get_pool pf (set_pool pf' p s) = get_pool pf s"
  "phys (set_pool pf p s) = phys s" "cr3 (set_pool pf p s) = cr3 s"
  by (cases pf; cases pf'; simp add: get_pool_def set_pool_def)+

lemma pfree_frame:
  assumes "pools_ok s" "k < frames (get_pool pf s)"
  obtains p' where "pfree (frame_of (get_pool pf s) k) s = Some (set_pool pf p' s)"
    "frames p' = frames (get_pool pf s)" "phy_addr_start p' = phy_addr_start (get_pool pf s)"
    "pool_lock p' = pool_lock (get_pool pf s)"
    "\<And>j. j < frames (get_pool pf s) \<Longrightarrow> frame_used p' j = (frame_used (get_pool pf s) j \<and> j \<noteq> k)"
proof -
  let ?p = "get_pool pf s"
  let ?b = "set_bit_at (pool_bitmap ?p) (of_nat k) False"
  have ok: "pool_ok ?p" by (rule get_pool_ok [OF assms(1)])
  then have bok: "btmp_ok (pool_bitmap ?p)" by (simp add: pool_ok_def)
  have side: "(if frame_of ?p k \<ge> phy_addr_start (user_pool s) then PF_USER else PF_KERNEL) = pf"
    using frame_of_side [OF assms] by (cases pf) auto
  have uk: "unat (of_nat k :: u32) = k"
    using btmp_bits_small [OF bok] assms(2) by (simp add: frames_def unat_of_nat_small)
  have m: "bitmap_set (pool_bitmap ?p) (of_nat k) 0 = Some ?b" by (rule bitmap_set_0)
  have "pfree (frame_of ?p k) s = Some (set_pool pf (?p\<lparr>pool_bitmap := ?b\<rparr>) s)"
    unfolding pfree_def Let_def side frame_index [OF ok assms(2)] m by simp
  moreover have "frame_used (?p\<lparr>pool_bitmap := ?b\<rparr>) j = (frame_used ?p j \<and> j \<noteq> k)" if "j < frames ?p" for j
    using btm.mark_used [OF m bok, of j] that uk by (auto simp: frame_used_def frames_def)
  ultimately show thesis by (intro that [of "?p\<lparr>pool_bitmap := ?b\<rparr>"]) (simp_all add: frames_def)
qed

subsection \<open>The effect of a mapping\<close>

lemma attr_bits: "frame (e OR PG_US_U OR PG_RW_W OR PG_P_1) = frame e" "present (e OR PG_US_U OR PG_RW_W OR PG_P_1)"
proof -
  have c: "PG_US_U OR PG_RW_W OR PG_P_1 = mask 3"
    by (simp add: PG_US_U_def PG_RW_W_def PG_P_1_def mask_eq_exp_minus_1)
  show "frame (e OR PG_US_U OR PG_RW_W OR PG_P_1) = frame e"
    unfolding c frame_bits by (rule bit_eqI) (auto simp: bit_simps)
  show "present (e OR PG_US_U OR PG_RW_W OR PG_P_1)"
    unfolding c present_bit by (simp add: bit_simps)
qed

lemma page_table_add_present:
  assumes "self_mapped s" "present (phys s (pde_at s va))" "mmu s va = None"
  shows "page_table_add va pa s = Some (set_pte va (pa OR PG_US_U OR PG_RW_W OR PG_P_1) s)"
proof -
  have np: "\<not> present (phys s (pte_in (frame (phys s (pde_at s va))) va))"
    using assms(2,3) by (auto simp: mmu_def Let_def split: if_splits)
  have "vread s (pde_ptr va) = Some (phys s (pde_at s va))"
    using mmu_pde_ptr [OF assms(1)] by (simp add: vread_def)
  then show ?thesis
    using np assms(2) vread_pte [OF assms(1,2)] vwrite_pte [OF assms(1,2)]
    by (simp add: page_table_add_def present_def)
qed

lemma window_page:
  "PDE_IDX (pte_ptr va AND 0xfffff000) = mask 10" "PTE_IDX (pte_ptr va AND 0xfffff000) = PDE_IDX va"
  using same_page [of "frame (pte_ptr va)" "pte_ptr va"] by (simp_all add: frame_def [symmetric])

text \<open>The state after a fresh, cleared table \<open>f\<close> has been entered into the directory.\<close>

definition add_table :: "u32 \<Rightarrow> u32 \<Rightarrow> 'a machine_scheme \<Rightarrow> 'a machine_scheme" where
  "add_table va f s =
     s\<lparr>phys := clear_frame f ((phys s)(pde_at s va := f OR PG_US_U OR PG_RW_W OR PG_P_1))\<rparr>"

definition table_fresh :: "u32 \<Rightarrow> 'a machine_scheme \<Rightarrow> bool" where
  "table_fresh f s \<longleftrightarrow> frame f = f \<and> f \<noteq> frame (cr3 s) \<and>
     (\<forall>a. present (phys s (pde_at s a)) \<longrightarrow> frame (phys s (pde_at s a)) \<noteq> f)"

definition dir_unique :: "'a machine_scheme \<Rightarrow> bool" where
  "dir_unique s \<longleftrightarrow>
     (\<forall>a. present (phys s (pde_at s a)) \<and> frame (phys s (pde_at s a)) = frame (cr3 s) \<longrightarrow> PDE_IDX a = mask 10)"

lemma add_table_pde:
  assumes "table_fresh f s"
  shows "phys (add_table va f s) (pde_at s a) =
           (if PDE_IDX a = PDE_IDX va then f OR PG_US_U OR PG_RW_W OR PG_P_1 else phys s (pde_at s a))"
  using assms pde_at_inj [of s a va] frame_pde_at [of s a]
  by (auto simp: add_table_def clear_frame_def table_fresh_def)

lemma add_table_at [simp]: "pde_at (add_table va f s) a = pde_at s a" "cr3 (add_table va f s) = cr3 s"
  by (simp_all add: add_table_def)

lemma PDE_last: "PDE_IDX (-1) = mask 10"
  unfolding PDE_IDX_drop by (rule bit_eqI) (auto simp: bit_simps)

lemma add_table_self:
  assumes "self_mapped s" "table_fresh f s" "PDE_IDX va \<noteq> mask 10"
  shows "self_mapped (add_table va f s)"
  using assms(1) add_table_pde [OF assms(2), of va "-1"] assms(3)
  by (simp add: self_mapped_def self_entry_at Let_def PDE_last self_entry_at [of "add_table va f s", simplified])

lemma add_table_mmu:
  assumes fresh: "table_fresh f s" and dir: "dir_unique s" and abs: "\<not> present (phys s (pde_at s va))"
    and a: "PDE_IDX a \<noteq> mask 10"
  shows "mmu (add_table va f s) a = mmu s a"
proof (cases "PDE_IDX a = PDE_IDX va")
  case True
  have ff: "frame f = f" using fresh by (simp add: table_fresh_def)
  have "phys (add_table va f s) (pte_in (frame f) a) = 0"
    using frame_pte_in [of f a] ff by (simp add: add_table_def clear_frame_def)
  moreover have "pde_at s a = pde_at s va" using True by (simp add: pde_at_def)
  ultimately show ?thesis using abs True add_table_pde [OF fresh, of va a]
    by (simp add: mmu_def Let_def attr_bits present_def)
next
  case False
  note pde = add_table_pde [OF fresh, of va a]
  show ?thesis
  proof (cases "present (phys s (pde_at s a))")
    case True
    let ?t = "frame (phys s (pde_at s a))"
    have "?t \<noteq> f" "?t \<noteq> frame (cr3 s)" using True fresh dir a by (auto simp: table_fresh_def dir_unique_def)
    moreover from this have "pte_in ?t a \<noteq> pde_at s va" by (metis frame_pte_in frame_pde_at)
    ultimately have "phys (add_table va f s) (pte_in ?t a) = phys s (pte_in ?t a)"
      by (simp add: add_table_def clear_frame_def)
    then show ?thesis using False pde by (simp add: mmu_def Let_def)
  next
    case np: False
    then show ?thesis using False pde by (simp add: mmu_def Let_def)
  qed
qed

lemma page_clear_window:
  assumes "self_mapped s" "present (phys s (pde_at s va))"
  shows "page_clear (pte_ptr va AND 0xfffff000) s =
           Some (s\<lparr>phys := clear_frame (frame (phys s (pde_at s va))) (phys s)\<rparr>)"
proof -
  let ?w = "pte_ptr va AND 0xfffff000"
  have "?w AND 0xfff = 0" by (simp add: mask_consts and.assoc)
  moreover have "pde_at s ?w = frame (cr3 s) OR push_bit 2 (mask 10)" by (simp add: pde_at_def window_page)
  moreover have "pte_in (frame (cr3 s)) ?w = pde_at s va" by (simp add: pde_at_def pte_in_def window_page)
  ultimately have "mmu s ?w = Some (frame (phys s (pde_at s va)))"
    using assms by (simp add: mmu_def self_mapped_def Let_def)
  then show ?thesis by (simp add: page_clear_def)
qed

lemma self_mapped_cong: "phys s = phys t \<Longrightarrow> cr3 s = cr3 t \<Longrightarrow> self_mapped s = self_mapped t"
  by (simp add: self_mapped_def)

lemma page_table_add_absent:
  assumes self: "self_mapped s" and abs: "\<not> present (phys s (pde_at s va))" and w: "PDE_IDX va \<noteq> mask 10"
    and pal: "palloc (kernel_pool s) = Some (f, p')" and fresh: "table_fresh f s"
  shows "page_table_add va pa s =
           Some (set_pte va (pa OR PG_US_U OR PG_RW_W OR PG_P_1) (add_table va f (s\<lparr>kernel_pool := p'\<rparr>)))"
proof -
  let ?e = "f OR PG_US_U OR PG_RW_W OR PG_P_1"
  let ?s1 = "s\<lparr>kernel_pool := p'\<rparr>"
  let ?s2 = "?s1\<lparr>phys := (phys s)(pde_at s va := ?e)\<rparr>"
  let ?s3 = "add_table va f ?s1"
  have at1: "pde_at ?s1 a = pde_at s a" for a by (simp add: pde_at_def)
  have self1: "self_mapped ?s1" using self self_mapped_cong [of ?s1 s] by simp
  have fresh1: "table_fresh f ?s1" using fresh by (simp add: table_fresh_def at1)
  have wr: "vwrite (pde_ptr va) ?e ?s1 = Some ?s2"
    using mmu_pde_ptr [OF self1, of va] by (simp add: vwrite_def at1)
  have "pde_at s (-1) \<noteq> pde_at s va" using w PDE_last by (simp add: pde_at_inj)
  then have self2: "self_mapped ?s2"
    using self unfolding self_mapped_def self_entry_at Let_def by (simp add: at1)
  have at2: "pde_at ?s2 va = pde_at s va" by (simp add: at1)
  have ff: "frame f = f" using fresh by (simp add: table_fresh_def)
  have clr: "page_clear (pte_ptr va AND 0xfffff000) ?s2 = Some ?s3"
    using page_clear_window [OF self2, of va] by (simp add: at2 attr_bits ff add_table_def at1)
  have self3: "self_mapped ?s3" by (rule add_table_self [OF self1 fresh1 w])
  have pde3: "phys ?s3 (pde_at ?s3 va) = ?e" using add_table_pde [OF fresh1, of va va] by simp
  then have pr3: "present (phys ?s3 (pde_at ?s3 va))" by (simp add: attr_bits)
  have "phys ?s3 (pte_in (frame (phys ?s3 (pde_at ?s3 va))) va) = 0"
    unfolding pde3 attr_bits using frame_pte_in [of f va] ff by (simp add: add_table_def clear_frame_def)
  then have rd: "vread ?s3 (pte_ptr va) = Some 0" using vread_pte [OF self3 pr3] by simp
  have rp: "vread s (pde_ptr va) = Some (phys s (pde_at s va))" using mmu_pde_ptr [OF self] by (simp add: vread_def)
  have pi: "palloc_in PF_KERNEL s = Some (f, ?s1)" using pal by (simp add: palloc_in_def get_pool_def set_pool_def)
  have np: "\<not> (phys s (pde_at s va) AND 1 \<noteq> 0)" using abs by (simp add: present_def)
  show ?thesis
    unfolding page_table_add_def rp bind.bind_lunit using np pi wr clr rd vwrite_pte [OF self3 pr3] by simp
qed

text \<open>When a mapping can be added: the page is unmapped and outside the window; a new table, if needed, is fresh.\<close>

definition can_map :: "u32 \<Rightarrow> 'a memory_scheme \<Rightarrow> bool" where
  "can_map va s \<longleftrightarrow>
     self_mapped s \<and> dir_unique s \<and> PDE_IDX va \<noteq> mask 10 \<and> mmu s va = None \<and>
     (if present (phys s (pde_at s va)) then table_private s va
      else \<exists>f p'. palloc (kernel_pool s) = Some (f, p') \<and> table_fresh f s)"

lemma page_table_add_effect:
  assumes cm: "can_map va s" and pa: "frame pa = pa"
  obtains s' where "page_table_add va pa s = Some s'"
    "\<And>a. PDE_IDX a \<noteq> mask 10 \<Longrightarrow> mmu s' a = (if frame a = frame va then Some (pa OR (a AND 0xfff)) else mmu s a)"
proof (cases "present (phys s (pde_at s va))")
  case True
  let ?e = "pa OR PG_US_U OR PG_RW_W OR PG_P_1"
  from cm True have h: "self_mapped s" "table_private s va" "mmu s va = None" by (simp_all add: can_map_def)
  show thesis
  proof (rule that)
    show "page_table_add va pa s = Some (set_pte va ?e s)" by (rule page_table_add_present [OF h(1) True h(3)])
    show "mmu (set_pte va ?e s) a = (if frame a = frame va then Some (pa OR (a AND 0xfff)) else mmu s a)" for a
      using set_pte_mmu [OF h(2) True, of ?e a] pa by (simp add: attr_bits mask_consts(3))
  qed
next
  case False
  let ?e = "pa OR PG_US_U OR PG_RW_W OR PG_P_1"
  from cm False obtain f p' where h: "self_mapped s" "dir_unique s" "PDE_IDX va \<noteq> mask 10"
    "palloc (kernel_pool s) = Some (f, p')" "table_fresh f s" by (auto simp: can_map_def)
  let ?s1 = "s\<lparr>kernel_pool := p'\<rparr>" and ?s3 = "add_table va f (s\<lparr>kernel_pool := p'\<rparr>)"
  have at1: "pde_at ?s1 a = pde_at s a" for a by (simp add: pde_at_def)
  have f1: "table_fresh f ?s1" and d1: "dir_unique ?s1" using h(5,2) by (simp_all add: table_fresh_def dir_unique_def at1)
  have pde3: "phys ?s3 (pde_at ?s3 a) = (if PDE_IDX a = PDE_IDX va then f OR PG_US_U OR PG_RW_W OR PG_P_1 else phys s (pde_at s a))" for a
    using add_table_pde [OF f1, of va a] by (simp add: at1)
  have pr: "present (phys ?s3 (pde_at ?s3 va))" unfolding pde3 by (simp add: attr_bits)
  have "table_private ?s3 va"
    using h(5) unfolding table_private_def Let_def pde3
    by (auto simp: attr_bits table_fresh_def)
  note m = set_pte_mmu [OF this pr, of ?e]
  show thesis
  proof (rule that)
    show "page_table_add va pa s = Some (set_pte va ?e ?s3)" by (rule page_table_add_absent [OF h(1) False h(3-5)])
    show "mmu (set_pte va ?e ?s3) a = (if frame a = frame va then Some (pa OR (a AND 0xfff)) else mmu s a)"
      if "PDE_IDX a \<noteq> mask 10" for a
      using m [of a] add_table_mmu [OF f1 d1 _ that, of va] False pa mmu_cong [of ?s1 s a]
      by (simp add: attr_bits mask_consts(3) at1)
  qed
qed

subsection \<open>Whole-page allocation\<close>

text \<open>
  The kernel's address pool is sound: its pages have tables, each named by one entry of the kernel's quarter of the directory, and a page
  whose bit is clear is not mapped.
\<close>

definition kpage :: "'a memory_scheme \<Rightarrow> nat \<Rightarrow> u32" where
  "kpage s k = vaddr_start (kernel_vaddr s) + of_nat k * PG_SIZE"

definition kernel_space_ok :: "'a memory_scheme \<Rightarrow> bool" where
  "kernel_space_ok s \<longleftrightarrow>
     self_mapped s \<and> btmp_ok (vaddr_bitmap (kernel_vaddr s)) \<and>
     frame (vaddr_start (kernel_vaddr s)) = vaddr_start (kernel_vaddr s) \<and> vaddr_start (kernel_vaddr s) \<noteq> 0 \<and>
     unat (vaddr_start (kernel_vaddr s)) + 4096 * btmp_bits (vaddr_bitmap (kernel_vaddr s)) < 4294967296 \<and>
     (\<forall>k < btmp_bits (vaddr_bitmap (kernel_vaddr s)).
        present (phys s (pde_at s (kpage s k))) \<and> kernel_table s (kpage s k) \<and>
        (\<not> bit_at (vaddr_bitmap (kernel_vaddr s)) k \<longrightarrow> mmu s (kpage s k) = None))"

lemma aligned_unat: "frame x = x \<longleftrightarrow> 4096 dvd unat x"
proof -
  have "frame x = x \<longleftrightarrow> take_bit 12 x = 0"
  proof
    have "take_bit 12 (frame x) = 0" unfolding frame_bits by (rule bit_eqI) (auto simp: bit_simps)
    then show "frame x = x \<Longrightarrow> take_bit 12 x = 0" by simp
  next
    assume t: "take_bit 12 x = 0"
    show "frame x = x" unfolding frame_bits
    proof (rule bit_eqI)
      fix n
      have "\<not> bit (take_bit 12 x) n" using t by simp
      then show "bit (x AND NOT (mask 12)) n = bit x n" by (auto simp: bit_simps dest: bit_u32_less)
    qed
  qed
  also have "\<dots> \<longleftrightarrow> unat x mod 4096 = 0"
    by (simp add: take_bit_eq_mod word_unat_eq_iff unat_mod)
  finally show ?thesis by (simp add: dvd_eq_mod_eq_0)
qed

lemma unat_page:
  assumes "unat b + 4096 * n < 4294967296" "k < n"
  shows "unat (b + of_nat k * PG_SIZE) = unat b + 4096 * k"
proof -
  have "4096 * k < 4096 * n" using assms(2) by simp
  with assms(1) have lt: "unat b + 4096 * k < 4294967296" by linarith
  then have "unat (of_nat (4096 * k) :: u32) = 4096 * k" by (intro unat_of_nat_small) linarith
  moreover have "(of_nat k * PG_SIZE :: u32) = of_nat (4096 * k)" by (simp add: PG_SIZE_def mult.commute)
  ultimately show ?thesis using lt by (simp add: unat_plus_small)
qed

lemma kpage_facts:
  assumes "kernel_space_ok s" "k < btmp_bits (vaddr_bitmap (kernel_vaddr s))"
  shows "unat (kpage s k) = unat (vaddr_start (kernel_vaddr s)) + 4096 * k" "frame (kpage s k) = kpage s k"
proof -
  show u: "unat (kpage s k) = unat (vaddr_start (kernel_vaddr s)) + 4096 * k"
    using assms unat_page unfolding kpage_def kernel_space_ok_def by blast
  have "4096 dvd unat (vaddr_start (kernel_vaddr s))"
    using assms(1) aligned_unat unfolding kernel_space_ok_def by blast
  then show "frame (kpage s k) = kpage s k" unfolding aligned_unat u by simp
qed

text \<open>The pages \<open>v, v + 4096, ...\<close> (\<open>n\<close> of them) can be mapped one after the other.\<close>

definition run_ok :: "u32 \<Rightarrow> nat \<Rightarrow> 'a memory_scheme \<Rightarrow> bool" where
  "run_ok v n s \<longleftrightarrow>
     self_mapped s \<and> frame v = v \<and> unat v + 4096 * n < 4294967296 \<and>
     (\<forall>i < n. present (phys s (pde_at s (v + of_nat i * PG_SIZE))) \<and>
        kernel_table s (v + of_nat i * PG_SIZE) \<and> mmu s (v + of_nat i * PG_SIZE) = None)"

lemma run_page_aligned: "frame v = v \<Longrightarrow> unat v + 4096 * n < 4294967296 \<Longrightarrow> i < n \<Longrightarrow>
    frame (v + of_nat i * PG_SIZE) = v + of_nat i * PG_SIZE"
  unfolding aligned_unat by (simp add: unat_page)

lemma set_pte_private:
  assumes "table_private s va"
  shows "table_private (set_pte va v s) a = table_private s a"
  using set_pte_pde [OF assms] by (simp add: table_private_def)

lemma set_pte_kernel_table:
  assumes "kernel_table s va"
  shows "kernel_table (set_pte va v s) a = kernel_table s a" "low_twin (set_pte va v s) x a = low_twin s x a"
  using set_pte_dir [of s va v] assms by (simp_all add: kernel_table_def low_twin_def same_entry_def)

lemma kernel_table_cong:
  "phys s = phys t \<Longrightarrow> cr3 s = cr3 t \<Longrightarrow> kernel_table s a = kernel_table t a"
  "phys s = phys t \<Longrightarrow> cr3 s = cr3 t \<Longrightarrow> low_twin s x a = low_twin t x a"
  by (simp_all add: kernel_table_def low_twin_def same_entry_def pde_at_def)

lemma not_low: "kernel_table s a \<Longrightarrow> \<not> low_twin s' v a"
  by (auto simp: kernel_table_def low_twin_def)

lemma table_private_cong: "phys s = phys t \<Longrightarrow> cr3 s = cr3 t \<Longrightarrow> table_private s a = table_private t a"
  by (simp add: table_private_def pde_at_def)

lemma run_ok_step:
  assumes "run_ok v (Suc n) s"
  shows "run_ok (v + PG_SIZE) n (set_pte v e s)"
proof -
  have h: "self_mapped s" "frame v = v" "unat v + 4096 * Suc n < 4294967296" "kernel_table s v"
    "present (phys s (pde_at s v))"
    using assms by (auto simp: run_ok_def elim: allE [of _ 0])
  have shift: "v + PG_SIZE + of_nat i * PG_SIZE = v + of_nat (Suc i) * PG_SIZE" for i
    by (simp add: algebra_simps)
  have uv: "unat (v + PG_SIZE) = unat v + 4096" if "0 < n"
    using unat_page [OF h(3), of 1] that by simp
  have "frame (v + of_nat (Suc i) * PG_SIZE) \<noteq> frame v" if "i < n" for i
  proof -
    have "unat (v + of_nat (Suc i) * PG_SIZE) = unat v + 4096 * Suc i" using unat_page [OF h(3), of "Suc i"] that by simp
    then show ?thesis using run_page_aligned [OF h(2,3), of "Suc i"] h(2) that by (auto simp: u32_eq_iff_unat)
  qed
  moreover have "frame (v + PG_SIZE) = v + PG_SIZE"
    using run_page_aligned [OF h(2,3), of 1] h(2,3) unat_plus_small [of v PG_SIZE]
    by (cases "n = 0") (auto simp: aligned_unat PG_SIZE_def)
  moreover have "unat (v + PG_SIZE) + 4096 * n < 4294967296"
    using h(3) unat_plus_small [of v PG_SIZE] by (simp add: PG_SIZE_def)
  moreover have "present (phys s (pde_at s (v + of_nat (Suc i) * PG_SIZE))) \<and>
      kernel_table s (v + of_nat (Suc i) * PG_SIZE) \<and> mmu s (v + of_nat (Suc i) * PG_SIZE) = None" if "i < n" for i
    using assms that unfolding run_ok_def by (simp del: of_nat_Suc)
  moreover from this have "\<not> low_twin s v (v + of_nat (Suc i) * PG_SIZE)" if "i < n" for i using that not_low by blast
  ultimately show ?thesis
    using h set_pte_dir [of s v e] set_pte_dir_self [of s v e] unfolding run_ok_def
    by (simp add: set_pte_kernel_table set_pte_kernel_mmu kernel_table_def [of s v] shift del: of_nat_Suc)
qed

lemma frame_of_aligned: "pool_ok p \<Longrightarrow> k < frames p \<Longrightarrow> frame (frame_of p k) = frame_of p k"
  unfolding aligned_unat by (simp add: unat_frame_of pool_ok_def)

definition free_frames :: "pool \<Rightarrow> nat set" where
  "free_frames p = {k. k < frames p \<and> \<not> frame_used p k}"

lemma free_frames_finite [simp]: "finite (free_frames p)"
  by (simp add: free_frames_def)

lemma set_pte_memory [simp]:
  "kernel_pool (set_pte va v s) = kernel_pool s" "user_pool (set_pte va v s) = user_pool s"
  "kernel_vaddr (set_pte va v s) = kernel_vaddr s"
  by (simp_all add: set_pte_def)

text \<open>
  What a run of \<open>n\<close> mappings starting at \<open>v\<close> does: page \<open>i\<close> is backed by frame \<open>ks ! i\<close> of the kernel pool,
  all of them were free before, and no other address is affected but the low twins of the pages.
\<close>

definition maps_run :: "u32 \<Rightarrow> nat list \<Rightarrow> 'a memory_scheme \<Rightarrow> 'a memory_scheme \<Rightarrow> bool" where
  "maps_run v ks s s' \<longleftrightarrow>
     distinct ks \<and> set ks \<subseteq> free_frames (kernel_pool s) \<and>
     free_frames (kernel_pool s') = free_frames (kernel_pool s) - set ks \<and>
     (\<forall>a i. i < length ks \<and> frame a = v + of_nat i * PG_SIZE \<longrightarrow>
        mmu s' a = Some (frame_of (kernel_pool s) (ks ! i) OR (a AND 0xfff))) \<and>
     (\<forall>a. (\<forall>i < length ks. frame a \<noteq> v + of_nat i * PG_SIZE \<and> \<not> low_twin s (v + of_nat i * PG_SIZE) a) \<longrightarrow>
        mmu s' a = mmu s a)"

lemma maps_run_step:
  assumes run: "maps_run (v + PG_SIZE) ks s2 s'" and k: "k \<in> free_frames (kernel_pool s)"
    and fr: "free_frames (kernel_pool s2) = free_frames (kernel_pool s) - {k}"
    and st: "phy_addr_start (kernel_pool s2) = phy_addr_start (kernel_pool s)"
    and kv: "768 \<le> PDE_IDX v" "frame v = v" and tw: "\<And>x a. low_twin s2 x a = low_twin s x a"
    and m: "\<And>a. mmu s2 a = (if frame a = v \<or> low_twin s v a then Some (frame_of (kernel_pool s) k OR (a AND 0xfff)) else mmu s a)"
    and nw: "\<And>i. i < length ks \<Longrightarrow> v \<noteq> v + PG_SIZE + of_nat i * PG_SIZE"
  shows "maps_run v (k # ks) s s'"
proof -
  have shift: "v + of_nat (Suc i) * PG_SIZE = v + PG_SIZE + of_nat i * PG_SIZE" for i by (simp add: algebra_simps)
  have fo: "frame_of (kernel_pool s2) j = frame_of (kernel_pool s) j" for j using st by (simp add: frame_of_def)
  have mapped: "mmu s' a = Some (frame_of (kernel_pool s) ((k # ks) ! i) OR (a AND 0xfff))"
    if "i < length (k # ks)" "frame a = v + of_nat i * PG_SIZE" for a i
  proof (cases i)
    case 0
    then have "frame a = v" using that(2) by simp
    then have "768 \<le> PDE_IDX a" using kv same_page [of a v] by simp
    then have "\<forall>j < length ks. frame a \<noteq> v + PG_SIZE + of_nat j * PG_SIZE \<and> \<not> low_twin s2 (v + PG_SIZE + of_nat j * PG_SIZE) a"
      using nw \<open>frame a = v\<close> by (auto simp: low_twin_def)
    then have "mmu s' a = mmu s2 a" using run unfolding maps_run_def by blast
    then show ?thesis using m [of a] \<open>frame a = v\<close> 0 by simp
  next
    case (Suc j)
    then have "j < length ks" "frame a = v + PG_SIZE + of_nat j * PG_SIZE" using that shift [of j] by simp_all
    then show ?thesis using run Suc fo unfolding maps_run_def by auto
  qed
  moreover have "mmu s' a = mmu s a"
    if a: "\<forall>i < length (k # ks). frame a \<noteq> v + of_nat i * PG_SIZE \<and> \<not> low_twin s (v + of_nat i * PG_SIZE) a" for a
  proof -
    have "frame a \<noteq> v \<and> \<not> low_twin s v a" using a [rule_format, of 0] by simp
    moreover have "frame a \<noteq> v + PG_SIZE + of_nat j * PG_SIZE \<and> \<not> low_twin s2 (v + PG_SIZE + of_nat j * PG_SIZE) a"
      if "j < length ks" for j using a [rule_format, of "Suc j"] that shift [of j] tw by (simp add: add.assoc)
    then have "mmu s' a = mmu s2 a" using run unfolding maps_run_def by blast
    ultimately show ?thesis using m [of a] by simp
  qed
  ultimately show ?thesis using run k fr unfolding maps_run_def by auto
qed

text \<open>The directory keeps its entries.\<close>

definition keeps_dir :: "'a machine_scheme \<Rightarrow> 'a machine_scheme \<Rightarrow> bool" where
  "keeps_dir s s' \<longleftrightarrow> cr3 s' = cr3 s \<and> (\<forall>a. phys s' (pde_at s a) = phys s (pde_at s a))"

lemma keeps_dir_at: "keeps_dir s s' \<Longrightarrow> pde_at s' a = pde_at s a"
  by (simp add: keeps_dir_def pde_at_def)

lemma keeps_dir_private: "keeps_dir s s' \<Longrightarrow> table_private s' a = table_private s a"
  using keeps_dir_at [of s s'] by (simp add: keeps_dir_def table_private_def)

lemma keeps_dir_kernel:
  assumes "keeps_dir s s'"
  shows "kernel_table s' a = kernel_table s a"
  using assms keeps_dir_at [OF assms] by (simp add: keeps_dir_def kernel_table_def)

lemma malloc_loop_maps:
  "run_ok v n s \<Longrightarrow> pools_ok s \<Longrightarrow> n \<le> card (free_frames (kernel_pool s)) \<Longrightarrow>
     \<exists>ks s'. malloc_page_loop n PF_KERNEL v s = Some (True, s') \<and> length ks = n \<and> maps_run v ks s s' \<and>
       kernel_vaddr s' = kernel_vaddr s \<and> pools_ok s' \<and> self_mapped s' \<and> keeps_dir s s'"
proof (induction n arbitrary: v s)
  case 0
  then show ?case by (intro exI [of _ "[]"] exI [of _ s]) (simp add: maps_run_def run_ok_def keeps_dir_def)
next
  case (Suc n)
  have pk: "pool_ok (kernel_pool s)" using Suc.prems(2) by (simp add: pools_ok_def)
  have "free_frames (kernel_pool s) \<noteq> {}" using Suc.prems(3) by auto
  then have ne: "\<not> (\<forall>k < frames (kernel_pool s). frame_used (kernel_pool s) k)" by (auto simp: free_frames_def)
  obtain k p' where k: "k < frames (kernel_pool s)" "\<not> frame_used (kernel_pool s) k"
    "palloc (kernel_pool s) = Some (frame_of (kernel_pool s) k, p')" "frame_of (kernel_pool s) k \<noteq> 0" "pool_ok p'"
    "frames p' = frames (kernel_pool s)" "phy_addr_start p' = phy_addr_start (kernel_pool s)"
    "\<And>j. j < frames (kernel_pool s) \<Longrightarrow> frame_used p' j = (frame_used (kernel_pool s) j \<or> j = k)"
    by (rule palloc_cases [OF pk]) (use ne in blast, blast)
  let ?s1 = "s\<lparr>kernel_pool := p'\<rparr>" and ?e = "frame_of (kernel_pool s) k OR PG_US_U OR PG_RW_W OR PG_P_1"
  let ?s2 = "set_pte v ?e ?s1"
  have al: "frame (frame_of (kernel_pool s) k) = frame_of (kernel_pool s) k" by (rule frame_of_aligned [OF pk k(1)])
  have pal: "palloc_in PF_KERNEL s = Some (frame_of (kernel_pool s) k, ?s1)"
    using k(3) by (simp add: palloc_in_def get_pool_def set_pool_def)
  have at: "pde_at ?s1 a = pde_at s a" for a by (simp add: pde_at_def)
  have run1: "run_ok v (Suc n) ?s1"
    using Suc.prems(1) self_mapped_cong [of ?s1 s] kernel_table_cong [of ?s1 s] mmu_cong [of ?s1 s]
    by (simp add: run_ok_def at)
  have h: "self_mapped ?s1" "kernel_table ?s1 v" "present (phys ?s1 (pde_at ?s1 v))" "mmu ?s1 v = None" "frame v = v"
    "unat v + 4096 * Suc n < 4294967296"
    using run1 by (auto simp: run_ok_def elim: allE [of _ 0])
  have add: "page_table_add v (frame_of (kernel_pool s) k) ?s1 = Some ?s2"
    by (rule page_table_add_present [OF h(1,3,4)])
  have fr: "free_frames (kernel_pool ?s2) = free_frames (kernel_pool s) - {k}"
    using k(6,8) by (auto simp: free_frames_def)
  have po: "pools_ok ?s2" using Suc.prems(2) k(5-7) by (simp add: pools_ok_def)
  have "n \<le> card (free_frames (kernel_pool ?s2))"
    using Suc.prems(3) k(1,2) unfolding fr by (simp add: free_frames_def)
  then obtain ks s' where ih: "malloc_page_loop n PF_KERNEL (v + PG_SIZE) ?s2 = Some (True, s')" "length ks = n"
    "maps_run (v + PG_SIZE) ks ?s2 s'" "kernel_vaddr s' = kernel_vaddr ?s2" "pools_ok s'" "self_mapped s'"
    "keeps_dir ?s2 s'"
    using Suc.IH [OF run_ok_step [OF run1] po] by blast
  have "maps_run v (k # ks) s s'"
  proof (rule maps_run_step [OF ih(3)])
    show "k \<in> free_frames (kernel_pool s)" using k(1,2) by (simp add: free_frames_def)
    show "768 \<le> PDE_IDX v" "frame v = v" using h(2,5) by (simp_all add: kernel_table_def)
    show "low_twin ?s2 x a = low_twin s x a" for x a
      using set_pte_kernel_table(2) [OF h(2), of ?e x a] kernel_table_cong(2) [of ?s1 s x a] by simp
    show "mmu ?s2 a = (if frame a = v \<or> low_twin s v a then Some (frame_of (kernel_pool s) k OR (a AND 0xfff)) else mmu s a)" for a
      using set_pte_kernel_mmu [OF h(2,3), of ?e a] h(5) al mmu_cong [of ?s1 s a] kernel_table_cong(2) [of ?s1 s v a]
      by (simp add: attr_bits mask_consts(3))
    show "v \<noteq> v + PG_SIZE + of_nat i * PG_SIZE" if "i < length ks" for i
      using unat_page [OF h(6), of "Suc i"] that ih(2) by (auto simp: algebra_simps u32_eq_iff_unat)
  qed (use fr k(7) in simp_all)
  moreover have "keeps_dir s s'"
    using ih(7) set_pte_dir [of ?s1 v ?e] h(2) by (simp add: keeps_dir_def kernel_table_def at)
  ultimately show ?case using pal k(4) add ih by (intro exI [of _ "k # ks"] exI [of _ s']) simp
qed

lemma bitmap_set_range_effect:
  assumes "btmp_ok b" "v = 0 \<or> v = 1" "unat i + n \<le> btmp_bits b"
  shows "\<exists>b'. bitmap_set_range n b i v = Some b' \<and> btmp_ok b' \<and> btmp_bits b' = btmp_bits b \<and>
           (\<forall>k < btmp_bits b. bit_at b' k = (if unat i \<le> k \<and> k < unat i + n then v \<noteq> 0 else bit_at b k))"
  using assms
proof (induction n arbitrary: b i)
  case 0
  then show ?case by auto
next
  case (Suc n)
  let ?b = "set_bit_at b i (v \<noteq> 0)"
  have m: "bitmap_set b i v = Some ?b" using Suc.prems(2) by (auto simp: bitmap_set_cases)
  have "unat i < 2147483648" using Suc.prems(1,3) by (simp add: btmp_ok_def)
  then have ui: "unat (i + 1) = Suc (unat i)" by (intro unat_Suc_small) linarith
  have "btmp_ok ?b" "unat (i + 1) + n \<le> btmp_bits ?b" using Suc.prems ui by simp_all
  then obtain b' where b': "bitmap_set_range n ?b (i + 1) v = Some b'" "btmp_ok b'" "btmp_bits b' = btmp_bits ?b"
    "\<forall>k < btmp_bits ?b. bit_at b' k = (if unat (i + 1) \<le> k \<and> k < unat (i + 1) + n then v \<noteq> 0 else bit_at ?b k)"
    using Suc.IH [OF _ Suc.prems(2)] by blast
  have "bit_at b' k = (if unat i \<le> k \<and> k < unat i + Suc n then v \<noteq> 0 else bit_at b k)" if "k < btmp_bits b" for k
    using b'(4) that btm.mark_used [OF m Suc.prems(1) that] ui by auto
  then show ?case using m b' by simp
qed

lemma malloc_page_kernel:
  assumes ks: "kernel_space_ok s" and po: "pools_ok s" and n: "0 < unat n" "unat n < 3840"
    and room: "fits (vaddr_bitmap (kernel_vaddr s)) (unat n) k0"
    and free: "unat n \<le> card (free_frames (kernel_pool s))"
  obtains r fs s' where "malloc_page PF_KERNEL n s = Some (kpage s r, s')" "fits (vaddr_bitmap (kernel_vaddr s)) (unat n) r"
    "kpage s r \<noteq> 0" "length fs = unat n" "maps_run (kpage s r) fs s s'" "kernel_space_ok s'" "pools_ok s'"
proof -
  let ?vb = "vaddr_bitmap (kernel_vaddr s)"
  have k: "self_mapped s" "btmp_ok ?vb" "vaddr_start (kernel_vaddr s) \<noteq> 0"
    "unat (vaddr_start (kernel_vaddr s)) + 4096 * btmp_bits ?vb < 4294967296"
    using ks by (auto simp: kernel_space_ok_def)
  obtain w where w: "bitmap_scan ?vb n = Some w" using bitmap_scan_returns [OF k(2) n(1)] by blast
  have wn: "w \<noteq> -1" using bitmap_scan_absent [OF k(2) n(1)] w room by blast
  have fit: "fits ?vb (unat n) (unat w)" using bitmap_scan_found [OF k(2) n(1) w wn] by blast
  then have in_map: "unat w + unat n \<le> btmp_bits ?vb" and clear: "\<And>i. i < unat n \<Longrightarrow> \<not> bit_at ?vb (unat w + i)"
    by (auto simp: fits_def)
  obtain b where b: "bitmap_set_range (unat n) ?vb w 1 = Some b" "btmp_ok b" "btmp_bits b = btmp_bits ?vb"
    "\<forall>k < btmp_bits ?vb. bit_at b k = (if unat w \<le> k \<and> k < unat w + unat n then (1 :: u8) \<noteq> 0 else bit_at ?vb k)"
    using bitmap_set_range_effect [OF k(2) _ in_map, of 1] by blast
  let ?v = "kpage s (unat w)"
  let ?s1 = "s\<lparr>kernel_vaddr := (kernel_vaddr s)\<lparr>vaddr_bitmap := b\<rparr>\<rparr>"
  have wl: "unat w < btmp_bits ?vb" using in_map n(1) by linarith
  note kp = kpage_facts [OF ks wl]
  have vnz: "?v \<noteq> 0" using kp(1) k(3) by (auto simp: word_unat_eq_iff)
  have get: "vaddr_get PF_KERNEL n s = Some (?v, ?s1)"
    using w wn b(1) by (simp add: vaddr_get_def kpage_def)
  have page: "?v + of_nat i * PG_SIZE = kpage s (unat w + i)" for i
    by (simp add: kpage_def algebra_simps)
  have at1: "pde_at ?s1 a = pde_at s a" for a by (simp add: pde_at_def)
  have run: "run_ok ?v (unat n) ?s1"
  proof -
    have "unat ?v + 4096 * unat n \<le> unat (vaddr_start (kernel_vaddr s)) + 4096 * btmp_bits ?vb" using kp(1) in_map by linarith
    moreover have "present (phys s (pde_at s (kpage s (unat w + i)))) \<and> kernel_table s (kpage s (unat w + i)) \<and>
        mmu s (kpage s (unat w + i)) = None" if "i < unat n" for i
      using ks clear [OF that] in_map that unfolding kernel_space_ok_def by auto
    ultimately show ?thesis
      using kp(2) k(1,4) self_mapped_cong [of ?s1 s] kernel_table_cong [of ?s1 s] mmu_cong [of ?s1 s]
      unfolding run_ok_def page by (simp add: at1)
  qed
  have "pools_ok ?s1" using po by (simp add: pools_ok_def)
  then obtain fs s' where l: "malloc_page_loop (unat n) PF_KERNEL ?v ?s1 = Some (True, s')" "length fs = unat n"
    "maps_run ?v fs ?s1 s'" "kernel_vaddr s' = kernel_vaddr ?s1" "pools_ok s'" "self_mapped s'" "keeps_dir ?s1 s'"
    using malloc_loop_maps [OF run] free by auto
  have mr: "maps_run ?v fs s s'" using l(3) mmu_cong [of ?s1 s] kernel_table_cong(2) [of ?s1 s] by (simp add: maps_run_def)
  have kd: "keeps_dir s s'" using l(7) by (simp add: keeps_dir_def at1)
  have kp': "kpage s' j = kpage s j" for j using l(4) by (simp add: kpage_def)
  have unm: "mmu s' (kpage s j) = None" if j: "j < btmp_bits ?vb" "\<not> bit_at b j" for j
  proof -
    have nj: "\<not> (unat w \<le> j \<and> j < unat w + unat n)" "\<not> bit_at ?vb j" using b(4) j by (auto split: if_splits)
    have "frame (kpage s j) \<noteq> kpage s (unat w + i)" if "i < unat n" for i
      using kpage_facts [OF ks j(1)] kpage_facts(1) [OF ks, of "unat w + i"] in_map that nj(1)
      by (auto simp: u32_eq_iff_unat)
    moreover have "kernel_table s (kpage s j)" using ks j(1) by (auto simp: kernel_space_ok_def)
    then have "\<not> low_twin s v (kpage s j)" for v by (rule not_low)
    ultimately have "mmu s' (kpage s j) = mmu s (kpage s j)" using mr l(2) unfolding maps_run_def page by auto
    then show ?thesis using ks j(1) nj(2) by (auto simp: kernel_space_ok_def)
  qed
  have "kernel_space_ok s'"
    using ks l(4,6) b(2,3) unm kd keeps_dir_kernel [OF kd] keeps_dir_at [OF kd]
    unfolding kernel_space_ok_def kp' keeps_dir_def by simp
  moreover have "malloc_page PF_KERNEL n s = Some (?v, s')"
    using n get vnz l(1) by (simp add: malloc_page_def word_less_nat_alt)
  ultimately show thesis using that [OF _ fit vnz l(2) mr _ l(5)] by blast
qed

subsection \<open>Properties\<close>

text \<open>Frame allocation: a free frame is handed out and marked, or null is returned; freeing restores the pool.\<close>

lemma frame_allocation:
  assumes "pools_ok s"
  shows "\<exists>a s1. palloc_in pf s = Some (a, s1) \<and>
           (if free_frames (get_pool pf s) = {} then a = 0 \<and> s1 = s
            else \<exists>k \<in> free_frames (get_pool pf s). a = frame_of (get_pool pf s) k \<and> a \<noteq> 0 \<and> pools_ok s1 \<and>
                   free_frames (get_pool pf s1) = free_frames (get_pool pf s) - {k} \<and>
                   (\<exists>s2. pfree a s1 = Some s2 \<and> free_frames (get_pool pf s2) = free_frames (get_pool pf s)))"
proof (cases rule: palloc_cases [OF get_pool_ok [OF assms, of pf]])
  case 1
  then have "free_frames (get_pool pf s) = {}" by (auto simp: free_frames_def)
  moreover have "set_pool pf (get_pool pf s) s = s" by (simp add: set_pool_def get_pool_def)
  ultimately show ?thesis using 1 by (simp add: palloc_in_def)
next
  case (2 k p')
  let ?p = "get_pool pf s" and ?s1 = "set_pool pf p' s"
  have k: "k \<in> free_frames ?p" using 2 by (simp add: free_frames_def)
  have fr: "free_frames p' = free_frames ?p - {k}" using 2(6,9) by (auto simp: free_frames_def)
  have po: "pools_ok ?s1" using assms 2(5-7) by (cases pf) (auto simp: pools_ok_def set_pool_def get_pool_def)
  have fo: "frame_of ?p k = frame_of (get_pool pf ?s1) k" using 2(7) by (simp add: frame_of_def)
  have "k < frames (get_pool pf ?s1)" using 2(1,6) by simp
  then obtain p2 where p2: "pfree (frame_of (get_pool pf ?s1) k) ?s1 = Some (set_pool pf p2 ?s1)"
    "frames p2 = frames p'" "\<And>j. j < frames p' \<Longrightarrow> frame_used p2 j = (frame_used p' j \<and> j \<noteq> k)"
    by (rule pfree_frame [OF po]) simp
  have "free_frames p2 = free_frames ?p"
    using p2(2,3) 2(2,6,9) by (auto simp: free_frames_def)
  then have undo: "\<exists>s2. pfree (frame_of ?p k) ?s1 = Some s2 \<and> free_frames (get_pool pf s2) = free_frames ?p"
    using p2(1) fo by simp
  have ne: "free_frames ?p \<noteq> {}" using k by blast
  have "palloc_in pf s = Some (frame_of ?p k, ?s1)" using 2(3) by (simp add: palloc_in_def)
  moreover have "\<exists>k' \<in> free_frames ?p. frame_of ?p k = frame_of ?p k' \<and> frame_of ?p k \<noteq> 0 \<and> pools_ok ?s1 \<and>
      free_frames (get_pool pf ?s1) = free_frames ?p - {k'} \<and>
      (\<exists>s2. pfree (frame_of ?p k) ?s1 = Some s2 \<and> free_frames (get_pool pf s2) = free_frames ?p)"
    using k 2(4) po fr undo by (intro bexI [of _ k]) simp_all
  ultimately show ?thesis using ne by (intro exI [of _ "frame_of ?p k"] exI [of _ ?s1]) simp
qed

definition demo_memory :: memory where
  "demo_memory =
     \<lparr>eflags = 0, phys = phys demo_machine, cr3 = 0x100000, esp = 0xc009ef00, esp0 = 0,
      tasks = tasks demo_sched, ready_list = [0xc0101000], all_list = [0xc009e000, 0xc0100000, 0xc0101000],
      idle_thread = 0xc0100000, main_thread = 0xc009e000, ticks = 0,
      kernel_pool = \<lparr>pool_bitmap = \<lparr>btmp_bytes_len = 1, bits = (\<lambda>_. 1)\<rparr>, pool_bits = 0xc009a000,
                     phy_addr_start = 0x200000, pool_size = 0x8000, pool_lock = lock_init\<rparr>,
      user_pool = \<lparr>pool_bitmap = \<lparr>btmp_bytes_len = 1, bits = (\<lambda>_. 0)\<rparr>, pool_bits = 0xc009a001,
                   phy_addr_start = 0x208000, pool_size = 0x8000, pool_lock = lock_init\<rparr>,
      kernel_vaddr = \<lparr>vaddr_bitmap = \<lparr>btmp_bytes_len = 1, bits = (\<lambda>_. 1)\<rparr>, vaddr_bits = 0xc009a002,
                      vaddr_start = 0xc0100000\<rparr>,
      k_block_descs = [], k_arenas = (\<lambda>_. \<lparr>desc = None, arena_cnt = 0, large = False\<rparr>)\<rparr>"

lemma demo_memory_pools: "pools_ok demo_memory"
  by (simp add: pools_ok_def pool_ok_def demo_memory_def btmp_ok_def btmp_bits_def frames_def)

lemma demo_memory_free: "free_frames (kernel_pool demo_memory) = {1, 2, 3, 4, 5, 6, 7}"
proof -
  have "bit (1 :: u8) j \<longleftrightarrow> j = 0" for j by (simp add: bit_1_iff)
  then have "free_frames (kernel_pool demo_memory) = {k. k < 8 \<and> k mod 8 \<noteq> 0}"
    by (simp add: free_frames_def frames_def frame_used_def demo_memory_def btmp_bits_def bit_at_def)
  also have "\<dots> = {1, 2, 3, 4, 5, 6, 7}" by auto
  finally show ?thesis .
qed

lemma frame_allocation_demo:
  "\<exists>a s1. palloc_in PF_KERNEL demo_memory = Some (a, s1) \<and> a \<noteq> 0 \<and> (\<exists>s2. pfree a s1 = Some s2)"
  using frame_allocation [OF demo_memory_pools, of PF_KERNEL] demo_memory_free by (auto simp: get_pool_def)


lemma demo_memory_mmu: "mmu demo_memory a = mmu demo_machine a"
  by (rule mmu_cong) (simp_all add: demo_memory_def demo_machine_def)

lemma demo_memory_self: "self_mapped demo_memory"
  using demo_machine_self by (simp add: self_mapped_def demo_memory_def demo_machine_def)

lemma demo_memory_at: "pde_at demo_memory a = pde_at demo_machine a"
  by (simp add: pde_at_def demo_memory_def demo_machine_def)

lemma demo_pde_present:
  "present (phys demo_memory (pde_at demo_memory a)) \<Longrightarrow> PDE_IDX a = mask 10 \<or> PDE_IDX a = 768"
proof -
  assume p: "present (phys demo_memory (pde_at demo_memory a))"
  have ne: "pde_at demo_machine a \<noteq> 0x101400"
    using frame_pde_at [of demo_machine a] by (auto simp: demo_machine_def frame_def)
  have "phys demo_memory = phys demo_machine" by (simp add: demo_memory_def)
  then have "phys demo_machine (pde_at demo_machine a) \<noteq> 0"
    using p by (auto simp: demo_memory_at present_def)
  with ne have "pde_at demo_machine a = 0x100ffc \<or> pde_at demo_machine a = 0x100c00"
    by (auto simp: demo_machine_def split: if_splits)
  moreover have "pde_at demo_machine (-1) = 0x100ffc"
    using self_entry_at [of demo_machine] by (simp add: demo_machine_def frame_def mask_eq_exp_minus_1)
  ultimately show ?thesis
    using pde_at_inj [of demo_machine a "-1"] pde_at_inj [of demo_machine a "0xc0100000"] demo_machine_pde PDE_last
    by (auto simp: PDE_IDX_def)
qed

lemma demo_dir_unique: "dir_unique demo_memory"
  unfolding dir_unique_def
proof (intro allI impI, elim conjE)
  fix a
  assume p: "present (phys demo_memory (pde_at demo_memory a))"
    and f: "frame (phys demo_memory (pde_at demo_memory a)) = frame (cr3 demo_memory)"
  have "PDE_IDX a \<noteq> 768"
  proof
    assume "PDE_IDX a = 768"
    then have "pde_at demo_memory a = 0x100c00" by (simp add: pde_at_def demo_memory_def frame_def)
    with f show False by (simp add: demo_memory_def demo_machine_def frame_def)
  qed
  with demo_pde_present [OF p] show "PDE_IDX a = mask 10" by blast
qed

lemma demo_same_table: "PDE_IDX a = 768 \<Longrightarrow> pde_at demo_memory a = 0x100c00"
  by (simp add: pde_at_def demo_memory_def frame_def)

lemma demo_private: "PDE_IDX a = 768 \<Longrightarrow> table_private demo_memory a"
proof -
  assume a: "PDE_IDX a = 768"
  have f: "frame (phys demo_memory 0x100c00) = 0x101000" "frame (cr3 demo_memory) = 0x100000"
    by (simp_all add: demo_memory_def demo_machine_def frame_def)
  have "PDE_IDX va' = 768" if "present (phys demo_memory (pde_at demo_memory va'))"
    "frame (phys demo_memory (pde_at demo_memory va')) = 0x101000" for va'
  proof -
    have "PDE_IDX va' \<noteq> mask 10"
    proof
      assume "PDE_IDX va' = mask 10"
      then have "pde_at demo_memory va' = 0x100ffc"
        by (simp add: pde_at_def demo_memory_def frame_def mask_eq_exp_minus_1)
      with that(2) show False by (simp add: demo_memory_def demo_machine_def frame_def)
    qed
    then show ?thesis using demo_pde_present [OF that(1)] by blast
  qed
  then show ?thesis unfolding table_private_def Let_def demo_same_table [OF a] f a by auto
qed


text \<open>
  Property C5: when the address pool has a free run of \<open>n\<close> pages and the frame pool \<open>n\<close> free frames, \<open>malloc_page\<close>
  returns the address of such a run, with each page mapped to its own frame that
  was free before; no other address changes its translation, except those below the kernel's GiB that a directory entry there makes share
  the page's table entry, and the kernel's address space stays sound.
\<close>

theorem kernel_pages_are_fresh:
  assumes "kernel_space_ok s" "pools_ok s" "0 < unat n" "unat n < 3840"
    and "fits (vaddr_bitmap (kernel_vaddr s)) (unat n) k0"
    and "unat n \<le> card (free_frames (kernel_pool s))"
  shows "\<exists>r fs s'. malloc_page PF_KERNEL n s = Some (kpage s r, s') \<and> kpage s r \<noteq> 0 \<and>
           fits (vaddr_bitmap (kernel_vaddr s)) (unat n) r \<and> length fs = unat n \<and>
           maps_run (kpage s r) fs s s' \<and> kernel_space_ok s' \<and> pools_ok s'"
proof -
  obtain r fs s' where "malloc_page PF_KERNEL n s = Some (kpage s r, s')" "fits (vaddr_bitmap (kernel_vaddr s)) (unat n) r"
    "kpage s r \<noteq> 0" "length fs = unat n" "maps_run (kpage s r) fs s s'" "kernel_space_ok s'" "pools_ok s'"
    using assms by (rule malloc_page_kernel)
  then show ?thesis by blast
qed

lemma private_kernel_table: "table_private s va \<Longrightarrow> 768 \<le> PDE_IDX va \<Longrightarrow> kernel_table s va"
  by (auto simp: table_private_def kernel_table_def Let_def)

lemma demo_kpage: "k < 8 \<Longrightarrow> PDE_IDX (kpage demo_memory k) = 768 \<and>
    (k \<noteq> 0 \<longrightarrow> mmu demo_memory (kpage demo_memory k) = None)"
proof -
  assume "k < 8"
  then have "k \<in> {0, 1, 2, 3, 4, 5, 6, 7}" by auto
  moreover have kp: "kpage demo_memory k = 0xc0100000 + of_nat k * 4096"
    by (simp add: kpage_def demo_memory_def PG_SIZE_def)
  ultimately show ?thesis unfolding demo_memory_mmu kp
    by (elim insertE emptyE)
      (simp_all add: mmu_def pde_at_def pte_in_def demo_machine_def frame_def present_def PDE_IDX_def PTE_IDX_def Let_def)
qed

lemma demo_vbits: "btmp_bits (vaddr_bitmap (kernel_vaddr demo_memory)) = 8"
  "bit_at (vaddr_bitmap (kernel_vaddr demo_memory)) k \<longleftrightarrow> k mod 8 = 0"
  by (simp_all add: demo_memory_def btmp_bits_def bit_at_def bit_1_iff)

lemma demo_kernel_space: "kernel_space_ok demo_memory"
proof -
  have "present (phys demo_memory (pde_at demo_memory (kpage demo_memory k))) \<and>
      kernel_table demo_memory (kpage demo_memory k) \<and>
      (\<not> bit_at (vaddr_bitmap (kernel_vaddr demo_memory)) k \<longrightarrow> mmu demo_memory (kpage demo_memory k) = None)"
    if "k < 8" for k
  proof -
    have "present (phys demo_memory 0x100c00)" by (simp add: demo_memory_def demo_machine_def present_def)
    then show ?thesis
      using demo_kpage [OF that] demo_same_table private_kernel_table [OF demo_private] that by (auto simp: demo_vbits)
  qed
  then show ?thesis unfolding kernel_space_ok_def demo_vbits(1)
    using demo_memory_self by (auto simp: demo_memory_def frame_def btmp_ok_def btmp_bits_def)
qed

theorem kernel_pages_are_fresh_witness:
  "\<exists>r fs s'. malloc_page PF_KERNEL 2 demo_memory = Some (kpage demo_memory r, s') \<and>
     length fs = 2 \<and> maps_run (kpage demo_memory r) fs demo_memory s'"
proof -
  have "fits (vaddr_bitmap (kernel_vaddr demo_memory)) (unat (2 :: u32)) 1"
    by (simp add: fits_def demo_vbits)
  moreover have "unat (2 :: u32) \<le> card (free_frames (kernel_pool demo_memory))"
    by (simp add: demo_memory_free)
  ultimately show ?thesis
    using kernel_pages_are_fresh [OF demo_kernel_space demo_memory_pools, of 2 1] by auto
qed

lemma unat_u16_less: "unat (x :: u16) < 65536"
  using unsigned_less [of x] by simp

lemma init_counts:
  assumes "0x200000 \<le> unat all_mem" "unat all_mem < 0x10200000"
  shows "unat (ucast ((all_mem - (PG_SIZE * 256 + 0x100000)) div PG_SIZE) :: u16) = (unat all_mem - 0x200000) div 4096"
proof -
  have "unat (all_mem - 0x200000) = unat all_mem - 0x200000" using assms(1) by (intro unat_minus_small [THEN trans]) simp_all
  then have "unat ((all_mem - 0x200000) div 4096) = (unat all_mem - 0x200000) div 4096" by (simp add: unat_div)
  moreover have "(unat all_mem - 0x200000) div 4096 < 65536" using assms(2) by (simp add: div_less_iff_less_mult)
  ultimately show ?thesis by (simp add: PG_SIZE_def unsigned_ucast_eq take_bit_nat_eq_self)
qed

lemma unat_u16_up: "unat (ucast (x :: u16) :: u32) = unat x"
  using unat_u16_less [of x] by (simp add: unsigned_ucast_eq take_bit_nat_eq_self)

lemma unat_pages: "unat (ucast (x :: u16) * PG_SIZE :: u32) = 4096 * unat x"
proof -
  have "4096 * unat x < 4294967296" using unat_u16_less [of x] by simp
  then show ?thesis by (simp add: unat_word_ariths unat_u16_up PG_SIZE_def)
qed

definition pool_pages :: "u32 \<Rightarrow> nat" where
  "pool_pages all_mem = (unat all_mem - 0x200000) div 4096"

lemma mem_pool_init_fields:
  fixes s :: "'a memory_scheme" and all_mem :: u32
  assumes "0x200000 \<le> unat all_mem" "unat all_mem < 0x10200000"
  defines "N \<equiv> pool_pages all_mem" and "s' \<equiv> mem_pool_init all_mem s"
  shows "unat (phy_addr_start (kernel_pool s')) = 0x200000"
    "unat (phy_addr_start (user_pool s')) = 0x200000 + 4096 * (N div 2)"
    "frames (kernel_pool s') = 8 * (N div 2 div 8)" "frames (user_pool s') = 8 * ((N - N div 2) div 8)"
    "unat (pool_size (kernel_pool s')) = 4096 * (N div 2)" "unat (pool_size (user_pool s')) = 4096 * (N - N div 2)"
proof -
  define x :: u16 where "x = ucast ((all_mem - (PG_SIZE * 256 + 0x100000)) div PG_SIZE)"
  have ux: "unat x = N" using init_counts [OF assms(1,2)] by (simp add: x_def N_def pool_pages_def)
  have uk: "unat (x div 2) = N div 2" by (simp add: unat_div ux)
  have "unat (x div 2) \<le> unat x" by (simp add: uk ux)
  then have uu: "unat (x - x div 2) = N - N div 2" by (simp add: unat_sub word_le_nat_alt uk ux)
  have N: "N < 65536" using unat_u16_less [of x] by (simp add: ux)
  have st: "kernel_pool s' = \<lparr>pool_bitmap = bitmap_init ((pool_bitmap (kernel_pool s))\<lparr>btmp_bytes_len := ucast (x div 2 div 8)\<rparr>),
      pool_bits = MEM_BITMAP_BASE, phy_addr_start = PG_SIZE * 256 + 0x100000,
      pool_size = ucast (x div 2) * PG_SIZE, pool_lock = lock_init\<rparr>"
    "user_pool s' = \<lparr>pool_bitmap = bitmap_init ((pool_bitmap (user_pool s))\<lparr>btmp_bytes_len := ucast ((x - x div 2) div 8)\<rparr>),
      pool_bits = MEM_BITMAP_BASE + ucast (x div 2 div 8), phy_addr_start = PG_SIZE * 256 + 0x100000 + ucast (x div 2) * PG_SIZE,
      pool_size = ucast (x - x div 2) * PG_SIZE, pool_lock = lock_init\<rparr>"
    by (simp_all add: s'_def mem_pool_init_def Let_def x_def)
  show "unat (phy_addr_start (kernel_pool s')) = 0x200000" by (simp add: st PG_SIZE_def)
  have "unat (0x200000 + ucast (x div 2) * PG_SIZE :: u32) = 0x200000 + 4096 * (N div 2)"
    using N by (simp add: unat_plus_small unat_pages uk)
  then show "unat (phy_addr_start (user_pool s')) = 0x200000 + 4096 * (N div 2)" by (simp add: st PG_SIZE_def)
  show "unat (pool_size (kernel_pool s')) = 4096 * (N div 2)" "unat (pool_size (user_pool s')) = 4096 * (N - N div 2)"
    by (simp_all add: st unat_pages uk uu)
  show "frames (kernel_pool s') = 8 * (N div 2 div 8)" "frames (user_pool s') = 8 * ((N - N div 2) div 8)"
    by (simp_all add: st frames_def btmp_bits_def unat_u16_up unat_div ux uu)
qed

lemma init_free:
  "free_frames (kernel_pool (mem_pool_init m s)) = {k. k < frames (kernel_pool (mem_pool_init m s))}"
  "free_frames (user_pool (mem_pool_init m s)) = {k. k < frames (user_pool (mem_pool_init m s))}"
  using bitmap_init_clear
  by (auto simp: free_frames_def frames_def frame_used_def mem_pool_init_def Let_def btmp_bits_def)

text \<open>
  From 2 MiB up to less than 258 MiB of memory, \<open>mem_pool_init\<close> splits what lies above the first 2 MiB into a kernel
  and a user pool of page frames that are disjoint, inside memory and entirely
  free, each losing fewer than eight pages to rounding.
\<close>

lemma pools_partition_memory:
  assumes "0x200000 \<le> unat all_mem" "unat all_mem < 0x10200000"
  shows "pools_ok (mem_pool_init all_mem s) \<and>
         unat (phy_addr_start (user_pool (mem_pool_init all_mem s))) + 4096 * frames (user_pool (mem_pool_init all_mem s)) \<le> unat all_mem \<and>
         card (free_frames (kernel_pool (mem_pool_init all_mem s))) + card (free_frames (user_pool (mem_pool_init all_mem s))) + 14
           \<ge> pool_pages all_mem"
proof -
  let ?s = "mem_pool_init all_mem s" and ?N = "pool_pages all_mem"
  note f = mem_pool_init_fields [OF assms, where s = s]
  have N: "0x200000 + 4096 * ?N \<le> unat all_mem"
    using assms(1) div_times_less_eq_dividend [of "unat all_mem - 0x200000" 4096] unfolding pool_pages_def by linarith
  have k: "8 * (?N div 2 div 8) \<le> ?N div 2" "?N div 2 < 8 * (?N div 2 div 8) + 8" by simp_all
  have u: "8 * ((?N - ?N div 2) div 8) \<le> ?N - ?N div 2" "?N - ?N div 2 < 8 * ((?N - ?N div 2) div 8) + 8" by simp_all
  have fk: "frames (kernel_pool ?s) \<le> ?N div 2" and fu: "frames (user_pool ?s) \<le> ?N - ?N div 2"
    using f(3,4) k(1) u(1) by simp_all
  have "?N < 65536" using N assms(2) by linarith
  then have "pool_ok (kernel_pool ?s)" "pool_ok (user_pool ?s)"
    unfolding pool_ok_def btmp_ok_def frames_def [symmetric] using f(1,2) fk fu
    by (auto simp: word_unat_eq_iff)
  then have "pools_ok ?s" using f(1,2) fk by (simp add: pools_ok_def)
  moreover have "card (free_frames (kernel_pool ?s)) = frames (kernel_pool ?s)"
    "card (free_frames (user_pool ?s)) = frames (user_pool ?s)" by (simp_all add: init_free)
  moreover have "0x200000 + 4096 * (?N div 2) + 4096 * frames (user_pool ?s) \<le> unat all_mem"
    using N fu by linarith
  moreover have "?N \<le> 8 * (?N div 2 div 8) + 8 * ((?N - ?N div 2) div 8) + 14" using k u by linarith
  ultimately show ?thesis using f(2-4) by simp
qed

lemma pools_partition_memory_demo:
  "pools_ok (mem_pool_init 0x2000000 demo_memory)"
  using pools_partition_memory [of "0x2000000" demo_memory] by simp

text \<open>
  With exactly 258 MiB the 16-bit page counts wrap to 0 and both pools come out empty, although the
  bitmaps were laid out for 512 MiB.
\<close>

lemma pools_empty_at_258_MiB:
  "frames (kernel_pool (mem_pool_init 0x10200000 s)) = 0" "frames (user_pool (mem_pool_init 0x10200000 s)) = 0"
  by (simp_all add: mem_pool_init_def frames_def btmp_bits_def Let_def PG_SIZE_def)

end
