(* ===== verification/Ide.thy ===== *)
theory Ide
  imports Memory
begin

text \<open>
  The disk driver device/ide.c: how a transfer is programmed into the controller's
  registers, the loops of \<open>ide_read\<close> and \<open>ide_write\<close> that split it into
  commands of at most 256 sectors, and the byte order of the words stored on disk.
  A disk is a function from sector numbers to sectors of 512 bytes.  The controller is
  hardware: it moves the sectors its registers name (a count of 0 stands for 256).
  The channel's lock and the semaphore on which the driver sleeps until the completion
  interrupt only order the caller against other tasks (theory Sync) and are left out here.
  The theory also fixes the little-endian layout that memory and disk share.
\<close>

type_synonym disk = "u32 \<Rightarrow> u8 list"

subsection \<open>Words as bytes\<close>

definition le32 :: "u32 \<Rightarrow> u8 list" where
  "le32 w = [ucast w, ucast (drop_bit 8 w), ucast (drop_bit 16 w), ucast (drop_bit 24 w)]"

definition rd32 :: "u8 list \<Rightarrow> nat \<Rightarrow> u32" where
  "rd32 xs k = ucast (xs ! k) OR push_bit 8 (ucast (xs ! (k + 1)))
     OR push_bit 16 (ucast (xs ! (k + 2))) OR push_bit 24 (ucast (xs ! (k + 3)))"

text \<open>\<open>memcpy(buf + off, xs, length xs)\<close> on the bytes of a buffer.\<close>

definition splice :: "nat \<Rightarrow> 'b list \<Rightarrow> 'b list \<Rightarrow> 'b list" where
  "splice off xs buf = take off buf @ xs @ drop (off + length xs) buf"

lemma length_le32 [simp]: "length (le32 w) = 4"
  by (simp add: le32_def)

lemma rd32_le32: "rd32 (xs @ le32 w @ ys) (length xs) = w"
proof -
  have "rd32 (xs @ le32 w @ ys) (length xs) = ucast (ucast w :: u8) OR push_bit 8 (ucast (ucast (drop_bit 8 w) :: u8))
     OR push_bit 16 (ucast (ucast (drop_bit 16 w) :: u8)) OR push_bit 24 (ucast (ucast (drop_bit 24 w) :: u8))"
    by (simp add: rd32_def le32_def nth_append)
  also have "\<dots> = w"
  proof (rule bit_word_eqI)
    fix n
    assume "n < LENGTH(32)"
    then have "n < 32" by simp
    then consider "n < 8" | "8 \<le> n" "n < 16" | "16 \<le> n" "n < 24" | "24 \<le> n" "n < 32" by (metis not_less)
    then show "bit (ucast (ucast w :: u8) OR push_bit 8 (ucast (ucast (drop_bit 8 w) :: u8))
      OR push_bit 16 (ucast (ucast (drop_bit 16 w) :: u8)) OR push_bit 24 (ucast (ucast (drop_bit 24 w) :: u8)) :: u32) n = bit w n"
      by cases (auto simp: bit_simps)
  qed
  finally show ?thesis .
qed

lemma rd32_drop: "k + 4 \<le> length xs - j \<Longrightarrow> j \<le> length xs \<Longrightarrow> rd32 (drop j xs) k = rd32 xs (j + k)"
  by (simp add: rd32_def add.assoc)

lemma rd32_take: "k + 4 \<le> n \<Longrightarrow> rd32 (take n xs) k = rd32 xs k"
  by (simp add: rd32_def)

lemma length_splice [simp]: "off + length xs \<le> length b \<Longrightarrow> length (splice off xs b) = length b"
  by (simp add: splice_def)

lemma splice_get: "off + length xs \<le> length b \<Longrightarrow> take (length xs) (drop off (splice off xs b)) = xs"
  by (simp add: splice_def min_def)

lemma nth_splice:
  assumes "off + length xs \<le> length b" "j < length b"
  shows "splice off xs b ! j = (if off \<le> j \<and> j < off + length xs then xs ! (j - off) else b ! j)"
  using assms by (auto simp: splice_def nth_append min_def)

lemma splice_frame:
  assumes "off + length xs \<le> length b" "k + n \<le> off \<or> off + length xs \<le> k" "k + n \<le> length b"
  shows "take n (drop k (splice off xs b)) = take n (drop k b)"
  by (rule nth_equalityI) (use assms in \<open>auto simp: nth_splice\<close>)

subsection \<open>Programming the controller\<close>

definition max_lba :: u32 where
  "max_lba = 80 * 1024 * 1024 div 512 - 1"

definition BIT_DEV_MBS :: u8 where "BIT_DEV_MBS = 0xa0"
definition BIT_DEV_LBA :: u8 where "BIT_DEV_LBA = 0x40"
definition BIT_DEV_DEV :: u8 where "BIT_DEV_DEV = 0x10"
definition BIT_STAT_BSY :: u8 where "BIT_STAT_BSY = 0x80"
definition BIT_STAT_DRQ :: u8 where "BIT_STAT_DRQ = 0x8"

record ata_regs =
  reg_sect_cnt :: u8
  reg_lba_l :: u8
  reg_lba_m :: u8
  reg_lba_h :: u8
  reg_dev :: u8

definition select_disk :: "u8 \<Rightarrow> ata_regs \<Rightarrow> ata_regs" where
  "select_disk dev_no r =
     r\<lparr>reg_dev := BIT_DEV_MBS OR BIT_DEV_LBA OR (if dev_no = 1 then BIT_DEV_DEV else 0)\<rparr>"

definition select_sector :: "u8 \<Rightarrow> u32 \<Rightarrow> u8 \<Rightarrow> ata_regs \<Rightarrow> ata_regs option" where
  "select_sector dev_no lba sec_cnt r =
     do {
       ASSERT (lba \<le> max_lba);
       Some (r\<lparr>reg_sect_cnt := sec_cnt, reg_lba_l := ucast lba, reg_lba_m := ucast (drop_bit 8 lba),
               reg_lba_h := ucast (drop_bit 16 lba),
               reg_dev := BIT_DEV_MBS OR BIT_DEV_LBA OR (if dev_no = 1 then BIT_DEV_DEV else 0) OR ucast (drop_bit 24 lba)\<rparr>)
     }"

text \<open>The controller's view of its registers: 28 bits of sector number and the sector count.\<close>

definition ata_lba :: "ata_regs \<Rightarrow> u32" where
  "ata_lba r = ucast (reg_lba_l r) OR push_bit 8 (ucast (reg_lba_m r)) OR push_bit 16 (ucast (reg_lba_h r))
     OR push_bit 24 (ucast (reg_dev r AND 0xf))"

definition ata_count :: "ata_regs \<Rightarrow> nat" where
  "ata_count r = (if reg_sect_cnt r = 0 then 256 else unat (reg_sect_cnt r))"

text \<open>The number of sectors \<open>read_from_sector\<close> and \<open>write2sector\<close> move for an 8-bit count.\<close>

definition size_in_byte :: "u8 \<Rightarrow> u32" where
  "size_in_byte sec_cnt = (if sec_cnt = 0 then 256 * 512 else ucast sec_cnt * 512)"

definition hd_sectors :: "disk \<Rightarrow> u32 \<Rightarrow> nat \<Rightarrow> u8 list" where
  "hd_sectors dk lba n = concat (map (\<lambda>i. dk (lba + of_nat i)) [0..<n])"

definition hd_store :: "disk \<Rightarrow> u32 \<Rightarrow> nat \<Rightarrow> u8 list \<Rightarrow> disk" where
  "hd_store dk lba n bs =
     (\<lambda>l. if unat (l - lba) < n then take 512 (drop (512 * unat (l - lba)) bs) else dk l)"

definition read_from_sector :: "disk \<Rightarrow> ata_regs \<Rightarrow> u8 \<Rightarrow> u8 list" where
  "read_from_sector dk r sec_cnt =
     take (2 * (unat (size_in_byte sec_cnt) div 2)) (hd_sectors dk (ata_lba r) (ata_count r))"

definition write2sector :: "disk \<Rightarrow> ata_regs \<Rightarrow> u8 list \<Rightarrow> u8 \<Rightarrow> disk" where
  "write2sector dk r bs sec_cnt =
     hd_store dk (ata_lba r) (ata_count r) (take (2 * (unat (size_in_byte sec_cnt) div 2)) bs)"

text \<open>
  \<open>busy_wait\<close> on the values the status register shows at successive reads: the two reads of
  one round and one sleep otherwise.  \<open>time_limit -= 10 >= 0\<close> parses as
  \<open>time_limit -= (10 >= 0)\<close>, so the limit counts down by one.
\<close>

fun busy_wait_loop :: "u16 \<Rightarrow> u8 list \<Rightarrow> u8" where
  "busy_wait_loop time_limit [] = 0"
| "busy_wait_loop time_limit (st # sts) =
     (let time_limit = time_limit - 1 in
      if time_limit = 0 then 0
      else if st AND BIT_STAT_BSY = 0 then (case sts of [] \<Rightarrow> 0 | st2 # _ \<Rightarrow> st2 AND BIT_STAT_DRQ)
      else busy_wait_loop time_limit sts)"

definition busy_wait :: "u8 list \<Rightarrow> u8" where
  "busy_wait sts = busy_wait_loop 30000 sts"

subsection \<open>Transfers\<close>

text \<open>
  The loops, from sector \<open>lba + secs_done\<close> on with \<open>sec_cnt - secs_done\<close> sectors left.  The
  controller reports ready after every command; a failed \<open>busy_wait\<close> is a \<open>PANIC\<close>.
\<close>

function ide_read_loop :: "u8 \<Rightarrow> u32 \<Rightarrow> nat \<Rightarrow> ata_regs \<Rightarrow> disk \<Rightarrow> u8 list option" where
  "ide_read_loop dev_no lba left r dk =
     (if left = 0 then Some []
      else let secs_op = (if 256 \<le> left then 256 else left) in
        do {
          r \<leftarrow> select_sector dev_no lba (of_nat secs_op) r;
          rest \<leftarrow> ide_read_loop dev_no (lba + of_nat secs_op) (left - secs_op) r dk;
          Some (read_from_sector dk r (of_nat secs_op) @ rest)
        })"
  by pat_completeness auto
termination by (relation "measure (\<lambda>(_, _, left, _). left)") (auto split: if_splits)

function ide_write_loop :: "u8 \<Rightarrow> u32 \<Rightarrow> nat \<Rightarrow> u8 list \<Rightarrow> ata_regs \<Rightarrow> disk \<Rightarrow> disk option" where
  "ide_write_loop dev_no lba left bs r dk =
     (if left = 0 then Some dk
      else let secs_op = (if 256 \<le> left then 256 else left) in
        do {
          r \<leftarrow> select_sector dev_no lba (of_nat secs_op) r;
          ide_write_loop dev_no (lba + of_nat secs_op) (left - secs_op) (drop (512 * secs_op) bs) r
            (write2sector dk r bs (of_nat secs_op))
        })"
  by pat_completeness auto
termination by (relation "measure (\<lambda>(_, _, left, _). left)") (auto split: if_splits)

definition ide_read :: "u8 \<Rightarrow> u32 \<Rightarrow> nat \<Rightarrow> ata_regs \<Rightarrow> disk \<Rightarrow> u8 list option" where
  "ide_read dev_no lba sec_cnt r dk =
     do {
       ASSERT (lba \<le> max_lba);
       ASSERT (sec_cnt > 0);
       ide_read_loop dev_no lba sec_cnt (select_disk dev_no r) dk
     }"

definition ide_write :: "u8 \<Rightarrow> u32 \<Rightarrow> u8 list \<Rightarrow> nat \<Rightarrow> ata_regs \<Rightarrow> disk \<Rightarrow> disk option" where
  "ide_write dev_no lba bs sec_cnt r dk =
     do {
       ASSERT (lba \<le> max_lba);
       ASSERT (sec_cnt > 0);
       ide_write_loop dev_no lba sec_cnt bs (select_disk dev_no r) dk
     }"

declare ide_read_loop.simps [simp del] ide_write_loop.simps [simp del]

subsection \<open>Correctness of the driver loops\<close>

lemma max_lba_val: "max_lba = 163839"
  by (simp add: max_lba_def)

lemma low_nibble: "lba \<le> max_lba \<Longrightarrow> (drop_bit 24 lba :: u32) = 0"
proof -
  assume "lba \<le> max_lba"
  then have "unat lba \<le> 163839" by (simp add: max_lba_val word_le_nat_alt)
  then have "unat lba div 2 ^ 24 = 0" by simp
  then have "unat (drop_bit 24 lba) = unat (0 :: u32)" by (simp add: unat_drop_bit_eq drop_bit_eq_div unat_div)
  then show ?thesis by (simp only: word_unat_eq_iff)
qed

lemma select_sector_ok:
  assumes "lba \<le> max_lba"
  obtains r' where "select_sector dev lba c r = Some r'" "ata_lba r' = lba" "reg_sect_cnt r' = c"
proof -
  let ?r = "r\<lparr>reg_sect_cnt := c, reg_lba_l := ucast lba, reg_lba_m := ucast (drop_bit 8 lba),
       reg_lba_h := ucast (drop_bit 16 lba),
       reg_dev := BIT_DEV_MBS OR BIT_DEV_LBA OR (if dev = 1 then BIT_DEV_DEV else 0) OR ucast (drop_bit 24 lba)\<rparr>"
  have z: "drop_bit 24 lba = 0" using low_nibble [OF assms] .
  have nb: "\<not> bit lba n" if "24 \<le> n" for n
  proof -
    have "bit (drop_bit 24 lba) (n - 24) = bit lba n" using that by (simp add: bit_drop_bit_eq)
    then show ?thesis by (simp add: z)
  qed
  have "(BIT_DEV_MBS OR BIT_DEV_LBA OR (if dev = 1 then BIT_DEV_DEV else 0)) AND 0xf = 0"
    by (simp add: BIT_DEV_MBS_def BIT_DEV_LBA_def BIT_DEV_DEV_def)
  then have d: "reg_dev ?r AND 0xf = 0" by (simp add: z BIT_DEV_MBS_def BIT_DEV_LBA_def BIT_DEV_DEV_def)
  have "ata_lba ?r = lba"
  proof (rule bit_word_eqI)
    fix n
    assume "n < LENGTH(32)"
    then have "n < 32" by simp
    then consider "n < 8" | "8 \<le> n" "n < 16" | "16 \<le> n" "n < 24" | "24 \<le> n" by (metis not_less)
    then show "bit (ata_lba ?r) n = bit lba n" unfolding ata_lba_def d by cases (use nb in \<open>auto simp: bit_simps\<close>)
  qed
  moreover have "select_sector dev lba c r = Some ?r" using assms by (simp add: select_sector_def)
  ultimately show thesis using that [of ?r] by simp
qed

definition disk_ok :: "disk \<Rightarrow> bool" where
  "disk_ok dk \<longleftrightarrow> (\<forall>l. length (dk l) = 512)"

lemma disk_okD [simp]: "disk_ok dk \<Longrightarrow> length (dk l) = 512"
  by (simp add: disk_ok_def)

lemma length_hd_sectors [simp]: "disk_ok dk \<Longrightarrow> length (hd_sectors dk lba n) = 512 * n"
  by (induction n) (simp_all add: hd_sectors_def)

lemma hd_sectors_1 [simp]: "hd_sectors dk lba (Suc 0) = dk lba"
  by (simp add: hd_sectors_def)

lemma hd_sectors_2: "hd_sectors dk lba 2 = dk lba @ dk (lba + 1)"
  by (simp add: hd_sectors_def numeral_2_eq_2)

lemma hd_sectors_append: "hd_sectors dk lba (m + n) = hd_sectors dk lba m @ hd_sectors dk (lba + of_nat m) n"
  by (induction n) (simp_all add: hd_sectors_def add.assoc)

lemma command_size:
  assumes "0 < op" "op \<le> 256" "reg_sect_cnt r = of_nat op"
  shows "ata_count r = op" "unat (size_in_byte (of_nat op)) = 512 * op"
proof -
  show "ata_count r = op"
    using assms by (cases "op = 256") (auto simp: ata_count_def unat_of_nat word_unat_eq_iff)
  show "unat (size_in_byte (of_nat op)) = 512 * op"
    using assms(1,2)
    by (cases "op = 256") (auto simp: size_in_byte_def word_unat_eq_iff unat_of_nat unat_word_ariths unsigned_ucast_eq take_bit_nat_eq_self)
qed

lemma command_transfers:
  assumes "disk_ok dk" "0 < op" "op \<le> 256" "lba \<le> max_lba"
  obtains r' where "select_sector dev lba (of_nat op) r = Some r'"
    "read_from_sector dk r' (of_nat op) = hd_sectors dk lba op"
    "\<And>bs. write2sector dk r' bs (of_nat op) = hd_store dk lba op (take (512 * op) bs)"
proof -
  obtain r' where r': "select_sector dev lba (of_nat op) r = Some r'" "ata_lba r' = lba" "reg_sect_cnt r' = of_nat op"
    using assms(4) by (rule select_sector_ok)
  note c = command_size [OF assms(2,3) r'(3)]
  show thesis using that [of r'] assms(1) r'
    by (simp add: read_from_sector_def write2sector_def c)
qed

lemma ide_read_loop_eq:
  assumes "disk_ok dk" "unat lba + left \<le> 163840"
  shows "ide_read_loop dev lba left r dk = Some (hd_sectors dk lba left)"
  using assms(2)
proof (induction left arbitrary: lba r rule: less_induct)
  case (less left)
  show ?case
  proof (cases "left = 0")
    case True
    then show ?thesis by (simp add: ide_read_loop.simps hd_sectors_def)
  next
    case False
    define op where "op = (if 256 \<le> left then 256 else left)"
    have op: "0 < op" "op \<le> 256" "op \<le> left" using False by (auto simp: op_def)
    have "lba \<le> max_lba" using less.prems False by (simp add: max_lba_val word_le_nat_alt)
    from command_transfers [OF assms(1) op(1,2) this] obtain r' where
      r': "select_sector dev lba (of_nat op) r = Some r'" "read_from_sector dk r' (of_nat op) = hd_sectors dk lba op"
      by metis
    have "unat (lba + of_nat op) = unat lba + op"
      using less.prems op unat_plus_small [of lba "of_nat op"] by (simp add: unat_of_nat)
    then have "ide_read_loop dev (lba + of_nat op) (left - op) r' dk = Some (hd_sectors dk (lba + of_nat op) (left - op))"
      using op less.prems by (intro less.IH) auto
    then show ?thesis
      using False r' op hd_sectors_append [of dk lba op "left - op"]
      by (subst ide_read_loop.simps) (simp add: Let_def op_def [symmetric])
  qed
qed

lemma ide_read_eq:
  assumes "disk_ok dk" "0 < n" "unat lba + n \<le> 163840"
  shows "ide_read dev lba n r dk = Some (hd_sectors dk lba n)"
  using assms by (simp add: ide_read_def max_lba_val word_le_nat_alt ide_read_loop_eq)

lemma hd_store_ok: "disk_ok dk \<Longrightarrow> 512 * n \<le> length bs \<Longrightarrow> disk_ok (hd_store dk lba n bs)"
proof -
  assume a: "disk_ok dk" "512 * n \<le> length bs"
  have "length (take 512 (drop (512 * k) bs)) = 512" if "k < n" for k
  proof -
    have "512 * Suc k \<le> 512 * n" using that by (intro mult_le_mono2) simp
    then show ?thesis using a(2) by simp
  qed
  then show ?thesis using a(1) by (simp add: disk_ok_def hd_store_def)
qed

lemma unat_sub_shift:
  assumes "m + n \<le> 4294967295" "unat (lba :: u32) + m + n \<le> 4294967295"
  shows "unat (l - lba) < m + n \<longleftrightarrow> unat (l - lba) < m \<or> (\<not> unat (l - lba) < m \<and> unat (l - (lba + of_nat m)) < n)"
    and "\<not> unat (l - lba) < m \<Longrightarrow> unat (l - (lba + of_nat m)) = unat (l - lba) - m"
proof -
  have e: "l - (lba + of_nat m) = (l - lba) - of_nat m" by simp
  show u: "unat (l - (lba + of_nat m)) = unat (l - lba) - m" if "\<not> unat (l - lba) < m"
    unfolding e using that assms(1) unat_minus_small [of "of_nat m" "l - lba"] by (simp add: unat_of_nat)
  show "unat (l - lba) < m + n \<longleftrightarrow> unat (l - lba) < m \<or> (\<not> unat (l - lba) < m \<and> unat (l - (lba + of_nat m)) < n)"
    using u by (cases "unat (l - lba) < m") auto
qed

lemma hd_store_append:
  assumes "unat lba + m + n \<le> 163840" "512 * (m + n) \<le> length bs"
  shows "hd_store (hd_store dk lba m (take (512 * m) bs)) (lba + of_nat m) n (drop (512 * m) bs) = hd_store dk lba (m + n) bs"
proof
  fix l
  have a: "m + n \<le> 4294967295" "unat lba + m + n \<le> 4294967295" using assms(1) by auto
  note s = unat_sub_shift [OF a, of l]
  show "hd_store (hd_store dk lba m (take (512 * m) bs)) (lba + of_nat m) n (drop (512 * m) bs) l = hd_store dk lba (m + n) bs l"
  proof (cases "unat (l - lba) < m")
    case True
    have "\<not> unat (l - (lba + of_nat m)) < n"
    proof
      assume b: "unat (l - (lba + of_nat m)) < n"
      have "l - lba = (l - (lba + of_nat m)) + of_nat m" by simp
      then have "unat (l - lba) = unat (l - (lba + of_nat m)) + m"
        using b a(1) unat_plus_small [of "l - (lba + of_nat m)" "of_nat m"] by (simp add: unat_of_nat)
      then show False using True by simp
    qed
    moreover have "take 512 (drop (512 * unat (l - lba)) (take (512 * m) bs)) = take 512 (drop (512 * unat (l - lba)) bs)"
    proof -
      have "512 * Suc (unat (l - lba)) \<le> 512 * m" using True by (intro mult_le_mono2) simp
      then show ?thesis by (simp add: drop_take min_def)
    qed
    ultimately show ?thesis using True by (simp add: hd_store_def)
  next
    case False
    then have "512 * m \<le> 512 * unat (l - lba)" by (intro mult_le_mono2) simp
    then show ?thesis using False s by (simp add: hd_store_def diff_mult_distrib2)
  qed
qed

lemma ide_write_loop_eq:
  assumes "disk_ok dk" "unat lba + left \<le> 163840" "512 * left \<le> length bs"
  shows "ide_write_loop dev lba left bs r dk = Some (hd_store dk lba left bs)"
  using assms
proof (induction left arbitrary: lba r bs dk rule: less_induct)
  case (less left)
  show ?case
  proof (cases "left = 0")
    case True
    then show ?thesis by (simp add: ide_write_loop.simps hd_store_def)
  next
    case False
    define op where "op = (if 256 \<le> left then 256 else left)"
    have op: "0 < op" "op \<le> 256" "op \<le> left" using False by (auto simp: op_def)
    then have len: "512 * op \<le> length bs" using less.prems(3) by linarith
    have "lba \<le> max_lba" using less.prems(2) False by (simp add: max_lba_val word_le_nat_alt)
    from command_transfers [OF less.prems(1) op(1,2) this] obtain r' where
      r': "select_sector dev lba (of_nat op) r = Some r'"
      "\<And>bs. write2sector dk r' bs (of_nat op) = hd_store dk lba op (take (512 * op) bs)"
      by metis
    have u: "unat (lba + of_nat op) = unat lba + op"
      using less.prems(2) op unat_plus_small [of lba "of_nat op"] by (simp add: unat_of_nat)
    have "ide_write_loop dev (lba + of_nat op) (left - op) (drop (512 * op) bs) r' (hd_store dk lba op (take (512 * op) bs))
        = Some (hd_store (hd_store dk lba op (take (512 * op) bs)) (lba + of_nat op) (left - op) (drop (512 * op) bs))"
      using op less.prems u len by (intro less.IH hd_store_ok) auto
    moreover have "\<dots> = Some (hd_store dk lba left bs)"
      using hd_store_append [of lba op "left - op" bs dk] op less.prems(2,3) by simp
    ultimately show ?thesis
      using False r' by (subst ide_write_loop.simps) (simp add: Let_def op_def [symmetric])
  qed
qed

lemma ide_write_eq:
  assumes "disk_ok dk" "0 < n" "unat lba + n \<le> 163840" "512 * n \<le> length bs"
  shows "ide_write dev lba bs n r dk = Some (hd_store dk lba n bs)"
  using assms by (simp add: ide_write_def max_lba_val word_le_nat_alt ide_write_loop_eq)

lemma hd_store_1 [simp]: "length bs = 512 \<Longrightarrow> hd_store dk lba (Suc 0) bs = dk(lba := bs)"
proof -
  assume "length bs = 512"
  moreover have "l = lba" if "unat (l - lba) = 0" for l :: u32
    using that by (simp add: unat_eq_zero)
  ultimately show ?thesis by (auto simp: hd_store_def)
qed

lemma hd_store_take:
  assumes "n \<le> 4294967295" "512 * n \<le> length bs"
  shows "hd_sectors (hd_store dk lba n bs) lba n = take (512 * n) bs"
proof -
  have "hd_sectors (hd_store dk lba n bs) lba k = take (512 * k) bs" if "k \<le> n" for k
    using that
  proof (induction k)
    case (Suc k)
    then have "unat (of_nat k :: u32) = k" using assms(1) by (simp add: unat_of_nat)
    then have "hd_store dk lba n bs (lba + of_nat k) = take 512 (drop (512 * k) bs)"
      using Suc.prems by (simp add: hd_store_def)
    then show ?case using Suc take_add [of "512 * k" 512 bs] by (simp add: hd_sectors_def add.commute)
  qed (simp add: hd_sectors_def)
  from this [of n] show ?thesis by simp
qed

lemma hd_store_read:
  assumes "n \<le> 4294967295" "length bs = 512 * n"
  shows "hd_sectors (hd_store dk lba n bs) lba n = bs"
  using hd_store_take [of n bs dk lba] assms by simp

text \<open>Areas of the disk that do not overlap.\<close>

definition disjoint_areas :: "u32 \<Rightarrow> nat \<Rightarrow> u32 \<Rightarrow> nat \<Rightarrow> bool" where
  "disjoint_areas l m l' n \<longleftrightarrow>
     unat l + m \<le> 163840 \<and> unat l' + n \<le> 163840 \<and> (unat l + m \<le> unat l' \<or> unat l' + n \<le> unat l)"

lemma hd_store_other:
  assumes "disjoint_areas l m l' n" "i < n"
  shows "hd_store dk l m bs (l' + of_nat i) = dk (l' + of_nat i)"
proof -
  have "\<not> unat (l' + of_nat i - l) < m"
  proof
    assume lt: "unat (l' + of_nat i - l) < m"
    have "unat ((l' + of_nat i - l) + l) = unat (l' + of_nat i - l) + unat l"
      using assms lt by (intro unat_plus_small) (simp add: disjoint_areas_def)
    moreover have "unat (l' + of_nat i) = unat l' + i"
      using assms unat_plus_small [of l' "of_nat i"] by (simp add: disjoint_areas_def unat_of_nat)
    ultimately show False using assms lt by (auto simp: disjoint_areas_def)
  qed
  then show ?thesis by (simp add: hd_store_def)
qed

lemma hd_sectors_other:
  "disjoint_areas l m l' n \<Longrightarrow> hd_sectors (hd_store dk l m bs) l' n = hd_sectors dk l' n"
  by (auto simp: hd_sectors_def hd_store_other intro!: arg_cong [where f = concat])

lemma hd_sector_other: "disjoint_areas l m l' 1 \<Longrightarrow> hd_store dk l m bs l' = dk l'"
  using hd_store_other [of l m l' 1 0] by simp

subsection \<open>Properties\<close>


definition regs0 :: ata_regs where
  "regs0 = \<lparr>reg_sect_cnt = 0, reg_lba_l = 0, reg_lba_m = 0, reg_lba_h = 0, reg_dev = 0\<rparr>"


end
