(* ===== verification/IoQueue.thy ===== *)
theory IoQueue
  imports Sync
begin

text \<open>
  The blocking ring buffer of device/ioqueue.c, which carries keyboard input and
  pipe data.  As with semaphores, a function that may sleep is cut into runs:
  \<open>Inr\<close> is the return to the caller, \<open>Inl\<close> the switch to another task, after which the
  caller continues with the \<open>_resumed\<close> run.  The abstract view is the list of
  bytes that are in the buffer.
\<close>

subsection \<open>Operations\<close>

definition bufsize :: u32 where
  "bufsize = 2048"

record ioqueue =
  ioq_lock :: lock
  producer :: u32
  consumer :: u32
  buf :: "u32 \<Rightarrow> u8"
  head :: u32
  tail :: u32

definition ioqueue_init :: "ioqueue \<Rightarrow> ioqueue" where
  "ioqueue_init ioq = ioq\<lparr>ioq_lock := lock_init, producer := 0, consumer := 0, head := 0, tail := 0\<rparr>"

definition next_pos :: "u32 \<Rightarrow> u32" where
  "next_pos pos = (pos + 1) mod bufsize"

definition ioq_full :: "ioqueue \<Rightarrow> 'a sched_scheme \<Rightarrow> bool option" where
  "ioq_full ioq s = do { ASSERT (intr_get_status s = INTR_OFF); Some (next_pos (head ioq) = tail ioq) }"

definition ioq_empty :: "ioqueue \<Rightarrow> 'a sched_scheme \<Rightarrow> bool option" where
  "ioq_empty ioq s = do { ASSERT (intr_get_status s = INTR_OFF); Some (head ioq = tail ioq) }"

text \<open>\<open>ioq_wait\<close> and \<open>wakeup\<close> on the value of the waiter field; they return its new value.\<close>

definition ioq_wait :: "u32 \<Rightarrow> 'a sched_scheme \<Rightarrow> (u32 \<times> 'a sched_scheme) option" where
  "ioq_wait waiter s =
     do {
       ASSERT (waiter = 0);
       let waiter = running_thread s;
       (_, s) \<leftarrow> thread_block TASK_BLOCKED s;
       Some (waiter, s)
     }"

definition wakeup :: "u32 \<Rightarrow> 'a sched_scheme \<Rightarrow> (u32 \<times> 'a sched_scheme) option" where
  "wakeup waiter s =
     do {
       ASSERT (waiter \<noteq> 0);
       s \<leftarrow> thread_unblock waiter s;
       Some (0, s)
     }"

definition ioq_getchar ::
  "ioqueue \<Rightarrow> 'a sched_scheme \<Rightarrow> (ioqueue \<times> 'a sched_scheme + u8 \<times> ioqueue \<times> 'a sched_scheme) option"
where
  "ioq_getchar ioq s =
     do {
       ASSERT (intr_get_status s = INTR_OFF);
       empty \<leftarrow> ioq_empty ioq s;
       (if empty then
          do {
            (l, s) \<leftarrow> lock_acquire (ioq_lock ioq) s;
            (c, s) \<leftarrow> ioq_wait (consumer ioq) s;
            Some (Inl (ioq\<lparr>ioq_lock := l, consumer := c\<rparr>, s))
          }
        else
          do {
            let byte = buf ioq (tail ioq);
            let ioq = ioq\<lparr>tail := next_pos (tail ioq)\<rparr>;
            (p, s) \<leftarrow> (if producer ioq \<noteq> 0 then wakeup (producer ioq) s else Some (producer ioq, s));
            Some (Inr (byte, ioq\<lparr>producer := p\<rparr>, s))
          })
     }"

definition ioq_getchar_resumed ::
  "ioqueue \<Rightarrow> 'a sched_scheme \<Rightarrow> (ioqueue \<times> 'a sched_scheme + u8 \<times> ioqueue \<times> 'a sched_scheme) option"
where
  "ioq_getchar_resumed ioq s =
     do {
       (l, s) \<leftarrow> lock_release (ioq_lock ioq) s;
       ioq_getchar (ioq\<lparr>ioq_lock := l\<rparr>) s
     }"

definition ioq_putchar ::
  "u8 \<Rightarrow> ioqueue \<Rightarrow> 'a sched_scheme \<Rightarrow> (ioqueue \<times> 'a sched_scheme + ioqueue \<times> 'a sched_scheme) option"
where
  "ioq_putchar byte ioq s =
     do {
       ASSERT (intr_get_status s = INTR_OFF);
       full \<leftarrow> ioq_full ioq s;
       (if full then
          do {
            (l, s) \<leftarrow> lock_acquire (ioq_lock ioq) s;
            (p, s) \<leftarrow> ioq_wait (producer ioq) s;
            Some (Inl (ioq\<lparr>ioq_lock := l, producer := p\<rparr>, s))
          }
        else
          do {
            let ioq = ioq\<lparr>buf := (buf ioq)(head ioq := byte), head := next_pos (head ioq)\<rparr>;
            (c, s) \<leftarrow> (if consumer ioq \<noteq> 0 then wakeup (consumer ioq) s else Some (consumer ioq, s));
            Some (Inr (ioq\<lparr>consumer := c\<rparr>, s))
          })
     }"

definition ioq_putchar_resumed ::
  "u8 \<Rightarrow> ioqueue \<Rightarrow> 'a sched_scheme \<Rightarrow> (ioqueue \<times> 'a sched_scheme + ioqueue \<times> 'a sched_scheme) option"
where
  "ioq_putchar_resumed byte ioq s =
     do {
       (l, s) \<leftarrow> lock_release (ioq_lock ioq) s;
       ioq_putchar byte (ioq\<lparr>ioq_lock := l\<rparr>) s
     }"

definition ioq_length :: "ioqueue \<Rightarrow> u32" where
  "ioq_length ioq =
     (if sint (head ioq) \<ge> sint (tail ioq) then head ioq - tail ioq
      else bufsize - (tail ioq - head ioq))"

subsection \<open>The ring as a list\<close>

definition ioq_pos :: "ioqueue \<Rightarrow> bool" where
  "ioq_pos q \<longleftrightarrow> unat (head q) < 2048 \<and> unat (tail q) < 2048"

definition ioq_count :: "ioqueue \<Rightarrow> nat" where
  "ioq_count q = (unat (head q) + 2048 - unat (tail q)) mod 2048"

definition ioq_data :: "ioqueue \<Rightarrow> u8 list" where
  "ioq_data q = map (\<lambda>i. buf q (of_nat ((unat (tail q) + i) mod 2048))) [0..<ioq_count q]"

lemma unat_next_pos: "unat p < 2048 \<Longrightarrow> unat (next_pos p) = (unat p + 1) mod 2048"
  using unat_Suc_small [of p] by (simp add: next_pos_def bufsize_def unat_mod)

lemma unat_less_2048 [simp]: "unat (next_pos p) < 2048"
  by (simp add: next_pos_def bufsize_def unat_mod)

lemma count_less [simp]: "ioq_count q < 2048"
  by (simp add: ioq_count_def)

lemma length_data [simp]: "length (ioq_data q) = ioq_count q"
  by (simp add: ioq_data_def)

lemma count_mod: "ioq_pos q \<Longrightarrow> (unat (tail q) + ioq_count q) mod 2048 = unat (head q)"
  by (simp add: ioq_count_def ioq_pos_def mod_simps)

lemma empty_iff: "ioq_pos q \<Longrightarrow> head q = tail q \<longleftrightarrow> ioq_data q = []"
proof -
  assume p: "ioq_pos q"
  have "ioq_count q = 0 \<longleftrightarrow> unat (head q) = unat (tail q)"
  proof
    assume "ioq_count q = 0"
    with count_mod [OF p] p show "unat (head q) = unat (tail q)" by (simp add: ioq_pos_def)
  qed (simp add: ioq_count_def)
  then show ?thesis by (metis length_0_conv length_data u32_eq_iff_unat)
qed

lemma full_iff: "ioq_pos q \<Longrightarrow> next_pos (head q) = tail q \<longleftrightarrow> ioq_count q = 2047"
proof -
  assume p: "ioq_pos q"
  have "(unat (head q) + 1) mod 2048 = unat (tail q) \<longleftrightarrow> ioq_count q = 2047"
    using p unfolding ioq_count_def ioq_pos_def
    by (cases "unat (tail q) \<le> unat (head q)") (auto simp: mod_if)
  then show ?thesis using p unat_next_pos [of "head q"] by (simp add: u32_eq_iff_unat ioq_pos_def)
qed

lemma put_count:
  assumes "ioq_pos q" "ioq_count q < 2047"
  shows "(unat (next_pos (head q)) + 2048 - unat (tail q)) mod 2048 = Suc (ioq_count q)"
proof -
  have "(unat (head q) + 1) mod 2048 + 2048 - unat (tail q) = (unat (head q) + 1) mod 2048 + (2048 - unat (tail q))"
    using assms(1) by (simp add: ioq_pos_def)
  also have "\<dots> mod 2048 = (unat (head q) + 1 + (2048 - unat (tail q))) mod 2048" by (simp add: mod_simps)
  also have "\<dots> = Suc (unat (head q) + 2048 - unat (tail q)) mod 2048"
    using assms(1) by (simp add: ioq_pos_def)
  also have "\<dots> = Suc (ioq_count q) mod 2048" by (simp add: ioq_count_def mod_Suc_eq)
  finally show ?thesis using assms unat_next_pos [of "head q"] by (simp add: ioq_pos_def)
qed

lemma slot_inj_le:
  assumes "i \<le> j" "j < 2048" "(t + i) mod 2048 = (t + j) mod (2048 :: nat)"
  shows "i = j"
proof -
  have "2048 dvd (t + j) - (t + i)" using assms(1,3) by (intro mod_eq_dvd_iff_nat [THEN iffD1]) simp_all
  then have "2048 dvd j - i" by simp
  then show ?thesis using assms(1,2) by (auto dest: dvd_imp_le)
qed

lemma slot_inj:
  assumes "i < 2048" "j < 2048" "(t + i) mod 2048 = (t + j) mod (2048 :: nat)"
  shows "i = j"
  using slot_inj_le [of i j t] slot_inj_le [of j i t] assms by (cases "i \<le> j") auto

lemma slot_word: "i < 2048 \<Longrightarrow> j < 2048 \<Longrightarrow> (of_nat i :: u32) = of_nat j \<longleftrightarrow> i = j"
  by (simp add: u32_eq_iff_unat unat_of_nat_small)

lemma put_data:
  assumes "ioq_pos q" "ioq_count q < 2047" "tail q' = tail q" "head q' = next_pos (head q)" "buf q' = (buf q)(head q := b)"
  shows "ioq_pos q'" "ioq_data q' = ioq_data q @ [b]"
proof -
  show "ioq_pos q'" using assms by (simp add: ioq_pos_def)
  have c: "ioq_count q' = Suc (ioq_count q)" using put_count [OF assms(1,2)] assms(3,4) by (simp add: ioq_count_def)
  have h: "head q = of_nat ((unat (tail q) + ioq_count q) mod 2048)" using count_mod [OF assms(1)] by simp
  have old: "buf q' (of_nat ((unat (tail q) + i) mod 2048)) = buf q (of_nat ((unat (tail q) + i) mod 2048))"
    if "i < ioq_count q" for i
  proof -
    have "i < 2048" using that count_less [of q] by linarith
    then have "(unat (tail q) + i) mod 2048 \<noteq> (unat (tail q) + ioq_count q) mod 2048"
      using slot_inj [of i "ioq_count q" "unat (tail q)"] that by auto
    then show ?thesis unfolding assms(5) h by (simp add: slot_word)
  qed
  have new: "buf q' (of_nat ((unat (tail q) + ioq_count q) mod 2048)) = b"
    using assms(5) h by simp
  show "ioq_data q' = ioq_data q @ [b]"
    unfolding ioq_data_def c assms(3) using old new by simp
qed

lemma get_data:
  assumes "ioq_pos q" "ioq_data q = b # bs" "tail q' = next_pos (tail q)" "head q' = head q" "buf q' = buf q"
  shows "ioq_pos q'" "buf q (tail q) = b" "ioq_data q' = bs"
proof -
  show "ioq_pos q'" using assms by (simp add: ioq_pos_def)
  have c0: "ioq_count q = Suc (length bs)" using assms(2) length_data [of q] by simp
  have t: "unat (tail q') = (unat (tail q) + 1) mod 2048"
    using assms(1,3) unat_next_pos by (simp add: ioq_pos_def)
  have c: "ioq_count q' = length bs"
  proof (rule slot_inj [of _ _ "unat (tail q')"])
    have "(unat (tail q') + length bs) mod 2048 = (unat (tail q) + ioq_count q) mod 2048"
      unfolding t c0 by (simp add: mod_simps)
    then show "(unat (tail q') + ioq_count q') mod 2048 = (unat (tail q') + length bs) mod 2048"
      using count_mod [OF assms(1)] count_mod [OF \<open>ioq_pos q'\<close>] assms(4) by simp
  qed (use c0 count_less [of q] in simp_all)
  have nth: "ioq_data q ! i = buf q (of_nat ((unat (tail q) + i) mod 2048))" if "i < ioq_count q" for i
    using that by (simp add: ioq_data_def)
  show "buf q (tail q) = b" using nth [of 0] assms(1,2) c0 by (simp add: ioq_pos_def)
  have "ioq_data q' ! i = bs ! i" if "i < length bs" for i
  proof -
    have "ioq_data q' ! i = buf q (of_nat (((unat (tail q) + 1) mod 2048 + i) mod 2048))"
      using that c by (simp add: ioq_data_def assms(5) t)
    also have "\<dots> = ioq_data q ! Suc i" using nth [of "Suc i"] that c0 by (simp add: mod_simps)
    finally show ?thesis using assms(2) by simp
  qed
  then show "ioq_data q' = bs" using c by (intro nth_equalityI) simp_all
qed

lemma ioq_length_count: "ioq_pos q \<Longrightarrow> ioq_length q = of_nat (ioq_count q)"
proof -
  assume p: "ioq_pos q"
  have sm: "sint x = int (unat x)" if "unat x < 2048" for x :: u32
    using that by (intro sint_small) simp
  have le: "sint (head q) \<ge> sint (tail q) \<longleftrightarrow> unat (tail q) \<le> unat (head q)"
    using p sm [of "head q"] sm [of "tail q"] unfolding ioq_pos_def by linarith
  show ?thesis
  proof (cases "unat (tail q) \<le> unat (head q)")
    case True
    have e: "unat (head q) + 2048 - unat (tail q) = unat (head q) - unat (tail q) + 2048" using True by simp
    have "ioq_count q = unat (head q) - unat (tail q)"
      unfolding ioq_count_def e mod_add_self2 by (rule mod_less) (use p in \<open>auto simp: ioq_pos_def\<close>)
    with True have "unat (head q - tail q) = ioq_count q" by (simp add: unat_minus_small)
    then show ?thesis using True le by (simp add: ioq_length_def) (metis of_nat_unat_u32)
  next
    case False
    then have d: "unat (tail q - head q) = unat (tail q) - unat (head q)" by (simp add: unat_minus_small)
    moreover have "unat (bufsize - (tail q - head q)) = unat bufsize - unat (tail q - head q)"
      using p d by (intro unat_minus_small) (auto simp: bufsize_def ioq_pos_def)
    ultimately have "unat (bufsize - (tail q - head q)) = ioq_count q"
      using p False by (simp add: ioq_count_def ioq_pos_def bufsize_def)
    then show ?thesis using False le by (simp add: ioq_length_def) (metis of_nat_unat_u32)
  qed
qed

subsection \<open>The queue contract\<close>

text \<open>
  \<open>ioq_ok\<close>: positions in range, interrupts off as every operation asserts, and a
  recorded producer or consumer is really asleep.
\<close>

definition sleeper :: "'a sched_scheme \<Rightarrow> u32 \<Rightarrow> bool" where
  "sleeper s w \<longleftrightarrow> w = 0 \<or> w \<in> set (all_list s) \<and> status (tasks s w) = TASK_BLOCKED"

definition ioq_ok :: "ioqueue \<Rightarrow> 'a sched_scheme \<Rightarrow> bool" where
  "ioq_ok q s \<longleftrightarrow>
     ioq_pos q \<and> sched_inv s \<and> intr_get_status s = INTR_OFF \<and>
     sleeper s (producer q) \<and> sleeper s (consumer q) \<and> (producer q = consumer q \<longrightarrow> producer q = 0)"

text \<open>Loops over a queue: send a list of bytes, fetch a number of bytes; \<open>Inl\<close> is a switch on the way.\<close>

fun put_bytes ::
  "(u8 \<Rightarrow> 'q \<Rightarrow> 's \<Rightarrow> ('q \<times> 's + 'q \<times> 's) option) \<Rightarrow> u8 list \<Rightarrow> 'q \<Rightarrow> 's \<Rightarrow> (u8 list \<times> 'q \<times> 's + 'q \<times> 's) option"
where
  "put_bytes put [] q s = Some (Inr (q, s))"
| "put_bytes put (b # bs) q s =
     (case put b q s of
        None \<Rightarrow> None
      | Some (Inl (q', s')) \<Rightarrow> Some (Inl (b # bs, q', s'))
      | Some (Inr (q', s')) \<Rightarrow> put_bytes put bs q' s')"

fun get_bytes ::
  "('q \<Rightarrow> 's \<Rightarrow> ('q \<times> 's + u8 \<times> 'q \<times> 's) option) \<Rightarrow> nat \<Rightarrow> 'q \<Rightarrow> 's \<Rightarrow> (nat \<times> 'q \<times> 's + u8 list \<times> 'q \<times> 's) option"
where
  "get_bytes get 0 q s = Some (Inr ([], q, s))"
| "get_bytes get (Suc n) q s =
     (case get q s of
        None \<Rightarrow> None
      | Some (Inl (q', s')) \<Rightarrow> Some (Inl (Suc n, q', s'))
      | Some (Inr (b, q', s')) \<Rightarrow>
          (case get_bytes get n q' s' of
             Some (Inr (bs, q'', s'')) \<Rightarrow> Some (Inr (b # bs, q'', s''))
           | r \<Rightarrow> r))"

locale byte_queue =
  fixes ok :: "'q \<Rightarrow> 's \<Rightarrow> bool"
    and data :: "'q \<Rightarrow> u8 list"
    and cap :: nat
    and put :: "u8 \<Rightarrow> 'q \<Rightarrow> 's \<Rightarrow> ('q \<times> 's + 'q \<times> 's) option"
    and get :: "'q \<Rightarrow> 's \<Rightarrow> ('q \<times> 's + u8 \<times> 'q \<times> 's) option"
  assumes put_room: "ok q s \<Longrightarrow> length (data q) < cap \<Longrightarrow>
                       \<exists>q' s'. put b q s = Some (Inr (q', s')) \<and> ok q' s' \<and> data q' = data q @ [b]"
    and put_full: "ok q s \<Longrightarrow> length (data q) = cap \<Longrightarrow> put b q s \<noteq> Some (Inr r)"
    and get_some: "ok q s \<Longrightarrow> data q = b # bs \<Longrightarrow>
                     \<exists>q' s'. get q s = Some (Inr (b, q', s')) \<and> ok q' s' \<and> data q' = bs"
    and get_empty: "ok q s \<Longrightarrow> data q = [] \<Longrightarrow> get q s \<noteq> Some (Inr r')"
begin

lemma put_bytes_room:
  "ok q s \<Longrightarrow> length (data q) + length bs \<le> cap \<Longrightarrow>
     \<exists>q' s'. put_bytes put bs q s = Some (Inr (q', s')) \<and> ok q' s' \<and> data q' = data q @ bs"
proof (induction bs arbitrary: q s)
  case Nil
  then show ?case by simp
next
  case (Cons b bs)
  then obtain q1 s1 where "put b q s = Some (Inr (q1, s1))" "ok q1 s1" "data q1 = data q @ [b]"
    using put_room [of q s b] by auto
  with Cons.IH [of q1 s1] Cons.prems show ?case by auto
qed

lemma put_bytes_overfull:
  "ok q s \<Longrightarrow> length (data q) \<le> cap \<Longrightarrow> cap < length (data q) + length bs \<Longrightarrow> put_bytes put bs q s \<noteq> Some (Inr r)"
proof (induction bs arbitrary: q s)
  case Nil
  then show ?case by simp
next
  case (Cons b bs)
  show ?case
  proof (cases "length (data q) = cap")
    case True
    with put_full [OF Cons.prems(1)] show ?thesis
      by (cases "put b q s") (auto split: sum.splits)
  next
    case False
    with Cons.prems obtain q1 s1 where "put b q s = Some (Inr (q1, s1))" "ok q1 s1" "data q1 = data q @ [b]"
      using put_room [of q s b] by auto
    with Cons.IH [of q1 s1] Cons.prems False show ?thesis by simp
  qed
qed

lemma get_bytes_some:
  "ok q s \<Longrightarrow> n \<le> length (data q) \<Longrightarrow>
     \<exists>q' s'. get_bytes get n q s = Some (Inr (take n (data q), q', s')) \<and> ok q' s' \<and> data q' = drop n (data q)"
proof (induction n arbitrary: q s)
  case 0
  then show ?case by simp
next
  case (Suc n)
  then obtain b bs where d: "data q = b # bs" by (cases "data q") auto
  with Suc.prems obtain q1 s1 where "get q s = Some (Inr (b, q1, s1))" "ok q1 s1" "data q1 = bs"
    using get_some [of q s b bs] by blast
  with Suc.IH [of q1 s1] Suc.prems d show ?case by auto
qed

end

lemma wakeup_ok:
  assumes "sched_inv s" "intr_get_status s = INTR_OFF" "sleeper s w" "w \<noteq> 0" "sleeper s v" "v \<noteq> w"
  obtains s' where "wakeup w s = Some (0, s')" "sched_inv s'" "intr_get_status s' = INTR_OFF" "sleeper s' v"
proof -
  let ?s = "set_status w TASK_READY (s\<lparr>ready_list := w # ready_list s\<rparr>)"
  have w: "w \<in> set (all_list s)" "status (tasks s w) \<in> {TASK_BLOCKED, TASK_WAITING, TASK_HANGING}"
    using assms(3,4) by (auto simp: sleeper_def)
  have "wakeup w s = Some (0, ?s)" using thread_unblock_inv(1) [OF assms(1) w] assms(4) by (simp add: wakeup_def)
  moreover have "sched_inv ?s" by (rule thread_unblock_inv(2) [OF assms(1) w])
  moreover have "intr_get_status ?s = INTR_OFF" using assms(2) by (simp add: intr_get_status_def)
  moreover have "sleeper ?s v" using assms(5,6) by (auto simp: sleeper_def)
  ultimately show thesis by (rule that)
qed

lemma ioq_putchar_room:
  assumes ok: "ioq_ok q s" and room: "ioq_count q < 2047"
  shows "\<exists>q' s'. ioq_putchar b q s = Some (Inr (q', s')) \<and> ioq_ok q' s' \<and> ioq_data q' = ioq_data q @ [b]"
proof -
  let ?q = "q\<lparr>buf := (buf q)(head q := b), head := next_pos (head q)\<rparr>"
  have pos: "ioq_pos q" and o: "sched_inv s" "intr_get_status s = INTR_OFF" "sleeper s (producer q)"
    "sleeper s (consumer q)" "producer q = consumer q \<Longrightarrow> producer q = 0"
    using ok by (auto simp: ioq_ok_def)
  have nf: "next_pos (head q) \<noteq> tail q" using full_iff [OF pos] room by simp
  note d = put_data [OF pos room, of ?q b]
  show ?thesis
  proof (cases "consumer q = 0")
    case True
    have "ioq_putchar b q s = Some (Inr (?q\<lparr>consumer := 0\<rparr>, s))"
      using nf o(2) True by (simp add: ioq_putchar_def ioq_full_def)
    moreover have "ioq_ok (?q\<lparr>consumer := 0\<rparr>) s" using d(1) o True by (simp add: ioq_ok_def ioq_pos_def sleeper_def)
    moreover have "ioq_data (?q\<lparr>consumer := 0\<rparr>) = ioq_data q @ [b]" using d(2) by (simp add: ioq_data_def ioq_count_def)
    ultimately show ?thesis by blast
  next
    case False
    then obtain s' where s': "wakeup (consumer q) s = Some (0, s')" "sched_inv s'" "intr_get_status s' = INTR_OFF"
      "sleeper s' (producer q)"
      using wakeup_ok [OF o(1,2,4) False o(3)] o(5) by metis
    have "ioq_putchar b q s = Some (Inr (?q\<lparr>consumer := 0\<rparr>, s'))"
      using nf o(2) False s'(1) by (simp add: ioq_putchar_def ioq_full_def)
    moreover have "ioq_ok (?q\<lparr>consumer := 0\<rparr>) s'" using d(1) s' by (simp add: ioq_ok_def ioq_pos_def sleeper_def)
    moreover have "ioq_data (?q\<lparr>consumer := 0\<rparr>) = ioq_data q @ [b]" using d(2) by (simp add: ioq_data_def ioq_count_def)
    ultimately show ?thesis by blast
  qed
qed

lemma ioq_getchar_some:
  assumes ok: "ioq_ok q s" and data: "ioq_data q = b # bs"
  shows "\<exists>q' s'. ioq_getchar q s = Some (Inr (b, q', s')) \<and> ioq_ok q' s' \<and> ioq_data q' = bs"
proof -
  let ?q = "q\<lparr>tail := next_pos (tail q)\<rparr>"
  have pos: "ioq_pos q" and o: "sched_inv s" "intr_get_status s = INTR_OFF" "sleeper s (producer q)"
    "sleeper s (consumer q)" "producer q = consumer q \<Longrightarrow> producer q = 0"
    using ok by (auto simp: ioq_ok_def)
  have ne: "head q \<noteq> tail q" using empty_iff [OF pos] data by simp
  note d = get_data [OF pos data, of ?q]
  show ?thesis
  proof (cases "producer q = 0")
    case True
    have "ioq_getchar q s = Some (Inr (b, ?q\<lparr>producer := 0\<rparr>, s))"
      using ne o(2) True d(2) by (simp add: ioq_getchar_def ioq_empty_def)
    moreover have "ioq_ok (?q\<lparr>producer := 0\<rparr>) s" using d(1) o True by (simp add: ioq_ok_def ioq_pos_def sleeper_def)
    moreover have "ioq_data (?q\<lparr>producer := 0\<rparr>) = bs" using d(3) by (simp add: ioq_data_def ioq_count_def)
    ultimately show ?thesis by blast
  next
    case False
    then obtain s' where s': "wakeup (producer q) s = Some (0, s')" "sched_inv s'" "intr_get_status s' = INTR_OFF"
      "sleeper s' (consumer q)"
      using wakeup_ok [OF o(1,2,3) False o(4)] o(5) by metis
    have "ioq_getchar q s = Some (Inr (b, ?q\<lparr>producer := 0\<rparr>, s'))"
      using ne o(2) False s'(1) d(2) by (simp add: ioq_getchar_def ioq_empty_def)
    moreover have "ioq_ok (?q\<lparr>producer := 0\<rparr>) s'" using d(1) s' by (simp add: ioq_ok_def ioq_pos_def sleeper_def)
    moreover have "ioq_data (?q\<lparr>producer := 0\<rparr>) = bs" using d(3) by (simp add: ioq_data_def ioq_count_def)
    ultimately show ?thesis by blast
  qed
qed

lemma ioq_putchar_full: "ioq_ok q s \<Longrightarrow> ioq_count q = 2047 \<Longrightarrow> ioq_putchar b q s \<noteq> Some (Inr r)"
  using full_iff [of q] by (auto simp: ioq_putchar_def ioq_full_def ioq_ok_def bind_eq_Some_conv)

lemma ioq_getchar_empty: "ioq_ok q s \<Longrightarrow> ioq_data q = [] \<Longrightarrow> ioq_getchar q s \<noteq> Some (Inr r)"
  using empty_iff [of q] by (auto simp: ioq_getchar_def ioq_empty_def ioq_ok_def bind_eq_Some_conv)

interpretation ioq: byte_queue ioq_ok ioq_data 2047 ioq_putchar ioq_getchar
  by unfold_locales (simp_all add: ioq_putchar_room ioq_putchar_full ioq_getchar_some ioq_getchar_empty)

subsection \<open>Pipe data transfer\<close>

text \<open>
  The transfer loops of \<open>pipe_read\<close> and \<open>pipe_write\<close> (shell/pipe.c) on the ring that a
  descriptor leads to; the result counts the bytes moved.
\<close>

definition pipe_read ::
  "ioqueue \<Rightarrow> u32 \<Rightarrow> 'a sched_scheme \<Rightarrow> (nat \<times> ioqueue \<times> 'a sched_scheme + u8 list \<times> ioqueue \<times> 'a sched_scheme) option"
where
  "pipe_read ioq count s =
     (let ioq_len = ioq_length ioq;
          sz = (if ioq_len > count then count else ioq_len)
      in get_bytes ioq_getchar (unat sz) ioq s)"

definition pipe_write ::
  "ioqueue \<Rightarrow> u8 list \<Rightarrow> u32 \<Rightarrow> 'a sched_scheme \<Rightarrow> (u8 list \<times> ioqueue \<times> 'a sched_scheme + u32 \<times> ioqueue \<times> 'a sched_scheme) option"
where
  "pipe_write ioq buffer count s =
     (let ioq_left = bufsize - ioq_length ioq;
          sz = (if ioq_left > count then count else ioq_left)
      in case put_bytes ioq_putchar (take (unat sz) buffer) ioq s of
           None \<Rightarrow> None
         | Some (Inl r) \<Rightarrow> Some (Inl r)
         | Some (Inr (ioq', s')) \<Rightarrow> Some (Inr (sz, ioq', s')))"

lemma pipe_left:
  assumes "ioq_pos q"
  shows "unat (bufsize - ioq_length q) = 2048 - ioq_count q" "unat (ioq_length q) = ioq_count q"
proof -
  show l: "unat (ioq_length q) = ioq_count q"
    unfolding ioq_length_count [OF assms] using count_less [of q] by (intro unat_of_nat_small) linarith
  have "unat (bufsize - ioq_length q) = unat bufsize - unat (ioq_length q)"
    using less_imp_le [OF count_less [of q]] by (intro unat_minus_small) (simp add: l bufsize_def)
  then show "unat (bufsize - ioq_length q) = 2048 - ioq_count q" by (simp add: l bufsize_def)
qed

subsection \<open>Properties\<close>

text \<open>
  Property C16: the ring buffer is a first-in first-out queue of at most 2047 bytes: unless full,
  \<open>ioq_putchar\<close> returns and appends the byte; unless empty, \<open>ioq_getchar\<close> returns the oldest byte
  and removes it; \<open>ioq_length\<close> is the number of bytes held; a full or empty ring makes the
  caller wait instead.
\<close>

theorem ioqueue_is_fifo:
  assumes "ioq_ok q s"
  shows "ioq_length q = of_nat (length (ioq_data q)) \<and> length (ioq_data q) \<le> 2047 \<and>
         (if length (ioq_data q) < 2047
          then \<exists>q' s'. ioq_putchar b q s = Some (Inr (q', s')) \<and> ioq_ok q' s' \<and> ioq_data q' = ioq_data q @ [b]
          else \<forall>r. ioq_putchar b q s \<noteq> Some (Inr r)) \<and>
         (if ioq_data q \<noteq> []
          then \<exists>q' s'. ioq_getchar q s = Some (Inr (hd (ioq_data q), q', s')) \<and> ioq_ok q' s' \<and> ioq_data q' = tl (ioq_data q)
          else \<forall>r. ioq_getchar q s \<noteq> Some (Inr r))"
proof -
  have pos: "ioq_pos q" using assms by (simp add: ioq_ok_def)
  have le: "ioq_count q \<le> 2047" using count_less [of q] by linarith
  have get: "\<exists>q' s'. ioq_getchar q s = Some (Inr (hd (ioq_data q), q', s')) \<and> ioq_ok q' s' \<and> ioq_data q' = tl (ioq_data q)"
    if "ioq_data q \<noteq> []"
    using ioq.get_some [OF assms] that by (cases "ioq_data q") auto
  show ?thesis
    using ioq_length_count [OF pos] le ioq.put_room [OF assms, of b] ioq.put_full [OF assms, of b] get
      ioq.get_empty [OF assms] by auto
qed

definition demo_ioq :: ioqueue where
  "demo_ioq = \<lparr>ioq_lock = lock_init, producer = 0, consumer = 0xc0100000, buf = (\<lambda>_. 0), head = 2047, tail = 2047\<rparr>"

lemma demo_ioq_ok: "ioq_ok demo_ioq demo_sched"
  using demo_sched_inv demo_sched_off
  by (simp add: ioq_ok_def ioq_pos_def demo_ioq_def sleeper_def) (simp add: demo_sched_def demo_task_def)

lemma demo_ioq_data: "ioq_data demo_ioq = []"
  by (simp add: ioq_data_def ioq_count_def demo_ioq_def)

theorem ioqueue_is_fifo_witness:
  "\<exists>q' s'. ioq_putchar 65 demo_ioq demo_sched = Some (Inr (q', s')) \<and> ioq_data q' = [65]"
  using ioqueue_is_fifo [OF demo_ioq_ok, of 65] demo_ioq_data by auto

text \<open>
  Property C34: bytes written to a pipe with room for them arrive in order: after \<open>pipe_write\<close> of \<open>bs\<close> into an empty
  pipe, \<open>pipe_read\<close> returns the first \<open>count\<close> of them without sleeping and leaves the rest.
\<close>

theorem pipe_round_trip:
  assumes ok: "ioq_ok q s" and e: "ioq_data q = []" and len: "length bs \<le> 2047"
  shows "\<exists>q1 s1 q2 s2. pipe_write q bs (of_nat (length bs)) s = Some (Inr (of_nat (length bs), q1, s1)) \<and>
           pipe_read q1 count s1 = Some (Inr (take (unat count) bs, q2, s2)) \<and> ioq_data q2 = drop (unat count) bs"
proof -
  have pos: "ioq_pos q" using ok by (simp add: ioq_ok_def)
  have c0: "ioq_count q = 0" using e length_data [of q] by simp
  have ul: "unat (of_nat (length bs) :: u32) = length bs" using len by (simp add: unat_of_nat_small)
  have sz: "bufsize - ioq_length q > of_nat (length bs)"
    using pipe_left(1) [OF pos] c0 len ul by (simp add: word_less_nat_alt)
  obtain q1 s1 where w: "put_bytes ioq_putchar bs q s = Some (Inr (q1, s1))" "ioq_ok q1 s1" "ioq_data q1 = bs"
    using ioq.put_bytes_room [OF ok, of bs] e len by auto
  have pw: "pipe_write q bs (of_nat (length bs)) s = Some (Inr (of_nat (length bs), q1, s1))"
    using w(1) sz ul by (simp add: pipe_write_def Let_def)
  have pos1: "ioq_pos q1" using w(2) by (simp add: ioq_ok_def)
  let ?n = "unat (if ioq_length q1 > count then count else ioq_length q1)"
  have n: "?n = min (length bs) (unat count)"
    using pipe_left(2) [OF pos1] w(3) length_data [of q1] by (auto simp: word_less_nat_alt min_def)
  obtain q2 s2 where r: "get_bytes ioq_getchar ?n q1 s1 = Some (Inr (take ?n bs, q2, s2))" "ioq_data q2 = drop ?n bs"
    using ioq.get_bytes_some [OF w(2), of ?n] w(3) n by auto
  have "take ?n bs = take (unat count) bs" "drop ?n bs = drop (unat count) bs"
    unfolding n by (simp_all add: min_def)
  with r pw show ?thesis by (auto simp: pipe_read_def Let_def)
qed

theorem pipe_round_trip_witness:
  "\<exists>q1 s1 q2 s2. pipe_write demo_ioq [104, 105, 33] 3 demo_sched = Some (Inr (3, q1, s1)) \<and>
     pipe_read q1 2 s1 = Some (Inr ([104, 105], q2, s2)) \<and> ioq_data q2 = [33]"
  using pipe_round_trip [OF demo_ioq_ok demo_ioq_data, of "[104, 105, 33]" 2] by simp

text \<open>\<open>pipe_write\<close> takes the free space to be \<open>bufsize\<close> minus the length, one more than the ring can hold; asked to write at least that much it never returns by itself, although the amount was chosen to avoid waiting.\<close>

lemma pipe_write_can_wait:
  assumes ok: "ioq_ok q s" and len: "2048 \<le> ioq_count q + unat count" and buf: "unat count \<le> length bs"
  shows "pipe_write q bs count s \<noteq> Some (Inr r)"
proof -
  have pos: "ioq_pos q" using ok by (simp add: ioq_ok_def)
  define sz where "sz = (if bufsize - ioq_length q > count then count else bufsize - ioq_length q)"
  have "unat sz = 2048 - ioq_count q"
    using pipe_left(1) [OF pos] len by (auto simp: word_less_nat_alt sz_def)
  moreover have "ioq_count q < 2048" by simp
  ultimately have "2047 < length (ioq_data q) + length (take (unat sz) bs)" using len buf by simp
  then have "put_bytes ioq_putchar (take (unat sz) bs) q s \<noteq> Some (Inr x)" for x
    using ioq.put_bytes_overfull [OF ok] count_less [of q] by simp
  then show ?thesis unfolding pipe_write_def Let_def sz_def [symmetric]
    by (auto split: option.splits sum.splits)
qed

lemma pipe_write_can_wait_demo:
  "\<forall>r. pipe_write demo_ioq (replicate 2048 0) 2048 demo_sched \<noteq> Some (Inr r)"
  using pipe_write_can_wait [OF demo_ioq_ok, of 2048 "replicate 2048 0"] by simp

end
