(* ===== verification/Inode.thy ===== *)
theory Inode
  imports Ide IoQueue
begin

text \<open>
  The state of the file system and fs/inode.c.  The state extends that of the
  memory manager with the disk of the mounted partition, the partition's in-memory
  data, the inodes, directories and rings in memory (stores indexed by their address),
  the global file table and the answers of the heap: \<open>mallocs\<close> lists the
  addresses that the next calls to \<open>sys_malloc\<close> return, so that every pattern of
  success and failure (address 0) is an input of the model.  Contents of
  local buffers are values.  A write through a null pointer that no assertion catches is
  \<open>None\<close>, like a failed assertion.  Each file-system call runs without interleaving.
  Bitmap and inode numbers that are -1 are the word \<open>-1\<close>.
\<close>

section \<open>State\<close>

record inode =
  i_no :: u32
  i_size :: u32
  i_open_cnts :: u32
  write_deny :: bool
  i_sectors :: "u32 list"

record super_block =
  magic :: u32
  sb_sec_cnt :: u32
  inode_cnt :: u32
  part_lba_base :: u32
  block_bitmap_lba :: u32
  block_bitmap_sects :: u32
  inode_bitmap_lba :: u32
  inode_bitmap_sects :: u32
  inode_table_lba :: u32
  inode_table_sects :: u32
  data_start_lba :: u32
  root_inode_no :: u32
  dir_entry_size :: u32

record partition =
  start_lba :: u32
  sec_cnt :: u32
  sb :: super_block
  block_bitmap :: bitmap
  inode_bitmap :: bitmap
  open_inodes :: "u32 list"

record file_entry =
  fd_pos :: u32
  fd_flag :: u32
  fd_inode :: u32

text \<open>A pointer to a directory: the static \<open>root_dir\<close> or a block of the heap (address 0 is the null pointer).\<close>

datatype dir_ptr = Root_dir | Heap_dir u32

record dir =
  dir_inode :: u32
  dir_pos :: u32
  dir_buf :: "u8 list"

record fs = memory +
  hd0 :: disk
  mallocs :: "u32 list"
  cur_part :: partition
  inodes :: "u32 \<Rightarrow> inode"
  dirs :: "dir_ptr \<Rightarrow> dir"
  file_table :: "file_entry list"
  rings :: "u32 \<Rightarrow> ioqueue"
  kbd_buf :: ioqueue

definition fs_malloc :: "'a fs_scheme \<Rightarrow> u32 \<times> 'a fs_scheme" where
  "fs_malloc s = (case mallocs s of [] \<Rightarrow> (0, s) | a # r \<Rightarrow> (a, s\<lparr>mallocs := r\<rparr>))"

definition fs_free :: "u32 \<Rightarrow> unit option" where
  "fs_free ptr = ASSERT (ptr \<noteq> 0)"

definition NONNULL :: "u32 \<Rightarrow> unit option" where
  "NONNULL ptr = (if ptr \<noteq> 0 then Some () else None)"

definition upd_inode :: "u32 \<Rightarrow> (inode \<Rightarrow> inode) \<Rightarrow> 'a fs_scheme \<Rightarrow> 'a fs_scheme" where
  "upd_inode a f s = s\<lparr>inodes := (inodes s)(a := f (inodes s a))\<rparr>"

definition upd_dir :: "dir_ptr \<Rightarrow> (dir \<Rightarrow> dir) \<Rightarrow> 'a fs_scheme \<Rightarrow> 'a fs_scheme" where
  "upd_dir p f s = s\<lparr>dirs := (dirs s)(p := f (dirs s p))\<rparr>"

definition upd_part :: "(partition \<Rightarrow> partition) \<Rightarrow> 'a fs_scheme \<Rightarrow> 'a fs_scheme" where
  "upd_part f s = s\<lparr>cur_part := f (cur_part s)\<rparr>"

text \<open>Transfers from and to the slave disk that holds the default partition.\<close>

definition hd_read :: "u32 \<Rightarrow> nat \<Rightarrow> 'a fs_scheme \<Rightarrow> u8 list option" where
  "hd_read lba n s = ide_read 1 lba n regs0 (hd0 s)"

definition hd_write :: "u32 \<Rightarrow> u8 list \<Rightarrow> nat \<Rightarrow> 'a fs_scheme \<Rightarrow> 'a fs_scheme option" where
  "hd_write lba bs n s = do { d \<leftarrow> ide_write 1 lba bs n regs0 (hd0 s); Some (s\<lparr>hd0 := d\<rparr>) }"

section \<open>Bitmaps of the partition (fs/file.c)\<close>

datatype bitmap_type = INODE_BITMAP | BLOCK_BITMAP

definition inode_bitmap_alloc :: "'a fs_scheme \<Rightarrow> (u32 \<times> 'a fs_scheme) option" where
  "inode_bitmap_alloc s =
     do {
       bit_idx \<leftarrow> bitmap_scan (inode_bitmap (cur_part s)) 1;
       (if bit_idx = -1 then Some (-1, s)
        else do {
          b \<leftarrow> bitmap_set (inode_bitmap (cur_part s)) bit_idx 1;
          Some (bit_idx, upd_part (\<lambda>p. p\<lparr>inode_bitmap := b\<rparr>) s)
        })
     }"

definition block_bitmap_alloc :: "'a fs_scheme \<Rightarrow> (u32 \<times> 'a fs_scheme) option" where
  "block_bitmap_alloc s =
     do {
       bit_idx \<leftarrow> bitmap_scan (block_bitmap (cur_part s)) 1;
       (if bit_idx = -1 then Some (-1, s)
        else do {
          b \<leftarrow> bitmap_set (block_bitmap (cur_part s)) bit_idx 1;
          Some (data_start_lba (sb (cur_part s)) + bit_idx, upd_part (\<lambda>p. p\<lparr>block_bitmap := b\<rparr>) s)
        })
     }"

definition btmp_bytes :: "bitmap \<Rightarrow> u32 \<Rightarrow> nat \<Rightarrow> u8 list" where
  "btmp_bytes b off n = map (\<lambda>i. bits b (off + of_nat i)) [0..<n]"

definition bitmap_sync :: "u32 \<Rightarrow> bitmap_type \<Rightarrow> 'a fs_scheme \<Rightarrow> 'a fs_scheme option" where
  "bitmap_sync bit_idx btmp_type s =
     (let off_sec = bit_idx div 4096;
          off_size = off_sec * 512;
          (sec_lba, btmp) =
            (case btmp_type of
               INODE_BITMAP \<Rightarrow> (inode_bitmap_lba (sb (cur_part s)) + off_sec, inode_bitmap (cur_part s))
             | BLOCK_BITMAP \<Rightarrow> (block_bitmap_lba (sb (cur_part s)) + off_sec, block_bitmap (cur_part s)))
      in hd_write sec_lba (btmp_bytes btmp off_size 512) 1 s)"

text \<open>Clear a bit of the block bitmap and write it back.\<close>

definition block_release :: "u32 \<Rightarrow> 'a fs_scheme \<Rightarrow> 'a fs_scheme option" where
  "block_release block_bitmap_idx s =
     do {
       b \<leftarrow> bitmap_set (block_bitmap (cur_part s)) block_bitmap_idx 0;
       bitmap_sync block_bitmap_idx BLOCK_BITMAP (upd_part (\<lambda>p. p\<lparr>block_bitmap := b\<rparr>) s)
     }"

section \<open>Inodes (fs/inode.c)\<close>

definition sizeof_inode :: u32 where
  "sizeof_inode = 76"

text \<open>The layout of \<open>struct inode\<close>; the last eight bytes are the list element.\<close>

definition enc_inode :: "inode \<Rightarrow> u8 list" where
  "enc_inode i = le32 (i_no i) @ le32 (i_size i) @ le32 (i_open_cnts i) @ le32 (if write_deny i then 1 else 0)
     @ concat (map le32 (i_sectors i)) @ replicate 8 0"

definition dec_inode :: "u8 list \<Rightarrow> inode" where
  "dec_inode bs =
     \<lparr>i_no = rd32 bs 0, i_size = rd32 bs 4, i_open_cnts = rd32 bs 8, write_deny = (rd32 bs 12 \<noteq> 0),
      i_sectors = map (\<lambda>k. rd32 bs (16 + 4 * k)) [0..<13]\<rparr>"

record inode_position =
  two_sec :: bool
  sec_lba :: u32
  off_size :: u32

definition inode_locate :: "u32 \<Rightarrow> 'a fs_scheme \<Rightarrow> inode_position option" where
  "inode_locate inode_no s =
     do {
       ASSERT (inode_no < 4096);
       let off = inode_no * sizeof_inode;
       let off_sec = off div 512;
       let off_in_sec = off mod 512;
       let left_in_sec = 512 - off_in_sec;
       Some \<lparr>two_sec = (left_in_sec < sizeof_inode), sec_lba = inode_table_lba (sb (cur_part s)) + off_sec, off_size = off_in_sec\<rparr>
     }"

text \<open>Replace bytes of the inode's one or two sectors: the read, copy and write that both functions share.\<close>

definition inode_store :: "inode_position \<Rightarrow> u8 list \<Rightarrow> 'a fs_scheme \<Rightarrow> 'a fs_scheme option" where
  "inode_store pos bs s =
     (let n = (if two_sec pos then 2 else 1) in
      do {
        inode_buf \<leftarrow> hd_read (sec_lba pos) n s;
        hd_write (sec_lba pos) (splice (unat (off_size pos)) bs inode_buf) n s
      })"

definition inode_sync :: "inode \<Rightarrow> 'a fs_scheme \<Rightarrow> 'a fs_scheme option" where
  "inode_sync inode s =
     do {
       let inode_no = (ucast (i_no inode) :: u8);
       inode_pos \<leftarrow> inode_locate (ucast inode_no) s;
       ASSERT (sec_lba inode_pos \<le> start_lba (cur_part s) + sec_cnt (cur_part s));
       inode_store inode_pos (enc_inode (inode\<lparr>i_open_cnts := 0, write_deny := False\<rparr>)) s
     }"

definition find_open :: "u32 \<Rightarrow> 'a fs_scheme \<Rightarrow> u32 option" where
  "find_open inode_no s = List.find (\<lambda>a. i_no (inodes s a) = inode_no) (open_inodes (cur_part s))"

definition inode_open :: "u32 \<Rightarrow> 'a fs_scheme \<Rightarrow> (u32 \<times> 'a fs_scheme) option" where
  "inode_open inode_no s =
     (case find_open inode_no s of
        Some a \<Rightarrow> Some (a, upd_inode a (\<lambda>i. i\<lparr>i_open_cnts := i_open_cnts i + 1\<rparr>) s)
      | None \<Rightarrow>
          do {
            inode_pos \<leftarrow> inode_locate inode_no s;
            let (inode_found, s) = fs_malloc s;
            let (inode_buf, s) = fs_malloc s;
            NONNULL inode_buf;
            bs \<leftarrow> hd_read (sec_lba inode_pos) (if two_sec inode_pos then 2 else 1) s;
            ASSERT (inode_found \<noteq> 0);
            let i = dec_inode (take 76 (drop (unat (off_size inode_pos)) bs));
            let s = upd_inode inode_found (\<lambda>_. i) s;
            let s = upd_part (\<lambda>p. p\<lparr>open_inodes := inode_found # open_inodes p\<rparr>) s;
            let s = upd_inode inode_found (\<lambda>i. i\<lparr>i_open_cnts := 1\<rparr>) s;
            fs_free inode_buf;
            Some (inode_found, s)
          })"

text \<open>Removing an element that is in no list follows stale pointers: undefined.\<close>

definition inode_close :: "u32 \<Rightarrow> 'a fs_scheme \<Rightarrow> 'a fs_scheme option" where
  "inode_close a s =
     (let (old_status, s) = intr_disable s;
          s = upd_inode a (\<lambda>i. i\<lparr>i_open_cnts := i_open_cnts i - 1\<rparr>) s
      in do {
        s \<leftarrow> (if i_open_cnts (inodes s a) = 0 then
                 if a \<in> set (open_inodes (cur_part s)) then
                   do {
                     fs_free a;
                     Some (upd_part (\<lambda>p. p\<lparr>open_inodes := remove1 a (open_inodes p)\<rparr>) s)
                   }
                 else None
               else Some s);
        Some (snd (intr_set_status old_status s))
      })"

definition inode_init :: "u32 \<Rightarrow> inode \<Rightarrow> inode" where
  "inode_init inode_no i =
     i\<lparr>i_no := inode_no, i_size := 0, i_open_cnts := 0, write_deny := False, i_sectors := replicate 13 0\<rparr>"

definition inode_delete :: "u32 \<Rightarrow> 'a fs_scheme \<Rightarrow> 'a fs_scheme option" where
  "inode_delete inode_no s =
     do {
       ASSERT (inode_no < 4096);
       inode_pos \<leftarrow> inode_locate inode_no s;
       ASSERT (sec_lba inode_pos \<le> start_lba (cur_part s) + sec_cnt (cur_part s));
       inode_store inode_pos (replicate (unat sizeof_inode) 0) s
     }"

text \<open>The block table of an inode: twelve direct blocks and the 128 entries of the indirect block, zero when absent.\<close>

definition dec_words :: "u8 list \<Rightarrow> u32 list" where
  "dec_words bs = map (\<lambda>k. rd32 bs (4 * k)) [0..<length bs div 4]"

definition enc_words :: "u32 list \<Rightarrow> u8 list" where
  "enc_words ws = concat (map le32 ws)"

definition all_blocks :: "inode \<Rightarrow> 'a fs_scheme \<Rightarrow> u32 list option" where
  "all_blocks i s =
     (if i_sectors i ! 12 \<noteq> 0
      then do { bs \<leftarrow> hd_read (i_sectors i ! 12) 1 s; Some (take 12 (i_sectors i) @ dec_words bs) }
      else Some (take 12 (i_sectors i) @ replicate 128 0))"

fun release_blocks :: "u32 list \<Rightarrow> 'a fs_scheme \<Rightarrow> 'a fs_scheme option" where
  "release_blocks [] s = Some s"
| "release_blocks (lba # lbas) s =
     do {
       s \<leftarrow> (if lba \<noteq> 0 then
                let block_bitmap_idx = lba - data_start_lba (sb (cur_part s)) in
                do { ASSERT (block_bitmap_idx > 0); block_release block_bitmap_idx s }
              else Some s);
       release_blocks lbas s
     }"

definition inode_release :: "u32 \<Rightarrow> 'a fs_scheme \<Rightarrow> 'a fs_scheme option" where
  "inode_release inode_no s =
     do {
       (a, s) \<leftarrow> inode_open inode_no s;
       ASSERT (i_no (inodes s a) = inode_no);
       blocks \<leftarrow> all_blocks (inodes s a) s;
       let ind = i_sectors (inodes s a) ! 12;
       s \<leftarrow> (if ind \<noteq> 0 then
                let block_bitmap_idx = ind - data_start_lba (sb (cur_part s)) in
                do { ASSERT (block_bitmap_idx > 0); block_release block_bitmap_idx s }
              else Some s);
       s \<leftarrow> release_blocks (if ind \<noteq> 0 then blocks else take 12 blocks) s;
       b \<leftarrow> bitmap_set (inode_bitmap (cur_part s)) inode_no 0;
       s \<leftarrow> bitmap_sync inode_no INODE_BITMAP (upd_part (\<lambda>p. p\<lparr>inode_bitmap := b\<rparr>) s);
       let (io_buf, s) = fs_malloc s;
       NONNULL io_buf;
       s \<leftarrow> inode_delete inode_no s;
       fs_free io_buf;
       inode_close a s
     }"

section \<open>Layout of the partition\<close>

text \<open>
  What formatting establishes (theory Format): the areas follow one another, lie on
  the disk, and the bitmaps have the sizes the areas need.
\<close>

definition layout_ok :: "partition \<Rightarrow> bool" where
  "layout_ok p \<longleftrightarrow>
     (let b = sb p in
      unat (block_bitmap_lba b) + unat (block_bitmap_sects b) \<le> unat (inode_bitmap_lba b) \<and>
      unat (inode_bitmap_lba b) + 1 \<le> unat (inode_table_lba b) \<and>
      unat (inode_table_lba b) + 608 \<le> unat (data_start_lba b) \<and>
      unat (data_start_lba b) \<le> unat (start_lba p + sec_cnt p) \<and>
      unat (data_start_lba b) < 163840 \<and>
      unat (btmp_bytes_len (block_bitmap p)) = 512 * unat (block_bitmap_sects b) \<and>
      btmp_bytes_len (inode_bitmap p) = 512 \<and> dir_entry_size b = 24)"

definition fs_ok :: "'a fs_scheme \<Rightarrow> bool" where
  "fs_ok s \<longleftrightarrow> disk_ok (hd0 s) \<and> layout_ok (cur_part s)"

text \<open>The inode table as one array of bytes and the inode in one of its slots.\<close>

definition inode_table :: "'a fs_scheme \<Rightarrow> u8 list" where
  "inode_table s = hd_sectors (hd0 s) (inode_table_lba (sb (cur_part s))) 608"

definition disk_inode :: "'a fs_scheme \<Rightarrow> nat \<Rightarrow> inode" where
  "disk_inode s n = dec_inode (take 76 (drop (76 * n) (inode_table s)))"

subsection \<open>Sectors as parts of a larger area\<close>

lemma hd_read_eq:
  "disk_ok (hd0 s) \<Longrightarrow> 0 < n \<Longrightarrow> unat lba + n \<le> 163840 \<Longrightarrow> hd_read lba n s = Some (hd_sectors (hd0 s) lba n)"
  by (simp add: hd_read_def ide_read_eq)

lemma hd_write_eq:
  "disk_ok (hd0 s) \<Longrightarrow> 0 < n \<Longrightarrow> unat lba + n \<le> 163840 \<Longrightarrow> 512 * n \<le> length bs \<Longrightarrow>
     hd_write lba bs n s = Some (s\<lparr>hd0 := hd_store (hd0 s) lba n bs\<rparr>)"
  by (simp add: hd_write_def ide_write_eq)

lemma hd_sectors_part:
  assumes "disk_ok dk" "k + n \<le> m"
  shows "hd_sectors dk (lba + of_nat k) n = take (512 * n) (drop (512 * k) (hd_sectors dk lba m))"
proof -
  have "hd_sectors dk lba m = hd_sectors dk lba k @ hd_sectors dk (lba + of_nat k) n
      @ hd_sectors dk (lba + of_nat (k + n)) (m - k - n)"
    using assms(2) hd_sectors_append [of dk lba "k + n" "m - k - n"] hd_sectors_append [of dk lba k n] by simp
  then show ?thesis using assms(1) by simp
qed

lemma hd_sectors_store:
  assumes "disk_ok dk" "length bs = 512 * n" "k + n \<le> m" "unat lba + m \<le> 163840"
  shows "hd_sectors (hd_store dk (lba + of_nat k) n bs) lba m = splice (512 * k) bs (hd_sectors dk lba m)"
proof -
  let ?d = "hd_store dk (lba + of_nat k) n bs"
  have out: "hd_sectors ?d (lba + of_nat j) c = hd_sectors dk (lba + of_nat j) c" if "j + c \<le> k \<or> k + n \<le> j" "j + c \<le> m" for j c
  proof -
    have "?d (lba + of_nat j + of_nat i) = dk (lba + of_nat j + of_nat i)" if "i < c" for i
    proof -
      have e: "lba + of_nat j + of_nat i - (lba + of_nat k) = (of_nat (j + i) - of_nat k :: u32)" by simp
      have b: "j + i < 4294967296" "k < 4294967296" "n < 4294967296" using assms(3,4) that \<open>j + c \<le> m\<close> by auto
      have "\<not> unat (of_nat (j + i) - of_nat k :: u32) < n"
      proof
        let ?x = "of_nat (j + i) - of_nat k :: u32"
        assume lt: "unat ?x < n"
        have "unat (?x + of_nat k) = unat ?x + k"
          using lt b assms(3,4) unat_plus_small [of ?x "of_nat k"] by (simp add: unat_of_nat_small)
        moreover have "unat (?x + of_nat k) = j + i" using b unat_of_nat_small [of "j + i"] by simp
        ultimately show False using lt \<open>j + c \<le> k \<or> k + n \<le> j\<close> that by linarith
      qed
      then show ?thesis by (simp only: hd_store_def e if_False)
    qed
    then show ?thesis by (auto simp: hd_sectors_def intro!: arg_cong [where f = concat])
  qed
  have mid: "hd_sectors ?d (lba + of_nat k) n = bs" using assms by (intro hd_store_read) auto
  have "hd_sectors ?d lba m = hd_sectors ?d lba k @ hd_sectors ?d (lba + of_nat k) n
      @ hd_sectors ?d (lba + of_nat (k + n)) (m - k - n)"
    using assms(3) hd_sectors_append [of ?d lba "k + n" "m - k - n"] hd_sectors_append [of ?d lba k n] by simp
  also have "\<dots> = hd_sectors dk lba k @ bs @ hd_sectors dk (lba + of_nat (k + n)) (m - k - n)"
    using out [of 0 k] out [of "k + n" "m - k - n"] mid assms(3) by simp
  also have "\<dots> = splice (512 * k) bs (hd_sectors dk lba m)"
    using assms(3) hd_sectors_append [of dk lba "k + n" "m - k - n"] hd_sectors_append [of dk lba k n]
    by (simp add: splice_def assms(1,2))
  finally show ?thesis .
qed

lemma splice_nested:
  assumes "off + length xs \<le> n" "base + n \<le> length t"
  shows "splice base (splice off xs (take n (drop base t))) t = splice (base + off) xs t"
  by (rule nth_equalityI) (use assms in \<open>auto simp: nth_splice\<close>)

subsection \<open>Encoding\<close>

lemma length_enc_words [simp]: "length (enc_words ws) = 4 * length ws"
  by (induction ws) (simp_all add: enc_words_def)

lemma rd32_enc_words:
  assumes "k < length ws"
  shows "rd32 (xs @ enc_words ws @ ys) (length xs + 4 * k) = ws ! k"
proof -
  have "ws = take k ws @ ws ! k # drop (Suc k) ws" using assms by (rule id_take_nth_drop)
  then have "enc_words ws = enc_words (take k ws) @ le32 (ws ! k) @ enc_words (drop (Suc k) ws)"
    unfolding enc_words_def by (metis concat.simps(2) concat_append list.simps(9) map_append)
  then have "xs @ enc_words ws @ ys = (xs @ enc_words (take k ws)) @ le32 (ws ! k) @ (enc_words (drop (Suc k) ws) @ ys)"
    by simp
  moreover have "length (xs @ enc_words (take k ws)) = length xs + 4 * k" using assms by simp
  ultimately show ?thesis using rd32_le32 by metis
qed

lemma dec_enc_words: "dec_words (enc_words ws) = ws"
proof -
  have "rd32 (enc_words ws) (4 * k) = ws ! k" if "k < length ws" for k
    using rd32_enc_words [OF that, of "[]" "[]"] by simp
  then show ?thesis by (auto simp: dec_words_def intro: nth_equalityI)
qed

lemma length_dec_words [simp]: "length (dec_words bs) = length bs div 4"
  by (simp add: dec_words_def)

lemma enc_inode_words:
  "enc_inode i = enc_words ([i_no i, i_size i, i_open_cnts i, if write_deny i then 1 else 0] @ i_sectors i) @ replicate 8 0"
  by (simp add: enc_inode_def enc_words_def)

lemma length_enc_inode [simp]: "length (i_sectors i) = 13 \<Longrightarrow> length (enc_inode i) = 76"
  by (simp add: enc_inode_words)

lemma dec_enc_inode:
  assumes "length (i_sectors i) = 13"
  shows "dec_inode (enc_inode i) = i"
proof -
  let ?ws = "[i_no i, i_size i, i_open_cnts i, if write_deny i then 1 else 0] @ i_sectors i"
  have r: "rd32 (enc_inode i) (4 * k) = ?ws ! k" if "k < 17" for k
    using rd32_enc_words [of k ?ws "[]"] that assms by (simp add: enc_inode_words)
  have "map (\<lambda>k. rd32 (enc_inode i) (16 + 4 * k)) [0..<13] = i_sectors i"
  proof (rule nth_equalityI)
    fix k
    assume "k < length (map (\<lambda>k. rd32 (enc_inode i) (16 + 4 * k)) [0..<13])"
    then have k: "k < 13" by simp
    have "rd32 (enc_inode i) (16 + 4 * k) = i_sectors i ! k" using r [of "4 + k"] k by (simp add: add_mult_distrib2)
    then show "map (\<lambda>k. rd32 (enc_inode i) (16 + 4 * k)) [0..<13] ! k = i_sectors i ! k" using k by simp
  qed (simp add: assms)
  then show ?thesis using r [of 0] r [of 1] r [of 2] r [of 3] by (simp add: dec_inode_def numeral_3_eq_3)
qed

subsection \<open>The inode table\<close>

lemma inode_locate_slot:
  assumes "n < 4096"
  obtains k off c where "inode_locate (of_nat n) s = Some \<lparr>two_sec = (c = 2), sec_lba = inode_table_lba (sb (cur_part s)) + of_nat k, off_size = of_nat off\<rparr>"
    "512 * k + off = 76 * n" "off < 512" "c = 1 \<or> c = 2" "off + 76 \<le> 512 * c" "k + c \<le> (608 :: nat)"
proof -
  define k off where "k = 76 * n div 512" and "off = 76 * n mod 512"
  define c :: nat where "c = (if 512 - off < 76 then 2 else 1)"
  have u: "unat (of_nat n * sizeof_inode :: u32) = 76 * n"
    using assms by (simp add: sizeof_inode_def unat_word_ariths unat_of_nat)
  have w: "(of_nat n * sizeof_inode :: u32) div 512 = of_nat k" "(of_nat n * sizeof_inode :: u32) mod 512 = of_nat off"
    using assms u by (simp_all add: word_unat_eq_iff unat_div unat_mod k_def off_def unat_of_nat)
  have o: "off < 512" "512 * k + off = 76 * n" using mult_div_mod_eq [of 512 "76 * n"] unfolding off_def k_def by simp_all
  have lt: "(512 - of_nat off < sizeof_inode :: bool) \<longleftrightarrow> 512 - off < 76"
    using o(1) unat_minus_small [of "of_nat off" 512]
    by (simp add: sizeof_inode_def word_less_nat_alt unat_of_nat)
  have "(of_nat n :: u32) < 4096" using assms by (simp add: word_less_nat_alt unat_of_nat)
  then have "inode_locate (of_nat n) s = Some \<lparr>two_sec = (c = 2), sec_lba = inode_table_lba (sb (cur_part s)) + of_nat k, off_size = of_nat off\<rparr>"
    by (simp add: inode_locate_def w lt c_def)
  moreover have "off + 76 \<le> 512 * c" "k + c \<le> 608" using o assms unfolding c_def by (auto split: if_splits)
  ultimately show thesis using that o by (metis c_def)
qed

lemma inode_store_splices:
  assumes ok: "fs_ok s" and n: "n < 4096" and bs: "length bs = 76" and pos: "inode_locate (of_nat n) s = Some pos"
  obtains dk where "inode_store pos bs s = Some (s\<lparr>hd0 := dk\<rparr>)" "disk_ok dk"
    "hd_sectors dk (inode_table_lba (sb (cur_part s))) 608 = splice (76 * n) bs (inode_table s)"
    "\<And>l. 608 \<le> unat (l - inode_table_lba (sb (cur_part s))) \<Longrightarrow> dk l = hd0 s l"
proof -
  let ?t = "inode_table_lba (sb (cur_part s))"
  obtain k off c where p: "pos = \<lparr>two_sec = (c = 2), sec_lba = ?t + of_nat k, off_size = of_nat off\<rparr>"
    and o: "512 * k + off = 76 * n" "off < 512" "c = 1 \<or> c = 2" "off + 76 \<le> 512 * c" "k + c \<le> 608"
    by (rule inode_locate_slot [OF n, of s]) (use pos in auto)
  have dok: "disk_ok (hd0 s)" and t: "unat ?t + 608 \<le> 163840"
    using ok by (auto simp: fs_ok_def layout_ok_def Let_def)
  have uk: "unat (?t + of_nat k) = unat ?t + k"
    using t o(5) unat_plus_small [of ?t "of_nat k"] by (simp add: unat_of_nat)
  define b where "b = hd_sectors (hd0 s) (?t + of_nat k) c"
  have b: "b = take (512 * c) (drop (512 * k) (inode_table s))"
    unfolding b_def inode_table_def using dok o(5) by (rule hd_sectors_part)
  have lb: "length b = 512 * c" unfolding b_def using dok by simp
  have uo: "unat (of_nat off :: u32) = off" using o(2) by (simp add: unat_of_nat)
  define dk where "dk = hd_store (hd0 s) (?t + of_nat k) c (splice off bs b)"
  have c: "(if c = 2 then 2 else 1) = c" "0 < c" using o(3) by auto
  have "hd_read (?t + of_nat k) c s = Some b"
    unfolding hd_read_def b_def using dok c t o(5) by (intro ide_read_eq) (auto simp: uk)
  moreover have "hd_write (?t + of_nat k) (splice off bs b) c s = Some (s\<lparr>hd0 := dk\<rparr>)"
    unfolding hd_write_def dk_def
    using ide_write_eq [of "hd0 s" c "?t + of_nat k" "splice off bs b"] dok c t o lb bs by (simp add: uk)
  ultimately have "inode_store pos bs s = Some (s\<lparr>hd0 := dk\<rparr>)"
    by (simp add: inode_store_def p c uo Let_def)
  moreover have "disk_ok dk" unfolding dk_def using dok lb o bs by (intro hd_store_ok) auto
  moreover have "hd_sectors dk ?t 608 = splice (76 * n) bs (inode_table s)"
  proof -
    have "hd_sectors dk ?t 608 = splice (512 * k) (splice off bs b) (inode_table s)"
      unfolding dk_def inode_table_def using dok lb o bs t by (intro hd_sectors_store) auto
    also have "\<dots> = splice (512 * k + off) bs (inode_table s)"
      unfolding b using o bs dok by (intro splice_nested) (auto simp: inode_table_def)
    finally show ?thesis by (simp add: o(1))
  qed
  moreover have "dk l = hd0 s l" if "608 \<le> unat (l - ?t)" for l
  proof -
    have "\<not> unat (l - (?t + of_nat k)) < c"
    proof
      assume a: "unat (l - (?t + of_nat k)) < c"
      have "l - ?t = (l - (?t + of_nat k)) + of_nat k" by simp
      then have "unat (l - ?t) = unat (l - (?t + of_nat k)) + k"
        using a o(5) unat_plus_small [of "l - (?t + of_nat k)" "of_nat k"] by (simp add: unat_of_nat)
      then show False using that a o(5) by linarith
    qed
    then show ?thesis by (simp add: dk_def hd_store_def)
  qed
  ultimately show thesis using that by blast
qed

lemma fs_ok_hd0 [simp]: "fs_ok s \<Longrightarrow> disk_ok dk \<Longrightarrow> fs_ok (s\<lparr>hd0 := dk\<rparr>)"
  by (simp add: fs_ok_def)

lemma length_inode_table: "fs_ok s \<Longrightarrow> length (inode_table s) = 311296"
  by (simp add: inode_table_def fs_ok_def)

text \<open>Where \<open>inode_sync\<close> puts an inode: the number is truncated to eight bits.\<close>

lemma inode_sync_slot:
  assumes ok: "fs_ok s" and len: "length (i_sectors i) = 13"
  obtains dk where "inode_sync i s = Some (s\<lparr>hd0 := dk\<rparr>)" "disk_ok dk"
    "disk_inode (s\<lparr>hd0 := dk\<rparr>) (unat (i_no i) mod 256) = i\<lparr>i_open_cnts := 0, write_deny := False\<rparr>"
    "\<And>n. n < 4096 \<Longrightarrow> n \<noteq> unat (i_no i) mod 256 \<Longrightarrow> disk_inode (s\<lparr>hd0 := dk\<rparr>) n = disk_inode s n"
    "\<And>l. 608 \<le> unat (l - inode_table_lba (sb (cur_part s))) \<Longrightarrow> dk l = hd0 s l"
proof -
  define m where "m = unat (i_no i) mod 256"
  have m: "m < 256" "m < 4096" by (simp_all add: m_def)
  have e: "(ucast (ucast (i_no i) :: u8) :: u32) = of_nat m"
    by (simp add: word_unat_eq_iff unsigned_ucast_eq take_bit_eq_mod m_def unat_of_nat unat_mod)
  obtain k off c where pos: "inode_locate (of_nat m) s = Some \<lparr>two_sec = (c = 2), sec_lba = inode_table_lba (sb (cur_part s)) + of_nat k, off_size = of_nat off\<rparr>"
    and k: "k + c \<le> (608::nat)" "c = 1 \<or> c = 2" by (rule inode_locate_slot [OF m(2), of s]) blast
  let ?i = "i\<lparr>i_open_cnts := 0, write_deny := False\<rparr>"
  have li: "length (enc_inode ?i) = 76" using len by simp
  obtain dk where dk: "inode_store \<lparr>two_sec = (c = 2), sec_lba = inode_table_lba (sb (cur_part s)) + of_nat k, off_size = of_nat off\<rparr> (enc_inode ?i) s = Some (s\<lparr>hd0 := dk\<rparr>)" "disk_ok dk"
    "hd_sectors dk (inode_table_lba (sb (cur_part s))) 608 = splice (76 * m) (enc_inode ?i) (inode_table s)"
    "\<And>l. 608 \<le> unat (l - inode_table_lba (sb (cur_part s))) \<Longrightarrow> dk l = hd0 s l"
    by (rule inode_store_splices [OF ok m(2) li pos]) blast
  have lay: "unat (inode_table_lba (sb (cur_part s))) + 608 \<le> unat (start_lba (cur_part s) + sec_cnt (cur_part s))"
    "unat (inode_table_lba (sb (cur_part s))) + 608 \<le> 163840"
    using ok by (auto simp: fs_ok_def layout_ok_def Let_def)
  have "unat (inode_table_lba (sb (cur_part s)) + of_nat k) = unat (inode_table_lba (sb (cur_part s))) + k"
    using lay(2) k unat_plus_small [of _ "of_nat k"] by (simp add: unat_of_nat)
  then have le: "inode_table_lba (sb (cur_part s)) + of_nat k \<le> start_lba (cur_part s) + sec_cnt (cur_part s)"
    using lay(1) k by (simp add: word_le_nat_alt)
  have sync: "inode_sync i s = Some (s\<lparr>hd0 := dk\<rparr>)"
    using dk(1) pos le by (simp add: inode_sync_def e Let_def)
  have tab: "inode_table (s\<lparr>hd0 := dk\<rparr>) = splice (76 * m) (enc_inode ?i) (inode_table s)"
    using dk(3) by (simp add: inode_table_def)
  have fit: "76 * n + 76 \<le> length (inode_table s)" if "n < 4096" for n
    using that length_inode_table [OF ok] by simp
  have get: "disk_inode (s\<lparr>hd0 := dk\<rparr>) m = ?i"
    using splice_get [of "76 * m" "enc_inode ?i" "inode_table s"] fit [OF m(2)] li dec_enc_inode [of ?i] len
    by (simp add: disk_inode_def tab)
  have frame: "disk_inode (s\<lparr>hd0 := dk\<rparr>) n = disk_inode s n" if "n < 4096" "n \<noteq> m" for n
  proof -
    have "76 * n + 76 \<le> 76 * m \<or> 76 * m + length (enc_inode ?i) \<le> 76 * n"
      using that(2) li by (cases "n < m") auto
    then show ?thesis unfolding disk_inode_def tab
      using splice_frame [of "76 * m" "enc_inode ?i" "inode_table s" "76 * n" 76] fit [OF m(2)] fit [OF that(1)] li by simp
  qed
  show thesis using that [OF sync dk(2)] get frame dk(4) unfolding m_def by blast
qed

lemma inode_open_fresh:
  assumes ok: "fs_ok s" and n: "unat n < 4096" and fresh: "find_open n s = None"
    and mem: "mallocs s = a # b # r" "a \<noteq> 0" "b \<noteq> 0"
  shows "inode_open n s = Some (a, s\<lparr>mallocs := r, inodes := (inodes s)(a := (disk_inode s (unat n))\<lparr>i_open_cnts := 1\<rparr>),
           cur_part := (cur_part s)\<lparr>open_inodes := a # open_inodes (cur_part s)\<rparr>\<rparr>)"
proof -
  let ?t = "inode_table_lba (sb (cur_part s))"
  obtain k off c where pos: "inode_locate (of_nat (unat n)) s = Some \<lparr>two_sec = (c = 2), sec_lba = ?t + of_nat k, off_size = of_nat off\<rparr>"
    and o: "512 * k + off = 76 * unat n" "off < 512" "c = 1 \<or> c = 2" "off + 76 \<le> 512 * c" "k + c \<le> (608::nat)"
    by (rule inode_locate_slot [OF n, of s]) blast
  have dok: "disk_ok (hd0 s)" and t: "unat ?t + 608 \<le> 163840" using ok by (auto simp: fs_ok_def layout_ok_def Let_def)
  have uk: "unat (?t + of_nat k) = unat ?t + k"
    using t o(5) unat_plus_small [of ?t "of_nat k"] by (simp add: unat_of_nat)
  have c: "(if c = 2 then 2 else 1) = c" "0 < c" using o(3) by auto
  have rd: "hd_read (?t + of_nat k) c s' = Some (take (512 * c) (drop (512 * k) (inode_table s)))"
    if "hd0 s' = hd0 s" for s' :: "'a fs_scheme"
    using ide_read_eq [of "hd0 s" c "?t + of_nat k"] hd_sectors_part [OF dok o(5), of ?t] dok c t o(5) that
    by (simp add: hd_read_def inode_table_def uk)
  have "take 76 (drop off (take (512 * c) (drop (512 * k) (inode_table s)))) = take 76 (drop (76 * unat n) (inode_table s))"
    using o(4) unfolding o(1) [symmetric] by (simp add: drop_take min_def add.commute)
  then show ?thesis
    using pos fresh mem o(2) rd
    by (simp add: inode_open_def fs_malloc_def NONNULL_def fs_free_def c upd_inode_def upd_part_def disk_inode_def unat_of_nat)
qed

lemma inode_close_eq:
  assumes "i_open_cnts (inodes s a) = 1 \<Longrightarrow> a \<in> set (open_inodes (cur_part s)) \<and> a \<noteq> 0"
  shows "inode_close a s =
     (let s' = s\<lparr>inodes := (inodes s)(a := (inodes s a)\<lparr>i_open_cnts := i_open_cnts (inodes s a) - 1\<rparr>)\<rparr> in
      Some (if i_open_cnts (inodes s a) = 1
            then s'\<lparr>cur_part := (cur_part s)\<lparr>open_inodes := remove1 a (open_inodes (cur_part s))\<rparr>\<rparr> else s'))"
  using assms
  by (simp add: inode_close_def intr_disable_eq upd_inode_def upd_part_def fs_free_def intr_restore Let_def)

subsection \<open>Properties\<close>

text \<open>A partition for examples: bitmaps in sectors 2050 and 2051, inodes from 2052, data from 2660 on.\<close>

definition demo_sb :: super_block where
  "demo_sb = \<lparr>magic = 0x19590318, sb_sec_cnt = 4000, inode_cnt = 4096, part_lba_base = 2048,
     block_bitmap_lba = 2050, block_bitmap_sects = 1, inode_bitmap_lba = 2051, inode_bitmap_sects = 1,
     inode_table_lba = 2052, inode_table_sects = 608, data_start_lba = 2660, root_inode_no = 0, dir_entry_size = 24\<rparr>"

definition demo_part :: partition where
  "demo_part = \<lparr>start_lba = 2048, sec_cnt = 4000, sb = demo_sb,
     block_bitmap = \<lparr>btmp_bytes_len = 512, bits = (\<lambda>i. if i = 0 then 1 else 0)\<rparr>,
     inode_bitmap = \<lparr>btmp_bytes_len = 512, bits = (\<lambda>i. if i = 0 then 1 else 0)\<rparr>, open_inodes = []\<rparr>"

definition demo_inode :: "u32 \<Rightarrow> inode" where
  "demo_inode n = \<lparr>i_no = n, i_size = 0, i_open_cnts = 0, write_deny = False, i_sectors = replicate 13 0\<rparr>"

definition demo_dir :: dir where
  "demo_dir = \<lparr>dir_inode = 0xc0102000, dir_pos = 0, dir_buf = replicate 512 0\<rparr>"

definition demo_fs :: fs where
  "demo_fs = memory.extend demo_memory
     \<lparr>hd0 = (\<lambda>_. replicate 512 0), mallocs = [0xc0103000, 0xc0104000, 0xc0105000, 0xc0106000], cur_part = demo_part,
      inodes = (\<lambda>_. demo_inode 0), dirs = (\<lambda>_. demo_dir), file_table = replicate 32 \<lparr>fd_pos = 0, fd_flag = 0, fd_inode = 0\<rparr>,
      rings = (\<lambda>_. demo_ioq), kbd_buf = demo_ioq\<rparr>"

lemma demo_fs_fields [simp]:
  "hd0 demo_fs = (\<lambda>_. replicate 512 0)" "mallocs demo_fs = [0xc0103000, 0xc0104000, 0xc0105000, 0xc0106000]"
  "cur_part demo_fs = demo_part" "inodes demo_fs = (\<lambda>_. demo_inode 0)"
  "file_table demo_fs = replicate 32 \<lparr>fd_pos = 0, fd_flag = 0, fd_inode = 0\<rparr>"
  by (simp_all add: demo_fs_def memory.defs)

lemma demo_fs_ok: "fs_ok demo_fs"
  by (simp add: fs_ok_def disk_ok_def layout_ok_def demo_part_def demo_sb_def)

text \<open>
  Property C19: the inode table is a store of inodes: for an inode numbered below 256, \<open>inode_sync\<close> succeeds,
  changes no other inode and no sector outside the table, and a later \<open>inode_open\<close>
  reads the same inode back from disk, also when it straddles two sectors.
\<close>

theorem inode_table_round_trip:
  assumes ok: "fs_ok s" and n: "unat (i_no i) < 256" and len: "length (i_sectors i) = 13"
    and fresh: "find_open (i_no i) s = None" and mem: "mallocs s = a # b # r" "a \<noteq> 0" "b \<noteq> 0"
  shows "\<exists>s' s''. inode_sync i s = Some s' \<and> fs_ok s' \<and>
           (\<forall>n < 4096. n \<noteq> unat (i_no i) \<longrightarrow> disk_inode s' n = disk_inode s n) \<and>
           (\<forall>l. 608 \<le> unat (l - inode_table_lba (sb (cur_part s))) \<longrightarrow> hd0 s' l = hd0 s l) \<and>
           inode_open (i_no i) s' = Some (a, s'') \<and> inodes s'' a = i\<lparr>i_open_cnts := 1, write_deny := False\<rparr>"
proof -
  obtain dk where dk: "inode_sync i s = Some (s\<lparr>hd0 := dk\<rparr>)" "disk_ok dk"
    "disk_inode (s\<lparr>hd0 := dk\<rparr>) (unat (i_no i) mod 256) = i\<lparr>i_open_cnts := 0, write_deny := False\<rparr>"
    "\<And>n. n < 4096 \<Longrightarrow> n \<noteq> unat (i_no i) mod 256 \<Longrightarrow> disk_inode (s\<lparr>hd0 := dk\<rparr>) n = disk_inode s n"
    "\<And>l. 608 \<le> unat (l - inode_table_lba (sb (cur_part s))) \<Longrightarrow> dk l = hd0 s l"
    using inode_sync_slot [OF ok len] by metis
  have ok': "fs_ok (s\<lparr>hd0 := dk\<rparr>)" using ok dk(2) by simp
  have "find_open (i_no i) (s\<lparr>hd0 := dk\<rparr>) = None" using fresh by (simp add: find_open_def)
  with inode_open_fresh [OF ok', of "i_no i" a b r] n mem dk(3)
  obtain s'' where "inode_open (i_no i) (s\<lparr>hd0 := dk\<rparr>) = Some (a, s'')" "inodes s'' a = i\<lparr>i_open_cnts := 1, write_deny := False\<rparr>"
    by auto
  then show ?thesis using dk ok' n by (intro exI [of _ "s\<lparr>hd0 := dk\<rparr>"] exI [of _ s'']) auto
qed

theorem inode_table_round_trip_witness:
  "\<exists>s' s''. inode_sync (demo_inode 6) demo_fs = Some s' \<and> inode_open 6 s' = Some (0xc0103000, s'') \<and>
     i_no (inodes s'' 0xc0103000) = 6"
proof -
  have "find_open 6 demo_fs = None" by (simp add: find_open_def demo_part_def)
  then show ?thesis
    using inode_table_round_trip [OF demo_fs_ok, of "demo_inode 6" "0xc0103000" "0xc0104000" "[0xc0105000, 0xc0106000]"]
    by (auto simp: demo_inode_def)
qed

text \<open>\<open>inode_sync\<close> keeps the inode number in a byte: an inode numbered from 256 on is written over the inode whose number is its remainder modulo 256, and its own slot on disk is not updated.\<close>

lemma inode_sync_truncates_the_number:
  assumes "fs_ok s" "256 \<le> unat (i_no i)" "unat (i_no i) < 4096" "length (i_sectors i) = 13"
  shows "\<exists>s'. inode_sync i s = Some s' \<and> disk_inode s' (unat (i_no i)) = disk_inode s (unat (i_no i)) \<and>
           disk_inode s' (unat (i_no i) mod 256) = i\<lparr>i_open_cnts := 0, write_deny := False\<rparr>"
proof -
  obtain dk where dk: "inode_sync i s = Some (s\<lparr>hd0 := dk\<rparr>)"
    "disk_inode (s\<lparr>hd0 := dk\<rparr>) (unat (i_no i) mod 256) = i\<lparr>i_open_cnts := 0, write_deny := False\<rparr>"
    "\<And>n. n < 4096 \<Longrightarrow> n \<noteq> unat (i_no i) mod 256 \<Longrightarrow> disk_inode (s\<lparr>hd0 := dk\<rparr>) n = disk_inode s n"
    using inode_sync_slot [OF assms(1,4)] by metis
  have "unat (i_no i) mod 256 < 256" by simp
  then have "unat (i_no i) \<noteq> unat (i_no i) mod 256" using assms(2) by linarith
  then show ?thesis using dk(1,2) dk(3) [OF assms(3)] by (intro exI [of _ "s\<lparr>hd0 := dk\<rparr>"]) auto
qed

lemma inode_sync_truncates_the_number_demo:
  "\<exists>s'. inode_sync (demo_inode 259) demo_fs = Some s' \<and> i_no (disk_inode s' 3) = 259"
  using inode_sync_truncates_the_number [OF demo_fs_ok, of "demo_inode 259"] by (auto simp: demo_inode_def)

text \<open>Opening an inode and closing it again leaves the open list, the inodes in it and the disk as they were.\<close>

lemma inode_open_close:
  assumes ok: "fs_ok s" and n: "unat n < 4096" and mem: "mallocs s = a # b # r" "a \<noteq> 0" "b \<noteq> 0"
    and fresh: "a \<notin> set (open_inodes (cur_part s))"
    and cnt: "\<And>x. find_open n s = Some x \<Longrightarrow> i_open_cnts (inodes s x) \<noteq> 0"
  shows "\<exists>x s1 s2. inode_open n s = Some (x, s1) \<and> inode_close x s1 = Some s2 \<and>
           open_inodes (cur_part s2) = open_inodes (cur_part s) \<and> hd0 s2 = hd0 s \<and> eflags s2 = eflags s \<and>
           (\<forall>y \<in> set (open_inodes (cur_part s)). inodes s2 y = inodes s y)"
proof (cases "find_open n s")
  case None
  then show ?thesis
    using inode_open_fresh [OF ok n None mem] mem(2) fresh
    by (auto simp: inode_close_eq)
next
  case (Some x)
  let ?s = "upd_inode x (\<lambda>i. i\<lparr>i_open_cnts := i_open_cnts i + 1\<rparr>) s"
  have "i_open_cnts (inodes s x) + 1 \<noteq> 1" using cnt [OF Some] by simp
  then have "inode_close x ?s = Some (?s\<lparr>inodes := inodes s\<rparr>)"
    by (subst inode_close_eq) (auto simp: upd_inode_def)
  then show ?thesis using Some by (auto simp: inode_open_def upd_inode_def)
qed

lemma inode_open_close_demo:
  "\<exists>x s1 s2. inode_open 7 demo_fs = Some (x, s1) \<and> inode_close x s1 = Some s2 \<and> open_inodes (cur_part s2) = []"
proof -
  have "find_open 7 demo_fs = None" "open_inodes (cur_part demo_fs) = []" by (simp_all add: find_open_def demo_part_def)
  then show ?thesis
    using inode_open_close [OF demo_fs_ok, of 7 "0xc0103000" "0xc0104000" "[0xc0105000, 0xc0106000]"] by auto
qed

end
