(* ===== verification/Dir.thy ===== *)
theory Dir
  imports Inode
begin

text \<open>
  Directories, fs/dir.c: entries of 24 bytes in the blocks of a directory's inode; lookup, insertion,
  deletion and enumeration.  File names are byte sequences without the terminating 0.
\<close>

section \<open>Directory entries\<close>

definition MAX_FILE_NAME_LEN :: nat where
  "MAX_FILE_NAME_LEN = 16"

definition FT_UNKNOWN :: u32 where "FT_UNKNOWN = 0"
definition FT_REGULAR :: u32 where "FT_REGULAR = 1"
definition FT_DIRECTORY :: u32 where "FT_DIRECTORY = 2"

record dir_entry =
  filename :: "u8 list"
  de_i_no :: u32
  f_type :: u32

definition enc_de :: "dir_entry \<Rightarrow> u8 list" where
  "enc_de e = filename e @ le32 (de_i_no e) @ le32 (f_type e)"

text \<open>Entry \<open>k\<close> of a buffer, \<open>dir_e + k\<close>.\<close>

definition de_at :: "u8 list \<Rightarrow> nat \<Rightarrow> dir_entry" where
  "de_at bf k = \<lparr>filename = take 16 (drop (24 * k) bf), de_i_no = rd32 bf (24 * k + 16), f_type = rd32 bf (24 * k + 20)\<rparr>"

text \<open>
  \<open>!strcmp((dir_e + k)->filename, name)\<close>: the comparison runs over the bytes behind the entry's start until
  they differ from the name or its terminating 0 matches.
\<close>

definition name_is :: "u8 list \<Rightarrow> nat \<Rightarrow> u8 list \<Rightarrow> bool" where
  "name_is bf k name \<longleftrightarrow> take (Suc (length name)) (drop (24 * k) bf) = name @ [0]"

definition empty_entry :: dir_entry where
  "empty_entry = \<lparr>filename = replicate 16 0, de_i_no = 0, f_type = 0\<rparr>"

definition create_dir_entry :: "u8 list \<Rightarrow> u32 \<Rightarrow> u32 \<Rightarrow> dir_entry \<Rightarrow> dir_entry option" where
  "create_dir_entry name inode_no file_type p_de =
     do {
       ASSERT (length name \<le> MAX_FILE_NAME_LEN);
       Some (p_de\<lparr>filename := splice 0 name (filename p_de), de_i_no := inode_no, f_type := file_type\<rparr>)
     }"

section \<open>Opening, searching and closing\<close>

definition des :: "'a fs_scheme \<Rightarrow> u32" where
  "des s = dir_entry_size (sb (cur_part s))"

definition per_sec :: "'a fs_scheme \<Rightarrow> nat" where
  "per_sec s = unat (512 div des s)"

abbreviation dinode :: "dir_ptr \<Rightarrow> 'a fs_scheme \<Rightarrow> inode" where
  "dinode p s \<equiv> inodes s (dir_inode (dirs s p))"

definition open_root_dir :: "'a fs_scheme \<Rightarrow> 'a fs_scheme option" where
  "open_root_dir s =
     do {
       (a, s) \<leftarrow> inode_open (root_inode_no (sb (cur_part s))) s;
       Some (upd_dir Root_dir (\<lambda>d. d\<lparr>dir_inode := a, dir_pos := 0\<rparr>) s)
     }"

definition dir_open :: "u32 \<Rightarrow> 'a fs_scheme \<Rightarrow> (dir_ptr \<times> 'a fs_scheme) option" where
  "dir_open inode_no s =
     (let (pdir, s) = fs_malloc s in
      do {
        (a, s) \<leftarrow> inode_open inode_no s;
        NONNULL pdir;
        Some (Heap_dir pdir, upd_dir (Heap_dir pdir) (\<lambda>d. d\<lparr>dir_inode := a, dir_pos := 0\<rparr>) s)
      })"

fun search_blocks :: "u32 list \<Rightarrow> u8 list \<Rightarrow> 'a fs_scheme \<Rightarrow> dir_entry option option" where
  "search_blocks [] name s = Some None"
| "search_blocks (lba # lbas) name s =
     (if lba = 0 then search_blocks lbas name s
      else do {
        bf \<leftarrow> hd_read lba 1 s;
        (case List.find (\<lambda>k. name_is bf k name) [0..<per_sec s] of
           Some k \<Rightarrow> Some (Some (de_at bf k))
         | None \<Rightarrow> search_blocks lbas name s)
      })"

definition search_dir_entry :: "dir_ptr \<Rightarrow> u8 list \<Rightarrow> 'a fs_scheme \<Rightarrow> (dir_entry option \<times> 'a fs_scheme) option" where
  "search_dir_entry pdir name s =
     (let (blk, s) = fs_malloc s in
      if blk = 0 then Some (None, s)
      else do {
        blocks \<leftarrow> all_blocks (dinode pdir s) s;
        let (bf, s) = fs_malloc s;
        NONNULL bf;
        r \<leftarrow> search_blocks blocks name s;
        fs_free bf;
        fs_free blk;
        Some (r, s)
      })"

definition dir_close :: "dir_ptr \<Rightarrow> 'a fs_scheme \<Rightarrow> 'a fs_scheme option" where
  "dir_close p s =
     (case p of
        Root_dir \<Rightarrow> Some s
      | Heap_dir a \<Rightarrow> do { s \<leftarrow> inode_close (dir_inode (dirs s p)) s; fs_free a; Some s })"

section \<open>Insertion\<close>

definition set_sector :: "u32 \<Rightarrow> nat \<Rightarrow> u32 \<Rightarrow> 'a fs_scheme \<Rightarrow> 'a fs_scheme" where
  "set_sector a k lba = upd_inode a (\<lambda>i. i\<lparr>i_sectors := (i_sectors i)[k := lba]\<rparr>)"

definition grow_inode :: "u32 \<Rightarrow> u32 \<Rightarrow> 'a fs_scheme \<Rightarrow> 'a fs_scheme" where
  "grow_inode a n = upd_inode a (\<lambda>i. i\<lparr>i_size := i_size i + n\<rparr>)"

text \<open>\<open>block_bitmap_alloc\<close> followed by the write-back of the bitmap; \<open>-1\<close> when the partition is full.\<close>

definition alloc_synced :: "'a fs_scheme \<Rightarrow> (u32 \<times> 'a fs_scheme) option" where
  "alloc_synced s =
     do {
       (lba, s) \<leftarrow> block_bitmap_alloc s;
       (if lba = -1 then Some (-1, s)
        else do {
          let block_bitmap_idx = lba - data_start_lba (sb (cur_part s));
          ASSERT (block_bitmap_idx \<noteq> -1);
          s \<leftarrow> bitmap_sync block_bitmap_idx BLOCK_BITMAP s;
          Some (lba, s)
        })
     }"

text \<open>
  Give block \<open>idx\<close> of the directory with inode \<open>a\<close> a sector: directly, with a new indirect table, or in the
  existing table.  \<open>None\<close> as the block address when the partition is full.
\<close>

definition new_dir_block :: "nat \<Rightarrow> u32 list \<Rightarrow> u32 \<Rightarrow> 'a fs_scheme \<Rightarrow> (u32 option \<times> 'a fs_scheme) option" where
  "new_dir_block idx blocks a s =
     do {
       (lba, s) \<leftarrow> alloc_synced s;
       (if lba = -1 then Some (None, s)
        else if idx < 12 then Some (Some lba, set_sector a idx lba s)
        else if idx = 12 then
          do {
            let s = set_sector a 12 lba s;
            (lba2, s) \<leftarrow> alloc_synced s;
            (if lba2 = -1 then
               do {
                 b \<leftarrow> bitmap_set (block_bitmap (cur_part s)) (lba - data_start_lba (sb (cur_part s))) 0;
                 Some (None, set_sector a 12 0 (upd_part (\<lambda>p. p\<lparr>block_bitmap := b\<rparr>) s))
               }
             else do {
               s \<leftarrow> hd_write lba (enc_words ((drop 12 blocks)[0 := lba2])) 1 s;
               Some (Some lba2, s)
             })
          }
        else do {
          s \<leftarrow> hd_write (i_sectors (inodes s a) ! 12) (enc_words ((drop 12 blocks)[idx - 12 := lba])) 1 s;
          Some (Some lba, s)
        })
     }"

fun sync_entry_loop :: "nat list \<Rightarrow> u32 list \<Rightarrow> u32 \<Rightarrow> dir_entry \<Rightarrow> 'a fs_scheme \<Rightarrow> (bool \<times> 'a fs_scheme) option" where
  "sync_entry_loop [] blocks a p_de s = Some (False, s)"
| "sync_entry_loop (idx # rest) blocks a p_de s =
     (if blocks ! idx = 0 then
        do {
          (lba, s) \<leftarrow> new_dir_block idx blocks a s;
          (case lba of
             None \<Rightarrow> Some (False, s)
           | Some lba \<Rightarrow>
               do {
                 s \<leftarrow> hd_write lba (splice 0 (take (unat (des s)) (enc_de p_de)) (replicate 512 0)) 1 s;
                 Some (True, grow_inode a (des s) s)
               })
        }
      else do {
        io_buf \<leftarrow> hd_read (blocks ! idx) 1 s;
        (case List.find (\<lambda>k. f_type (de_at io_buf k) = FT_UNKNOWN) [0..<per_sec s] of
           Some k \<Rightarrow>
             do {
               s \<leftarrow> hd_write (blocks ! idx) (splice (24 * k) (take (unat (des s)) (enc_de p_de)) io_buf) 1 s;
               Some (True, grow_inode a (des s) s)
             }
         | None \<Rightarrow> sync_entry_loop rest blocks a p_de s)
      })"

definition sync_dir_entry :: "dir_ptr \<Rightarrow> dir_entry \<Rightarrow> 'a fs_scheme \<Rightarrow> (bool \<times> 'a fs_scheme) option" where
  "sync_dir_entry parent_dir p_de s =
     do {
       let a = dir_inode (dirs s parent_dir);
       ASSERT (i_size (inodes s a) mod des s = 0);
       blocks \<leftarrow> all_blocks (inodes s a) s;
       sync_entry_loop [0..<140] blocks a p_de s
     }"

section \<open>Deletion\<close>

text \<open>
  The scan of one sector: the number of entries other than \<open>.\<close> and \<open>..\<close>, the entry with the inode number,
  and whether the sector is the directory's first.
\<close>

record scan_result =
  dir_entry_cnt :: nat
  dir_entry_found :: "nat option"
  is_dir_first_block :: bool

fun scan_entries :: "nat list \<Rightarrow> u8 list \<Rightarrow> u32 \<Rightarrow> scan_result \<Rightarrow> scan_result option" where
  "scan_entries [] bf inode_no r = Some r"
| "scan_entries (k # ks) bf inode_no r =
     (if f_type (de_at bf k) = FT_UNKNOWN then scan_entries ks bf inode_no r
      else if name_is bf k [46] then scan_entries ks bf inode_no (r\<lparr>is_dir_first_block := True\<rparr>)
      else if name_is bf k [46, 46] then scan_entries ks bf inode_no r
      else let r = r\<lparr>dir_entry_cnt := dir_entry_cnt r + 1\<rparr> in
        if de_i_no (de_at bf k) = inode_no
        then do { ASSERT (dir_entry_found r = None); scan_entries ks bf inode_no (r\<lparr>dir_entry_found := Some k\<rparr>) }
        else scan_entries ks bf inode_no r)"

text \<open>The loop that counts the indirect blocks: its index is never advanced.\<close>

partial_function (option) count_indirect :: "nat \<Rightarrow> u32 list \<Rightarrow> nat \<Rightarrow> nat option" where
  "count_indirect indirect_block_idx blocks indirect_blocks =
     (if indirect_block_idx < 140
      then count_indirect indirect_block_idx blocks
             (if blocks ! indirect_block_idx \<noteq> 0 then indirect_blocks + 1 else indirect_blocks)
      else Some indirect_blocks)"

definition drop_dir_block :: "nat \<Rightarrow> u32 list \<Rightarrow> u32 \<Rightarrow> 'a fs_scheme \<Rightarrow> 'a fs_scheme option" where
  "drop_dir_block idx blocks a s =
     do {
       s \<leftarrow> block_release (blocks ! idx - data_start_lba (sb (cur_part s))) s;
       (if idx < 12 then Some (set_sector a idx 0 s)
        else do {
          indirect_blocks \<leftarrow> count_indirect 12 blocks 0;
          ASSERT (indirect_blocks \<ge> 1);
          (if indirect_blocks > 1
           then hd_write (i_sectors (inodes s a) ! 12) (enc_words (drop 12 (blocks[idx := 0]))) 1 s
           else do {
             s \<leftarrow> block_release (i_sectors (inodes s a) ! 12 - data_start_lba (sb (cur_part s))) s;
             Some (set_sector a 12 0 s)
           })
        })
     }"

fun delete_entry_loop :: "nat list \<Rightarrow> u32 list \<Rightarrow> u32 \<Rightarrow> u32 \<Rightarrow> 'a fs_scheme \<Rightarrow> (bool \<times> 'a fs_scheme) option" where
  "delete_entry_loop [] blocks a inode_no s = Some (False, s)"
| "delete_entry_loop (idx # rest) blocks a inode_no s =
     (if blocks ! idx = 0 then delete_entry_loop rest blocks a inode_no s
      else do {
        io_buf \<leftarrow> hd_read (blocks ! idx) 1 s;
        r \<leftarrow> scan_entries [0..<per_sec s] io_buf inode_no
               \<lparr>dir_entry_cnt = 0, dir_entry_found = None, is_dir_first_block = False\<rparr>;
        (case dir_entry_found r of
           None \<Rightarrow> delete_entry_loop rest blocks a inode_no s
         | Some k \<Rightarrow>
             do {
               ASSERT (dir_entry_cnt r \<ge> 1);
               s \<leftarrow> (if dir_entry_cnt r = 1 \<and> \<not> is_dir_first_block r then drop_dir_block idx blocks a s
                      else hd_write (blocks ! idx) (splice (24 * k) (replicate (unat (des s)) 0) io_buf) 1 s);
               ASSERT (i_size (inodes s a) \<ge> des s);
               let s = upd_inode a (\<lambda>i. i\<lparr>i_size := i_size i - des s\<rparr>) s;
               s \<leftarrow> inode_sync (inodes s a) s;
               Some (True, s)
             })
      })"

definition delete_dir_entry :: "dir_ptr \<Rightarrow> u32 \<Rightarrow> 'a fs_scheme \<Rightarrow> (bool \<times> 'a fs_scheme) option" where
  "delete_dir_entry pdir inode_no s =
     do {
       let a = dir_inode (dirs s pdir);
       blocks \<leftarrow> all_blocks (inodes s a) s;
       delete_entry_loop [0..<140] blocks a inode_no s
     }"

section \<open>Enumeration\<close>

text \<open>One sector: \<open>Inl\<close> the position behind its entries, or \<open>Inr\<close> the entry at \<open>dir_pos\<close>.\<close>

fun read_entries :: "nat list \<Rightarrow> u8 list \<Rightarrow> u32 \<Rightarrow> u32 \<Rightarrow> u32 \<Rightarrow> (u32 + nat) option" where
  "read_entries [] bf sz pos cur = Some (Inl cur)"
| "read_entries (k # ks) bf sz pos cur =
     (if f_type (de_at bf k) = 0 then read_entries ks bf sz pos cur
      else if cur < pos then read_entries ks bf sz pos (cur + sz)
      else do { ASSERT (cur = pos); Some (Inr k) })"

fun dir_read_loop :: "u32 list \<Rightarrow> dir_ptr \<Rightarrow> u32 \<Rightarrow> 'a fs_scheme \<Rightarrow> (dir_entry option \<times> 'a fs_scheme) option" where
  "dir_read_loop [] p cur s = Some (None, s)"
| "dir_read_loop (lba # lbas) p cur s =
     (if dir_pos (dirs s p) \<ge> i_size (dinode p s) then Some (None, s)
      else if lba = 0 then dir_read_loop lbas p cur s
      else do {
        bf \<leftarrow> hd_read lba 1 s;
        let s = upd_dir p (\<lambda>d. d\<lparr>dir_buf := bf\<rparr>) s;
        r \<leftarrow> read_entries [0..<per_sec s] bf (des s) (dir_pos (dirs s p)) cur;
        (case r of
           Inl cur \<Rightarrow> dir_read_loop lbas p cur s
         | Inr k \<Rightarrow> Some (Some (de_at bf k), upd_dir p (\<lambda>d. d\<lparr>dir_pos := dir_pos d + des s\<rparr>) s))
      })"

definition dir_read :: "dir_ptr \<Rightarrow> 'a fs_scheme \<Rightarrow> (dir_entry option \<times> 'a fs_scheme) option" where
  "dir_read p s =
     do {
       blocks \<leftarrow> all_blocks (dinode p s) s;
       dir_read_loop (if i_sectors (dinode p s) ! 12 \<noteq> 0 then blocks else take 12 blocks) p 0 s
     }"

definition dir_is_empty :: "dir_ptr \<Rightarrow> 'a fs_scheme \<Rightarrow> bool" where
  "dir_is_empty p s \<longleftrightarrow> i_size (dinode p s) = des s * 2"

definition dir_remove :: "dir_ptr \<Rightarrow> dir_ptr \<Rightarrow> 'a fs_scheme \<Rightarrow> (u32 \<times> 'a fs_scheme) option" where
  "dir_remove parent_dir child_dir s =
     do {
       ASSERT (\<forall>k \<in> set [1..<13]. i_sectors (dinode child_dir s) ! k = 0);
       let (io_buf, s) = fs_malloc s;
       (if io_buf = 0 then Some (-1, s)
        else do {
          (_, s) \<leftarrow> delete_dir_entry parent_dir (i_no (dinode child_dir s)) s;
          s \<leftarrow> inode_release (i_no (dinode child_dir s)) s;
          fs_free io_buf;
          Some (0, s)
        })
     }"

section \<open>Entries of a sector\<close>

lemma length_enc_de [simp]: "length (filename e) = 16 \<Longrightarrow> length (enc_de e) = 24"
  by (simp add: enc_de_def)

lemma de_at_enc: "length (filename e) = 16 \<Longrightarrow> de_at (enc_de e) 0 = e"
  using rd32_le32 [of "filename e" "de_i_no e" "le32 (f_type e)"] rd32_le32 [of "filename e @ le32 (de_i_no e)" "f_type e" "[]"]
  by (simp add: de_at_def enc_de_def)

lemma name_is_enc: "length (filename e) = 16 \<Longrightarrow> length m < 16 \<Longrightarrow> name_is (enc_de e) 0 m \<longleftrightarrow> take (Suc (length m)) (filename e) = m @ [0]"
  by (simp add: name_is_def enc_de_def)

text \<open>An entry and its name depend on its 24 bytes only.\<close>

lemma de_at_slice: "24 * k + 24 \<le> length bf \<Longrightarrow> de_at bf k = de_at (take 24 (drop (24 * k) bf)) 0"
  by (simp add: de_at_def rd32_take rd32_drop min_def)

lemma name_is_slice: "length m < 16 \<Longrightarrow> name_is bf k m = name_is (take 24 (drop (24 * k) bf)) 0 m"
  by (simp add: name_is_def min_def)

lemma entry_write_same:
  assumes "length bf = 512" "k < 21" "length (filename e) = 16"
  shows "de_at (splice (24 * k) (enc_de e) bf) k = e"
    "length m < 16 \<Longrightarrow> name_is (splice (24 * k) (enc_de e) bf) k m \<longleftrightarrow> take (Suc (length m)) (filename e) = m @ [0]"
proof -
  have g: "take 24 (drop (24 * k) (splice (24 * k) (enc_de e) bf)) = enc_de e"
    using splice_get [of "24 * k" "enc_de e" bf] assms by simp
  show "de_at (splice (24 * k) (enc_de e) bf) k = e"
    using assms by (simp add: de_at_slice [of k] g de_at_enc)
  show "length m < 16 \<Longrightarrow> name_is (splice (24 * k) (enc_de e) bf) k m \<longleftrightarrow> take (Suc (length m)) (filename e) = m @ [0]"
    using assms(3) by (simp add: name_is_slice [of m _ k] g name_is_enc)
qed

lemma entry_write_other:
  assumes "length bf = 512" "k < 21" "length (filename e) = 16" "j < 21" "j \<noteq> k"
  shows "de_at (splice (24 * k) (enc_de e) bf) j = de_at bf j"
    "length m < 16 \<Longrightarrow> name_is (splice (24 * k) (enc_de e) bf) j m = name_is bf j m"
proof -
  have "24 * j + 24 \<le> 24 * k \<or> 24 * k + 24 \<le> 24 * j" using assms(5) by auto
  then have g: "take 24 (drop (24 * j) (splice (24 * k) (enc_de e) bf)) = take 24 (drop (24 * j) bf)"
    using assms by (intro splice_frame) auto
  show "de_at (splice (24 * k) (enc_de e) bf) j = de_at bf j"
    using assms by (simp add: de_at_slice [of j] g)
  show "length m < 16 \<Longrightarrow> name_is (splice (24 * k) (enc_de e) bf) j m = name_is bf j m"
    by (simp add: name_is_slice [of m _ j] g)
qed

section \<open>Lookup as a function of the disk\<close>

definition find_slot :: "u8 list \<Rightarrow> u8 list \<Rightarrow> nat option" where
  "find_slot bf name = List.find (\<lambda>k. name_is bf k name) [0..<21]"

fun find_entry :: "disk \<Rightarrow> u32 list \<Rightarrow> u8 list \<Rightarrow> dir_entry option" where
  "find_entry dk [] name = None"
| "find_entry dk (lba # lbas) name =
     (if lba = 0 then find_entry dk lbas name
      else case find_slot (dk lba) name of Some k \<Rightarrow> Some (de_at (dk lba) k) | None \<Rightarrow> find_entry dk lbas name)"

lemma find_entry_append:
  "find_entry dk (xs @ ys) name = (case find_entry dk xs name of None \<Rightarrow> find_entry dk ys name | Some e \<Rightarrow> Some e)"
  by (induction xs) (auto split: option.splits)

lemma find_entry_cong: "(\<And>l. l \<in> set ls \<Longrightarrow> l \<noteq> 0 \<Longrightarrow> dk' l = dk l) \<Longrightarrow> find_entry dk' ls name = find_entry dk ls name"
  by (induction ls) (auto split: option.splits)

lemma find_entry_zeros [simp]: "find_entry dk (replicate n 0) name = None"
  by (induction n) auto

lemma search_blocks_eq:
  assumes "fs_ok s" "\<And>l. l \<in> set ls \<Longrightarrow> l \<noteq> 0 \<Longrightarrow> unat l < 163840"
  shows "search_blocks ls name s = Some (find_entry (hd0 s) ls name)"
proof -
  have p: "per_sec s = 21" and d: "disk_ok (hd0 s)"
    using assms(1) by (simp_all add: per_sec_def des_def fs_ok_def layout_ok_def Let_def)
  show ?thesis using assms(2)
  proof (induction ls)
    case (Cons l ls)
    have "l \<noteq> 0 \<Longrightarrow> hd_read l 1 s = Some (hd0 s l)" using Cons.prems [of l] d hd_read_eq [of s 1 l] by simp
    then show ?case using Cons by (simp add: p find_slot_def split: option.splits)
  qed simp
qed

lemma find_slot_SomeD: "find_slot bf m = Some k \<Longrightarrow> k < 21 \<and> name_is bf k m \<and> (\<forall>j < k. \<not> name_is bf j m)"
  by (auto simp: find_slot_def find_Some_iff)

lemma find_slot_None: "find_slot bf m = None \<longleftrightarrow> (\<forall>j < 21. \<not> name_is bf j m)"
  by (auto simp: find_slot_def find_None_iff)

lemma find_slotI: "k < 21 \<Longrightarrow> name_is bf k m \<Longrightarrow> (\<And>j. j < k \<Longrightarrow> \<not> name_is bf j m) \<Longrightarrow> find_slot bf m = Some k"
  by (auto simp: find_slot_def find_Some_iff)

text \<open>The name and the free slot: what writing an entry does to lookups in its sector.\<close>

definition entry_named :: "u8 list \<Rightarrow> dir_entry \<Rightarrow> bool" where
  "entry_named name e \<longleftrightarrow> length name < 16 \<and> name \<noteq> [] \<and> 0 \<notin> set name \<and> filename e = name @ replicate (16 - length name) 0"

lemma entry_named_length: "entry_named name e \<Longrightarrow> length (filename e) = 16"
  by (simp add: entry_named_def)

lemma takeWhile_nul: "(0 :: u8) \<notin> set m \<Longrightarrow> takeWhile (\<lambda>c. c \<noteq> 0) (m @ 0 # r) = m"
  by (induction m) auto

lemma entry_named_only:
  assumes "entry_named name e" "length m < 16" "0 \<notin> set m"
  shows "take (Suc (length m)) (filename e) = m @ [0] \<longleftrightarrow> m = name"
proof
  assume a: "take (Suc (length m)) (filename e) = m @ [0]"
  have "filename e = m @ 0 # drop (Suc (length m)) (filename e)"
    using append_take_drop_id [of "Suc (length m)" "filename e"] a by simp
  then have "takeWhile (\<lambda>c. c \<noteq> 0) (filename e) = m"
    using takeWhile_nul [OF assms(3), of "drop (Suc (length m)) (filename e)"] by simp
  moreover have "takeWhile (\<lambda>c. c \<noteq> 0) (filename e) = name"
    using assms(1) takeWhile_nul [of name] by (cases "16 - length name") (auto simp: entry_named_def)
  ultimately show "m = name" by simp
next
  assume "m = name"
  then show "take (Suc (length m)) (filename e) = m @ [0]"
    using assms(1) by (cases "16 - length name") (auto simp: entry_named_def)
qed

lemma write_entry_lookup:
  assumes "length bf = 512" "k < 21" "entry_named name e"
  shows "find_slot bf name = None \<Longrightarrow> find_slot (splice (24 * k) (enc_de e) bf) name = Some k"
    and "length m < 16 \<Longrightarrow> 0 \<notin> set m \<Longrightarrow> m \<noteq> name \<Longrightarrow> find_slot bf m \<noteq> Some k \<Longrightarrow>
           find_slot (splice (24 * k) (enc_de e) bf) m = find_slot bf m"
proof -
  note len = entry_named_length [OF assms(3)]
  note same = entry_write_same [OF assms(1,2) len] and other = entry_write_other [OF assms(1,2) len]
  show "find_slot (splice (24 * k) (enc_de e) bf) name = Some k" if a: "find_slot bf name = None"
    using a assms(2,3) same(2) [of name] other(2) [of _ name] entry_named_only [OF assms(3), of name]
    by (intro find_slotI) (auto simp: find_slot_None entry_named_def)
  assume m: "length m < 16" "0 \<notin> set m" "m \<noteq> name" "find_slot bf m \<noteq> Some k"
  have k: "\<not> name_is (splice (24 * k) (enc_de e) bf) k m" using same(2) [OF m(1)] entry_named_only [OF assms(3) m(1,2)] m(3) by simp
  show "find_slot (splice (24 * k) (enc_de e) bf) m = find_slot bf m"
  proof (cases "find_slot bf m")
    case None
    have "find_slot (splice (24 * k) (enc_de e) bf) m = None"
      unfolding find_slot_None
    proof (intro allI impI)
      fix j :: nat
      assume "j < 21"
      then show "\<not> name_is (splice (24 * k) (enc_de e) bf) j m"
        using k other(2) [of j m] None m(1) by (cases "j = k") (auto simp: find_slot_None)
    qed
    then show ?thesis using None by simp
  next
    case (Some j)
    then have j: "j < 21" "name_is bf j m" "\<And>i. i < j \<Longrightarrow> \<not> name_is bf i m" "j \<noteq> k" using find_slot_SomeD [OF Some] m(4) by auto
    then have "find_slot (splice (24 * k) (enc_de e) bf) m = Some j"
      using k other(2) [OF _ _ m(1)] by (intro find_slotI) (auto, metis less_trans)
    then show ?thesis using Some by simp
  qed
qed

section \<open>Allocation of a block\<close>

text \<open>The blocks that are still free lie on the disk.\<close>

definition blocks_ok :: "partition \<Rightarrow> bool" where
  "blocks_ok p \<longleftrightarrow> btmp_ok (block_bitmap p) \<and>
     (\<forall>k < btmp_bits (block_bitmap p). \<not> bit_at (block_bitmap p) k \<longrightarrow> unat (data_start_lba (sb p)) + k < 163840)"

definition block_free :: "'a fs_scheme \<Rightarrow> u32 \<Rightarrow> bool" where
  "block_free s l \<longleftrightarrow> (\<exists>k < btmp_bits (block_bitmap (cur_part s)). \<not> bit_at (block_bitmap (cur_part s)) k \<and>
     l = data_start_lba (sb (cur_part s)) + of_nat k)"

lemma alloc_synced_ok:
  assumes ok: "fs_ok s" "blocks_ok (cur_part s)" and free: "block_free s l0"
  obtains lba dk b where "alloc_synced s = Some (lba, s\<lparr>cur_part := (cur_part s)\<lparr>block_bitmap := b\<rparr>, hd0 := dk\<rparr>)"
    "block_free s lba" "unat (data_start_lba (sb (cur_part s))) \<le> unat lba" "unat lba < 163840" "lba \<noteq> 0" "disk_ok dk"
    "fs_ok (s\<lparr>cur_part := (cur_part s)\<lparr>block_bitmap := b\<rparr>, hd0 := dk\<rparr>)"
    "\<And>l. unat (data_start_lba (sb (cur_part s))) \<le> unat l \<Longrightarrow> dk l = hd0 s l"
    "blocks_ok ((cur_part s)\<lparr>block_bitmap := b\<rparr>)"
    "\<And>l. block_free (s\<lparr>cur_part := (cur_part s)\<lparr>block_bitmap := b\<rparr>, hd0 := dk\<rparr>) l = (block_free s l \<and> l \<noteq> lba)"
proof -
  let ?p = "cur_part s"
  let ?bb = "block_bitmap ?p" and ?ds = "data_start_lba (sb ?p)"
  have bok: "btmp_ok ?bb" and disk: "\<And>k. k < btmp_bits ?bb \<Longrightarrow> \<not> bit_at ?bb k \<Longrightarrow> unat ?ds + k < 163840"
    using ok(2) by (auto simp: blocks_ok_def)
  obtain k0 where "k0 < btmp_bits ?bb" "\<not> bit_at ?bb k0" using free by (auto simp: block_free_def)
  from btm.alloc_one_succeeds [OF bok this] obtain r b where r: "bitmap_scan ?bb 1 = Some r" "r \<noteq> -1" "bitmap_set ?bb r 1 = Some b"
    by blast
  note al = btm.alloc_one [OF bok r]
  have d: "unat ?ds + unat r < 163840" using disk al(1,2) by blast
  then have ul: "unat (?ds + r) = unat ?ds + unat r" by (intro unat_plus_small) simp
  have lay: "unat (block_bitmap_lba (sb ?p)) + unat (block_bitmap_sects (sb ?p)) \<le> unat (inode_bitmap_lba (sb ?p))"
    "unat (inode_bitmap_lba (sb ?p)) < unat ?ds" "unat ?ds < 163840" "btmp_bits ?bb = 4096 * unat (block_bitmap_sects (sb ?p))"
    and dok: "disk_ok (hd0 s)" using ok(1) by (auto simp: fs_ok_def layout_ok_def Let_def btmp_bits_def)
  let ?sec = "block_bitmap_lba (sb ?p) + r div 4096"
  have q: "unat (r div 4096) < unat (block_bitmap_sects (sb ?p))" using al(1) lay(4) by (simp add: unat_div)
  then have us: "unat ?sec = unat (block_bitmap_lba (sb ?p)) + unat (r div 4096)"
    using lay by (intro unat_plus_small) linarith
  let ?bytes = "btmp_bytes b (r div 4096 * 512) 512"
  have lb: "length ?bytes = 512" by (simp add: btmp_bytes_def)
  let ?s1 = "s\<lparr>cur_part := ?p\<lparr>block_bitmap := b\<rparr>\<rparr>"
  have "hd_write ?sec ?bytes 1 ?s1 = Some (?s1\<lparr>hd0 := hd_store (hd0 ?s1) ?sec 1 ?bytes\<rparr>)"
    using us q lay dok lb by (intro hd_write_eq) auto
  then have wr: "hd_write ?sec ?bytes 1 ?s1 = Some (?s1\<lparr>hd0 := (hd0 s)(?sec := ?bytes)\<rparr>)" using lb by simp
  have ne: "?ds + r \<noteq> -1" "r \<noteq> -1" using ul d r(2) unat_neg_one by auto
  have al_eq: "alloc_synced s = Some (?ds + r, ?s1\<lparr>hd0 := (hd0 s)(?sec := ?bytes)\<rparr>)"
    using r wr ne by (simp add: alloc_synced_def block_bitmap_alloc_def upd_part_def bitmap_sync_def Let_def)
  have dk: "disk_ok ((hd0 s)(?sec := ?bytes))" using dok lb by (simp add: disk_ok_def)
  have "btmp_bytes_len b = btmp_bytes_len ?bb" using r(3) by (auto simp: bitmap_set_cases)
  then have ok': "fs_ok (s\<lparr>cur_part := ?p\<lparr>block_bitmap := b\<rparr>, hd0 := (hd0 s)(?sec := ?bytes)\<rparr>)"
    using ok(1) dk by (auto simp: fs_ok_def layout_ok_def Let_def)
  have fr: "block_free s (?ds + r)" using al(1,2) unfolding block_free_def by (intro exI [of _ "unat r"]) simp
  have z: "?ds + r \<noteq> 0" using ul lay(2) by (metis add_is_0 not_less_zero unat_0)
  have out: "((hd0 s)(?sec := ?bytes)) l = hd0 s l" if "unat ?ds \<le> unat l" for l
    using that us q lay by (auto simp: fun_upd_def)
  have used: "bit_at b k \<longleftrightarrow> bit_at ?bb k \<or> k = unat r" if "k < btmp_bits ?bb" for k using al(3) al(6) [OF that] by blast
  have bl: "blocks_ok (?p\<lparr>block_bitmap := b\<rparr>)" using disk used al(4,5) by (auto simp: blocks_ok_def)
  have same: "?ds + of_nat k = ?ds + r \<longleftrightarrow> k = unat r" if "k < btmp_bits ?bb" for k
    using that bok by (auto simp: btmp_ok_def unat_of_nat)
  have fr': "block_free (s\<lparr>cur_part := ?p\<lparr>block_bitmap := b\<rparr>, hd0 := (hd0 s)(?sec := ?bytes)\<rparr>) l = (block_free s l \<and> l \<noteq> ?ds + r)" for l
    using used same al(4) by (auto simp: block_free_def)
  have "unat ?ds \<le> unat (?ds + r)" "unat (?ds + r) < 163840" using ul d by simp_all
  moreover have "alloc_synced s = Some (?ds + r, s\<lparr>cur_part := ?p\<lparr>block_bitmap := b\<rparr>, hd0 := (hd0 s)(?sec := ?bytes)\<rparr>)"
    using al_eq by simp
  ultimately show thesis using that [OF _ fr _ _ z dk ok' out bl fr'] by blast
qed

section \<open>Insertion\<close>

text \<open>
  A directory without indirect blocks: its blocks lie in the data area, are marked as used and are
  different from each other.
\<close>

definition dir_ok :: "u32 \<Rightarrow> 'a fs_scheme \<Rightarrow> bool" where
  "dir_ok a s \<longleftrightarrow>
     (let sects = i_sectors (inodes s a) in
      length sects = 13 \<and> sects ! 12 = 0 \<and> i_size (inodes s a) mod des s = 0 \<and>
      (\<forall>k < 12. sects ! k \<noteq> 0 \<longrightarrow> unat (data_start_lba (sb (cur_part s))) \<le> unat (sects ! k) \<and> unat (sects ! k) < 163840 \<and>
         \<not> block_free s (sects ! k)) \<and>
      (\<forall>j < 12. \<forall>k < 12. sects ! j = sects ! k \<longrightarrow> j = k \<or> sects ! j = 0))"

definition has_room :: "disk \<Rightarrow> u32 \<Rightarrow> bool" where
  "has_room dk l \<longleftrightarrow> l = 0 \<or> (\<exists>k < 21. f_type (de_at (dk l) k) = FT_UNKNOWN)"

definition dir_blocks :: "u32 \<Rightarrow> 'a fs_scheme \<Rightarrow> u32 list" where
  "dir_blocks a s = take 12 (i_sectors (inodes s a)) @ replicate 128 0"

lemma per_sec_21: "fs_ok s \<Longrightarrow> per_sec s = 21" and des_24: "fs_ok s \<Longrightarrow> des s = 24"
  by (simp_all add: per_sec_def des_def fs_ok_def layout_ok_def Let_def)

lemma all_blocks_direct: "i_sectors i ! 12 = 0 \<Longrightarrow> all_blocks i s = Some (take 12 (i_sectors i) @ replicate 128 0)"
  by (simp add: all_blocks_def)

lemma read_sector: "fs_ok s \<Longrightarrow> unat l < 163840 \<Longrightarrow> hd_read l 1 s = Some (hd0 s l)"
  using hd_read_eq [of s 1 l] by (simp add: fs_ok_def)

lemma write_sector: "fs_ok s \<Longrightarrow> unat l < 163840 \<Longrightarrow> length bs = 512 \<Longrightarrow> hd_write l bs 1 s = Some (s\<lparr>hd0 := (hd0 s)(l := bs)\<rparr>)"
  using hd_write_eq [of s 1 l bs] by (simp add: fs_ok_def)

lemma sync_loop_skips:
  assumes "fs_ok s" "\<And>j. j \<in> set js \<Longrightarrow> unat (blocks ! j) < 163840 \<and> \<not> has_room (hd0 s) (blocks ! j)"
  shows "sync_entry_loop (js @ rest) blocks a e s = sync_entry_loop rest blocks a e s"
  using assms(2)
proof (induction js)
  case (Cons j js)
  have j: "unat (blocks ! j) < 163840" "blocks ! j \<noteq> 0" "\<forall>k < 21. f_type (de_at (hd0 s (blocks ! j)) k) \<noteq> FT_UNKNOWN"
    using Cons.prems [of j] by (auto simp: has_room_def)
  then have "List.find (\<lambda>k. f_type (de_at (hd0 s (blocks ! j)) k) = FT_UNKNOWN) [0..<21] = None"
    by (auto simp: find_None_iff)
  then show ?case using Cons j read_sector [OF assms(1) j(1)] by (simp add: per_sec_21 [OF assms(1)])
qed simp

text \<open>The effect of insertion on the disk and the block table.\<close>

definition inserted :: "disk \<Rightarrow> u32 list \<Rightarrow> dir_entry \<Rightarrow> disk \<Rightarrow> u32 list \<Rightarrow> bool" where
  "inserted dk blocks e dk' blocks' \<longleftrightarrow>
     (\<exists>pre l l' post k. blocks = pre @ l # post \<and> blocks' = pre @ l' # post \<and> l' \<noteq> 0 \<and> k < 21 \<and>
        (l \<noteq> 0 \<longrightarrow> l' = l \<and> f_type (de_at (dk l) k) = FT_UNKNOWN \<and> dk' l' = splice (24 * k) (enc_de e) (dk l)) \<and>
        (l = 0 \<longrightarrow> k = 0 \<and> dk' l' = splice 0 (enc_de e) (replicate 512 0)) \<and>
        (\<forall>x \<in> set (pre @ post). x \<noteq> 0 \<longrightarrow> dk' x = dk x))"

lemma zero_sector_lookup: "m \<noteq> [] \<Longrightarrow> 0 \<notin> set m \<Longrightarrow> find_slot (replicate 512 0) m = None"
proof -
  assume a: "m \<noteq> []" "0 \<notin> set m"
  have "replicate n 0 \<noteq> m @ [0]" for n
  proof
    assume "replicate n 0 = m @ [0]"
    then have "hd m \<in> set (replicate n 0)" using a(1) by simp
    then show False using a by (cases m) auto
  qed
  then show ?thesis by (auto simp: find_slot_None name_is_def)
qed

lemma inserted_lookup:
  assumes ins: "inserted dk blocks e dk' blocks'" and dok: "disk_ok dk" and e: "entry_named name e"
  shows "find_entry dk blocks name = None \<Longrightarrow> find_entry dk' blocks' name = Some e"
    and "length m < 16 \<Longrightarrow> 0 \<notin> set m \<Longrightarrow> m \<noteq> [] \<Longrightarrow> m \<noteq> name \<Longrightarrow> find_entry dk blocks m = Some e' \<Longrightarrow> f_type e' \<noteq> FT_UNKNOWN \<Longrightarrow>
           find_entry dk' blocks' m = Some e'"
proof -
  obtain pre l l' post k where b: "blocks = pre @ l # post" "blocks' = pre @ l' # post" "l' \<noteq> 0" "k < 21"
    and old: "l \<noteq> 0 \<Longrightarrow> l' = l \<and> f_type (de_at (dk l) k) = FT_UNKNOWN \<and> dk' l' = splice (24 * k) (enc_de e) (dk l)"
    and new: "l = 0 \<Longrightarrow> k = 0 \<and> dk' l' = splice 0 (enc_de e) (replicate 512 0)"
    and out: "\<And>x. x \<in> set (pre @ post) \<Longrightarrow> x \<noteq> 0 \<Longrightarrow> dk' x = dk x"
    using ins unfolding inserted_def by (elim exE conjE) metis
  define bf where "bf = (if l = 0 then replicate 512 0 else dk l)"
  have bf: "length bf = 512" "dk' l' = splice (24 * k) (enc_de e) bf" using old new dok by (auto simp: bf_def)
  note ek = entry_write_same(1) [OF bf(1) b(4) entry_named_length [OF e]]
  have pre: "find_entry dk' pre n = find_entry dk pre n" and post: "find_entry dk' post n = find_entry dk post n" for n
    using out by (auto intro: find_entry_cong)
  show "find_entry dk' blocks' name = Some e" if a: "find_entry dk blocks name = None"
  proof -
    have p: "find_entry dk pre name = None" "l \<noteq> 0 \<Longrightarrow> find_slot (dk l) name = None"
      using a by (auto simp: b find_entry_append split: option.splits)
    have "find_slot bf name = None" using p(2) e zero_sector_lookup [of name] by (auto simp: bf_def entry_named_def)
    then have "find_slot (dk' l') name = Some k" using write_entry_lookup(1) [OF bf(1) b(4) e] bf(2) by simp
    then show ?thesis using p(1) pre b(3) bf(2) ek by (simp add: b find_entry_append)
  qed
  assume m: "length m < 16" "0 \<notin> set m" "m \<noteq> []" "m \<noteq> name" "find_entry dk blocks m = Some e'" "f_type e' \<noteq> FT_UNKNOWN"
  show "find_entry dk' blocks' m = Some e'"
  proof (cases "find_entry dk pre m")
    case (Some x)
    then show ?thesis using m(5) pre by (simp add: b find_entry_append)
  next
    case None
    then have l: "find_entry dk (l # post) m = Some e'" using m(5) by (simp add: b find_entry_append)
    have "find_slot bf m \<noteq> Some k" using l old m(2,3,6) zero_sector_lookup [of m] by (auto simp: bf_def)
    then have f: "find_slot (dk' l') m = find_slot bf m" using write_entry_lookup(2) [OF bf(1) b(4) e m(1,2,4)] bf(2) by simp
    have "find_entry dk' (l' # post) m = Some e'"
    proof (cases "find_slot bf m")
      case None
      then show ?thesis using l f b(3) post by (cases "l = 0") (auto simp: bf_def)
    next
      case (Some j)
      then have l0: "l \<noteq> 0" using m(2,3) zero_sector_lookup [of m] by (auto simp: bf_def)
      have "j \<noteq> k" "j < 21" using Some \<open>find_slot bf m \<noteq> Some k\<close> find_slot_SomeD [OF Some] by auto
      then have "de_at (dk' l') j = de_at bf j"
        using entry_write_other(1) [OF bf(1) b(4) entry_named_length [OF e]] bf(2) by simp
      then show ?thesis using l f b(3) Some l0 by (simp add: bf_def)
    qed
    then show ?thesis using None pre by (simp add: b find_entry_append)
  qed
qed

lemma first_room:
  assumes "idx < 12" "has_room dk (sects ! idx)"
  obtains j where "j < 12" "has_room dk (sects ! j)" "\<And>i. i < j \<Longrightarrow> \<not> has_room dk (sects ! i)"
proof -
  define j where "j = (LEAST j. has_room dk (sects ! j))"
  have "has_room dk (sects ! j)" "j \<le> idx" and least: "\<And>i. i < j \<Longrightarrow> \<not> has_room dk (sects ! i)"
    unfolding j_def using assms(2) by (auto intro: LeastI Least_le dest: not_less_Least)
  then show thesis using that [of j, OF _ _ least] assms(1) by simp
qed

lemma insert_into_block:
  assumes ok: "fs_ok s" and l: "blocks ! j = l" "l \<noteq> 0" "unat l < 163840" "has_room (hd0 s) l" and e: "length (filename e) = 16"
  obtains k where "k < 21" "f_type (de_at (hd0 s l) k) = FT_UNKNOWN"
    "sync_entry_loop (j # rest) blocks a e s =
       Some (True, grow_inode a 24 (s\<lparr>hd0 := (hd0 s)(l := splice (24 * k) (enc_de e) (hd0 s l))\<rparr>))"
proof -
  have dok: "length (hd0 s l) = 512" using ok by (simp add: fs_ok_def)
  have "List.find (\<lambda>k. f_type (de_at (hd0 s l) k) = FT_UNKNOWN) [0..<21] \<noteq> None"
    using l(2,4) by (auto simp: has_room_def find_None_iff)
  then obtain k where k: "List.find (\<lambda>k. f_type (de_at (hd0 s l) k) = FT_UNKNOWN) [0..<21] = Some k" by blast
  then have k': "k < 21" "f_type (de_at (hd0 s l) k) = FT_UNKNOWN" by (auto simp: find_Some_iff)
  have "length (splice (24 * k) (enc_de e) (hd0 s l)) = 512" using k'(1) dok e by simp
  then have "hd_write l (splice (24 * k) (enc_de e) (hd0 s l)) 1 s = Some (s\<lparr>hd0 := (hd0 s)(l := splice (24 * k) (enc_de e) (hd0 s l))\<rparr>)"
    using ok l(3) by (intro write_sector)
  moreover have "des (s\<lparr>hd0 := d\<rparr>) = des s" for d by (simp add: des_def)
  ultimately have "sync_entry_loop (j # rest) blocks a e s =
       Some (True, grow_inode a 24 (s\<lparr>hd0 := (hd0 s)(l := splice (24 * k) (enc_de e) (hd0 s l))\<rparr>))"
    using l k read_sector [OF ok l(3)] e by (simp add: per_sec_21 [OF ok] des_24 [OF ok])
  then show thesis using that k' by blast
qed

lemma insert_new_block:
  assumes ok: "fs_ok s" "blocks_ok (cur_part s)" "block_free s l0" and j: "blocks ! j = 0" "j < 12" and e: "length (filename e) = 16"
  obtains lba dk b where "block_free s lba" "lba \<noteq> 0" "unat lba < 163840" "disk_ok dk"
    "unat (data_start_lba (sb (cur_part s))) \<le> unat lba"
    "\<And>l. unat (data_start_lba (sb (cur_part s))) \<le> unat l \<Longrightarrow> dk l = hd0 s l"
    "fs_ok (s\<lparr>cur_part := (cur_part s)\<lparr>block_bitmap := b\<rparr>, hd0 := dk(lba := splice 0 (enc_de e) (replicate 512 0))\<rparr>)"
    "sync_entry_loop (j # rest) blocks a e s =
       Some (True, grow_inode a 24 (set_sector a j lba
         (s\<lparr>cur_part := (cur_part s)\<lparr>block_bitmap := b\<rparr>, hd0 := dk(lba := splice 0 (enc_de e) (replicate 512 0))\<rparr>)))"
proof -
  obtain lba dk b where al: "alloc_synced s = Some (lba, s\<lparr>cur_part := (cur_part s)\<lparr>block_bitmap := b\<rparr>, hd0 := dk\<rparr>)"
    "block_free s lba" "unat (data_start_lba (sb (cur_part s))) \<le> unat lba" "unat lba < 163840" "lba \<noteq> 0" "disk_ok dk"
    "fs_ok (s\<lparr>cur_part := (cur_part s)\<lparr>block_bitmap := b\<rparr>, hd0 := dk\<rparr>)"
    "\<And>l. unat (data_start_lba (sb (cur_part s))) \<le> unat l \<Longrightarrow> dk l = hd0 s l"
    by (rule alloc_synced_ok [OF ok]) blast
  let ?s1 = "s\<lparr>cur_part := (cur_part s)\<lparr>block_bitmap := b\<rparr>, hd0 := dk\<rparr>"
  let ?bs = "splice 0 (enc_de e) (replicate 512 0)"
  have bs: "length ?bs = 512" using e by simp
  have m1: "lba \<noteq> -1" using al(4) unat_neg_one by auto
  have ok1: "fs_ok (set_sector a j lba ?s1)" using al(7) by (simp add: fs_ok_def set_sector_def upd_inode_def)
  have "hd_write lba ?bs 1 (set_sector a j lba ?s1) = Some (set_sector a j lba ?s1\<lparr>hd0 := (hd0 (set_sector a j lba ?s1))(lba := ?bs)\<rparr>)"
    using ok1 al(4) bs by (rule write_sector)
  then have wr: "hd_write lba ?bs (Suc 0) (set_sector a j lba ?s1) = Some (set_sector a j lba (s\<lparr>cur_part := (cur_part s)\<lparr>block_bitmap := b\<rparr>, hd0 := dk(lba := ?bs)\<rparr>))"
    by (simp add: set_sector_def upd_inode_def)
  have d24: "des (set_sector a j lba ?s1) = 24" "des (set_sector a j lba (s\<lparr>cur_part := (cur_part s)\<lparr>block_bitmap := b\<rparr>, hd0 := dk(lba := ?bs)\<rparr>)) = 24"
    using des_24 [OF ok(1)] by (simp_all add: des_def set_sector_def upd_inode_def)
  have "sync_entry_loop (j # rest) blocks a e s =
       Some (True, grow_inode a 24 (set_sector a j lba
         (s\<lparr>cur_part := (cur_part s)\<lparr>block_bitmap := b\<rparr>, hd0 := dk(lba := ?bs)\<rparr>)))"
    using al(1) m1 j wr d24 e by (simp add: new_dir_block_def)
  moreover have "fs_ok (s\<lparr>cur_part := (cur_part s)\<lparr>block_bitmap := b\<rparr>, hd0 := dk(lba := ?bs)\<rparr>)"
    using al(6,7) bs by (simp add: fs_ok_def disk_ok_def)
  ultimately show thesis using that [OF al(2,5,4,6,3,8)] by blast
qed

lemma search_direct:
  assumes "fs_ok s" "mallocs s = x # y # r" "x \<noteq> 0" "y \<noteq> 0" "i_sectors (dinode p s) ! 12 = 0"
    and "\<And>k. k < 12 \<Longrightarrow> i_sectors (dinode p s) ! k \<noteq> 0 \<Longrightarrow> unat (i_sectors (dinode p s) ! k) < 163840" "length (i_sectors (dinode p s)) = 13"
  shows "search_dir_entry p name s = Some (find_entry (hd0 s) (dir_blocks (dir_inode (dirs s p)) s) name, s\<lparr>mallocs := r\<rparr>)"
proof -
  have "fs_ok (s\<lparr>mallocs := r\<rparr>)" using assms(1) by (simp add: fs_ok_def)
  moreover have "unat l < 163840" if "l \<in> set (dir_blocks (dir_inode (dirs s p)) s)" "l \<noteq> 0" for l
    using that assms(6,7) by (auto simp: dir_blocks_def in_set_conv_nth)
  ultimately have "search_blocks (dir_blocks (dir_inode (dirs s p)) s) name (s\<lparr>mallocs := r\<rparr>) =
      Some (find_entry (hd0 s) (dir_blocks (dir_inode (dirs s p)) s) name)"
    using search_blocks_eq [of "s\<lparr>mallocs := r\<rparr>"] by simp
  then show ?thesis using assms(2-5)
    by (simp add: search_dir_entry_def fs_malloc_def all_blocks_direct NONNULL_def fs_free_def dir_blocks_def)
qed

lemma upd_nth_split: "j < length xs \<Longrightarrow> xs = take j xs @ xs ! j # drop (Suc j) xs \<and> xs[j := v] = take j xs @ v # drop (Suc j) xs"
  using id_take_nth_drop [of j xs] upd_conv_take_nth_drop [of j xs v] by simp

lemma inserted_at:
  assumes j: "j < 12" "length sects = 13" and out: "\<And>i. i < 12 \<Longrightarrow> i \<noteq> j \<Longrightarrow> sects ! i \<noteq> 0 \<Longrightarrow> dk' (sects ! i) = dk (sects ! i)"
    and l: "l' \<noteq> 0" "k < 21"
    and old: "sects ! j \<noteq> 0 \<Longrightarrow> l' = sects ! j \<and> f_type (de_at (dk (sects ! j)) k) = FT_UNKNOWN \<and> dk' l' = splice (24 * k) (enc_de e) (dk (sects ! j))"
    and new: "sects ! j = 0 \<Longrightarrow> k = 0 \<and> dk' l' = splice 0 (enc_de e) (replicate 512 0)"
  shows "inserted dk (take 12 sects @ replicate 128 0) e dk' (take 12 (sects[j := l']) @ replicate 128 0)"
proof -
  let ?t = "take 12 sects"
  have t: "?t = take j ?t @ sects ! j # drop (Suc j) ?t" "take 12 (sects[j := l']) = take j ?t @ l' # drop (Suc j) ?t"
    using upd_nth_split [of j ?t l'] j by (simp_all add: take_update_swap)
  have "dk' x = dk x" if x: "x \<in> set (take j ?t @ drop (Suc j) ?t @ replicate 128 0)" "x \<noteq> 0" for x
  proof -
    from x consider i where "i < j" "x = sects ! i" | i where "i + j < 11" "x = sects ! Suc (j + i)"
      using j by (auto simp: in_set_conv_nth less_diff_conv)
    then show ?thesis
    proof cases
      case (1 i)
      then show ?thesis using out [of i] x(2) j by simp
    next
      case (2 i)
      then show ?thesis using out [of "Suc (j + i)"] x(2) by simp
    qed
  qed
  then show ?thesis
    unfolding inserted_def using t l old new
    by (intro exI [of _ "take j ?t"] exI [of _ "sects ! j"] exI [of _ l'] exI [of _ "drop (Suc j) ?t @ replicate 128 0"] exI [of _ k] conjI) (auto simp del: take_take)
qed

text \<open>Insertion into a directory that has room among its direct blocks.\<close>

lemma sync_dir_entry_inserts:
  assumes ok: "fs_ok s" "blocks_ok (cur_part s)" "block_free s l0"
    and a: "a = dir_inode (dirs s p)" "dir_ok a s" and room: "idx < 12" "has_room (hd0 s) (i_sectors (inodes s a) ! idx)"
    and e: "length (filename e) = 16"
  obtains s' where "sync_dir_entry p e s = Some (True, s')" "fs_ok s'" "dirs s' = dirs s" "mallocs s' = mallocs s"
    "inserted (hd0 s) (dir_blocks a s) e (hd0 s') (dir_blocks a s')" "i_size (inodes s' a) = i_size (inodes s a) + 24"
    "length (i_sectors (inodes s' a)) = 13" "i_sectors (inodes s' a) ! 12 = 0"
    "\<And>k. k < 12 \<Longrightarrow> i_sectors (inodes s' a) ! k \<noteq> 0 \<Longrightarrow> unat (i_sectors (inodes s' a) ! k) < 163840"
proof -
  define sects where "sects = i_sectors (inodes s a)"
  define blocks where "blocks = take 12 sects @ replicate 128 0"
  let ?ds = "unat (data_start_lba (sb (cur_part s)))"
  have d: "length sects = 13" "sects ! 12 = 0" "i_size (inodes s a) mod des s = 0"
    "\<And>k. k < 12 \<Longrightarrow> sects ! k \<noteq> 0 \<Longrightarrow> ?ds \<le> unat (sects ! k) \<and> unat (sects ! k) < 163840 \<and> \<not> block_free s (sects ! k)"
    "\<And>i k. i < 12 \<Longrightarrow> k < 12 \<Longrightarrow> sects ! i = sects ! k \<Longrightarrow> sects ! i \<noteq> 0 \<Longrightarrow> i = k"
    using a(2) by (auto simp: dir_ok_def Let_def sects_def)
  obtain j where j: "j < 12" "has_room (hd0 s) (sects ! j)" "\<And>i. i < j \<Longrightarrow> \<not> has_room (hd0 s) (sects ! i)"
    using room by (auto simp: sects_def intro: first_room)
  have b: "blocks ! i = sects ! i" if "i < 12" for i using that d(1) by (simp add: blocks_def nth_append)
  have "[0..<140] = [0..<j] @ j # [Suc j..<140]" using j(1) upt_conv_Cons [of j 140] upt_add_eq_append [of 0 j "140 - j"] by simp
  moreover have "unat (blocks ! i) < 163840 \<and> \<not> has_room (hd0 s) (blocks ! i)" if "i \<in> set [0..<j]" for i
    using that j d(4) [of i] b [of i] by (auto simp: has_room_def)
  ultimately have "sync_entry_loop [0..<140] blocks a e s = sync_entry_loop (j # [Suc j..<140]) blocks a e s"
    using sync_loop_skips [OF ok(1), of "[0..<j]" blocks] by (simp del: sync_entry_loop.simps)
  moreover have "sync_dir_entry p e s = sync_entry_loop [0..<140] blocks a e s"
    using d(2,3) a(1) by (simp add: sync_dir_entry_def all_blocks_direct blocks_def sects_def Let_def del: sync_entry_loop.simps upt_rec_numeral)
  ultimately have sync: "sync_dir_entry p e s = sync_entry_loop (j # [Suc j..<140]) blocks a e s" by simp
  show thesis
  proof (cases "sects ! j = 0")
    case False
    have lt: "unat (sects ! j) < 163840" using d(4) [OF j(1) False] by simp
    obtain k where k: "k < 21" "f_type (de_at (hd0 s (sects ! j)) k) = FT_UNKNOWN"
      "sync_entry_loop (j # [Suc j..<140]) blocks a e s =
         Some (True, grow_inode a 24 (s\<lparr>hd0 := (hd0 s)(sects ! j := splice (24 * k) (enc_de e) (hd0 s (sects ! j)))\<rparr>))"
      by (rule insert_into_block [OF ok(1) b [OF j(1)] False lt j(2) e]) blast
    let ?dk = "(hd0 s)(sects ! j := splice (24 * k) (enc_de e) (hd0 s (sects ! j)))"
    have "inserted (hd0 s) (take 12 sects @ replicate 128 0) e ?dk (take 12 (sects[j := sects ! j]) @ replicate 128 0)"
      using d j(1) False k by (intro inserted_at [of j sects]) auto
    moreover have "disk_ok ?dk" using ok(1) k(1) e by (simp add: fs_ok_def disk_ok_def)
    ultimately show thesis
      using that [of "grow_inode a 24 (s\<lparr>hd0 := ?dk\<rparr>)"] sync k d ok(1)
      by (simp add: grow_inode_def upd_inode_def dir_blocks_def sects_def fs_ok_def)
  next
    case True
    obtain lba dk bm where n: "block_free s lba" "lba \<noteq> 0" "unat lba < 163840" "disk_ok dk" "?ds \<le> unat lba"
      "\<And>l. ?ds \<le> unat l \<Longrightarrow> dk l = hd0 s l"
      "fs_ok (s\<lparr>cur_part := (cur_part s)\<lparr>block_bitmap := bm\<rparr>, hd0 := dk(lba := splice 0 (enc_de e) (replicate 512 0))\<rparr>)"
      "sync_entry_loop (j # [Suc j..<140]) blocks a e s = Some (True, grow_inode a 24 (set_sector a j lba
         (s\<lparr>cur_part := (cur_part s)\<lparr>block_bitmap := bm\<rparr>, hd0 := dk(lba := splice 0 (enc_de e) (replicate 512 0))\<rparr>)))"
      by (rule insert_new_block [OF ok _ j(1) e, of blocks]) (use True b [OF j(1)] in \<open>simp, blast\<close>)
    let ?dk = "dk(lba := splice 0 (enc_de e) (replicate 512 0))"
    have "?dk (sects ! i) = hd0 s (sects ! i)" if "i < 12" "sects ! i \<noteq> 0" for i
      using d(4) [OF that] n(1,6) by auto
    then have "inserted (hd0 s) (take 12 sects @ replicate 128 0) e ?dk (take 12 (sects[j := lba]) @ replicate 128 0)"
      using d(1) j(1) True n(2) by (intro inserted_at [of j sects _ _ _ 0]) auto
    moreover have "unat (sects[j := lba] ! k) < 163840" if "k < 12" "sects[j := lba] ! k \<noteq> 0" for k
      using that n(3) d(1,4) j(1) by (cases "k = j") auto
    ultimately show thesis
      using that [of "grow_inode a 24 (set_sector a j lba (s\<lparr>cur_part := (cur_part s)\<lparr>block_bitmap := bm\<rparr>, hd0 := ?dk\<rparr>))"]
        sync n(7,8) d(1,2) j(1)
      by (simp add: grow_inode_def set_sector_def upd_inode_def dir_blocks_def sects_def fs_ok_def)
  qed
qed

section \<open>Properties\<close>


definition demo_dir_fs :: fs where
  "demo_dir_fs = demo_fs\<lparr>inodes := (\<lambda>_. (demo_inode 0)\<lparr>i_sectors := 2660 # replicate 12 0\<rparr>)\<rparr>"

lemma demo_dir_fs_fields [simp]:
  "hd0 demo_dir_fs = (\<lambda>_. replicate 512 0)" "mallocs demo_dir_fs = [0xc0103000, 0xc0104000, 0xc0105000, 0xc0106000]"
  "cur_part demo_dir_fs = demo_part" "inodes demo_dir_fs = (\<lambda>_. (demo_inode 0)\<lparr>i_sectors := 2660 # replicate 12 0\<rparr>)"
  by (simp_all add: demo_dir_fs_def)

lemma demo_dir_fs_ok: "fs_ok demo_dir_fs" "blocks_ok (cur_part demo_dir_fs)" "block_free demo_dir_fs 2661" "dir_ok a demo_dir_fs"
proof -
  have bits: "bit_at (block_bitmap demo_part) k \<longleftrightarrow> k = 0" if "k < 4096" for k
  proof -
    have "(of_nat (k div 8) :: u32) = 0 \<longleftrightarrow> k div 8 = 0" using that by (simp add: word_unat_eq_iff unat_of_nat)
    then show ?thesis by (auto simp: bit_at_def demo_part_def bit_1_iff dvd_imp_mod_0 mod_eq_self_iff_div_eq_0)
  qed
  have n: "btmp_bits (block_bitmap demo_part) = 4096" by (simp add: btmp_bits_def demo_part_def)
  show "fs_ok demo_dir_fs" using demo_fs_ok by (simp add: fs_ok_def)
  show "blocks_ok (cur_part demo_dir_fs)" using bits n by (auto simp: blocks_ok_def btmp_ok_def) (simp add: demo_part_def demo_sb_def)
  show "block_free demo_dir_fs 2661"
    using bits [of 1] n by (auto simp: block_free_def intro!: exI [of _ 1]) (simp add: demo_part_def demo_sb_def)
  have "\<not> block_free demo_dir_fs 2660"
  proof
    assume "block_free demo_dir_fs 2660"
    then obtain k where "k < 4096" "k \<noteq> 0" "(2660 :: u32) = 2660 + of_nat k"
      using bits n by (auto simp: block_free_def demo_part_def demo_sb_def)
    then have "(of_nat k :: u32) = 0" by (metis add_cancel_right_right)
    with \<open>k < 4096\<close> \<open>k \<noteq> 0\<close> show False by (simp add: word_unat_eq_iff unat_of_nat)
  qed
  then show "dir_ok a demo_dir_fs"
    by (auto simp: dir_ok_def Let_def demo_inode_def nth_Cons' demo_part_def demo_sb_def des_def)
qed



lemma count_indirect_diverges: "count_indirect 12 blocks n = None"
proof (rule ccontr)
  assume "count_indirect 12 blocks n \<noteq> None"
  then obtain r where r: "count_indirect 12 blocks n = Some r" by blast
  have "(12::nat) \<noteq> 12"
    by (rule count_indirect.raw_induct [where P = "\<lambda>i _ _ _. i \<noteq> (12::nat)", OF _ r]) (auto split: if_splits)
  then show False by simp
qed

text \<open>
  Property C38: an entry that is the only one of an indirect block of its directory cannot be deleted: when no earlier block
  of the directory holds an entry with the inode number, \<open>delete_dir_entry\<close> never returns, because
  the loop that counts the indirect blocks does not advance its index.
\<close>

theorem deletion_in_indirect_block_hangs:
  assumes blocks: "all_blocks (dinode p s) s = Some blocks" "12 \<le> idx" "idx < 140" "blocks ! idx \<noteq> 0"
    and earlier: "\<And>k. k < idx \<Longrightarrow> blocks ! k \<noteq> 0 \<Longrightarrow>
        \<exists>bf r. hd_read (blocks ! k) 1 s = Some bf \<and> dir_entry_found r = None \<and>
          scan_entries [0..<per_sec s] bf ino \<lparr>dir_entry_cnt = 0, dir_entry_found = None, is_dir_first_block = False\<rparr> = Some r"
    and alone: "hd_read (blocks ! idx) 1 s = Some bf"
      "scan_entries [0..<per_sec s] bf ino \<lparr>dir_entry_cnt = 0, dir_entry_found = None, is_dir_first_block = False\<rparr> =
         Some \<lparr>dir_entry_cnt = 1, dir_entry_found = Some j, is_dir_first_block = False\<rparr>"
  shows "delete_dir_entry p ino s = None"
proof -
  let ?a = "dir_inode (dirs s p)"
  have drop: "drop_dir_block idx blocks ?a s = None"
    using blocks(2) by (auto simp: drop_dir_block_def count_indirect_diverges split: Option.bind_splits)
  have "delete_entry_loop ([k..<idx] @ idx # r) blocks ?a ino s = None" if "k \<le> idx" for k r
    using that
  proof (induction "idx - k" arbitrary: k)
    case 0
    then show ?case using blocks(4) alone drop by simp
  next
    case (Suc n)
    then have "[k..<idx] = k # [Suc k..<idx]" "k < idx" by (simp_all add: upt_rec)
    then show ?case using Suc.hyps(1) [of "Suc k"] Suc.hyps(2) earlier [of k] by (cases "blocks ! k = 0") auto
  qed
  moreover have "[0..<140] = [0..<idx] @ idx # [Suc idx..<140]"
    using upt_add_eq_append [of 0 idx "140 - idx"] upt_conv_Cons [OF blocks(3)] blocks(3) by simp
  ultimately have "delete_entry_loop [0..<140] blocks ?a ino s = None" by simp
  then show ?thesis using blocks(1) by (simp add: delete_dir_entry_def Let_def)
qed


definition demo_alone :: "u8 list" where
  "demo_alone = [97] @ replicate 15 0 @ le32 5 @ le32 1 @ replicate 488 0"

definition demo_indirect_fs :: fs where
  "demo_indirect_fs = demo_fs
     \<lparr>inodes := (\<lambda>_. (demo_inode 0)\<lparr>i_sectors := replicate 12 0 @ [3000]\<rparr>),
      hd0 := (\<lambda>_. replicate 512 0)(3000 := enc_words (3001 # replicate 127 0), 3001 := demo_alone)\<rparr>"

lemma demo_indirect_fs_ok: "fs_ok demo_indirect_fs"
  using demo_fs_ok by (simp add: fs_ok_def demo_indirect_fs_def disk_ok_def demo_alone_def)

lemma scan_unused: "(\<And>k. k \<in> set ks \<Longrightarrow> f_type (de_at bf k) = FT_UNKNOWN) \<Longrightarrow> scan_entries ks bf ino r = Some r"
  by (induction ks) auto

lemma demo_alone_scan:
  "scan_entries [0..<21] demo_alone 5 \<lparr>dir_entry_cnt = 0, dir_entry_found = None, is_dir_first_block = False\<rparr> =
     Some \<lparr>dir_entry_cnt = 1, dir_entry_found = Some 0, is_dir_first_block = False\<rparr>"
proof -
  have first: "de_at demo_alone 0 = \<lparr>filename = 97 # replicate 15 0, de_i_no = 5, f_type = 1\<rparr>"
    by (simp add: de_at_def demo_alone_def rd32_def le32_def nth_append)
  have "f_type (de_at demo_alone k) = FT_UNKNOWN" if "k \<in> set [1..<21]" for k
  proof -
    have "demo_alone ! (24 * k + j) = 0" if "20 \<le> j" "j < 24" for j
      using that \<open>k \<in> set [1..<21]\<close> by (auto simp: demo_alone_def le32_def nth_append)
    from this [of 20] this [of 21] this [of 22] this [of 23] show ?thesis
      by (simp add: de_at_def rd32_def FT_UNKNOWN_def add.assoc eval_nat_numeral)
  qed
  then have rest: "scan_entries [1..<21] demo_alone 5 r = Some r" for r by (rule scan_unused)
  have up: "[0..<21] = 0 # [1..<21]" by (simp add: upt_conv_Cons)
  have "\<not> name_is demo_alone 0 [46]" "\<not> name_is demo_alone 0 [46, 46]" by (simp_all add: name_is_def demo_alone_def)
  then show ?thesis by (simp only: up scan_entries.simps first) (simp add: rest [simplified] FT_UNKNOWN_def Let_def ASSERT_def)
qed

theorem deletion_in_indirect_block_hangs_witness: "delete_dir_entry Root_dir 5 demo_indirect_fs = None"
proof -
  let ?blocks = "replicate 12 0 @ 3001 # replicate 127 (0 :: u32)"
  have i: "i_sectors (dinode Root_dir demo_indirect_fs) = replicate 12 0 @ [3000]" by (simp add: demo_indirect_fs_def)
  have r: "hd_read 3000 1 demo_indirect_fs = Some (enc_words (3001 # replicate 127 0))"
    "hd_read 3001 1 demo_indirect_fs = Some demo_alone"
    using read_sector [OF demo_indirect_fs_ok, of 3000] read_sector [OF demo_indirect_fs_ok, of 3001]
    by (simp_all add: demo_indirect_fs_def)
  have at: "?blocks ! k = (if k = 12 then 3001 else 0)" if "k < 140" for k
    using that by (auto simp: nth_append nth_Cons')
  have "all_blocks (dinode Root_dir demo_indirect_fs) demo_indirect_fs = Some ?blocks"
    by (simp add: all_blocks_def i nth_append r dec_enc_words del: One_nat_def)
  then show ?thesis
    using at r(2) demo_alone_scan per_sec_21 [OF demo_indirect_fs_ok]
    by (intro deletion_in_indirect_block_hangs [where idx = 12 and blocks = ?blocks and bf = demo_alone and j = 0])
      (simp_all del: replicate.simps One_nat_def)
qed

end
