(* ===== verification/File.thy ===== *)
theory File
  imports Dir
begin

text \<open>
  Open files, fs/file.c: the global file table and the descriptors of a task, creation and opening of files,
  and the transfer of data through the blocks of an inode.  A file pointer is an
  index into the file table; numbers that may be -1 are words.
\<close>

definition MAX_FILE_OPEN :: nat where "MAX_FILE_OPEN = 32"
definition MAX_FILES_OPEN_PER_PROC :: nat where "MAX_FILES_OPEN_PER_PROC = 8"

definition O_RDONLY :: u32 where "O_RDONLY = 0"
definition O_WRONLY :: u32 where "O_WRONLY = 1"
definition O_RDWR :: u32 where "O_RDWR = 2"
definition O_CREAT :: u32 where "O_CREAT = 4"

definition upd_file :: "nat \<Rightarrow> (file_entry \<Rightarrow> file_entry) \<Rightarrow> 'a fs_scheme \<Rightarrow> 'a fs_scheme" where
  "upd_file k f s = s\<lparr>file_table := (file_table s)[k := f (file_table s ! k)]\<rparr>"

section \<open>Descriptors\<close>

definition get_free_slot_in_global :: "'a fs_scheme \<Rightarrow> u32" where
  "get_free_slot_in_global s =
     (case List.find (\<lambda>k. fd_inode (file_table s ! k) = 0) [3..<MAX_FILE_OPEN] of
        None \<Rightarrow> -1
      | Some k \<Rightarrow> of_nat k)"

definition pcb_fd_install :: "u32 \<Rightarrow> 'a fs_scheme \<Rightarrow> u32 \<times> 'a fs_scheme" where
  "pcb_fd_install globa_fd_idx s =
     (let cur = running_thread s in
      case List.find (\<lambda>k. fd_table (tasks s cur) ! k = -1) [3..<MAX_FILES_OPEN_PER_PROC] of
        None \<Rightarrow> (-1, s)
      | Some k \<Rightarrow> (of_nat k, upd_task cur (\<lambda>t. t\<lparr>fd_table := (fd_table t)[k := globa_fd_idx]\<rparr>) s))"

section \<open>Creation, opening and closing\<close>

definition clear_inode_bit :: "u32 \<Rightarrow> 'a fs_scheme \<Rightarrow> 'a fs_scheme option" where
  "clear_inode_bit inode_no s =
     do {
       b \<leftarrow> bitmap_set (inode_bitmap (cur_part s)) inode_no 0;
       Some (upd_part (\<lambda>p. p\<lparr>inode_bitmap := b\<rparr>) s)
     }"

text \<open>The rollback of \<open>file_create\<close>: case 3 falls through to 2 and 1, step 0 only frees the buffer.\<close>

definition create_rollback :: "nat \<Rightarrow> u32 \<Rightarrow> u32 \<Rightarrow> u32 \<Rightarrow> u32 \<Rightarrow> 'a fs_scheme \<Rightarrow> (u32 \<times> 'a fs_scheme) option" where
  "create_rollback step io_buf inode_no a fd_idx s =
     do {
       let s = (if 3 \<le> step then upd_file (unat fd_idx) (\<lambda>_. \<lparr>fd_pos = 0, fd_flag = 0, fd_inode = 0\<rparr>) s else s);
       (if 2 \<le> step then fs_free a else Some ());
       s \<leftarrow> (if 1 \<le> step then clear_inode_bit inode_no s else Some s);
       fs_free io_buf;
       Some (-1, s)
     }"

definition file_create_sync :: "dir_ptr \<Rightarrow> u32 \<Rightarrow> u32 \<Rightarrow> u32 \<Rightarrow> u32 \<Rightarrow> 'a fs_scheme \<Rightarrow> (u32 \<times> 'a fs_scheme) option" where
  "file_create_sync parent_dir inode_no a fd_idx io_buf s =
     do {
       s \<leftarrow> inode_sync (dinode parent_dir s) s;
       s \<leftarrow> inode_sync (inodes s a) s;
       s \<leftarrow> bitmap_sync inode_no INODE_BITMAP s;
       let s = upd_part (\<lambda>p. p\<lparr>open_inodes := a # open_inodes p\<rparr>) s;
       let s = upd_inode a (\<lambda>i. i\<lparr>i_open_cnts := 1\<rparr>) s;
       fs_free io_buf;
       Some (pcb_fd_install fd_idx s)
     }"

definition file_create :: "dir_ptr \<Rightarrow> u8 list \<Rightarrow> u8 \<Rightarrow> 'a fs_scheme \<Rightarrow> (u32 \<times> 'a fs_scheme) option" where
  "file_create parent_dir name flag s =
     (let (io_buf, s) = fs_malloc s in
      if io_buf = 0 then Some (-1, s)
      else do {
        (inode_no, s) \<leftarrow> inode_bitmap_alloc s;
        (if inode_no = -1 then create_rollback 0 io_buf inode_no 0 0 s
         else let (a, s) = fs_malloc s in
         if a = 0 then create_rollback 1 io_buf inode_no a 0 s
         else let s = upd_inode a (inode_init inode_no) s;
                  fd_idx = get_free_slot_in_global s in
         if fd_idx = -1 then create_rollback 2 io_buf inode_no a fd_idx s
         else do {
           let s = upd_file (unat fd_idx) (\<lambda>_. \<lparr>fd_pos = 0, fd_flag = ucast flag, fd_inode = a\<rparr>) s;
           let s = upd_inode a (\<lambda>i. i\<lparr>write_deny := False\<rparr>) s;
           new_dir_entry \<leftarrow> create_dir_entry name inode_no FT_REGULAR empty_entry;
           (ok, s) \<leftarrow> sync_dir_entry parent_dir new_dir_entry s;
           (if \<not> ok then create_rollback 3 io_buf inode_no a fd_idx s
            else file_create_sync parent_dir inode_no a fd_idx io_buf s)
         })
      })"

definition file_open :: "u32 \<Rightarrow> u8 \<Rightarrow> 'a fs_scheme \<Rightarrow> (u32 \<times> 'a fs_scheme) option" where
  "file_open inode_no flag s =
     (let fd_idx = get_free_slot_in_global s in
      if fd_idx = -1 then Some (-1, s)
      else do {
        (a, s) \<leftarrow> inode_open inode_no s;
        let s = upd_file (unat fd_idx) (\<lambda>_. \<lparr>fd_pos = 0, fd_flag = ucast flag, fd_inode = a\<rparr>) s;
        (if ucast flag AND O_WRONLY \<noteq> 0 \<or> ucast flag AND O_RDWR \<noteq> 0 then
           let (old_status, s) = intr_disable s in
           if \<not> write_deny (inodes s a) then
             Some (pcb_fd_install fd_idx (snd (intr_set_status old_status (upd_inode a (\<lambda>i. i\<lparr>write_deny := True\<rparr>) s))))
           else
             Some (-1, upd_file (unat fd_idx) (\<lambda>f. f\<lparr>fd_inode := 0\<rparr>) (snd (intr_set_status old_status s)))
         else Some (pcb_fd_install fd_idx s))
      })"

definition file_close :: "nat \<Rightarrow> 'a fs_scheme \<Rightarrow> (u32 \<times> 'a fs_scheme) option" where
  "file_close k s =
     (let a = fd_inode (file_table s ! k) in
      do {
        NONNULL a;
        s \<leftarrow> inode_close a (upd_inode a (\<lambda>i. i\<lparr>write_deny := False\<rparr>) s);
        Some (0, upd_file k (\<lambda>f. f\<lparr>fd_inode := 0\<rparr>) s)
      })"

section \<open>Writing\<close>

text \<open>
  The blocks that a write adds: the loops of the three situations, over the indices from the first new block on.
  A direct block goes into the inode, an indirect one only into the table in memory.  \<open>None\<close> as the table: the partition is full.
\<close>

fun file_write_alloc :: "nat list \<Rightarrow> u32 list \<Rightarrow> u32 \<Rightarrow> 'a fs_scheme \<Rightarrow> (u32 list option \<times> 'a fs_scheme) option" where
  "file_write_alloc [] blocks a s = Some (Some blocks, s)"
| "file_write_alloc (idx # idxs) blocks a s =
     do {
       (lba, s) \<leftarrow> block_bitmap_alloc s;
       (if lba = -1 then Some (None, s)
        else do {
          s \<leftarrow> (if idx < 12
                  then do { ASSERT (i_sectors (inodes s a) ! idx = 0); Some (set_sector a idx lba s) }
                  else Some s);
          s \<leftarrow> bitmap_sync (lba - data_start_lba (sb (cur_part s))) BLOCK_BITMAP s;
          file_write_alloc idxs (blocks[idx := lba]) a s
        })
     }"

definition file_first_block :: "u32 \<Rightarrow> 'a fs_scheme \<Rightarrow> (bool \<times> 'a fs_scheme) option" where
  "file_first_block a s =
     (if i_sectors (inodes s a) ! 0 = 0 then
        do {
          (lba, s) \<leftarrow> block_bitmap_alloc s;
          (if lba = -1 then Some (False, s)
           else do {
             let s = set_sector a 0 lba s;
             let block_bitmap_idx = lba - data_start_lba (sb (cur_part s));
             ASSERT (block_bitmap_idx \<noteq> 0);
             s \<leftarrow> bitmap_sync block_bitmap_idx BLOCK_BITMAP s;
             Some (True, s)
           })
        }
      else Some (True, s))"

definition read_table :: "u32 \<Rightarrow> u32 list \<Rightarrow> 'a fs_scheme \<Rightarrow> u32 list option" where
  "read_table lba blocks s = do { bs \<leftarrow> hd_read lba 1 s; Some (take 12 blocks @ dec_words bs) }"

definition file_write_collect :: "nat \<Rightarrow> nat \<Rightarrow> u32 \<Rightarrow> 'a fs_scheme \<Rightarrow> (u32 list option \<times> 'a fs_scheme) option" where
  "file_write_collect used will a s =
     (let blocks = replicate 140 0; sects = i_sectors (inodes s a) in
      if will = used then
        if used \<le> 12 then Some (Some (blocks[used - 1 := sects ! (used - 1)]), s)
        else do {
          ASSERT (sects ! 12 \<noteq> 0);
          blocks \<leftarrow> read_table (sects ! 12) blocks s;
          Some (Some blocks, s)
        }
      else if will \<le> 12 then
        do {
          ASSERT (sects ! (used - 1) \<noteq> 0);
          file_write_alloc [used..<will] (blocks[used - 1 := sects ! (used - 1)]) a s
        }
      else if used \<le> 12 then
        do {
          let blocks = blocks[used - 1 := sects ! (used - 1)];
          (table, s) \<leftarrow> block_bitmap_alloc s;
          (if table = -1 then Some (None, s)
           else do {
             ASSERT (i_sectors (inodes s a) ! 12 = 0);
             (r, s) \<leftarrow> file_write_alloc [used..<will] blocks a (set_sector a 12 table s);
             (case r of
                None \<Rightarrow> Some (None, s)
              | Some blocks \<Rightarrow>
                  do { s \<leftarrow> hd_write table (enc_words (drop 12 blocks)) 1 s; Some (Some blocks, s) })
           })
        }
      else do {
        ASSERT (sects ! 12 \<noteq> 0);
        blocks \<leftarrow> read_table (sects ! 12) blocks s;
        (r, s) \<leftarrow> file_write_alloc [used..<will] blocks a s;
        (case r of
           None \<Rightarrow> Some (None, s)
         | Some blocks \<Rightarrow>
             do { s \<leftarrow> hd_write (sects ! 12) (enc_words (drop 12 blocks)) 1 s; Some (Some blocks, s) })
      })"

lemma sector_offset_less: "unat ((x :: u32) mod 512) < 512"
  by (simp add: unat_mod)

text \<open>The transfer loop on the bytes still to be written; \<open>first\<close> is \<open>first_write_block\<close>.\<close>

function file_write_loop :: "bool \<Rightarrow> u8 list \<Rightarrow> u32 list \<Rightarrow> nat \<Rightarrow> u32 \<Rightarrow> 'a fs_scheme \<Rightarrow> 'a fs_scheme option" where
  "file_write_loop first src blocks k a s =
     (if src = [] then Some s
      else let sz = i_size (inodes s a);
               lba = blocks ! unat (sz div 512);
               off = unat (sz mod 512);
               chunk = min (length src) (512 - off)
        in do {
          io_buf \<leftarrow> (if first then hd_read lba 1 s else Some (replicate 512 0));
          s \<leftarrow> hd_write lba (splice off (take chunk src) io_buf) 1 s;
          let s = upd_inode a (\<lambda>i. i\<lparr>i_size := i_size i + of_nat chunk\<rparr>) s;
          let s = upd_file k (\<lambda>f. f\<lparr>fd_pos := fd_pos f + of_nat chunk\<rparr>) s;
          file_write_loop False (drop chunk src) blocks k a s
        })"
  by pat_completeness auto
termination
  by (relation "measure (\<lambda>(_, src, _). length src)") (auto simp: sector_offset_less)

declare file_write_loop.simps [simp del]

definition file_write :: "nat \<Rightarrow> u8 list \<Rightarrow> u32 \<Rightarrow> 'a fs_scheme \<Rightarrow> (u32 \<times> 'a fs_scheme) option" where
  "file_write k src count s =
     (let a = fd_inode (file_table s ! k) in
      if i_size (inodes s a) + count > 512 * 140 then Some (-1, s)
      else let (io_buf, s) = fs_malloc s in
      if io_buf = 0 then Some (-1, s)
      else let (blk, s) = fs_malloc s in
      if blk = 0 then Some (-1, s)
      else do {
        (ok, s) \<leftarrow> file_first_block a s;
        (if \<not> ok then Some (-1, s)
         else do {
           let sz = i_size (inodes s a);
           let used = unat (sz div 512 + 1);
           let will = unat ((sz + count) div 512 + 1);
           ASSERT (will \<le> 140);
           (r, s) \<leftarrow> file_write_collect used will a s;
           (case r of
              None \<Rightarrow> Some (-1, s)
            | Some blocks \<Rightarrow>
                do {
                  let s = upd_file k (\<lambda>f. f\<lparr>fd_pos := sz - 1\<rparr>) s;
                  s \<leftarrow> file_write_loop True (take (unat count) src) blocks k a s;
                  s \<leftarrow> inode_sync (inodes s a) s;
                  fs_free blk;
                  fs_free io_buf;
                  Some (count, s)
                })
         })
      })"

section \<open>Reading\<close>

definition copy_sectors :: "nat \<Rightarrow> nat \<Rightarrow> u32 list \<Rightarrow> u32 list \<Rightarrow> u32 list" where
  "copy_sectors i j sects blocks = foldl (\<lambda>b k. b[k := sects ! k]) blocks [i..<j]"

definition file_read_collect :: "nat \<Rightarrow> nat \<Rightarrow> u32 list \<Rightarrow> 'a fs_scheme \<Rightarrow> u32 list option" where
  "file_read_collect start end sects s =
     (let blocks = replicate 140 0 in
      if start = end then
        if end < 12 then Some (blocks[end := sects ! end])
        else read_table (sects ! 12) blocks s
      else if end < 12 then Some (copy_sectors start (end + 1) sects blocks)
      else if start < 12 then
        do { ASSERT (sects ! 12 \<noteq> 0); read_table (sects ! 12) (copy_sectors start 12 sects blocks) s }
      else do { ASSERT (sects ! 12 \<noteq> 0); read_table (sects ! 12) blocks s })"

text \<open>The transfer loop with \<open>size_left\<close> bytes to go; it returns the bytes it copies to the caller's buffer.\<close>

function file_read_loop :: "nat \<Rightarrow> u32 list \<Rightarrow> nat \<Rightarrow> 'a fs_scheme \<Rightarrow> (u8 list \<times> 'a fs_scheme) option" where
  "file_read_loop size_left blocks k s =
     (if size_left = 0 then Some ([], s)
      else let pos = fd_pos (file_table s ! k);
               lba = blocks ! unat (pos div 512);
               off = unat (pos mod 512);
               chunk = min size_left (512 - off)
        in do {
          io_buf \<leftarrow> hd_read lba 1 s;
          let s = upd_file k (\<lambda>f. f\<lparr>fd_pos := fd_pos f + of_nat chunk\<rparr>) s;
          (rest, s) \<leftarrow> file_read_loop (size_left - chunk) blocks k s;
          Some (take chunk (drop off io_buf) @ rest, s)
        })"
  by pat_completeness auto
termination
  by (relation "measure (\<lambda>(size_left, _). size_left)") (auto simp: sector_offset_less)

declare file_read_loop.simps [simp del]

text \<open>The result and the bytes stored in the caller's buffer.\<close>

definition file_read :: "nat \<Rightarrow> u32 \<Rightarrow> 'a fs_scheme \<Rightarrow> (u32 \<times> u8 list \<times> 'a fs_scheme) option" where
  "file_read k count s =
     (let a = fd_inode (file_table s ! k);
          pos = fd_pos (file_table s ! k);
          sz = (if pos + count > i_size (inodes s a) then i_size (inodes s a) - pos else count)
      in
      if pos + count > i_size (inodes s a) \<and> sz = 0 then Some (-1, [], s)
      else let (io_buf, s) = fs_malloc s; (blk, s) = fs_malloc s in
      if blk = 0 then Some (-1, [], s)
      else do {
        NONNULL io_buf;
        let start = unat (pos div 512);
        let end = unat ((pos + sz) div 512);
        ASSERT (start < 139 \<and> end < 139);
        blocks \<leftarrow> file_read_collect start end (i_sectors (inodes s a)) s;
        (bs, s) \<leftarrow> file_read_loop (unat sz) blocks k s;
        fs_free blk;
        fs_free io_buf;
        Some (sz, bs, s)
      })"

end
