(* ===== verification/Path.thy ===== *)
theory Path
  imports File
begin

text \<open>
  Path names, fs/fs.c: splitting a path into its components, counting them, and walking the
  directory tree along them.  Paths and names are byte sequences without the
  terminating 0; 47 is the slash.  The name buffer has 16 bytes and
  \<open>path_parse\<close> does not check its bound: a component of 16 bytes or more leaves no room for the
  terminating 0 or overruns the buffer, which is \<open>None\<close>.
\<close>

definition MAX_PATH_LEN :: nat where
  "MAX_PATH_LEN = 512"

section \<open>Components\<close>

text \<open>The component and the rest of the path; no rest is the null pointer.\<close>

definition path_parse :: "u8 list \<Rightarrow> (u8 list \<times> u8 list option) option" where
  "path_parse pathname =
     (let p = dropWhile (\<lambda>c. c = 47) pathname;
          name = takeWhile (\<lambda>c. c \<noteq> 47) p;
          rest = dropWhile (\<lambda>c. c \<noteq> 47) p
      in if length name < MAX_FILE_NAME_LEN then Some (name, if rest = [] then None else Some rest) else None)"

definition rest_size :: "u8 list option \<Rightarrow> nat" where
  "rest_size p = (case p of None \<Rightarrow> 0 | Some q \<Rightarrow> Suc (length q))"

lemma rest_size_simps [simp]: "rest_size None = 0" "rest_size (Some q) = Suc (length q)"
  by (simp_all add: rest_size_def)

lemma length_dropWhile_mono: "length (dropWhile P xs) \<le> length xs"
  by (induction xs) auto

lemma if_Some_pairD: "(if c then Some (a, b) else None) = Some (x, y) \<Longrightarrow> x = a \<and> y = b"
  by (simp split: if_splits)

lemma path_parse_shrinks:
  assumes "path_parse q = Some (name, p)"
  shows "rest_size p \<le> Suc (length q)" "name \<noteq> [] \<Longrightarrow> rest_size p \<le> length q"
proof -
  let ?d = "dropWhile (\<lambda>c. c = 47) q"
  have p: "name = takeWhile (\<lambda>c. c \<noteq> 47) ?d" "p = (if dropWhile (\<lambda>c. c \<noteq> 47) ?d = [] then None else Some (dropWhile (\<lambda>c. c \<noteq> 47) ?d))"
    using if_Some_pairD [OF assms [unfolded path_parse_def Let_def]] by blast+
  have l: "length ?d \<le> length q" by (rule length_dropWhile_mono)
  have s: "length name + length (dropWhile (\<lambda>c. c \<noteq> 47) ?d) = length ?d"
    unfolding p(1) length_append [symmetric] takeWhile_dropWhile_id ..
  show "rest_size p \<le> Suc (length q)" unfolding p(2) using l s by auto
  assume "name \<noteq> []"
  then have "0 < length name" by simp
  then have "Suc (length (dropWhile (\<lambda>c. c \<noteq> 47) ?d)) \<le> length q" using l s by linarith
  then show "rest_size p \<le> length q" unfolding p(2) by simp
qed

declare Option.bind_cong [fundef_cong]

text \<open>The loop of \<open>path_depth_cnt\<close> after a non-empty component with the rest \<open>p\<close>.\<close>

function path_depth_loop :: "u8 list option \<Rightarrow> u32 \<Rightarrow> u32 option" where
  "path_depth_loop p depth =
     (case p of
        None \<Rightarrow> Some (depth + 1)
      | Some q \<Rightarrow>
          Option.bind (path_parse q)
            (\<lambda>r. if fst r = [] then Some (depth + 1) else path_depth_loop (snd r) (depth + 1)))"
  by pat_completeness auto
termination
proof (relation "measure (\<lambda>(p, _). rest_size p)", simp)
  fix p :: "u8 list option" and depth :: u32 and q r
  assume "p = Some q" "path_parse q = Some r" "fst r \<noteq> []"
  then show "((snd r, depth + 1), p, depth) \<in> measure (\<lambda>(p, _). rest_size p)"
    using path_parse_shrinks(2) [of q "fst r" "snd r"] by simp
qed

declare path_depth_loop.simps [simp del]

text \<open>The name buffer is not initialised before the first call, so an empty first component is read as garbage.\<close>

definition path_depth_cnt :: "u8 list \<Rightarrow> u32 option" where
  "path_depth_cnt pathname =
     do {
       (name, p) \<leftarrow> path_parse pathname;
       (if name = [] then None else path_depth_loop p 0)
     }"

section \<open>Walking the tree\<close>

record path_search_record =
  searched_path :: "u8 list"
  parent_dir :: dir_ptr
  file_type :: u32

definition is_root_path :: "u8 list \<Rightarrow> bool" where
  "is_root_path p \<longleftrightarrow> p = [47] \<or> p = [47, 46] \<or> p = [47, 46, 46]"

text \<open>What \<open>search_file\<close> does when all components are directories: \<open>dir_e\<close> is unset when there was none.\<close>

definition search_file_end ::
  "path_search_record \<Rightarrow> u32 \<Rightarrow> dir_entry option \<Rightarrow> 'a fs_scheme \<Rightarrow> (u32 \<times> path_search_record \<times> 'a fs_scheme) option" where
  "search_file_end r parent_inode_no dir_e s =
     do {
       s \<leftarrow> dir_close (parent_dir r) s;
       (p, s) \<leftarrow> dir_open parent_inode_no s;
       e \<leftarrow> dir_e;
       Some (de_i_no e, r\<lparr>parent_dir := p, file_type := FT_DIRECTORY\<rparr>, s)
     }"

text \<open>The next component and rest: nothing once the rest is the null pointer.\<close>

definition next_component :: "u8 list option \<Rightarrow> (u8 list \<times> u8 list option) option" where
  "next_component sub_path = (case sub_path of None \<Rightarrow> Some ([], None) | Some q \<Rightarrow> path_parse q)"

lemma next_component_size:
  "next_component sub_path = Some (name, p) \<Longrightarrow> rest_size p + (if name = [] then 0 else 1) \<le> rest_size sub_path"
  using path_parse_shrinks by (fastforce simp: next_component_def split: option.splits)

function search_file_loop ::
  "u8 list \<Rightarrow> u8 list option \<Rightarrow> path_search_record \<Rightarrow> u32 \<Rightarrow> dir_entry option \<Rightarrow> 'a fs_scheme \<Rightarrow>
   (u32 \<times> path_search_record \<times> 'a fs_scheme) option"
where
  "search_file_loop name sub_path r parent_inode_no dir_e s =
     (if name = [] then search_file_end r parent_inode_no dir_e s
      else if \<not> length (searched_path r) < 512 then panic_spin
      else let r = r\<lparr>searched_path := searched_path r @ [47] @ name\<rparr> in
        Option.bind (search_dir_entry (parent_dir r) name s)
          (\<lambda>x. let s = snd x in
             case fst x of
               None \<Rightarrow> Some (-1, r, s)
             | Some e \<Rightarrow>
                 Option.bind (next_component sub_path)
                   (\<lambda>c. if f_type e = FT_DIRECTORY then
                          let parent_inode_no = i_no (dinode (parent_dir r) s) in
                          Option.bind (dir_close (parent_dir r) s)
                            (\<lambda>s. Option.bind (dir_open (de_i_no e) s)
                              (\<lambda>y. search_file_loop (fst c) (snd c) (r\<lparr>parent_dir := fst y\<rparr>) parent_inode_no (Some e) (snd y)))
                        else if f_type e = FT_REGULAR then Some (de_i_no e, r\<lparr>file_type := FT_REGULAR\<rparr>, s)
                        else search_file_loop (fst c) (snd c) r parent_inode_no (Some e) s)))"
  by pat_completeness auto
termination
proof (relation "measure (\<lambda>(name, sub_path, _). rest_size sub_path + (if name = [] then 0 else 1))", goal_cases)
  case 1
  show ?case by simp
next
  case (2 name sub_path r parent_inode_no dir_e s ra x xa e c)
  then show ?case using next_component_size [of sub_path "fst c" "snd c"] by simp
next
  case (3 name sub_path r parent_inode_no dir_e s ra x xa e c)
  then show ?case using next_component_size [of sub_path "fst c" "snd c"] by simp
qed

declare search_file_loop.simps [simp del]

definition search_file :: "u8 list \<Rightarrow> 'a fs_scheme \<Rightarrow> (u32 \<times> path_search_record \<times> 'a fs_scheme) option" where
  "search_file pathname s =
     (if is_root_path pathname
      then Some (0, \<lparr>searched_path = [], parent_dir = Root_dir, file_type = FT_DIRECTORY\<rparr>, s)
      else do {
        ASSERT (take 1 pathname = [47] \<and> length pathname > 1 \<and> length pathname < MAX_PATH_LEN);
        (name, sub_path) \<leftarrow> path_parse pathname;
        search_file_loop name sub_path \<lparr>searched_path = [], parent_dir = Root_dir, file_type = FT_UNKNOWN\<rparr> 0 None s
      })"

section \<open>Components as a reference\<close>

text \<open>The words between slashes, and the components of a path: the words that are not empty.\<close>

fun split_slash :: "u8 list \<Rightarrow> u8 list list" where
  "split_slash [] = [[]]"
| "split_slash (c # cs) = (if c = 47 then [] # split_slash cs else (case split_slash cs of [] \<Rightarrow> [[c]] | w # ws \<Rightarrow> (c # w) # ws))"

definition components :: "u8 list \<Rightarrow> u8 list list" where
  "components p = filter (\<lambda>w. w \<noteq> []) (split_slash p)"

definition short_name :: "u8 list \<Rightarrow> bool" where
  "short_name w \<longleftrightarrow> length w < 16"

lemma split_slash_word: "47 \<notin> set w \<Longrightarrow> split_slash (w @ r) = (case split_slash r of [] \<Rightarrow> [w] | v # vs \<Rightarrow> (w @ v) # vs)"
proof (induction w)
  case Nil
  show ?case by (cases r) (simp_all split: list.split)
next
  case (Cons c w)
  then show ?case by (cases "split_slash r") auto
qed

lemma components_Nil [simp]: "components [] = []"
  by (simp add: components_def)

lemma components_skip [simp]: "components (47 # cs) = components cs"
  by (simp add: components_def)

lemma components_drop_slashes: "components (dropWhile (\<lambda>c. c = 47) q) = components q"
  by (induction q) auto

lemma components_word:
  assumes "w \<noteq> []" "47 \<notin> set w" "r = [] \<or> take 1 r = [47]"
  shows "components (w @ r) = w # components r"
proof -
  have "split_slash (w @ r) = w # (if r = [] then [] else split_slash (tl r))"
    using assms(3) split_slash_word [OF assms(2), of r] by (cases r) auto
  then show ?thesis using assms by (cases r) (auto simp: components_def)
qed

text \<open>What \<open>path_parse\<close> takes off a path is its first component.\<close>

lemma path_parse_components:
  "path_parse q = (case components q of
      [] \<Rightarrow> Some ([], None)
    | w # ws \<Rightarrow> if short_name w then Some (w, let r = dropWhile (\<lambda>c. c \<noteq> 47) (dropWhile (\<lambda>c. c = 47) q) in if r = [] then None else Some r) else None)"
    (is ?parse)
  "components q = w # ws \<Longrightarrow> components (dropWhile (\<lambda>c. c \<noteq> 47) (dropWhile (\<lambda>c. c = 47) q)) = ws"
proof -
  define d w' r where "d = dropWhile (\<lambda>c. c = 47) q" and "w' = takeWhile (\<lambda>c. c \<noteq> 47) d" and "r = dropWhile (\<lambda>c. c \<noteq> 47) d"
  have d: "d = w' @ r" by (simp add: w'_def r_def)
  have dn: "d \<noteq> [] \<Longrightarrow> w' \<noteq> []" unfolding w'_def d_def
    by (metis (mono_tags, lifting) hd_dropWhile takeWhile_eq_Nil_iff)
  have w': "47 \<notin> set w'" unfolding w'_def by (metis (mono_tags, lifting) set_takeWhileD)
  have r: "r = [] \<or> take 1 r = [47]"
    unfolding r_def using hd_dropWhile [of "\<lambda>c. c \<noteq> 47" d] by (cases "dropWhile (\<lambda>c. c \<noteq> 47) d") auto
  have c: "components q = components d" by (simp add: d_def components_drop_slashes)
  have pp: "path_parse q = (if length w' < 16 then Some (w', if r = [] then None else Some r) else None)"
    by (simp only: path_parse_def Let_def d_def [symmetric] w'_def [symmetric] r_def [symmetric] MAX_FILE_NAME_LEN_def)
  have nil: "d = [] \<Longrightarrow> w' = [] \<and> r = []" using d by simp
  have cw: "d \<noteq> [] \<Longrightarrow> components q = w' # components r"
    using c d components_word [OF dn w' r] by simp
  show ?parse
    unfolding d_def [symmetric] r_def [symmetric] Let_def
    using pp nil cw c by (cases "d = []") (simp_all add: short_name_def)
  assume "components q = w # ws"
  then show "components (dropWhile (\<lambda>c. c \<noteq> 47) (dropWhile (\<lambda>c. c = 47) q)) = ws"
    unfolding d_def [symmetric] r_def [symmetric] using cw c nil by (cases "d = []") auto
qed

definition rest_components :: "u8 list option \<Rightarrow> u8 list list" where
  "rest_components p = (case p of None \<Rightarrow> [] | Some q \<Rightarrow> components q)"

lemma rest_components_if: "rest_components (if r = [] then None else Some r) = components r"
  by (simp add: rest_components_def)

lemma path_parse_cases:
  obtains "components q = []" "path_parse q = Some ([], None)"
  | w ws p where "components q = w # ws" "short_name w" "path_parse q = Some (w, p)" "rest_components p = ws"
  | w ws where "components q = w # ws" "\<not> short_name w" "path_parse q = None"
proof (cases "components q")
  case Nil
  then show thesis using that(1) path_parse_components(1) [of q] by simp
next
  case (Cons w ws)
  let ?r = "dropWhile (\<lambda>c. c \<noteq> 47) (dropWhile (\<lambda>c. c = 47) q)"
  have "rest_components (if ?r = [] then None else Some ?r) = ws"
    by (simp only: rest_components_if path_parse_components(2) [OF Cons])
  moreover have "path_parse q = (if short_name w then Some (w, if ?r = [] then None else Some ?r) else None)"
    using path_parse_components(1) [of q] by (simp only: Cons list.case Let_def)
  ultimately show thesis using that(2,3) Cons by (cases "short_name w") (simp_all only: if_True if_False simp_thms)
qed

lemma path_depth_loop_eq:
  "path_depth_loop p depth =
     (if list_all short_name (rest_components p) then Some (depth + 1 + of_nat (length (rest_components p))) else None)"
proof (induction p depth rule: path_depth_loop.induct)
  case (1 p depth)
  show ?case
  proof (cases p)
    case None
    then show ?thesis by (simp add: path_depth_loop.simps rest_components_def)
  next
    case (Some q)
    show ?thesis
    proof (rule path_parse_cases [of q])
      assume "components q = []" "path_parse q = Some ([], None)"
      then show ?thesis using Some by (simp add: path_depth_loop.simps [of "Some q"] rest_components_def)
    next
      fix w ws p'
      assume a: "components q = w # ws" "short_name w" "path_parse q = Some (w, p')" "rest_components p' = ws"
      then have "w \<noteq> []" using filter_eq_ConsD [of "\<lambda>w. w \<noteq> []" "split_slash q" w ws] by (auto simp: components_def)
      moreover from this have "path_depth_loop p' (depth + 1) = (if list_all short_name ws then Some (depth + 1 + 1 + of_nat (length ws)) else None)"
        using 1 [OF Some a(3)] a(4) by simp
      ultimately show ?thesis using Some a by (simp add: path_depth_loop.simps [of "Some q"] rest_components_def)
    next
      fix w ws
      assume "components q = w # ws" "\<not> short_name w" "path_parse q = None"
      then show ?thesis using Some by (simp add: path_depth_loop.simps [of "Some q"] rest_components_def)
    qed
  qed
qed

section \<open>Properties\<close>

text \<open>\<open>path_depth_cnt\<close> is the number of non-empty words between slashes, however many slashes separate them; it is defined exactly when there is at least one component and all fit the name buffer.\<close>

lemma path_depth_counts_components:
  "path_depth_cnt p =
     (if components p \<noteq> [] \<and> list_all short_name (components p) then Some (of_nat (length (components p)))
      else None)"
proof (rule path_parse_cases [of p])
  fix w ws p'
  assume a: "components p = w # ws" "short_name w" "path_parse p = Some (w, p')" "rest_components p' = ws"
  then have "w \<noteq> []" using filter_eq_ConsD [of "\<lambda>w. w \<noteq> []" "split_slash p" w ws] by (auto simp: components_def)
  then show ?thesis using a path_depth_loop_eq [of p' 0] by (simp add: path_depth_cnt_def)
qed (simp_all add: path_depth_cnt_def)

end
