(* ===== verification/FileSys.thy ===== *)
theory FileSys
  imports Path
begin

text \<open>
  The file system calls of fs/fs.c and the descriptors of shell/pipe.c.  A call returns its
  result and the new state.  Calls that may wait for a ring return \<open>Inl\<close> the state in which the
  caller sleeps, \<open>Inr\<close> otherwise.  Text on the console is not part of the state.
\<close>

section \<open>Descriptors\<close>

definition PIPE_FLAG :: u32 where "PIPE_FLAG = 0xFFFF"

text \<open>A descriptor outside the task's table is an out-of-range read.\<close>

definition fd_local2global :: "u32 \<Rightarrow> 'a fs_scheme \<Rightarrow> nat option" where
  "fd_local2global local_fd s =
     (if unat local_fd < MAX_FILES_OPEN_PER_PROC then
        let global_fd = fd_table (tasks s (running_thread s)) ! unat local_fd in
        do { ASSERT (unat global_fd < MAX_FILE_OPEN); Some (unat global_fd) }
      else None)"

definition is_pipe :: "u32 \<Rightarrow> 'a fs_scheme \<Rightarrow> bool option" where
  "is_pipe local_fd s =
     do { global_fd \<leftarrow> fd_local2global local_fd s; Some (fd_flag (file_table s ! global_fd) = PIPE_FLAG) }"

definition set_fd :: "nat \<Rightarrow> u32 \<Rightarrow> 'a fs_scheme \<Rightarrow> 'a fs_scheme" where
  "set_fd k g s = upd_task (running_thread s) (\<lambda>t. t\<lparr>fd_table := (fd_table t)[k := g]\<rparr>) s"

text \<open>
  \<open>sys_pipe\<close>: the index \<open>-1\<close> of a full table is used unchecked, and the ring is initialised before
  the null test; both write outside any object.  The two descriptors are returned.
\<close>

definition sys_pipe :: "'a fs_scheme \<Rightarrow> (u32 \<times> u32 \<times> 'a fs_scheme) option" where
  "sys_pipe s =
     (let global_fd = get_free_slot_in_global s in
      if global_fd = -1 then None
      else do {
        (page, s) \<leftarrow> get_kernel_pages 1 s;
        NONNULL page;
        let s = s\<lparr>rings := (rings s)(page := ioqueue_init (rings s page))\<rparr>;
        let s = upd_file (unat global_fd) (\<lambda>_. \<lparr>fd_pos = 2, fd_flag = PIPE_FLAG, fd_inode = page\<rparr>) s;
        let (fd0, s) = pcb_fd_install global_fd s;
        let (fd1, s) = pcb_fd_install global_fd s;
        Some (fd0, fd1, s)
      })"

definition sys_fd_redirect :: "u32 \<Rightarrow> u32 \<Rightarrow> 'a fs_scheme \<Rightarrow> 'a fs_scheme option" where
  "sys_fd_redirect old_local_fd new_local_fd s =
     (if unat old_local_fd < MAX_FILES_OPEN_PER_PROC \<and> unat new_local_fd < MAX_FILES_OPEN_PER_PROC then
        Some (if new_local_fd < 3 then set_fd (unat old_local_fd) new_local_fd s
              else set_fd (unat old_local_fd) (fd_table (tasks s (running_thread s)) ! unat new_local_fd) s)
      else None)"

section \<open>Opening and closing\<close>

definition last_component :: "u8 list \<Rightarrow> u8 list" where
  "last_component p = rev (takeWhile (\<lambda>c. c \<noteq> 47) (rev p))"

definition close_and_return :: "path_search_record \<Rightarrow> u32 \<Rightarrow> 'a fs_scheme \<Rightarrow> (u32 \<times> 'a fs_scheme) option" where
  "close_and_return r ret s = do { s \<leftarrow> dir_close (parent_dir r) s; Some (ret, s) }"

definition sys_open :: "u8 list \<Rightarrow> u8 \<Rightarrow> 'a fs_scheme \<Rightarrow> (u32 \<times> 'a fs_scheme) option" where
  "sys_open pathname flags s =
     (if pathname = [] then None
      else if last pathname = 47 then Some (-1, s)
      else do {
        ASSERT (flags \<le> 7);
        pathname_depth \<leftarrow> path_depth_cnt pathname;
        (inode_no, r, s) \<leftarrow> search_file pathname s;
        let found = (inode_no \<noteq> -1);
        (if file_type r = FT_DIRECTORY then close_and_return r (-1) s
         else do {
           path_searched_depth \<leftarrow> path_depth_cnt (searched_path r);
           (if pathname_depth \<noteq> path_searched_depth then close_and_return r (-1) s
            else if \<not> found \<and> ucast flags AND O_CREAT = 0 then close_and_return r (-1) s
            else if found \<and> ucast flags AND O_CREAT \<noteq> 0 then close_and_return r (-1) s
            else if ucast flags AND O_CREAT \<noteq> 0 then
              do {
                (fd, s) \<leftarrow> file_create (parent_dir r) (last_component pathname) flags s;
                close_and_return r fd s
              }
            else file_open inode_no flags s)
         })
      })"

text \<open>The ring's page goes back when the last descriptor of the pipe is closed.\<close>

definition ring_release :: "nat \<Rightarrow> 'a fs_scheme \<Rightarrow> 'a fs_scheme option" where
  "ring_release global_fd s =
     (if fd_pos (file_table s ! global_fd) = 0 then
        do {
          s \<leftarrow> mfree_page PF_KERNEL (fd_inode (file_table s ! global_fd)) 1 s;
          Some (upd_file global_fd (\<lambda>f. f\<lparr>fd_inode := 0\<rparr>) s)
        }
      else Some s)"

definition sys_close :: "u32 \<Rightarrow> 'a fs_scheme \<Rightarrow> (u32 \<times> 'a fs_scheme) option" where
  "sys_close fd s =
     (if sint fd > 2 then
        do {
          global_fd \<leftarrow> fd_local2global fd s;
          pipe \<leftarrow> is_pipe fd s;
          (ret, s) \<leftarrow>
            (if pipe then
               let s = upd_file global_fd (\<lambda>f. f\<lparr>fd_pos := fd_pos f - 1\<rparr>) s in
               do { s \<leftarrow> ring_release global_fd s; Some (0, s) }
             else file_close global_fd s);
          Some (ret, set_fd (unat fd) (-1) s)
        }
      else Some (-1, s))"

section \<open>Reading and writing\<close>

definition fd_ring :: "u32 \<Rightarrow> 'a fs_scheme \<Rightarrow> u32 option" where
  "fd_ring fd s = do { g \<leftarrow> fd_local2global fd s; Some (fd_inode (file_table s ! g)) }"

definition pipe_write_fd :: "u32 \<Rightarrow> u8 list \<Rightarrow> u32 \<Rightarrow> 'a fs_scheme \<Rightarrow> ('a fs_scheme + u32 \<times> 'a fs_scheme) option" where
  "pipe_write_fd fd bs count s =
     do {
       a \<leftarrow> fd_ring fd s;
       r \<leftarrow> pipe_write (rings s a) bs count s;
       Some (case r of
               Inl (_, q, s) \<Rightarrow> Inl (s\<lparr>rings := (rings s)(a := q)\<rparr>)
             | Inr (n, q, s) \<Rightarrow> Inr (n, s\<lparr>rings := (rings s)(a := q)\<rparr>))
     }"

definition pipe_read_fd :: "u32 \<Rightarrow> u32 \<Rightarrow> 'a fs_scheme \<Rightarrow> ('a fs_scheme + u32 \<times> u8 list \<times> 'a fs_scheme) option" where
  "pipe_read_fd fd count s =
     do {
       a \<leftarrow> fd_ring fd s;
       r \<leftarrow> pipe_read (rings s a) count s;
       Some (case r of
               Inl (_, q, s) \<Rightarrow> Inl (s\<lparr>rings := (rings s)(a := q)\<rparr>)
             | Inr (bs, q, s) \<Rightarrow> Inr (of_nat (length bs), bs, s\<lparr>rings := (rings s)(a := q)\<rparr>))
     }"

text \<open>Output to the console goes through a buffer of 1024 bytes; more overruns it.\<close>

definition sys_write :: "u32 \<Rightarrow> u8 list \<Rightarrow> u32 \<Rightarrow> 'a fs_scheme \<Rightarrow> ('a fs_scheme + u32 \<times> 'a fs_scheme) option" where
  "sys_write fd bs count s =
     (if sint fd < 0 then Some (Inr (-1, s))
      else do {
        pipe \<leftarrow> is_pipe fd s;
        (if pipe then pipe_write_fd fd bs count s
         else if fd = 1 then
           if unat count \<le> 1024 then Some (Inr (count, s)) else None
         else do {
           g \<leftarrow> fd_local2global fd s;
           (if fd_flag (file_table s ! g) AND O_WRONLY \<noteq> 0 \<or> fd_flag (file_table s ! g) AND O_RDWR \<noteq> 0
            then do { NONNULL (fd_inode (file_table s ! g)); (n, s) \<leftarrow> file_write g bs count s; Some (Inr (n, s)) }
            else Some (Inr (-1, s)))
         })
      })"

definition kbd_read :: "u32 \<Rightarrow> 'a fs_scheme \<Rightarrow> ('a fs_scheme + u32 \<times> u8 list \<times> 'a fs_scheme) option" where
  "kbd_read count s =
     do {
       r \<leftarrow> get_bytes ioq_getchar (unat count) (kbd_buf s) s;
       Some (case r of
               Inl (_, q, s) \<Rightarrow> Inl (s\<lparr>kbd_buf := q\<rparr>)
             | Inr (bs, q, s) \<Rightarrow> Inr (if count = 0 then -1 else count, bs, s\<lparr>kbd_buf := q\<rparr>))
     }"

definition sys_read :: "u32 \<Rightarrow> u32 \<Rightarrow> u32 \<Rightarrow> 'a fs_scheme \<Rightarrow> ('a fs_scheme + u32 \<times> u8 list \<times> 'a fs_scheme) option" where
  "sys_read fd bf count s =
     do {
       ASSERT (bf \<noteq> 0);
       (if sint fd < 0 \<or> fd = 1 \<or> fd = 2 then Some (Inr (-1, [], s))
        else do {
          pipe \<leftarrow> is_pipe fd s;
          (if pipe then pipe_read_fd fd count s
           else if fd = 0 then kbd_read count s
           else do {
             g \<leftarrow> fd_local2global fd s;
             NONNULL (fd_inode (file_table s ! g));
             r \<leftarrow> file_read g count s;
             Some (Inr r)
           })
        })
     }"

definition SEEK_SET :: u8 where "SEEK_SET = 1"
definition SEEK_CUR :: u8 where "SEEK_CUR = 2"
definition SEEK_END :: u8 where "SEEK_END = 3"

definition sys_lseek :: "u32 \<Rightarrow> u32 \<Rightarrow> u8 \<Rightarrow> 'a fs_scheme \<Rightarrow> (u32 \<times> 'a fs_scheme) option" where
  "sys_lseek fd offset whence s =
     (if sint fd < 0 then Some (-1, s)
      else do {
        ASSERT (whence > 0 \<and> whence < 4);
        g \<leftarrow> fd_local2global fd s;
        NONNULL (fd_inode (file_table s ! g));
        let file_size = i_size (inodes s (fd_inode (file_table s ! g)));
        let new_pos = (if whence = SEEK_SET then offset
                       else if whence = SEEK_CUR then fd_pos (file_table s ! g) + offset
                       else file_size + offset);
        (if sint new_pos < 0 \<or> sint new_pos > sint (file_size - 1) then Some (-1, s)
         else Some (new_pos, upd_file g (\<lambda>f. f\<lparr>fd_pos := new_pos\<rparr>) s))
      })"

end
