(* ===== verification/FileData.thy ===== *)
theory FileData
  imports FileSys
begin

text \<open>
  Files as byte sequences: what \<open>file_write\<close> and \<open>file_read\<close> of fs/file.c do to the contents of a file.  The contents are the first
  \<open>i_size\<close> bytes of the blocks of its inode; a write appends, a read returns a slice.
\<close>

section \<open>The bytes of a sequence of blocks\<close>

definition bytes_of :: "disk \<Rightarrow> u32 list \<Rightarrow> u8 list" where
  "bytes_of dk bl = concat (map dk bl)"

lemma length_bytes_of [simp]: "disk_ok dk \<Longrightarrow> length (bytes_of dk bl) = 512 * length bl"
  by (induction bl) (simp_all add: bytes_of_def)

lemma nth_bytes_of:
  assumes "disk_ok dk" "p < 512 * length bl"
  shows "bytes_of dk bl ! p = dk (bl ! (p div 512)) ! (p mod 512)"
  using assms(2)
proof (induction bl arbitrary: p)
  case (Cons l bl)
  show ?case
  proof (cases "p < 512")
    case False
    then have "p div 512 = Suc ((p - 512) div 512)" "p mod 512 = (p - 512) mod 512"
      by (simp_all add: le_div_geq le_mod_geq)
    then show ?thesis using False Cons assms(1) by (simp add: bytes_of_def nth_append)
  qed (use assms(1) in \<open>simp add: bytes_of_def nth_append\<close>)
qed simp

lemma within_block:
  assumes "p mod 512 + i < (512 :: nat)"
  shows "(p + i) div 512 = p div 512" "(p + i) mod 512 = p mod 512 + i"
proof -
  have "p + i = p mod 512 + i + 512 * (p div 512)" by simp
  then show "(p + i) div 512 = p div 512" "(p + i) mod 512 = p mod 512 + i"
    using assms div_mult_self2 [of 512 "p mod 512 + i" "p div 512"] mod_mult_self2 [of "p mod 512 + i" 512 "p div 512"] by simp_all
qed

lemma bytes_of_block:
  assumes "disk_ok dk" "p mod 512 + c \<le> 512" "p + c \<le> 512 * length bl"
  shows "take c (drop p (bytes_of dk bl)) = take c (drop (p mod 512) (dk (bl ! (p div 512))))"
proof (rule nth_equalityI)
  fix i assume "i < length (take c (drop p (bytes_of dk bl)))"
  then have i: "i < c" by simp
  then show "take c (drop p (bytes_of dk bl)) ! i = take c (drop (p mod 512) (dk (bl ! (p div 512)))) ! i"
    using i assms within_block [of p i] by (simp add: nth_bytes_of)
qed (use assms in simp)

lemma unat_div_512 [simp]: "unat ((x :: u32) div 512) = unat x div 512"
  and unat_mod_512 [simp]: "unat ((x :: u32) mod 512) = unat x mod 512"
  by (simp_all add: unat_div unat_mod)

lemma upd_file_fields [simp]:
  "hd0 (upd_file k f s) = hd0 s" "inodes (upd_file k f s) = inodes s" "cur_part (upd_file k f s) = cur_part s"
  "length (file_table (upd_file k f s)) = length (file_table s)" "mallocs (upd_file k f s) = mallocs s"
  "k < length (file_table s) \<Longrightarrow> file_table (upd_file k f s) ! k = f (file_table s ! k)"
  by (simp_all add: upd_file_def)

lemma upd_file_twice: "k < length (file_table s) \<Longrightarrow> upd_file k f (upd_file k g s) = upd_file k (f \<circ> g) s"
  by (simp add: upd_file_def)

lemma upd_file_id: "k < length (file_table s) \<Longrightarrow> f (file_table s ! k) = file_table s ! k \<Longrightarrow> upd_file k f s = s"
  by (simp add: upd_file_def)

section \<open>The transfer loops\<close>

text \<open>The block table \<open>bl\<close> of a transfer agrees with the blocks \<open>fb\<close> of the file on the range of bytes that is transferred.\<close>

definition covers :: "u32 list \<Rightarrow> u32 list \<Rightarrow> nat \<Rightarrow> nat \<Rightarrow> bool" where
  "covers bl fb p n \<longleftrightarrow> p + n \<le> 512 * length fb \<and> length fb \<le> 140 \<and>
     (\<forall>j. p div 512 \<le> j \<and> 512 * j < p + n \<longrightarrow> bl ! j = fb ! j \<and> unat (fb ! j) < 163840)"

lemma covers_first: "covers bl fb p n \<Longrightarrow> 0 < n \<Longrightarrow> bl ! (p div 512) = fb ! (p div 512) \<and> unat (fb ! (p div 512)) < 163840"
  using times_div_less_eq_dividend [of 512 p] unfolding covers_def by (meson le_refl less_add_same_cancel1 order_le_less_trans)

lemma covers_step: "covers bl fb p n \<Longrightarrow> c \<le> n \<Longrightarrow> covers bl fb (p + c) (n - c)"
  unfolding covers_def by (auto dest: div_le_mono [of p "p + c" 512])

lemma file_read_loop_slice:
  assumes "disk_ok (hd0 s)" "k < length (file_table s)" "covers bl fb (unat (fd_pos (file_table s ! k))) n"
  shows "file_read_loop n bl k s =
    Some (take n (drop (unat (fd_pos (file_table s ! k))) (bytes_of (hd0 s) fb)),
      upd_file k (\<lambda>f. f\<lparr>fd_pos := fd_pos f + of_nat n\<rparr>) s)"
  using assms
proof (induction n arbitrary: s rule: less_induct)
  case (less n)
  show ?case
  proof (cases "n = 0")
    case True
    then show ?thesis using less.prems(2) by (subst file_read_loop.simps) (simp add: upd_file_id)
  next
    case False
    define p where "p = unat (fd_pos (file_table s ! k))"
    define c where "c = min n (512 - p mod 512)"
    have cov: "covers bl fb p n" using less.prems(3) by (simp add: p_def)
    have c: "0 < c" "c \<le> n" "p mod 512 + c \<le> 512" using False by (auto simp: c_def)
    have bound: "p + n \<le> 71680" using cov by (auto simp: covers_def)
    let ?s = "upd_file k (\<lambda>f. f\<lparr>fd_pos := fd_pos f + of_nat c\<rparr>) s"
    have pos: "unat (fd_pos (file_table ?s ! k)) = p + c"
      using less.prems(2) c(2) bound by (simp add: p_def unat_plus_small unat_of_nat)
    have rd: "hd_read (bl ! (p div 512)) 1 s = Some (hd0 s (fb ! (p div 512)))"
      using covers_first [OF cov] False hd_read_eq [of s 1 "fb ! (p div 512)"] less.prems(1) by simp
    have IH: "file_read_loop (n - c) bl k ?s =
        Some (take (n - c) (drop (p + c) (bytes_of (hd0 s) fb)), upd_file k (\<lambda>f. f\<lparr>fd_pos := fd_pos f + of_nat (n - c)\<rparr>) ?s)"
      using less.IH [of "n - c" ?s] c less.prems(1,2) covers_step [OF cov c(2)] pos by simp
    have "take c (drop (p mod 512) (hd0 s (fb ! (p div 512)))) @ take (n - c) (drop (p + c) (bytes_of (hd0 s) fb)) =
        take n (drop p (bytes_of (hd0 s) fb))"
      using bytes_of_block [OF less.prems(1) c(3), of fb] cov c(2) take_add [of c "n - c" "drop p (bytes_of (hd0 s) fb)"]
      by (simp add: covers_def add.commute)
    moreover have "upd_file k (\<lambda>f. f\<lparr>fd_pos := fd_pos f + of_nat (n - c)\<rparr>) ?s = upd_file k (\<lambda>f. f\<lparr>fd_pos := fd_pos f + of_nat n\<rparr>) s"
      using c(2) less.prems(2) by (simp add: upd_file_twice comp_def of_nat_diff algebra_simps)
    ultimately show ?thesis
      using rd IH False by (subst file_read_loop.simps) (simp add: Let_def p_def [symmetric] c_def [symmetric])
  qed
qed

text \<open>One sector of a write.\<close>

lemma write_block_bytes:
  assumes dk: "disk_ok dk" and c: "length xs = c" "0 < c" "z mod 512 + c \<le> 512" "z + c \<le> 512 * length fb"
    and io: "length io = 512" "z mod 512 = 0 \<or> io = dk (fb ! (z div 512))"
    and inj: "\<And>i j. 512 * i < z + c \<Longrightarrow> 512 * j < z + c \<Longrightarrow> fb ! i = fb ! j \<Longrightarrow> i = j"
  shows "take (z + c) (bytes_of (dk(fb ! (z div 512) := splice (z mod 512) xs io)) fb) = take z (bytes_of dk fb) @ xs"
proof -
  let ?q = "z div 512" and ?o = "z mod 512"
  let ?d = "dk(fb ! ?q := splice ?o xs io)"
  have ok: "disk_ok ?d" using dk io(1) c(1,3) by (simp add: disk_ok_def)
  show ?thesis
  proof (rule nth_equalityI)
    fix p assume "p < length (take (z + c) (bytes_of ?d fb))"
    then have p: "p < z + c" "p < 512 * length fb" using ok c(4) by simp_all
    have blk: "512 * (p div 512) < z + c" "512 * ?q < z + c"
      using p(1) c(2) times_div_less_eq_dividend [of 512 p] times_div_less_eq_dividend [of 512 z] by linarith+
    have new: "bytes_of ?d fb ! p = ?d (fb ! (p div 512)) ! (p mod 512)" by (rule nth_bytes_of [OF ok p(2)])
    show "take (z + c) (bytes_of ?d fb) ! p = (take z (bytes_of dk fb) @ xs) ! p"
    proof (cases "p < z")
      case True
      then have old: "(take z (bytes_of dk fb) @ xs) ! p = dk (fb ! (p div 512)) ! (p mod 512)"
        using nth_bytes_of [OF dk p(2)] c(4) dk by (simp add: nth_append)
      show ?thesis
      proof (cases "p div 512 = ?q")
        case q: True
        then have "p mod 512 < ?o" using True by (metis div_mod_decomp nat_add_left_cancel_less)
        then show ?thesis using old new q io c(1,3) p(1) by (auto simp: nth_splice)
      next
        case False
        then have "fb ! (p div 512) \<noteq> fb ! ?q" using inj blk by blast
        then show ?thesis using old new p(1) by simp
      qed
    next
      case False
      then obtain i where i: "p = z + i" "i < c" using p(1) by (metis le_add_diff_inverse nat_add_left_cancel_less not_less)
      then have "p div 512 = ?q" "p mod 512 = ?o + i" using within_block [of z i] c(3) by simp_all
      then show ?thesis using new i p(1) io(1) c dk by (simp add: nth_splice nth_append)
    qed
  qed (use ok dk c in simp)
qed

text \<open>The state after a transfer of \<open>n\<close> bytes to the file with inode \<open>a\<close> and table entry \<open>k\<close>.\<close>

definition written :: "nat \<Rightarrow> u32 \<Rightarrow> nat \<Rightarrow> disk \<Rightarrow> 'a fs_scheme \<Rightarrow> 'a fs_scheme" where
  "written k a n dk s = upd_file k (\<lambda>f. f\<lparr>fd_pos := fd_pos f + of_nat n\<rparr>)
     (upd_inode a (\<lambda>i. i\<lparr>i_size := i_size i + of_nat n\<rparr>) (s\<lparr>hd0 := dk\<rparr>))"

lemma written_fields [simp]:
  "hd0 (written k a n dk s) = dk" "cur_part (written k a n dk s) = cur_part s" "mallocs (written k a n dk s) = mallocs s"
  "length (file_table (written k a n dk s)) = length (file_table s)"
  "inodes (written k a n dk s) = (inodes s)(a := (inodes s a)\<lparr>i_size := i_size (inodes s a) + of_nat n\<rparr>)"
  "k < length (file_table s) \<Longrightarrow>
     file_table (written k a n dk s) ! k = (file_table s ! k)\<lparr>fd_pos := fd_pos (file_table s ! k) + of_nat n\<rparr>"
  by (simp_all add: written_def upd_inode_def upd_file_def)

lemma written_twice:
  "k < length (file_table s) \<Longrightarrow> written k a n dk (written k a m dk' s) = written k a (m + n) dk s"
  by (simp add: written_def upd_file_def upd_inode_def algebra_simps)

lemma written_0: "k < length (file_table s) \<Longrightarrow> written k a 0 (hd0 s) s = s"
  by (simp add: written_def upd_file_def upd_inode_def)

lemma file_write_loop_appends:
  assumes "disk_ok (hd0 s)" "k < length (file_table s)" "covers bl fb (unat (i_size (inodes s a))) (length src)"
    and "\<And>i j. 512 * i < unat (i_size (inodes s a)) + length src \<Longrightarrow>
           512 * j < unat (i_size (inodes s a)) + length src \<Longrightarrow> fb ! i = fb ! j \<Longrightarrow> i = j"
    and "first \<or> unat (i_size (inodes s a)) mod 512 = 0 \<or> src = []"
  shows "\<exists>dk. file_write_loop first src bl k a s = Some (written k a (length src) dk s) \<and> disk_ok dk \<and>
    take (unat (i_size (inodes s a)) + length src) (bytes_of dk fb) = take (unat (i_size (inodes s a))) (bytes_of (hd0 s) fb) @ src \<and>
    (\<forall>l. l \<notin> set fb \<longrightarrow> dk l = hd0 s l)"
  using assms
proof (induction "length src" arbitrary: src first s rule: less_induct)
  case less
  let ?n = "length src"
  define z where "z = unat (i_size (inodes s a))"
  note ok = less.prems(1) and k = less.prems(2) and cov = less.prems(3) [folded z_def]
    and inj = less.prems(4) [folded z_def] and fi = less.prems(5) [folded z_def]
  show ?case
  proof (cases "src = []")
    case True
    then show ?thesis using ok k
      by (subst file_write_loop.simps) (intro exI [of _ "hd0 s"], simp add: written_0)
  next
    case False
    define c where "c = min ?n (512 - z mod 512)"
    have c: "0 < c" "c \<le> ?n" "z mod 512 + c \<le> 512" "length (take c src) = c" using False by (auto simp: c_def)
    have fit: "z + ?n \<le> 512 * length fb" "z + ?n \<le> 71680" using cov by (auto simp: covers_def)
    let ?l = "fb ! (z div 512)"
    have l: "bl ! (z div 512) = ?l" "unat ?l < 163840" using covers_first [OF cov] False by simp_all
    have inb: "?l \<in> set fb" using fit(1) c(1,2) by (intro nth_mem less_mult_imp_div_less) linarith
    define io where "io = (if first then hd0 s ?l else replicate 512 0)"
    have io: "length io = 512" "z mod 512 = 0 \<or> io = hd0 s ?l" using ok fi False by (auto simp: io_def)
    define dk where "dk = (hd0 s)(?l := splice (z mod 512) (take c src) io)"
    let ?s = "written k a c dk s"
    have dk: "disk_ok dk" using ok io(1) c(3,4) by (simp add: dk_def disk_ok_def)
    have one: "take (z + c) (bytes_of dk fb) = take z (bytes_of (hd0 s) fb) @ take c src"
      unfolding dk_def using c fit(1) inj by (intro write_block_bytes [OF ok c(4,1,3) _ io]) auto
    have sz: "unat (i_size (inodes ?s a)) = z + c" using fit(2) c(2) by (simp add: z_def unat_plus_small unat_of_nat)
    have rd: "(if first then hd_read ?l 1 s else Some (replicate 512 0)) = Some io"
      using hd_read_eq [of s 1 ?l] ok l(2) by (simp add: io_def)
    have wr: "hd_write ?l (splice (z mod 512) (take c src) io) 1 s = Some (s\<lparr>hd0 := dk\<rparr>)"
      using hd_write_eq [of s 1 ?l] ok l(2) io(1) c(3,4) by (simp add: dk_def)
    have loop: "file_write_loop first src bl k a s = file_write_loop False (drop c src) bl k a ?s"
      using False l(1) rd wr
      by (subst file_write_loop.simps, cases first) (simp_all add: Let_def z_def [symmetric] c_def [symmetric] written_def)
    have "z mod 512 < 512" by simp
    then have "z + (512 - z mod 512) = 512 * (z div 512) + 512"
      using minus_mod_eq_mult_div [of z 512] mod_less_eq_dividend [of z 512] by linarith
    then have "(z + (512 - z mod 512)) mod 512 = 0" by simp
    then have al: "(z + c) mod 512 = 0 \<or> drop c src = []" by (cases "c = ?n") (auto simp: c_def min_def split: if_splits)
    have dl: "length (drop c src) = ?n - c" "z + c + (?n - c) = z + ?n" using c(2) by simp_all
    have "\<exists>dk'. file_write_loop False (drop c src) bl k a ?s = Some (written k a (?n - c) dk' ?s) \<and> disk_ok dk' \<and>
        take (z + ?n) (bytes_of dk' fb) = take (z + c) (bytes_of dk fb) @ drop c src \<and> (\<forall>l. l \<notin> set fb \<longrightarrow> dk' l = dk l)"
    proof (rule less.hyps [of "drop c src" ?s False, unfolded sz dl written_fields(1)])
      show "?n - c < ?n" using c(1,2) by simp
      show "covers bl fb (z + c) (?n - c)" by (rule covers_step [OF cov c(2)])
    qed (use dk k inj al in auto)
    then obtain dk' where dk': "file_write_loop False (drop c src) bl k a ?s = Some (written k a (?n - c) dk' ?s)" "disk_ok dk'"
        "take (z + ?n) (bytes_of dk' fb) = take (z + c) (bytes_of dk fb) @ drop c src" "\<And>l. l \<notin> set fb \<Longrightarrow> dk' l = dk l"
      by blast
    have "written k a (?n - c) dk' ?s = written k a ?n dk' s" using k c(2) by (simp add: written_twice)
    moreover have "take (z + ?n) (bytes_of dk' fb) = take z (bytes_of (hd0 s) fb) @ src"
      using dk'(3) one by simp
    moreover have "dk' l = hd0 s l" if "l \<notin> set fb" for l using dk'(4) [OF that] that inb by (auto simp: dk_def)
    ultimately show ?thesis using loop dk'(1,2) by (auto simp: z_def)
  qed
qed

section \<open>Allocation of blocks for a file\<close>

text \<open>The state after blocks have been entered in the inode \<open>a\<close> and in the block bitmap.\<close>

definition grown :: "u32 \<Rightarrow> u32 list \<Rightarrow> bitmap \<Rightarrow> disk \<Rightarrow> 'a fs_scheme \<Rightarrow> 'a fs_scheme" where
  "grown a sects b dk s = s\<lparr>cur_part := (cur_part s)\<lparr>block_bitmap := b\<rparr>, hd0 := dk,
     inodes := (inodes s)(a := (inodes s a)\<lparr>i_sectors := sects\<rparr>)\<rparr>"

lemma grown_fields [simp]:
  "hd0 (grown a x b dk s) = dk" "cur_part (grown a x b dk s) = (cur_part s)\<lparr>block_bitmap := b\<rparr>"
  "inodes (grown a x b dk s) = (inodes s)(a := (inodes s a)\<lparr>i_sectors := x\<rparr>)"
  "file_table (grown a x b dk s) = file_table s" "mallocs (grown a x b dk s) = mallocs s"
  by (simp_all add: grown_def)

lemma grown_twice [simp]: "grown a x b dk (grown a x' b' dk' s) = grown a x b dk s"
  by (simp add: grown_def)

lemma grown_id: "grown a (i_sectors (inodes s a)) (block_bitmap (cur_part s)) (hd0 s) s = s"
  by (simp add: grown_def)

lemma block_free_cong:
  "block_bitmap (cur_part s) = block_bitmap (cur_part t) \<Longrightarrow> sb (cur_part s) = sb (cur_part t) \<Longrightarrow> block_free s l = block_free t l"
  by (simp add: block_free_def)

definition free_blocks :: "'a fs_scheme \<Rightarrow> u32 set" where
  "free_blocks s = {l. block_free s l}"

lemma free_blocks_finite [simp]: "finite (free_blocks s)"
  by (rule finite_subset [OF subset_UNIV]) simp

lemma hd_write_frame:
  assumes "hd_write l bs n u = Some (u\<lparr>hd0 := dk\<rparr>)" "hd0 t = hd0 u"
  shows "hd_write l bs n t = Some (t\<lparr>hd0 := dk\<rparr>)"
proof -
  obtain d where d: "ide_write 1 l bs n regs0 (hd0 u) = Some d" "u\<lparr>hd0 := d\<rparr> = u\<lparr>hd0 := dk\<rparr>"
    using assms(1) by (auto simp: hd_write_def bind_eq_Some_conv)
  have "hd0 (u\<lparr>hd0 := d\<rparr>) = hd0 (u\<lparr>hd0 := dk\<rparr>)" by (simp only: d(2))
  with d(1) assms(2) show ?thesis by (simp add: hd_write_def)
qed

lemma bitmap_sync_frame:
  assumes "bitmap_sync i ty u = Some (u\<lparr>hd0 := dk\<rparr>)" "hd0 t = hd0 u" "cur_part t = cur_part u"
  shows "bitmap_sync i ty t = Some (t\<lparr>hd0 := dk\<rparr>)"
  using assms hd_write_frame [of _ _ _ u dk t] by (cases ty) (auto simp: bitmap_sync_def Let_def)

lemma block_bitmap_alloc_state:
  "block_bitmap_alloc s = Some (l, t) \<Longrightarrow> \<exists>b. t = s\<lparr>cur_part := (cur_part s)\<lparr>block_bitmap := b\<rparr>\<rparr>"
  by (auto simp: block_bitmap_alloc_def bind_eq_Some_conv upd_part_def split: if_splits intro: exI [of _ "block_bitmap (cur_part s)"])

lemma alloc_synced_parts:
  assumes "alloc_synced s = Some (lba, t)" "lba \<noteq> -1"
  obtains u where "block_bitmap_alloc s = Some (lba, u)"
    "bitmap_sync (lba - data_start_lba (sb (cur_part u))) BLOCK_BITMAP u = Some t"
  using assms by (auto simp: alloc_synced_def bind_eq_Some_conv Let_def split: if_splits)

lemma bitmap_sync_part: "bitmap_sync i ty u = Some t \<Longrightarrow> cur_part t = cur_part u"
  by (cases ty) (auto simp: bitmap_sync_def hd_write_def bind_eq_Some_conv Let_def)

text \<open>One block, as the loops of \<open>file_write\<close> take it: marked in memory first, synchronized after the inode has been changed.\<close>

lemma block_alloc_step:
  assumes ok: "fs_ok s" "blocks_ok (cur_part s)" and free: "free_blocks s \<noteq> {}"
  obtains lba b dk where
    "block_bitmap_alloc s = Some (lba, s\<lparr>cur_part := (cur_part s)\<lparr>block_bitmap := b\<rparr>\<rparr>)"
    "\<And>t. hd0 t = hd0 s \<Longrightarrow> cur_part t = (cur_part s)\<lparr>block_bitmap := b\<rparr> \<Longrightarrow>
       bitmap_sync (lba - data_start_lba (sb (cur_part s))) BLOCK_BITMAP t = Some ((t :: 'a fs_scheme)\<lparr>hd0 := dk\<rparr>)"
    "lba \<noteq> -1" "lba \<noteq> 0" "block_free s lba" "unat (data_start_lba (sb (cur_part s))) \<le> unat lba" "unat lba < 163840"
    "\<And>x. fs_ok (grown a x b dk s)" "blocks_ok ((cur_part s)\<lparr>block_bitmap := b\<rparr>)"
    "\<And>x. free_blocks (grown a x b dk s) = free_blocks s - {lba}"
    "\<And>l. unat (data_start_lba (sb (cur_part s))) \<le> unat l \<Longrightarrow> dk l = hd0 (s :: 'a fs_scheme) l"
proof -
  let ?ds = "data_start_lba (sb (cur_part s))"
  obtain l0 where "block_free s l0" using free by (auto simp: free_blocks_def)
  then obtain lba dk b where al: "alloc_synced s = Some (lba, s\<lparr>cur_part := (cur_part s)\<lparr>block_bitmap := b\<rparr>, hd0 := dk\<rparr>)"
    "block_free s lba" "unat ?ds \<le> unat lba" "unat lba < 163840" "lba \<noteq> 0" "disk_ok dk"
    "fs_ok (s\<lparr>cur_part := (cur_part s)\<lparr>block_bitmap := b\<rparr>, hd0 := dk\<rparr>)"
    "\<And>l. unat ?ds \<le> unat l \<Longrightarrow> dk l = hd0 s l" "blocks_ok ((cur_part s)\<lparr>block_bitmap := b\<rparr>)"
    "\<And>l. block_free (s\<lparr>cur_part := (cur_part s)\<lparr>block_bitmap := b\<rparr>, hd0 := dk\<rparr>) l = (block_free s l \<and> l \<noteq> lba)"
    by (rule alloc_synced_ok [OF ok]) blast
  have m1: "lba \<noteq> -1" using al(4) unat_neg_one by auto
  obtain u where u: "block_bitmap_alloc s = Some (lba, u)" "bitmap_sync (lba - data_start_lba (sb (cur_part u))) BLOCK_BITMAP u =
        Some (s\<lparr>cur_part := (cur_part s)\<lparr>block_bitmap := b\<rparr>, hd0 := dk\<rparr>)"
    by (rule alloc_synced_parts [OF al(1) m1])
  obtain b1 where b1: "u = s\<lparr>cur_part := (cur_part s)\<lparr>block_bitmap := b1\<rparr>\<rparr>" using block_bitmap_alloc_state [OF u(1)] by blast
  have "b1 = b" using arg_cong [OF bitmap_sync_part [OF u(2)], of block_bitmap] by (simp add: b1)
  then have b1: "block_bitmap_alloc s = Some (lba, s\<lparr>cur_part := (cur_part s)\<lparr>block_bitmap := b\<rparr>\<rparr>)"
    and sy: "bitmap_sync (lba - ?ds) BLOCK_BITMAP (s\<lparr>cur_part := (cur_part s)\<lparr>block_bitmap := b\<rparr>\<rparr>) =
        Some (s\<lparr>cur_part := (cur_part s)\<lparr>block_bitmap := b\<rparr>, hd0 := dk\<rparr>)"
    using u by (simp_all add: b1)
  have "bitmap_sync (lba - ?ds) BLOCK_BITMAP t = Some (t\<lparr>hd0 := dk\<rparr>)"
    if "hd0 t = hd0 s" "cur_part t = (cur_part s)\<lparr>block_bitmap := b\<rparr>" for t :: "'a fs_scheme"
    using bitmap_sync_frame [of _ _ "s\<lparr>cur_part := (cur_part s)\<lparr>block_bitmap := b\<rparr>\<rparr>" dk t] sy that by simp
  moreover have "fs_ok (grown a x b dk s)" for x using al(7) by (simp add: fs_ok_def)
  moreover have "free_blocks (grown a x b dk s) = free_blocks s - {lba}" for x
    using al(10) block_free_cong [of "grown a x b dk s" "s\<lparr>cur_part := (cur_part s)\<lparr>block_bitmap := b\<rparr>, hd0 := dk\<rparr>"]
    by (auto simp: free_blocks_def)
  ultimately show thesis by (rule that [OF b1 _ m1 al(5,2,3,4) _ al(9) _ al(8)])
qed

lemma splice_Cons: "u < length xs \<Longrightarrow> splice (Suc u) ls (xs[u := l]) = splice u (l # ls) xs"
  by (simp add: splice_def take_Suc_conv_app_nth)

lemma splice_Nil [simp]: "splice u [] xs = xs"
  by (simp add: splice_def)

definition in_data :: "'a fs_scheme \<Rightarrow> u32 \<Rightarrow> bool" where
  "in_data s l \<longleftrightarrow> unat (data_start_lba (sb (cur_part s))) \<le> unat l \<and> unat l < 163840"

lemma in_data_grown [simp]: "in_data (grown a x b dk s) l = in_data s l"
  by (simp add: in_data_def)

text \<open>What the allocation of the blocks \<open>ls\<close> leaves behind in the bitmap and on the disk.\<close>

definition took :: "u32 \<Rightarrow> u32 list \<Rightarrow> bitmap \<Rightarrow> disk \<Rightarrow> 'a fs_scheme \<Rightarrow> bool" where
  "took a ls b dk s \<longleftrightarrow> distinct ls \<and> set ls \<subseteq> free_blocks s \<and> (\<forall>l \<in> set ls. in_data s l \<and> l \<noteq> 0) \<and>
     (\<forall>x. fs_ok (grown a x b dk s) \<and> free_blocks (grown a x b dk s) = free_blocks s - set ls) \<and>
     blocks_ok ((cur_part s)\<lparr>block_bitmap := b\<rparr>) \<and> (\<forall>l. in_data s l \<longrightarrow> dk l = hd0 s l)"

lemma took_Nil: "fs_ok s \<Longrightarrow> blocks_ok (cur_part s) \<Longrightarrow> took a [] (block_bitmap (cur_part s)) (hd0 s) s"
  by (auto simp: took_def free_blocks_def fs_ok_def block_free_def)

lemma took_append:
  assumes "took a ls b dk s" "took a ls' b' dk' (grown a x b dk s)"
  shows "took a (ls @ ls') b' dk' s"
  using assms unfolding took_def by (auto simp: in_data_def)

lemma block_took:
  assumes "fs_ok s" "blocks_ok (cur_part s)" "free_blocks s \<noteq> {}"
  obtains lba b dk where
    "block_bitmap_alloc s = Some (lba, s\<lparr>cur_part := (cur_part s)\<lparr>block_bitmap := b\<rparr>\<rparr>)"
    "\<And>t. hd0 t = hd0 s \<Longrightarrow> cur_part t = (cur_part s)\<lparr>block_bitmap := b\<rparr> \<Longrightarrow>
       bitmap_sync (lba - data_start_lba (sb (cur_part s))) BLOCK_BITMAP t = Some ((t :: 'a fs_scheme)\<lparr>hd0 := dk\<rparr>)"
    "lba \<noteq> -1" "took a [lba] b dk (s :: 'a fs_scheme)"
proof -
  obtain lba b dk where al: "block_bitmap_alloc s = Some (lba, s\<lparr>cur_part := (cur_part s)\<lparr>block_bitmap := b\<rparr>\<rparr>)"
    "\<And>t. hd0 t = hd0 s \<Longrightarrow> cur_part t = (cur_part s)\<lparr>block_bitmap := b\<rparr> \<Longrightarrow>
       bitmap_sync (lba - data_start_lba (sb (cur_part s))) BLOCK_BITMAP t = Some ((t :: 'a fs_scheme)\<lparr>hd0 := dk\<rparr>)"
    "lba \<noteq> -1" "lba \<noteq> 0" "block_free s lba" "unat (data_start_lba (sb (cur_part s))) \<le> unat lba" "unat lba < 163840"
    "\<And>x. fs_ok (grown a x b dk s)" "blocks_ok ((cur_part s)\<lparr>block_bitmap := b\<rparr>)"
    "\<And>x. free_blocks (grown a x b dk s) = free_blocks s - {lba}"
    "\<And>l. unat (data_start_lba (sb (cur_part s))) \<le> unat l \<Longrightarrow> dk l = hd0 s l"
    by (rule block_alloc_step [OF assms]) blast
  have "took a [lba] b dk s"
    using al(4-11) by (auto simp: took_def in_data_def free_blocks_def)
  with al(1,2,3) show thesis by (rule that)
qed

lemma file_write_alloc_direct:
  assumes "fs_ok s" "blocks_ok (cur_part s)" "u + n \<le> 12" "length (i_sectors (inodes s a)) = 13" "length bl = 140"
    and "\<And>j. u \<le> j \<Longrightarrow> j < u + n \<Longrightarrow> i_sectors (inodes s a) ! j = 0" "n \<le> card (free_blocks s)"
  shows "\<exists>ls b dk. length ls = n \<and> took a ls b dk s \<and>
    file_write_alloc [u..<u + n] bl a s = Some (Some (splice u ls bl), grown a (splice u ls (i_sectors (inodes s a))) b dk s)"
  using assms
proof (induction n arbitrary: u bl s)
  case 0
  then show ?case using took_Nil [of s a] by (intro exI [of _ "[]"] exI [of _ "block_bitmap (cur_part s)"] exI [of _ "hd0 s"]) (auto simp: grown_id)
next
  case (Suc n)
  let ?x = "i_sectors (inodes s a)"
  have "free_blocks s \<noteq> {}" using Suc.prems(7) by auto
  from block_took [OF Suc.prems(1,2) this] obtain lba b dk where
    al: "block_bitmap_alloc s = Some (lba, s\<lparr>cur_part := (cur_part s)\<lparr>block_bitmap := b\<rparr>\<rparr>)"
    and sy: "\<And>t. hd0 t = hd0 s \<Longrightarrow> cur_part t = (cur_part s)\<lparr>block_bitmap := b\<rparr> \<Longrightarrow>
       bitmap_sync (lba - data_start_lba (sb (cur_part s))) BLOCK_BITMAP t = Some ((t :: 'a fs_scheme)\<lparr>hd0 := dk\<rparr>)"
    and m1: "lba \<noteq> -1" and tk: "took a [lba] b dk s" by blast
  let ?s = "grown a (?x[u := lba]) b dk s"
  have u: "u < 12" "?x ! u = 0" using Suc.prems(3,6) by auto
  let ?t = "set_sector a u lba (s\<lparr>cur_part := (cur_part s)\<lparr>block_bitmap := b\<rparr>\<rparr>)"
  have "bitmap_sync (lba - data_start_lba (sb (cur_part s))) BLOCK_BITMAP ?t = Some (?t\<lparr>hd0 := dk\<rparr>)"
    by (rule sy) (simp_all add: set_sector_def upd_inode_def)
  moreover have "?t\<lparr>hd0 := dk\<rparr> = ?s" by (simp add: set_sector_def upd_inode_def grown_def)
  moreover have "sb (cur_part ?t) = sb (cur_part s)" by (simp add: set_sector_def upd_inode_def)
  moreover have upt: "[u..<u + Suc n] = u # [Suc u..<Suc u + n]" by (subst upt_conv_Cons) simp_all
  ultimately have step: "file_write_alloc [u..<u + Suc n] bl a s = file_write_alloc [Suc u..<Suc u + n] (bl[u := lba]) a ?s"
    unfolding upt using al m1 u by simp
  have lb: "lba \<in> free_blocks s" using tk by (simp add: took_def)
  have cd: "n \<le> card (free_blocks s - {lba})" using Suc.prems(7) lb by (simp add: card_Diff_singleton)
  have "\<exists>ls b' dk'. length ls = n \<and> took a ls b' dk' ?s \<and> file_write_alloc [Suc u..<Suc u + n] (bl[u := lba]) a ?s =
      Some (Some (splice (Suc u) ls (bl[u := lba])), grown a (splice (Suc u) ls (i_sectors (inodes ?s a))) b' dk' ?s)"
  proof (rule Suc.IH)
    show "fs_ok ?s" "blocks_ok (cur_part ?s)" using tk by (simp_all add: took_def)
    show "n \<le> card (free_blocks ?s)" using cd tk by (simp add: took_def)
  qed (use Suc.prems in auto)
  then obtain ls b' dk' where IH: "length ls = n" "took a ls b' dk' ?s"
    "file_write_alloc [Suc u..<Suc u + n] (bl[u := lba]) a ?s =
      Some (Some (splice (Suc u) ls (bl[u := lba])), grown a (splice (Suc u) ls (?x[u := lba])) b' dk' ?s)"
    by (auto simp del: grown_twice)
  have "took a (lba # ls) b' dk' s" using took_append [OF tk IH(2)] by simp
  then show ?case using IH(1,3) step Suc.prems(4,5) u(1) by (intro exI [of _ "lba # ls"]) (auto simp: splice_Cons)
qed

section \<open>Files as byte sequences\<close>

text \<open>
  A file that fits into its twelve direct blocks.  A file that has never been written has no block; otherwise the code
  keeps \<open>i_size div 512 + 1\<close> blocks, one more than needed when the size is a multiple of the block size.
\<close>

definition n_blocks :: "inode \<Rightarrow> nat" where
  "n_blocks i = (if i_sectors i ! 0 = 0 then 0 else unat (i_size i) div 512 + 1)"

definition file_blocks :: "inode \<Rightarrow> u32 list" where
  "file_blocks i = take (n_blocks i) (i_sectors i)"

definition file_data :: "u32 \<Rightarrow> 'a fs_scheme \<Rightarrow> u8 list" where
  "file_data a s = take (unat (i_size (inodes s a))) (bytes_of (hd0 s) (file_blocks (inodes s a)))"

definition file_ok :: "u32 \<Rightarrow> 'a fs_scheme \<Rightarrow> bool" where
  "file_ok a s \<longleftrightarrow>
     (let i = inodes s a in
      length (i_sectors i) = 13 \<and> (i_sectors i ! 0 = 0 \<longrightarrow> i_size i = 0) \<and> n_blocks i \<le> 12 \<and>
      (\<forall>j < 13. i_sectors i ! j \<noteq> 0 \<longleftrightarrow> j < n_blocks i) \<and>
      distinct (file_blocks i) \<and> (\<forall>l \<in> set (file_blocks i). in_data s l \<and> l \<notin> free_blocks s))"

text \<open>The partition: its layout, its bitmap, and the first data block, which belongs to the root directory.\<close>

definition part_ok :: "'a fs_scheme \<Rightarrow> bool" where
  "part_ok s \<longleftrightarrow> fs_ok s \<and> blocks_ok (cur_part s) \<and> data_start_lba (sb (cur_part s)) \<notin> free_blocks s"

lemma took_part_ok: "took a ls b dk s \<Longrightarrow> part_ok s \<Longrightarrow> part_ok (grown a x b dk s)"
  by (auto simp: took_def part_ok_def)

text \<open>The new blocks become the blocks behind those that the file has.\<close>

lemma took_file_blocks:
  assumes tk: "took a ls b dk s" and ok: "file_ok a s" and fit: "n_blocks (inodes s a) + length ls \<le> 12"
  defines "x \<equiv> splice (n_blocks (inodes s a)) ls (i_sectors (inodes s a))"
  shows "length x = 13" "take (n_blocks (inodes s a) + length ls) x = file_blocks (inodes s a) @ ls"
    "\<And>j. j < 13 \<Longrightarrow> x ! j \<noteq> 0 \<longleftrightarrow> j < n_blocks (inodes s a) + length ls"
    "distinct (file_blocks (inodes s a) @ ls)"
    "\<And>l y. l \<in> set (file_blocks (inodes s a) @ ls) \<Longrightarrow> in_data s l \<and> l \<notin> free_blocks (grown a y b dk s)"
proof -
  let ?u = "n_blocks (inodes s a)" and ?x = "i_sectors (inodes s a)"
  have f: "length ?x = 13" "\<And>j. j < 13 \<Longrightarrow> ?x ! j \<noteq> 0 \<longleftrightarrow> j < ?u" "distinct (file_blocks (inodes s a))"
      "\<And>l. l \<in> set (file_blocks (inodes s a)) \<Longrightarrow> in_data s l \<and> l \<notin> free_blocks s"
    using ok by (auto simp: file_ok_def Let_def)
  have t: "distinct ls" "set ls \<subseteq> free_blocks s" "\<And>l. l \<in> set ls \<Longrightarrow> in_data s l \<and> l \<noteq> 0"
      "\<And>y. free_blocks (grown a y b dk s) = free_blocks s - set ls" using tk by (auto simp: took_def)
  show "length x = 13" using f(1) fit by (simp add: x_def)
  show "take (?u + length ls) x = file_blocks (inodes s a) @ ls" using f(1) fit by (simp add: x_def splice_def file_blocks_def)
  show "x ! j \<noteq> 0 \<longleftrightarrow> j < ?u + length ls" if "j < 13" for j
  proof (cases "?u \<le> j \<and> j < ?u + length ls")
    case True
    then have "ls ! (j - ?u) \<in> set ls" by (intro nth_mem) linarith
    then show ?thesis using True that f(1) fit t(3) by (auto simp: x_def nth_splice)
  qed (use that f(1) fit f(2) [OF that] in \<open>auto simp: x_def nth_splice\<close>)
  show "distinct (file_blocks (inodes s a) @ ls)" using f(3,4) t(1,2) by auto
  show "in_data s l \<and> l \<notin> free_blocks (grown a y b dk s)" if "l \<in> set (file_blocks (inodes s a) @ ls)" for l y
    using that f(4) [of l] t(3) [of l] t(4) by auto
qed

lemma took_file_ok:
  assumes tk: "took a ls b dk s" and ok: "file_ok a s" and fit: "n_blocks (inodes s a) + length ls \<le> 12"
    and t: "cur_part t = (cur_part s)\<lparr>block_bitmap := b\<rparr>"
      "i_sectors (inodes t a) = splice (n_blocks (inodes s a)) ls (i_sectors (inodes s a))"
      "unat (i_size (inodes t a)) div 512 + 1 = n_blocks (inodes s a) + length ls"
  shows "file_ok a t" "n_blocks (inodes t a) = n_blocks (inodes s a) + length ls"
    "file_blocks (inodes t a) = file_blocks (inodes s a) @ ls"
proof -
  note f = took_file_blocks [OF tk ok fit, folded t(2)]
  have "0 < n_blocks (inodes s a) + length ls" unfolding t(3) [symmetric] by simp
  then have nz: "i_sectors (inodes t a) ! 0 \<noteq> 0" using f(3) [of 0] by simp
  then show n: "n_blocks (inodes t a) = n_blocks (inodes s a) + length ls" using t(3) by (simp add: n_blocks_def)
  show b: "file_blocks (inodes t a) = file_blocks (inodes s a) @ ls" using f(2) n by (simp add: file_blocks_def)
  have fr: "free_blocks t = free_blocks (grown a [] b dk s)"
    using block_free_cong [of t "grown a [] b dk s"] t(1) by (auto simp: free_blocks_def)
  have dt: "in_data t l = in_data s l" for l by (simp add: in_data_def t(1))
  show "file_ok a t" unfolding file_ok_def Let_def b n fr dt using nz fit f by blast
qed

lemma file_first_block_ok:
  assumes "part_ok s" "file_ok a s" "n_blocks (inodes s a) = 0 \<Longrightarrow> free_blocks s \<noteq> {}"
  shows "\<exists>ls b dk. took a ls b dk s \<and> n_blocks (inodes s a) + length ls = max 1 (n_blocks (inodes s a)) \<and>
    file_first_block a s = Some (True, grown a (splice (n_blocks (inodes s a)) ls (i_sectors (inodes s a))) b dk s)"
proof (cases "i_sectors (inodes s a) ! 0 = 0")
  case False
  then show ?thesis using assms(1) took_Nil [of s a]
    by (intro exI [of _ "[]"] exI [of _ "block_bitmap (cur_part s)"] exI [of _ "hd0 s"])
      (auto simp: part_ok_def n_blocks_def file_first_block_def grown_id)
next
  case True
  let ?x = "i_sectors (inodes s a)"
  have n: "n_blocks (inodes s a) = 0" using True by (simp add: n_blocks_def)
  have p: "fs_ok s" "blocks_ok (cur_part s)" "data_start_lba (sb (cur_part s)) \<notin> free_blocks s" "length ?x = 13"
    using assms(1,2) by (simp_all add: part_ok_def file_ok_def Let_def)
  from block_took [OF p(1,2) assms(3) [OF n]] obtain lba b dk where
    al: "block_bitmap_alloc s = Some (lba, s\<lparr>cur_part := (cur_part s)\<lparr>block_bitmap := b\<rparr>\<rparr>)"
    and sy: "\<And>t. hd0 t = hd0 s \<Longrightarrow> cur_part t = (cur_part s)\<lparr>block_bitmap := b\<rparr> \<Longrightarrow>
       bitmap_sync (lba - data_start_lba (sb (cur_part s))) BLOCK_BITMAP t = Some ((t :: 'a fs_scheme)\<lparr>hd0 := dk\<rparr>)"
    and m1: "lba \<noteq> -1" and tk: "took a [lba] b dk s" by blast
  have ne: "lba \<noteq> data_start_lba (sb (cur_part s))" using tk p(3) by (auto simp: took_def)
  let ?t = "set_sector a 0 lba (s\<lparr>cur_part := (cur_part s)\<lparr>block_bitmap := b\<rparr>\<rparr>)"
  have "bitmap_sync (lba - data_start_lba (sb (cur_part s))) BLOCK_BITMAP ?t = Some (?t\<lparr>hd0 := dk\<rparr>)"
    by (rule sy) (simp_all add: set_sector_def upd_inode_def)
  moreover have "?t\<lparr>hd0 := dk\<rparr> = grown a (splice 0 [lba] ?x) b dk s"
    using p(4) by (cases ?x) (simp_all add: set_sector_def upd_inode_def grown_def splice_def)
  moreover have "sb (cur_part ?t) = sb (cur_part s)" by (simp add: set_sector_def upd_inode_def)
  ultimately have "file_first_block a s = Some (True, grown a (splice 0 [lba] ?x) b dk s)"
    using True al m1 ne by (simp add: file_first_block_def Let_def)
  then show ?thesis using tk n by (intro exI [of _ "[lba]"]) auto
qed

text \<open>The table that \<open>file_write\<close> collects: the last block in use and the new ones.\<close>

definition collected :: "nat \<Rightarrow> u32 list \<Rightarrow> u32 list \<Rightarrow> u32 list" where
  "collected used sects ls = splice used ls ((replicate 140 0)[used - 1 := sects ! (used - 1)])"

lemma file_write_collect_direct:
  assumes "part_ok s" "file_ok a s" "0 < n_blocks (inodes s a)" "n_blocks (inodes s a) + n \<le> 12" "n \<le> card (free_blocks s)"
  shows "\<exists>ls b dk. length ls = n \<and> took a ls b dk s \<and>
    file_write_collect (n_blocks (inodes s a)) (n_blocks (inodes s a) + n) a s =
      Some (Some (collected (n_blocks (inodes s a)) (i_sectors (inodes s a)) ls),
        grown a (splice (n_blocks (inodes s a)) ls (i_sectors (inodes s a))) b dk s)"
proof (cases "n = 0")
  case True
  then show ?thesis using assms took_Nil [of s a]
    by (intro exI [of _ "[]"] exI [of _ "block_bitmap (cur_part s)"] exI [of _ "hd0 s"])
      (auto simp: part_ok_def file_write_collect_def collected_def grown_id Let_def)
next
  case False
  let ?u = "n_blocks (inodes s a)" and ?x = "i_sectors (inodes s a)"
  have f: "length ?x = 13" "\<And>j. j < 13 \<Longrightarrow> ?x ! j \<noteq> 0 \<longleftrightarrow> j < ?u" using assms(2) by (auto simp: file_ok_def Let_def)
  have z: "?x ! j = 0" if "?u \<le> j" "j < ?u + n" for j using f(2) [of j] that assms(4) by simp
  have "\<exists>ls b dk. length ls = n \<and> took a ls b dk s \<and> file_write_alloc [?u..<?u + n] ((replicate 140 0)[?u - 1 := ?x ! (?u - 1)]) a s =
      Some (Some (splice ?u ls ((replicate 140 0)[?u - 1 := ?x ! (?u - 1)])), grown a (splice ?u ls ?x) b dk s)"
    using assms f(1) z by (intro file_write_alloc_direct) (auto simp: part_ok_def)
  moreover have "?x ! (?u - 1) \<noteq> 0" using f(2) [of "?u - 1"] assms(3,4) by simp
  ultimately show ?thesis using False assms(4) by (simp add: file_write_collect_def collected_def Let_def)
qed

lemma collected_covers:
  assumes "length sects = 13" "used = z div 512 + 1" "used + length ls = (z + n) div 512 + 1" "used + length ls \<le> 12"
    and "\<And>l. l \<in> set (take used sects @ ls) \<Longrightarrow> unat l < 163840"
  shows "covers (collected used sects ls) (take used sects @ ls) z n"
proof -
  have "collected used sects ls ! j = (take used sects @ ls) ! j \<and> unat ((take used sects @ ls) ! j) < 163840"
    if j: "z div 512 \<le> j" "512 * j < z + n" for j
  proof -
    have "j \<le> (z + n) div 512" using j(2) by (metis div_le_mono less_imp_le nonzero_mult_div_cancel_left zero_neq_numeral)
    then have le: "j < used + length ls" using assms(3) by simp
    then have "(take used sects @ ls) ! j \<in> set (take used sects @ ls)" using assms(1,4) by (intro nth_mem) simp
    moreover have "collected used sects ls ! j = (take used sects @ ls) ! j"
      using le j(1) assms(1,2,4) by (cases "j = z div 512") (auto simp: collected_def nth_splice nth_append)
    ultimately show ?thesis using assms(5) by simp
  qed
  moreover have "z + n \<le> 512 * (used + length ls)" unfolding assms(3) using dividend_less_times_div [of 512 "z + n"] by simp
  ultimately show ?thesis using assms(1,4) by (auto simp: covers_def)
qed

section \<open>Writing appends\<close>

lemma mallocs_frame [simp]:
  "free_blocks (s\<lparr>mallocs := r\<rparr>) = free_blocks s" "in_data (s\<lparr>mallocs := r\<rparr>) l = in_data s l"
  "part_ok (s\<lparr>mallocs := r\<rparr>) = part_ok s" "file_ok a (s\<lparr>mallocs := r\<rparr>) = file_ok a s" "file_data a (s\<lparr>mallocs := r\<rparr>) = file_data a s"
  by (simp_all add: free_blocks_def in_data_def part_ok_def file_ok_def file_data_def fs_ok_def block_free_def)

lemma bytes_of_cong: "(\<And>l. l \<in> set bl \<Longrightarrow> dk l = dk' l) \<Longrightarrow> bytes_of dk bl = bytes_of dk' bl"
  by (simp add: bytes_of_def cong: map_cong)

lemma file_ok_facts:
  assumes "file_ok a s"
  shows "length (i_sectors (inodes s a)) = 13" "unat (i_size (inodes s a)) \<le> 512 * n_blocks (inodes s a)"
    "n_blocks (inodes s a) \<le> 12" "length (file_blocks (inodes s a)) = n_blocks (inodes s a)"
    "0 < n_blocks (inodes s a) \<Longrightarrow> n_blocks (inodes s a) = unat (i_size (inodes s a)) div 512 + 1"
    "n_blocks (inodes s a) = 0 \<Longrightarrow> i_size (inodes s a) = 0" "distinct (file_blocks (inodes s a))"
    "l \<in> set (file_blocks (inodes s a)) \<Longrightarrow> in_data s l \<and> l \<notin> free_blocks s"
  using assms dividend_less_times_div [of 512 "unat (i_size (inodes s a))"]
  by (auto simp: file_ok_def Let_def n_blocks_def file_blocks_def split: if_splits)

text \<open>Allocation leaves the contents alone.\<close>

lemma took_data:
  assumes "took a ls b dk s" "file_ok a s" "disk_ok (hd0 s)"
  shows "take (unat (i_size (inodes s a))) (bytes_of dk (file_blocks (inodes s a) @ ls)) = file_data a s"
proof -
  note f = file_ok_facts [OF assms(2)]
  have "dk l = hd0 s l" if "l \<in> set (file_blocks (inodes s a))" for l using f(8) [OF that] assms(1) by (auto simp: took_def)
  then have "bytes_of dk (file_blocks (inodes s a)) = bytes_of (hd0 s) (file_blocks (inodes s a))" by (rule bytes_of_cong)
  moreover have "bytes_of dk (file_blocks (inodes s a) @ ls) = bytes_of dk (file_blocks (inodes s a)) @ bytes_of dk ls"
    by (simp add: bytes_of_def)
  ultimately show ?thesis using f(2,4) assms(3) by (simp add: file_data_def)
qed

text \<open>The first step of a write: a file without blocks gets one.\<close>

lemma first_block_grows:
  assumes "part_ok s" "file_ok a s" "n_blocks (inodes s a) = 0 \<Longrightarrow> 0 < card (free_blocks s)"
  obtains ls b dk where "took a ls b dk s" "length ls = (if n_blocks (inodes s a) = 0 then 1 else 0)"
    "file_first_block a s = Some (True, grown a (splice (n_blocks (inodes s a)) ls (i_sectors (inodes s a))) b dk s)"
    "file_ok a (grown a (splice (n_blocks (inodes s a)) ls (i_sectors (inodes s a))) b dk s)"
    "file_data a (grown a (splice (n_blocks (inodes s a)) ls (i_sectors (inodes s a))) b dk s) = file_data a s"
    "file_blocks (inodes (grown a (splice (n_blocks (inodes s a)) ls (i_sectors (inodes s a))) b dk s) a) = file_blocks (inodes s a) @ ls"
proof -
  note f = file_ok_facts [OF assms(2)]
  obtain ls b dk where tk: "took a ls b dk s" and n: "n_blocks (inodes s a) + length ls = max 1 (n_blocks (inodes s a))"
    and eq: "file_first_block a s = Some (True, grown a (splice (n_blocks (inodes s a)) ls (i_sectors (inodes s a))) b dk s)"
    using file_first_block_ok [OF assms(1,2)] assms(3) by (metis card_eq_0_iff not_gr_zero)
  let ?s = "grown a (splice (n_blocks (inodes s a)) ls (i_sectors (inodes s a))) b dk s"
  have fit: "n_blocks (inodes s a) + length ls \<le> 12" using n f(3) by simp
  have "unat (i_size (inodes ?s a)) div 512 + 1 = n_blocks (inodes s a) + length ls"
    using n f(5,6) by (cases "n_blocks (inodes s a) = 0") simp_all
  note g = took_file_ok [OF tk assms(2) fit _ _ this, simplified]
  have "file_data a ?s = file_data a s"
    using took_data [OF tk assms(2)] assms(1) g(3) by (simp add: file_data_def part_ok_def fs_ok_def)
  moreover have "length ls = (if n_blocks (inodes s a) = 0 then 1 else 0)" using n by (auto simp: max_def split: if_splits)
  ultimately show thesis using that [OF tk _ eq] g by simp
qed

text \<open>The second step: the blocks for the new bytes, and the transfer.\<close>

lemma collect_and_write:
  assumes ok: "part_ok s" "file_ok a s" "0 < n_blocks (inodes s a)" and k: "k < length (file_table s)"
    and fit: "unat (i_size (inodes s a)) + length src < 6144"
    and room: "(unat (i_size (inodes s a)) + length src) div 512 + 1 \<le> n_blocks (inodes s a) + card (free_blocks s)"
  shows "\<exists>ls bl b dk s1 s2. file_write_collect (n_blocks (inodes s a)) ((unat (i_size (inodes s a)) + length src) div 512 + 1) a s = Some (Some bl, s1) \<and>
    file_write_loop True src bl k a (upd_file k f s1) = Some s2 \<and> took a ls b dk s \<and>
    s2 = written k a (length src) (hd0 s2) (upd_file k f (grown a (splice (n_blocks (inodes s a)) ls (i_sectors (inodes s a))) b dk s)) \<and>
    file_ok a s2 \<and> file_data a s2 = file_data a s @ src \<and> part_ok s2 \<and> file_blocks (inodes s2 a) = file_blocks (inodes s a) @ ls \<and>
    (\<forall>l. l \<notin> set (file_blocks (inodes s a) @ ls) \<and> in_data s l \<longrightarrow> hd0 s2 l = hd0 s l)"
proof -
  let ?z = "unat (i_size (inodes s a))" and ?u = "n_blocks (inodes s a)" and ?x = "i_sectors (inodes s a)"
  note f = file_ok_facts [OF ok(2)]
  define n where "n = (?z + length src) div 512 + 1 - ?u"
  have u: "?u = ?z div 512 + 1" using f(5) [OF ok(3)] .
  then have n: "?u + n = (?z + length src) div 512 + 1" using div_le_mono [of ?z "?z + length src" 512] by (simp add: n_def)
  have n12: "?u + n \<le> 12" unfolding n using fit by (simp add: Suc_le_eq less_mult_imp_div_less)
  obtain ls b dk where ls: "length ls = n" and tk: "took a ls b dk s"
    and col: "file_write_collect ?u (?u + n) a s = Some (Some (collected ?u ?x ls), grown a (splice ?u ls ?x) b dk s)"
    using file_write_collect_direct [OF ok n12] room n by auto
  let ?s1 = "upd_file k f (grown a (splice ?u ls ?x) b dk s)" and ?fb = "file_blocks (inodes s a) @ ls"
  have fit': "?u + length ls \<le> 12" using ls n12 by simp
  note fb = took_file_blocks [OF tk ok(2) fit']
  have fx: "?fb = take ?u ?x @ ls" by (simp add: file_blocks_def)
  have small: "unat l < 163840" if "l \<in> set ?fb" for l using fb(5) [OF that] by (simp add: in_data_def)
  then have cov: "covers (collected ?u ?x ls) ?fb ?z (length src)"
    unfolding fx using f(1) u n n12 ls by (intro collected_covers) auto
  have dok: "disk_ok (hd0 s)" "disk_ok dk" using ok(1) tk by (auto simp: part_ok_def fs_ok_def took_def)
  have lf: "length ?fb = (?z + length src) div 512 + 1" using f(4) ls n by simp
  have inj: "i = j" if "512 * i < ?z + length src" "512 * j < ?z + length src" "?fb ! i = ?fb ! j" for i j
  proof -
    have "i < length ?fb" "j < length ?fb" unfolding lf using that(1,2) by (simp_all add: less_Suc_eq_le less_eq_div_iff_mult_less_eq)
    then show ?thesis using that(3) fb(4) nth_eq_iff_index_eq by blast
  qed
  obtain dk' where w: "file_write_loop True src (collected ?u ?x ls) k a ?s1 = Some (written k a (length src) dk' ?s1)" "disk_ok dk'"
      "take (?z + length src) (bytes_of dk' ?fb) = take ?z (bytes_of dk ?fb) @ src" "\<And>l. l \<notin> set ?fb \<Longrightarrow> dk' l = dk l"
    using file_write_loop_appends [of ?s1 k "collected ?u ?x ls" ?fb a src True] dok k cov inj by auto
  let ?s2 = "written k a (length src) dk' ?s1"
  have z': "unat (i_size (inodes ?s2 a)) = ?z + length src" using fit by (simp add: unat_plus_small unat_of_nat)
  have sz: "unat (i_size (inodes ?s2 a)) div 512 + 1 = ?u + length ls" unfolding z' using n ls by simp
  have g: "file_ok a ?s2" "file_blocks (inodes ?s2 a) = ?fb"
    by (rule took_file_ok [OF tk ok(2) fit' _ _ sz]; simp)+
  have "file_data a ?s2 = file_data a s @ src"
    unfolding file_data_def [of a ?s2] z' g(2) using w(3) took_data [OF tk ok(2) dok(1)] by simp
  moreover have "part_ok ?s2"
    using took_part_ok [OF tk ok(1), of "[]"] w(2) by (simp add: part_ok_def fs_ok_def free_blocks_def block_free_def)
  moreover have "dk' l = hd0 s l" if "l \<notin> set ?fb" "in_data s l" for l using w(4) [OF that(1)] tk that(2) by (simp add: took_def)
  ultimately show ?thesis using col [unfolded n] w(1) tk g
    by (intro exI [of _ ls] exI [of _ "collected ?u ?x ls"] exI [of _ b] exI [of _ dk] exI [of _ "grown a (splice ?u ls ?x) b dk s"] exI [of _ ?s2])
      simp
qed

lemma unat_blocks [simp]: "unat ((x :: u32) div 512 + 1) = unat x div 512 + 1"
proof -
  have "unat x div 512 < 8388608" using unat_less_pow [of x] by (intro less_mult_imp_div_less) simp
  then show ?thesis using unat_plus_small [of "x div 512" 1] by simp
qed

text \<open>Writing the inode back changes its slot of the inode table and no data block.\<close>

lemma inode_sync_data:
  assumes ok: "part_ok s" "file_ok a s"
  shows "\<exists>dk. inode_sync (inodes s a) s = Some (s\<lparr>hd0 := dk\<rparr>) \<and> (\<forall>l. in_data s l \<longrightarrow> dk l = hd0 s l) \<and>
    part_ok (s\<lparr>hd0 := dk\<rparr>) \<and> file_ok a (s\<lparr>hd0 := dk\<rparr>) \<and> file_data a (s\<lparr>hd0 := dk\<rparr>) = file_data a s \<and>
    disk_inode (s\<lparr>hd0 := dk\<rparr>) (unat (i_no (inodes s a)) mod 256) = (inodes s a)\<lparr>i_open_cnts := 0, write_deny := False\<rparr>"
proof -
  have fs: "fs_ok s" using ok(1) by (simp add: part_ok_def)
  obtain dk where dk: "inode_sync (inodes s a) s = Some (s\<lparr>hd0 := dk\<rparr>)" "disk_ok dk"
    "disk_inode (s\<lparr>hd0 := dk\<rparr>) (unat (i_no (inodes s a)) mod 256) = (inodes s a)\<lparr>i_open_cnts := 0, write_deny := False\<rparr>"
    "\<And>l. 608 \<le> unat (l - inode_table_lba (sb (cur_part s))) \<Longrightarrow> dk l = hd0 s l"
    by (rule inode_sync_slot [OF fs file_ok_facts(1) [OF ok(2)]]) blast
  have same: "dk l = hd0 s l" if "in_data s l" for l
  proof (rule dk(4))
    have "unat (inode_table_lba (sb (cur_part s))) + 608 \<le> unat l"
      using that fs by (simp add: in_data_def fs_ok_def layout_ok_def Let_def)
    then show "608 \<le> unat (l - inode_table_lba (sb (cur_part s)))" by (simp add: unat_minus_small)
  qed
  have "bytes_of dk (file_blocks (inodes s a)) = bytes_of (hd0 s) (file_blocks (inodes s a))"
    using same file_ok_facts(8) [OF ok(2)] by (intro bytes_of_cong) blast
  moreover have "part_ok (s\<lparr>hd0 := dk\<rparr>)" "file_ok a (s\<lparr>hd0 := dk\<rparr>)"
    using ok dk(2) by (simp_all add: part_ok_def fs_ok_def free_blocks_def block_free_def file_ok_def in_data_def)
  ultimately show ?thesis using dk(1,3) same by (auto simp: file_data_def)
qed

lemma file_write_effect:
  assumes ok: "part_ok s" "file_ok a s" and k: "k < length (file_table s)" "fd_inode (file_table s ! k) = a"
    and mem: "mallocs s = p # q # r" "p \<noteq> 0" "q \<noteq> 0" and len: "length src = unat count"
    and fit: "unat (i_size (inodes s a)) + unat count < 6144"
    and room: "(unat (i_size (inodes s a)) + unat count) div 512 + 1 \<le> n_blocks (inodes s a) + card (free_blocks s)"
  obtains s' where "file_write k src count s = Some (count, s')" "part_ok s'" "file_ok a s'"
    "file_data a s' = file_data a s @ src" "mallocs s' = r" "i_size (inodes s' a) = i_size (inodes s a) + count"
    "file_table s' = (file_table s)[k := (file_table s ! k)\<lparr>fd_pos := i_size (inodes s' a) - 1\<rparr>]"
    "\<And>l. in_data s l \<Longrightarrow> l \<notin> free_blocks s \<Longrightarrow> l \<notin> set (file_blocks (inodes s a)) \<Longrightarrow> hd0 s' l = hd0 s l"
    "\<And>x. x \<noteq> a \<Longrightarrow> inodes s' x = inodes s x" "tasks s' = tasks s" "esp s' = esp s"
    "disk_inode s' (unat (i_no (inodes s a)) mod 256) = (inodes s' a)\<lparr>i_open_cnts := 0, write_deny := False\<rparr>"
    "\<And>l. in_data s' l = in_data s l" "free_blocks s' \<subseteq> free_blocks s"
    "set (file_blocks (inodes s' a)) \<subseteq> set (file_blocks (inodes s a)) \<union> free_blocks s"
proof -
  let ?sz = "i_size (inodes s a)" and ?n = "n_blocks (inodes s a)" and ?f = "\<lambda>f. f\<lparr>fd_pos := i_size (inodes s a) - 1\<rparr>"
  define s0 where "s0 = s\<lparr>mallocs := r\<rparr>"
  have i0: "inodes s0 = inodes s" "free_blocks s0 = free_blocks s" "file_data a s0 = file_data a s" "hd0 s0 = hd0 s"
    "file_table s0 = file_table s" "\<And>l. in_data s0 l = in_data s l" "mallocs s0 = r" "tasks s0 = tasks s" "esp s0 = esp s"
    "part_ok s0" "file_ok a s0" using ok by (simp_all add: s0_def)
  note f0 = file_ok_facts [OF i0(11)]
  have pos: "0 < card (free_blocks s0)" if "n_blocks (inodes s0 a) = 0" using that room i0 by simp
  obtain ls1 b1 dk1 where t1: "took a ls1 b1 dk1 s0" "length ls1 = (if ?n = 0 then 1 else 0)"
      and first: "file_first_block a s0 = Some (True, grown a (splice ?n ls1 (i_sectors (inodes s a))) b1 dk1 s0)"
      and ok1: "file_ok a (grown a (splice ?n ls1 (i_sectors (inodes s a))) b1 dk1 s0)"
        "file_data a (grown a (splice ?n ls1 (i_sectors (inodes s a))) b1 dk1 s0) = file_data a s"
        "file_blocks (inodes (grown a (splice ?n ls1 (i_sectors (inodes s a))) b1 dk1 s0) a) = file_blocks (inodes s a) @ ls1"
    using first_block_grows [OF i0(10,11) pos] by (auto simp: i0)
  define s1 where "s1 = grown a (splice ?n ls1 (i_sectors (inodes s a))) b1 dk1 s0"
  note first = first [folded s1_def] and ok1 = ok1 [folded s1_def]
  have i1: "file_table s1 = file_table s" "mallocs s1 = r" "i_size (inodes s1 a) = ?sz" "i_no (inodes s1 a) = i_no (inodes s a)"
      "\<And>x. x \<noteq> a \<Longrightarrow> inodes s1 x = inodes s x" "hd0 s1 = dk1" "tasks s1 = tasks s" "esp s1 = esp s" "\<And>l. in_data s1 l = in_data s l"
    by (simp_all add: s1_def i0) (simp_all add: grown_def i0)
  have p1: "part_ok s1" unfolding s1_def by (rule took_part_ok [OF t1(1) i0(10)])
  note f1 = file_ok_facts [OF ok1(1)]
  have n1: "n_blocks (inodes s1 a) = max 1 ?n" using f1(4) ok1(3) t1(2) f0(4) by (auto simp: i0 max_def split: if_splits)
  have fr1: "free_blocks s1 = free_blocks s - set ls1" "set ls1 \<subseteq> free_blocks s" "distinct ls1" using t1(1) by (simp_all add: took_def s1_def i0)
  then have card1: "card (free_blocks s1) + length ls1 = card (free_blocks s)"
    by (simp add: card_Diff_subset distinct_card card_mono le_add_diff_inverse2 flip: distinct_card)
  have pre: "0 < n_blocks (inodes s1 a)" "k < length (file_table s1)" "unat (i_size (inodes s1 a)) + length src < 6144"
      "(unat (i_size (inodes s1 a)) + length src) div 512 + 1 \<le> n_blocks (inodes s1 a) + card (free_blocks s1)"
    using k(1) fit room n1 card1 t1(2) len by (auto simp: i1 split: if_splits)
  obtain ls bl b dk s2 s3 where c: "file_write_collect (n_blocks (inodes s1 a)) ((unat ?sz + length src) div 512 + 1) a s1 = Some (Some bl, s2)"
      "file_write_loop True src bl k a (upd_file k ?f s2) = Some s3" and t2: "took a ls b dk s1"
      and s3: "s3 = written k a (length src) (hd0 s3) (upd_file k ?f (grown a (splice (n_blocks (inodes s1 a)) ls (i_sectors (inodes s1 a))) b dk s1))"
      and ok3: "file_ok a s3" "file_data a s3 = file_data a s1 @ src" "part_ok s3" "file_blocks (inodes s3 a) = file_blocks (inodes s1 a) @ ls"
      and fr3: "\<And>l. l \<notin> set (file_blocks (inodes s1 a) @ ls) \<Longrightarrow> in_data s1 l \<Longrightarrow> hd0 s3 l = hd0 s1 l"
    using collect_and_write [OF p1 ok1(1) pre, of ?f] unfolding i1(3) by blast
  obtain dk4 where sy: "inode_sync (inodes s3 a) s3 = Some (s3\<lparr>hd0 := dk4\<rparr>)" "\<And>l. in_data s3 l \<Longrightarrow> dk4 l = hd0 s3 l"
      "part_ok (s3\<lparr>hd0 := dk4\<rparr>)" "file_ok a (s3\<lparr>hd0 := dk4\<rparr>)" "file_data a (s3\<lparr>hd0 := dk4\<rparr>) = file_data a s3"
      "disk_inode (s3\<lparr>hd0 := dk4\<rparr>) (unat (i_no (inodes s3 a)) mod 256) = (inodes s3 a)\<lparr>i_open_cnts := 0, write_deny := False\<rparr>"
    using inode_sync_data [OF ok3(3,1)] by blast
  let ?t = "s3\<lparr>hd0 := dk4\<rparr>"
  have i3: "tasks s3 = tasks s" "esp s3 = esp s" "mallocs s3 = r" "i_size (inodes s3 a) = ?sz + count" "i_no (inodes s3 a) = i_no (inodes s a)"
      "\<And>x. x \<noteq> a \<Longrightarrow> inodes s3 x = inodes s x" "\<And>l. in_data s3 l = in_data s l"
      "file_table s3 = (file_table s)[k := (file_table s ! k)\<lparr>fd_pos := ?sz + count - 1\<rparr>]"
    by (subst s3, simp add: i1 k(1) len written_def upd_file_def upd_inode_def grown_def in_data_def s1_def s0_def; simp add: algebra_simps)+
  have word: "\<not> ?sz + count > 512 * 140" "unat (?sz div 512 + 1) = n_blocks (inodes s1 a)"
      "unat ((?sz + count) div 512 + 1) = (unat ?sz + length src) div 512 + 1" "(unat ?sz + length src) div 512 + 1 \<le> 140"
    using fit f1(5) [OF pre(1)] len unat_plus_small [of ?sz count] by (simp_all add: word_less_nat_alt i1)
  have wr: "file_write k src count s = Some (count, ?t)"
    using mem k(2) word first c sy(1) len i1(3)
    by (simp add: file_write_def fs_malloc_def Let_def s0_def [symmetric] fs_free_def i0)
  have out: "hd0 ?t l = hd0 s l" if "in_data s l" "l \<notin> free_blocks s" "l \<notin> set (file_blocks (inodes s a))" for l
  proof -
    have "l \<notin> set (file_blocks (inodes s1 a) @ ls)" using that fr1(1,2) t2 ok1(3) by (auto simp: took_def)
    then show ?thesis using fr3 sy(2) that(1) t1(1) by (simp add: i1 i3 took_def i0)
  qed
  have in_t: "in_data ?t l = in_data s l" for l using i3(7) by (simp add: in_data_def)
  have "free_blocks s3 = free_blocks (grown a [] b dk s1)"
    by (subst s3, simp add: written_def upd_file_def upd_inode_def grown_def free_blocks_def block_free_def)
  then have fr: "free_blocks ?t \<subseteq> free_blocks s" using t2 fr1(1) by (auto simp: took_def free_blocks_def block_free_def)
  have "set ls \<subseteq> free_blocks s" using t2 fr1(1) by (auto simp: took_def)
  then have bl: "set (file_blocks (inodes ?t a)) \<subseteq> set (file_blocks (inodes s a)) \<union> free_blocks s" using ok3(4) ok1(3) fr1(2) by auto
  show thesis
    using that [OF wr sy(3,4)] sy(5,6) ok3(2) ok1(2) i3 out in_t fr bl by simp
qed

section \<open>Reading returns a slice\<close>

lemma length_copy_sectors [simp]: "length (copy_sectors i j sects bl) = length bl"
  by (induction j) (auto simp: copy_sectors_def)

lemma nth_copy_sectors:
  "i \<le> j \<Longrightarrow> m < length bl \<Longrightarrow> copy_sectors i j sects bl ! m = (if i \<le> m \<and> m < j then sects ! m else bl ! m)"
proof (induction j)
  case (Suc j)
  show ?case
  proof (cases "i = Suc j")
    case False
    then have "copy_sectors i (Suc j) sects bl = (copy_sectors i j sects bl)[j := sects ! j]"
      using Suc.prems(1) by (simp add: copy_sectors_def)
    then show ?thesis using Suc False by (cases "m = j") auto
  qed (auto simp: copy_sectors_def)
qed (simp add: copy_sectors_def)

lemma file_read_collect_covers:
  assumes "file_ok a s" "p + n \<le> unat (i_size (inodes s a))"
  shows "\<exists>bl. file_read_collect (p div 512) ((p + n) div 512) (i_sectors (inodes s a)) s = Some bl \<and>
    covers bl (file_blocks (inodes s a)) p n"
proof -
  let ?x = "i_sectors (inodes s a)"
  note f = file_ok_facts [OF assms(1)]
  have le: "p div 512 \<le> (p + n) div 512" by (rule div_le_mono) simp
  define bl where "bl = (if p div 512 = (p + n) div 512 then (replicate 140 0)[(p + n) div 512 := ?x ! ((p + n) div 512)]
    else copy_sectors (p div 512) ((p + n) div 512 + 1) ?x (replicate 140 0))"
  have e: "(p + n) div 512 < 12"
  proof (cases "n_blocks (inodes s a) = 0")
    case False
    then have "unat (i_size (inodes s a)) div 512 < 12" using f(3,5) by simp
    then show ?thesis using div_le_mono [OF assms(2), of 512] by linarith
  qed (use assms(2) f(2) in simp)
  have "bl ! j = file_blocks (inodes s a) ! j \<and> unat (file_blocks (inodes s a) ! j) < 163840"
    if j: "p div 512 \<le> j" "512 * j < p + n" for j
  proof -
    have jn: "j < n_blocks (inodes s a)" using j(2) assms(2) f(2) by linarith
    have "j \<le> (p + n) div 512" using j(2) by (simp add: less_eq_div_iff_mult_less_eq)
    then have "bl ! j = ?x ! j" using j(1) e by (auto simp: bl_def nth_copy_sectors nth_list_update)
    moreover have "file_blocks (inodes s a) ! j = ?x ! j" using jn by (simp add: file_blocks_def)
    moreover have "file_blocks (inodes s a) ! j \<in> set (file_blocks (inodes s a))" using jn f(4) by (intro nth_mem) simp
    ultimately show ?thesis using f(8) [of "file_blocks (inodes s a) ! j"] by (simp add: in_data_def)
  qed
  then have "covers bl (file_blocks (inodes s a)) p n" using assms(2) f(2,3,4) by (auto simp: covers_def)
  moreover have "file_read_collect (p div 512) ((p + n) div 512) ?x s = Some bl"
    using e by (simp add: file_read_collect_def bl_def Let_def)
  ultimately show ?thesis by blast
qed

lemma file_read_effect:
  assumes ok: "part_ok s" "file_ok a s" and k: "k < length (file_table s)" "fd_inode (file_table s ! k) = a"
    and mem: "mallocs s = p # q # r" "p \<noteq> 0" "q \<noteq> 0"
    and pos: "unat (fd_pos (file_table s ! k)) = m" "m \<le> unat (i_size (inodes s a))" and c: "0 < unat count" "m + unat count < 4294967296"
  defines "n \<equiv> min (unat count) (unat (i_size (inodes s a)) - m)"
  shows "file_read k count s = (if n = 0 then Some (-1, [], s)
     else Some (of_nat n, take n (drop m (file_data a s)), upd_file k (\<lambda>f. f\<lparr>fd_pos := fd_pos f + of_nat n\<rparr>) (s\<lparr>mallocs := r\<rparr>)))"
proof -
  let ?i = "inodes s a" and ?p = "fd_pos (file_table s ! k)"
  note f = file_ok_facts [OF ok(2)]
  have pc: "?p + count > i_size ?i \<longleftrightarrow> unat (i_size ?i) < m + unat count"
    using c(2) pos(1) by (simp add: word_less_nat_alt unat_plus_small)
  have sub: "unat (i_size ?i - ?p) = unat (i_size ?i) - m" using pos by (simp add: unat_minus_small)
  define sz where "sz = (if ?p + count > i_size ?i then i_size ?i - ?p else count)"
  have sz: "unat sz = n" using sub pc by (auto simp: sz_def n_def)
  then have sz': "sz = of_nat n" by (metis of_nat_unat_u32)
  show ?thesis
  proof (cases "n = 0")
    case True
    then have "unat (i_size ?i) = m" using c(1) pos(2) by (auto simp: n_def)
    then have "?p + count > i_size ?i" "sz = 0" using True c(1) pc sz' by simp_all
    then show ?thesis using True k(2) by (simp add: file_read_def Let_def sz_def)
  next
    case False
    define s0 where "s0 = s\<lparr>mallocs := r\<rparr>"
    have s0: "file_ok a s0" "hd0 s0 = hd0 s" "inodes s0 = inodes s" "file_table s0 = file_table s" using ok by (simp_all add: s0_def)
    have mn: "m + n \<le> unat (i_size ?i)" using pos(2) by (simp add: n_def)
    have dok: "disk_ok (hd0 s0)" using ok(1) by (simp add: s0_def part_ok_def fs_ok_def)
    obtain bl where bl: "file_read_collect (m div 512) ((m + n) div 512) (i_sectors ?i) s0 = Some bl" "covers bl (file_blocks ?i) m n"
      using file_read_collect_covers [OF s0(1)] mn s0(3) by metis
    have "file_read_loop n bl k s0 = Some (take n (drop m (bytes_of (hd0 s) (file_blocks ?i))),
        upd_file k (\<lambda>f. f\<lparr>fd_pos := fd_pos f + of_nat n\<rparr>) s0)"
      using file_read_loop_slice [OF dok, of k bl "file_blocks ?i" n] k(1) bl(2) pos(1) s0 by simp
    moreover have "take n (drop m (bytes_of (hd0 s) (file_blocks ?i))) = take n (drop m (file_data a s))"
      using mn by (simp add: file_data_def drop_take min_def)
    moreover have "unat (?p + sz) = m + n" using sz pos(1) c(2) by (subst unat_plus_small) (simp_all add: n_def)
    moreover have "m div 512 < 139" "(m + n) div 512 < 139" using mn f(2,3) by (simp_all add: less_mult_imp_div_less)
    moreover have "sz \<noteq> 0" using sz False by auto
    ultimately show ?thesis
      using False bl(1) mem k(2) sz sz' pos(1)
      by (simp add: file_read_def fs_malloc_def Let_def sz_def [symmetric] s0_def [symmetric] NONNULL_def fs_free_def s0)
  qed
qed

section \<open>Through the descriptor\<close>

text \<open>The descriptor \<open>fd\<close> of the running task leads to entry \<open>k\<close> of the file table, an open file with inode \<open>a\<close>.\<close>

definition fd_file :: "u32 \<Rightarrow> nat \<Rightarrow> u32 \<Rightarrow> 'a fs_scheme \<Rightarrow> bool" where
  "fd_file fd k a s \<longleftrightarrow> 3 \<le> unat fd \<and> unat fd < 8 \<and> unat (fd_table (tasks s (running_thread s)) ! unat fd) = k \<and> k < 32 \<and>
     length (file_table s) = 32 \<and> fd_inode (file_table s ! k) = a \<and> a \<noteq> 0 \<and> fd_flag (file_table s ! k) \<noteq> PIPE_FLAG"

definition writable :: "nat \<Rightarrow> 'a fs_scheme \<Rightarrow> bool" where
  "writable k s \<longleftrightarrow> fd_flag (file_table s ! k) AND O_WRONLY \<noteq> 0 \<or> fd_flag (file_table s ! k) AND O_RDWR \<noteq> 0"

lemma fd_file_resolves:
  assumes "fd_file fd k a s"
  shows "fd_local2global fd s = Some k" "is_pipe fd s = Some False" "\<not> sint fd < 0" "fd \<noteq> 0" "fd \<noteq> 1" "fd \<noteq> 2" "k < length (file_table s)"
  using assms sint_small [of fd]
  by (auto simp: fd_file_def fd_local2global_def is_pipe_def MAX_FILES_OPEN_PER_PROC_def MAX_FILE_OPEN_def Let_def)

lemma sys_write_file:
  "fd_file fd k a s \<Longrightarrow> writable k s \<Longrightarrow> sys_write fd src count s = do { (n, s) \<leftarrow> file_write k src count s; Some (Inr (n, s)) }"
  using fd_file_resolves [of fd k a s] by (auto simp: sys_write_def NONNULL_def fd_file_def writable_def)

lemma sys_read_file:
  "fd_file fd k a s \<Longrightarrow> bf \<noteq> 0 \<Longrightarrow> sys_read fd bf count s = map_option Inr (file_read k count s)"
  using fd_file_resolves [of fd k a s] by (auto simp: sys_read_def NONNULL_def fd_file_def map_option_case split: option.split)

lemma sys_lseek_file:
  assumes "fd_file fd k a s" "unat offset < unat (i_size (inodes s a))" "unat (i_size (inodes s a)) < 2147483648"
  shows "sys_lseek fd offset SEEK_SET s = Some (offset, upd_file k (\<lambda>f. f\<lparr>fd_pos := offset\<rparr>) s)"
proof -
  have u: "unat (i_size (inodes s a) - 1) = unat (i_size (inodes s a)) - 1" using assms(2) by (subst unat_minus_small) simp_all
  have "sint offset = int (unat offset)" "sint (i_size (inodes s a) - 1) = int (unat (i_size (inodes s a)) - 1)"
    using assms(2,3) u sint_small [of offset] sint_small [of "i_size (inodes s a) - 1"] by auto
  then have "\<not> (sint offset < 0 \<or> sint offset > sint (i_size (inodes s a) - 1))" using assms(2) by linarith
  then show ?thesis using fd_file_resolves [OF assms(1)] assms(1)
    by (simp add: sys_lseek_def SEEK_SET_def NONNULL_def fd_file_def Let_def)
qed

lemma fd_file_step:
  assumes "fd_file fd k a s" "tasks s' = tasks s" "esp s' = esp s" "file_table s' = (file_table s)[k := (file_table s ! k)\<lparr>fd_pos := x\<rparr>]"
  shows "fd_file fd k a s'"
  using assms by (auto simp: fd_file_def running_thread_def)

text \<open>An example: descriptor 3 of the running task is a file that has just been created.\<close>

definition demo_file_fs :: fs where
  "demo_file_fs = demo_fs\<lparr>file_table := (replicate 32 \<lparr>fd_pos = 0, fd_flag = 0, fd_inode = 0\<rparr>)[3 := \<lparr>fd_pos = 0, fd_flag = 2, fd_inode = 0xc0107000\<rparr>],
     tasks := (\<lambda>t. (demo_task t TASK_RUNNING)\<lparr>fd_table := [0, 1, 2, 3, -1, -1, -1, -1]\<rparr>)\<rparr>"

lemma demo_file_fs_fields [simp]:
  "cur_part demo_file_fs = demo_part" "inodes demo_file_fs = (\<lambda>_. demo_inode 0)" "hd0 demo_file_fs = (\<lambda>_. replicate 512 0)"
  "mallocs demo_file_fs = [0xc0103000, 0xc0104000, 0xc0105000, 0xc0106000]"
  "file_table demo_file_fs = (replicate 32 \<lparr>fd_pos = 0, fd_flag = 0, fd_inode = 0\<rparr>)[3 := \<lparr>fd_pos = 0, fd_flag = 2, fd_inode = 0xc0107000\<rparr>]"
  "fd_table (tasks demo_file_fs t) = [0, 1, 2, 3, -1, -1, -1, -1]"
  by (simp_all add: demo_file_fs_def)

lemma demo_file_fs_ok:
  "part_ok demo_file_fs" "file_ok a demo_file_fs" "fd_file 3 3 0xc0107000 demo_file_fs" "writable 3 demo_file_fs"
  "0 < card (free_blocks demo_file_fs)"
proof -
  have fr: "block_free demo_file_fs l = block_free demo_dir_fs l" for l by (simp add: block_free_def)
  have "\<not> block_free demo_dir_fs 2660" using demo_dir_fs_ok(4) [of 0] by (auto simp: dir_ok_def Let_def dest: spec [of _ 0])
  then show "part_ok demo_file_fs" using demo_fs_ok demo_dir_fs_ok(2) fr
    by (simp add: part_ok_def fs_ok_def free_blocks_def) (simp add: demo_part_def demo_sb_def)
  show "file_ok a demo_file_fs" by (simp add: file_ok_def n_blocks_def file_blocks_def demo_inode_def)
  show "fd_file 3 3 0xc0107000 demo_file_fs" "writable 3 demo_file_fs"
    by (simp_all add: fd_file_def writable_def PIPE_FLAG_def O_WRONLY_def O_RDWR_def)
  have "2661 \<in> free_blocks demo_file_fs" using demo_dir_fs_ok(3) fr by (simp add: free_blocks_def)
  then show "0 < card (free_blocks demo_file_fs)" by (auto simp: card_gt_0_iff)
qed

section \<open>Properties\<close>




end
