(* ===== verification/FileInv.thy ===== *)
theory FileInv
  imports FileData
begin

text \<open>
  Several open files under a sequence of system calls: the files keep their own blocks, and each is the log of
  what has been written to it.  The abstract specification is a map from files to byte sequences with
  an append operation; the calls of fs/fs.c refine it.
\<close>

section \<open>Specification\<close>

datatype file_event = Appended u32 "u8 list" | Quiet

fun apply_event :: "file_event \<Rightarrow> (u32 \<Rightarrow> u8 list) \<Rightarrow> u32 \<Rightarrow> u8 list" where
  "apply_event (Appended a bs) f = f(a := f a @ bs)"
| "apply_event Quiet f = f"

fun log_of :: "u32 \<Rightarrow> file_event list \<Rightarrow> u8 list" where
  "log_of a [] = []"
| "log_of a (Appended b bs # evs) = (if b = a then bs else []) @ log_of a evs"
| "log_of a (Quiet # evs) = log_of a evs"

lemma fold_apply_event: "fold apply_event evs f a = f a @ log_of a evs"
proof (induction evs arbitrary: f)
  case (Cons e evs)
  then show ?case by (cases e) auto
qed simp

section \<open>The files and their blocks\<close>

text \<open>The regular files with inodes in \<open>A\<close>: each is well formed and no two share a block.\<close>

definition files_ok :: "u32 set \<Rightarrow> 'a fs_scheme \<Rightarrow> bool" where
  "files_ok A s \<longleftrightarrow> part_ok s \<and> (\<forall>a \<in> A. file_ok a s) \<and>
     (\<forall>a \<in> A. \<forall>b \<in> A. a \<noteq> b \<longrightarrow> set (file_blocks (inodes s a)) \<inter> set (file_blocks (inodes s b)) = {})"

definition same_files :: "'a fs_scheme \<Rightarrow> 'a fs_scheme \<Rightarrow> bool" where
  "same_files s s' \<longleftrightarrow> hd0 s' = hd0 s \<and> inodes s' = inodes s \<and> cur_part s' = cur_part s"

lemma same_files_ok: "same_files s s' \<Longrightarrow> files_ok A s' = files_ok A s" and same_files_data: "same_files s s' \<Longrightarrow> file_data a s' = file_data a s"
  by (simp_all add: same_files_def files_ok_def part_ok_def file_ok_def file_data_def fs_ok_def free_blocks_def block_free_def in_data_def)

lemma same_files_trans: "same_files s t \<Longrightarrow> same_files t u \<Longrightarrow> same_files s u" and same_files_refl [simp]: "same_files s s"
  by (simp_all add: same_files_def)

text \<open>Reading and seeking change positions only.\<close>

lemma file_read_loop_same: "file_read_loop n bl k s = Some (bs, s') \<Longrightarrow> same_files s s'"
proof (induction n bl k s arbitrary: bs s' rule: file_read_loop.induct)
  case (1 n bl k s)
  show ?case
  proof (cases "n = 0")
    case False
    define c where "c = min n (512 - unat (fd_pos (file_table s ! k) mod 512))"
    let ?s = "upd_file k (\<lambda>f. f\<lparr>fd_pos := fd_pos f + of_nat c\<rparr>) s"
    from 1(2) False obtain io rest where io: "hd_read (bl ! unat (fd_pos (file_table s ! k) div 512)) 1 s = Some io"
      and r: "file_read_loop (n - c) bl k ?s = Some (rest, s')"
      by (subst (asm) file_read_loop.simps) (auto simp: Let_def c_def bind_eq_Some_conv split: prod.splits)
    have "same_files ?s s'" using 1(1) [OF False refl refl refl refl io, of ?s] r by (simp add: c_def)
    then show ?thesis by (rule same_files_trans [rotated]) (simp add: same_files_def)
  qed (use 1(2) in \<open>simp add: file_read_loop.simps\<close>)
qed

lemma fs_malloc_same: "fs_malloc s = (p, s') \<Longrightarrow> same_files s s'"
  by (auto simp: fs_malloc_def same_files_def split: list.splits)

lemma file_read_same:
  assumes "file_read k count s = Some (n, bs, s')"
  shows "same_files s s'"
proof -
  obtain p s1 q s2 where m: "fs_malloc s = (p, s1)" "fs_malloc s1 = (q, s2)" by (metis surj_pair)
  have "same_files s s2" using fs_malloc_same [OF m(1)] fs_malloc_same [OF m(2)] by (rule same_files_trans)
  moreover have "s' = s \<or> s' = s2 \<or> (\<exists>n bl bs. file_read_loop n bl k s2 = Some (bs, s'))"
    using assms m by (auto simp: file_read_def Let_def bind_eq_Some_conv split: if_splits prod.splits)
  ultimately show ?thesis using file_read_loop_same same_files_trans same_files_refl by metis
qed


section \<open>System calls as steps\<close>

text \<open>
  The calls of any task on the files in \<open>A\<close>, while the file stays within its direct blocks, the partition has free blocks and the heap
  does not run out; between them the rest of the kernel may change everything but disk, inodes and partition.
\<close>

definition can_append :: "u32 \<Rightarrow> u32 \<Rightarrow> 'a fs_scheme \<Rightarrow> bool" where
  "can_append a count s \<longleftrightarrow> unat (i_size (inodes s a)) + unat count < 6144 \<and>
     (unat (i_size (inodes s a)) + unat count) div 512 + 1 \<le> n_blocks (inodes s a) + card (free_blocks s) \<and>
     2 \<le> length (mallocs s) \<and> 0 \<notin> set (take 2 (mallocs s))"

inductive file_step :: "u32 set \<Rightarrow> 'a fs_scheme \<Rightarrow> file_event \<Rightarrow> 'a fs_scheme \<Rightarrow> bool" for A where
  call_write: "a \<in> A \<Longrightarrow> fd_file fd k a s \<Longrightarrow> writable k s \<Longrightarrow> length src = unat count \<Longrightarrow> can_append a count s \<Longrightarrow>
     sys_write fd src count s = Some (Inr (n, s')) \<Longrightarrow> file_step A s (Appended a src) s'"
| call_read: "fd_file fd k a s \<Longrightarrow> bf \<noteq> 0 \<Longrightarrow> sys_read fd bf count s = Some (Inr (n, bs, s')) \<Longrightarrow> file_step A s Quiet s'"
| call_lseek: "sys_lseek fd offset whence s = Some (n, s') \<Longrightarrow> file_step A s Quiet s'"
| elsewhere: "same_files s s' \<Longrightarrow> file_step A s Quiet s'"

inductive file_run :: "u32 set \<Rightarrow> 'a fs_scheme \<Rightarrow> file_event list \<Rightarrow> 'a fs_scheme \<Rightarrow> bool" for A where
  start: "file_run A s [] s"
| step: "file_run A s evs t \<Longrightarrow> file_step A t e u \<Longrightarrow> file_run A s (evs @ [e]) u"

inductive_cases file_step_append: "file_step A s (Appended a src) s'"
inductive_cases file_step_quiet: "file_step A s Quiet s'"

lemma quiet_same: "file_step A s Quiet s' \<Longrightarrow> same_files s s'"
proof (erule file_step_quiet)
  fix fd k a bf count n bs
  assume "fd_file fd k a s" "bf \<noteq> 0" "sys_read fd bf count s = Some (Inr (n, bs, s'))"
  then have "file_read k count s = Some (n, bs, s')" using sys_read_file [of fd k a s bf count] by auto
  then show "same_files s s'" by (rule file_read_same)
next
  fix fd offset whence n
  assume "sys_lseek fd offset whence s = Some (n, s')"
  then show "same_files s s'" by (auto simp: sys_lseek_def Let_def bind_eq_Some_conv same_files_def split: if_splits)
qed

text \<open>A write changes its own file only.\<close>

lemma append_step:
  assumes st: "file_step A s (Appended a src) s'" and ok: "files_ok A s"
  shows "files_ok A s'" "\<And>b. b \<in> A \<Longrightarrow> file_data b s' = apply_event (Appended a src) (\<lambda>x. file_data x s) b"
proof -
  from st obtain fd k count n where w: "a \<in> A" "fd_file fd k a s" "writable k s" "length src = unat count" "can_append a count s"
    "sys_write fd src count s = Some (Inr (n, s'))" by (rule file_step_append)
  have f: "part_ok s" "file_ok a s" using ok w(1) by (auto simp: files_ok_def)
  have k: "k < length (file_table s)" "fd_inode (file_table s ! k) = a" using fd_file_resolves [OF w(2)] w(2) by (auto simp: fd_file_def)
  obtain p q r where mem: "mallocs s = p # q # r" "p \<noteq> 0" "q \<noteq> 0"
    using w(5) by (cases "mallocs s"; cases "tl (mallocs s)") (auto simp: can_append_def)
  have c: "unat (i_size (inodes s a)) + unat count < 6144"
    "(unat (i_size (inodes s a)) + unat count) div 512 + 1 \<le> n_blocks (inodes s a) + card (free_blocks s)"
    using w(5) by (auto simp: can_append_def)
  obtain t where e: "file_write k src count s = Some (count, t)" "part_ok t" "file_ok a t"
    "file_data a t = file_data a s @ src"
    "\<And>l. in_data s l \<Longrightarrow> l \<notin> free_blocks s \<Longrightarrow> l \<notin> set (file_blocks (inodes s a)) \<Longrightarrow> hd0 t l = hd0 s l"
    "\<And>x. x \<noteq> a \<Longrightarrow> inodes t x = inodes s x" "\<And>l. in_data t l = in_data s l" "free_blocks t \<subseteq> free_blocks s"
    "set (file_blocks (inodes t a)) \<subseteq> set (file_blocks (inodes s a)) \<union> free_blocks s"
    by (rule file_write_effect [OF f k mem w(4) c]) blast
  have s': "s' = t" using e(1) w(6) sys_write_file [OF w(2,3), of src count] by simp
  have oth: "file_ok b t \<and> file_data b t = file_data b s \<and> set (file_blocks (inodes t a)) \<inter> set (file_blocks (inodes t b)) = {}"
    if b: "b \<in> A" "b \<noteq> a" for b
  proof -
    have fb: "file_ok b s" "set (file_blocks (inodes s a)) \<inter> set (file_blocks (inodes s b)) = {}"
      using ok b w(1) by (auto simp: files_ok_def)
    note g = file_ok_facts(8) [OF fb(1)]
    have "hd0 t l = hd0 s l" if "l \<in> set (file_blocks (inodes s b))" for l using e(5) g [OF that] fb(2) that by blast
    then have "bytes_of (hd0 t) (file_blocks (inodes s b)) = bytes_of (hd0 s) (file_blocks (inodes s b))" by (rule bytes_of_cong)
    moreover have "file_ok b t" using fb(1) e(6) [OF b(2)] e(7,8) by (auto simp: file_ok_def Let_def)
    ultimately show ?thesis using e(6) [OF b(2)] e(9) fb(2) g by (auto simp: file_data_def)
  qed
  show "files_ok A s'" unfolding s' files_ok_def
  proof (intro conjI ballI impI)
    fix x y assume xy: "x \<in> A" "y \<in> A" "x \<noteq> y"
    consider "x = a" | "y = a" | "x \<noteq> a" "y \<noteq> a" by blast
    then show "set (file_blocks (inodes t x)) \<inter> set (file_blocks (inodes t y)) = {}"
    proof cases
      case 3
      then show ?thesis using ok xy e(6) by (auto simp: files_ok_def)
    qed (use oth xy in blast)+
  qed (use e(2,3) oth in blast)+
  show "file_data b s' = apply_event (Appended a src) (\<lambda>x. file_data x s) b" if "b \<in> A" for b
    using e(4) oth [OF that] by (cases "b = a") (auto simp: s')
qed

lemma file_step_refines:
  assumes "file_step A s e s'" "files_ok A s"
  shows "files_ok A s'" "\<And>b. b \<in> A \<Longrightarrow> file_data b s' = apply_event e (\<lambda>x. file_data x s) b"
  using assms append_step quiet_same same_files_ok same_files_data by (cases e; fastforce)+

section \<open>Properties\<close>



section \<open>Running out of blocks\<close>

lemma block_bitmap_alloc_full:
  assumes "blocks_ok (cur_part s)" "free_blocks s = {}"
  shows "block_bitmap_alloc s = Some (-1, s)"
proof -
  let ?b = "block_bitmap (cur_part s)"
  have ok: "btmp_ok ?b" using assms(1) by (simp add: blocks_ok_def)
  obtain r where r: "bitmap_scan ?b 1 = Some r" using btm.scan_some [OF ok] by blast
  have "r = -1"
  proof (rule ccontr)
    assume "r \<noteq> -1"
    then have "block_free s (data_start_lba (sb (cur_part s)) + of_nat (unat r))"
      using btm.scan_free [OF ok r] by (auto simp: block_free_def)
    then show False using assms(2) by (auto simp: free_blocks_def)
  qed
  then show ?thesis using r by (simp add: block_bitmap_alloc_def)
qed

lemma file_write_alloc_append:
  "file_write_alloc (xs @ ys) bl a s =
     do { (r, t) \<leftarrow> file_write_alloc xs bl a s; (case r of None \<Rightarrow> Some (None, t) | Some bl' \<Rightarrow> file_write_alloc ys bl' a t) }"
  by (induction xs arbitrary: bl s) (simp_all add: bind_assoc split_def, intro Option.bind_cong, auto intro!: Option.bind_cong)

text \<open>The blocks that are left are taken before the failure shows.\<close>

lemma file_write_alloc_fails:
  assumes ok: "part_ok s" "file_ok a s" and n: "card (free_blocks s) < n" "n_blocks (inodes s a) + n \<le> 12" and l: "length bl = 140"
  shows "\<exists>ls b dk. length ls = card (free_blocks s) \<and> took a ls b dk s \<and>
    file_write_alloc [n_blocks (inodes s a)..<n_blocks (inodes s a) + n] bl a s =
      Some (None, grown a (splice (n_blocks (inodes s a)) ls (i_sectors (inodes s a))) b dk s)"
proof -
  let ?u = "n_blocks (inodes s a)" and ?x = "i_sectors (inodes s a)" and ?f = "card (free_blocks s)"
  have p: "fs_ok s" "blocks_ok (cur_part s)" "length ?x = 13" using ok by (simp_all add: part_ok_def file_ok_def Let_def)
  have z: "?x ! j = 0" if "?u \<le> j" "j < ?u + ?f" for j
  proof -
    have "j < 13" using that(2) n by simp
    then show ?thesis using ok(2) that(1) by (auto simp: file_ok_def Let_def)
  qed
  have "?u + ?f \<le> 12" using n by simp
  from file_write_alloc_direct [OF p(1,2) this p(3) l z order_refl] obtain ls b dk where
    ls: "length ls = ?f" "took a ls b dk s"
      "file_write_alloc [?u..<?u + ?f] bl a s = Some (Some (splice ?u ls bl), grown a (splice ?u ls ?x) b dk s)" by auto
  let ?t = "grown a (splice ?u ls ?x) b dk s"
  have "set ls = free_blocks s" using ls(1,2) by (intro card_subset_eq) (auto simp: took_def distinct_card)
  then have "free_blocks ?t = {}" using ls(2) by (simp add: took_def)
  then have al: "block_bitmap_alloc ?t = Some (-1, ?t)" using ls(2) by (intro block_bitmap_alloc_full) (simp_all add: took_def)
  have "[?u..<?u + n] = [?u..<?u + ?f] @ (?u + ?f) # [Suc (?u + ?f)..<?u + n]"
    using n(1) upt_add_eq_append [of ?u "?u + ?f" "n - ?f"] by (simp add: upt_conv_Cons)
  then have "file_write_alloc [?u..<?u + n] bl a s = Some (None, ?t)" using ls(3) al by (simp add: file_write_alloc_append)
  then show ?thesis using ls(1,2) by blast
qed

definition left_over :: "u32 \<Rightarrow> 'a fs_scheme \<Rightarrow> bool" where
  "left_over a s \<longleftrightarrow> (let i = inodes s a in 0 < n_blocks i \<and> n_blocks i \<le> 11 \<and> i_sectors i ! 0 \<noteq> 0 \<and>
     i_sectors i ! (n_blocks i - 1) \<noteq> 0 \<and> i_sectors i ! n_blocks i \<noteq> 0)"

lemma write_after_failure:
  assumes lo: "left_over a s" and ok: "part_ok s" "free_blocks s \<noteq> {}" and k: "fd_inode (file_table s ! k) = a"
    and mem: "mallocs s = p # q # r" "p \<noteq> 0" "q \<noteq> 0"
    and c: "unat (i_size (inodes s a)) + unat count < 6144" "n_blocks (inodes s a) < (unat (i_size (inodes s a)) + unat count) div 512 + 1"
  shows "file_write k src count s = None"
proof -
  let ?i = "inodes s a" and ?will = "(unat (i_size (inodes s a)) + unat count) div 512 + 1"
  define s0 where "s0 = s\<lparr>mallocs := r\<rparr>"
  have s0: "inodes s0 = inodes s" "part_ok s0" "free_blocks s0 \<noteq> {}" using ok by (simp_all add: s0_def)
  have i: "i_sectors ?i ! 0 \<noteq> 0" "i_sectors ?i ! (n_blocks ?i - 1) \<noteq> 0" "i_sectors ?i ! n_blocks ?i \<noteq> 0" "n_blocks ?i < 12"
    using lo by (auto simp: left_over_def Let_def)
  have u: "n_blocks ?i = unat (i_size ?i) div 512 + 1" using i(1) by (simp add: n_blocks_def)
  have w12: "?will \<le> 12" using c(1) by (simp add: Suc_le_eq less_mult_imp_div_less)
  have fs: "fs_ok s0" "blocks_ok (cur_part s0)" using s0(2) by (simp_all add: part_ok_def)
  obtain lba b where al: "block_bitmap_alloc s0 = Some (lba, s0\<lparr>cur_part := (cur_part s0)\<lparr>block_bitmap := b\<rparr>\<rparr>)" "lba \<noteq> -1"
    by (rule block_took [OF fs s0(3), of a]) blast
  have up: "[n_blocks ?i..<?will] = n_blocks ?i # [Suc (n_blocks ?i)..<?will]" using c(2) by (simp add: upt_conv_Cons)
  have "file_write_alloc [n_blocks ?i..<?will] bl a s0 = None" for bl
    unfolding up using al i(3,4) s0(1) by simp
  then have "file_write_collect (n_blocks ?i) ?will a s0 = None"
    using c(2) w12 i(2) by (simp add: file_write_collect_def s0(1) Let_def)
  moreover have "file_first_block a s0 = Some (True, s0)" using i(1) s0(1) by (simp add: file_first_block_def)
  moreover have "unat (i_size ?i + count) = unat (i_size ?i) + unat count" using c(1) by (simp add: unat_plus_small)
  ultimately show ?thesis
    using mem k c(1) u
    by (simp add: file_write_def fs_malloc_def Let_def s0_def [symmetric] s0(1) word_less_nat_alt)
qed

lemma sys_write_short:
  assumes ok: "part_ok s" "file_ok a s" "0 < n_blocks (inodes s a)" and fd: "fd_file fd k a s" "writable k s"
    and mem: "mallocs s = p # q # r" "p \<noteq> 0" "q \<noteq> 0" and c: "unat (i_size (inodes s a)) + unat count < 6144"
    and full: "n_blocks (inodes s a) + card (free_blocks s) < (unat (i_size (inodes s a)) + unat count) div 512 + 1"
      "free_blocks s \<noteq> {}"
  obtains s' where "sys_write fd src count s = Some (Inr (-1, s'))" "left_over a s'" "free_blocks s' = {}"
    "i_size (inodes s' a) = i_size (inodes s a)"
proof -
  let ?i = "inodes s a" and ?will = "(unat (i_size (inodes s a)) + unat count) div 512 + 1" and ?x = "i_sectors (inodes s a)"
  define s0 where "s0 = s\<lparr>mallocs := r\<rparr>"
  have s0: "inodes s0 = inodes s" "part_ok s0" "file_ok a s0" "free_blocks s0 = free_blocks s" using ok by (simp_all add: s0_def)
  note f = file_ok_facts [OF ok(2)]
  have u: "n_blocks ?i = unat (i_size ?i) div 512 + 1" using f(5) [OF ok(3)] .
  have x: "\<And>j. j < 13 \<Longrightarrow> ?x ! j \<noteq> 0 \<longleftrightarrow> j < n_blocks ?i" using ok(2) by (auto simp: file_ok_def Let_def)
  define n where "n = ?will - n_blocks ?i"
  have w12: "?will \<le> 12" using c by (simp add: Suc_le_eq less_mult_imp_div_less)
  have n: "n_blocks ?i + n = ?will" "card (free_blocks s) < n" using full(1) by (simp_all add: n_def)
  define bl where "bl = (replicate 140 0)[n_blocks ?i - 1 := ?x ! (n_blocks ?i - 1)]"
  have "\<exists>ls b dk. length ls = card (free_blocks s) \<and> took a ls b dk s0 \<and>
      file_write_alloc [n_blocks ?i..<n_blocks ?i + n] bl a s0 = Some (None, grown a (splice (n_blocks ?i) ls ?x) b dk s0)"
    using file_write_alloc_fails [OF s0(2,3), of n bl] n w12 by (simp add: s0 bl_def)
  then obtain ls b dk where ls: "length ls = card (free_blocks s)" "took a ls b dk s0"
    "file_write_alloc [n_blocks ?i..<?will] bl a s0 = Some (None, grown a (splice (n_blocks ?i) ls ?x) b dk s0)" unfolding n(1) by blast
  let ?t = "grown a (splice (n_blocks ?i) ls ?x) b dk s0"
  have pos: "0 < length ls" using full(2) ls(1) by (simp add: card_gt_0_iff)
  have fit: "n_blocks (inodes s0 a) + length ls \<le> 12" using ls(1) n w12 by (simp add: s0)
  note g = took_file_blocks [OF ls(2) s0(3) fit, unfolded s0(1)]
  have nz: "splice (n_blocks ?i) ls ?x ! j \<noteq> 0" if "j \<le> n_blocks ?i" for j using g(3) [of j] that pos fit by (simp add: s0)
  have nt: "n_blocks (inodes ?t a) = n_blocks ?i" using nz [of 0] u by (simp add: n_blocks_def s0)
  have "n_blocks ?i \<le> 11" using fit pos unfolding s0(1) by linarith
  then have lo: "left_over a ?t" unfolding left_over_def nt Let_def using nz ok(3) by (simp add: s0)
  have "set ls = free_blocks s" using ls(1,2) s0(4) by (intro card_subset_eq) (auto simp: took_def distinct_card)
  then have fr: "free_blocks ?t = {}" using ls(2) s0(4) by (simp add: took_def)
  have col: "file_write_collect (n_blocks ?i) ?will a s0 = Some (None, ?t)"
    using ls(3) w12 x [of "n_blocks ?i - 1"] ok(3) n f(3) full(1) by (simp add: file_write_collect_def s0(1) Let_def bl_def)
  have "file_first_block a s0 = Some (True, s0)" using x [of 0] ok(3) by (simp add: file_first_block_def s0(1))
  moreover have "unat (i_size ?i + count) = unat (i_size ?i) + unat count" using c by (simp add: unat_plus_small)
  moreover have "fd_inode (file_table s ! k) = a" using fd(1) by (simp add: fd_file_def)
  ultimately have "file_write k src count s = Some (-1, ?t)"
    using mem c u col w12
    by (simp add: file_write_def fs_malloc_def Let_def s0_def [symmetric] s0(1) word_less_nat_alt)
  then have "sys_write fd src count s = Some (Inr (-1, ?t))" using sys_write_file [OF fd, of src count] by simp
  then show thesis using lo fr by (rule that) (simp add: s0)
qed


text \<open>An example: a partition whose bitmap has one free bit left, and a file of 3 bytes in block 2660.\<close>

definition demo_full_fs :: fs where
  "demo_full_fs = demo_file_fs\<lparr>inodes := (\<lambda>_. (demo_inode 0)\<lparr>i_size := 3, i_sectors := 2660 # replicate 12 0\<rparr>),
     cur_part := demo_part\<lparr>block_bitmap := \<lparr>btmp_bytes_len = 512, bits = (\<lambda>i. if i = 0 then 0xfd else 0xff)\<rparr>\<rparr>\<rparr>"

lemma demo_full_bits: "k < 4096 \<Longrightarrow> bit_at (block_bitmap (cur_part demo_full_fs)) k \<longleftrightarrow> k \<noteq> 1"
proof -
  assume k: "k < 4096"
  have "(of_nat (k div 8) :: u32) = 0 \<longleftrightarrow> k div 8 = 0" using k by (simp add: word_unat_eq_iff unat_of_nat)
  moreover have "bit (0xfd :: u8) j \<longleftrightarrow> j \<noteq> 1" "bit (0xff :: u8) j" if "j < 8" for j
    using that by (auto simp: less_Suc_eq numeral_eq_Suc)
  moreover have "k mod 8 < 8" by simp
  ultimately show ?thesis by (auto simp: bit_at_def demo_full_fs_def)
qed

lemma demo_full_fs_ok:
  "part_ok demo_full_fs" "file_ok a demo_full_fs" "fd_file 3 3 0xc0107000 demo_full_fs" "writable 3 demo_full_fs" "free_blocks demo_full_fs = {2661}"
proof -
  have n: "btmp_bits (block_bitmap (cur_part demo_full_fs)) = 4096" by (simp add: demo_full_fs_def btmp_bits_def)
  have d: "data_start_lba (sb (cur_part demo_full_fs)) = 2660" by (simp add: demo_full_fs_def demo_part_def demo_sb_def)
  show fr: "free_blocks demo_full_fs = {2661}"
    using demo_full_bits n d by (auto simp: free_blocks_def block_free_def intro: exI [of _ 1])
  have "blocks_ok (cur_part demo_full_fs)" using demo_full_bits n d by (auto simp: blocks_ok_def btmp_ok_def)
  moreover have "fs_ok demo_full_fs" using demo_fs_ok by (simp add: demo_full_fs_def fs_ok_def layout_ok_def demo_part_def)
  ultimately show "part_ok demo_full_fs" using fr d by (simp add: part_ok_def)
  have "in_data demo_full_fs 2660" using d by (simp add: in_data_def)
  then show "file_ok a demo_full_fs"
    using fr by (auto simp: file_ok_def Let_def n_blocks_def file_blocks_def demo_full_fs_def nth_Cons')
  show "fd_file 3 3 0xc0107000 demo_full_fs" "writable 3 demo_full_fs"
    using demo_file_fs_ok(3,4) by (simp_all add: fd_file_def writable_def demo_full_fs_def running_thread_def)
qed

end
