(* ===== verification/DirSys.thy ===== *)
theory DirSys
  imports FileSys
begin

text \<open>
  The calls of fs/fs.c that change or inspect the directory tree: unlink, mkdir, rmdir, the
  directory stream, the working directory and stat.
\<close>

section \<open>Removing and creating names\<close>

definition open_somewhere :: "u32 \<Rightarrow> 'a fs_scheme \<Rightarrow> bool" where
  "open_somewhere inode_no s \<longleftrightarrow>
     (\<exists>k \<in> set [0..<MAX_FILE_OPEN]. fd_inode (file_table s ! k) \<noteq> 0 \<and> inode_no = i_no (inodes s (fd_inode (file_table s ! k))))"

definition sys_unlink :: "u8 list \<Rightarrow> 'a fs_scheme \<Rightarrow> (u32 \<times> 'a fs_scheme) option" where
  "sys_unlink pathname s =
     do {
       ASSERT (length pathname < MAX_PATH_LEN);
       (inode_no, r, s) \<leftarrow> search_file pathname s;
       ASSERT (inode_no \<noteq> 0);
       (if inode_no = -1 then close_and_return r (-1) s
        else if file_type r = FT_DIRECTORY then close_and_return r (-1) s
        else if open_somewhere inode_no s then close_and_return r (-1) s
        else let (io_buf, s) = fs_malloc s in
        if io_buf = 0 then close_and_return r (-1) s
        else do {
          (_, s) \<leftarrow> delete_dir_entry (parent_dir r) inode_no s;
          s \<leftarrow> inode_release inode_no s;
          fs_free io_buf;
          close_and_return r 0 s
        })
     }"

text \<open>The first sector of a new directory: the entries \<open>.\<close> and \<open>..\<close>.\<close>

definition dot_sector :: "u32 \<Rightarrow> u32 \<Rightarrow> u8 list" where
  "dot_sector self parent =
     enc_de \<lparr>filename = [46] @ replicate 15 0, de_i_no = self, f_type = FT_DIRECTORY\<rparr>
     @ enc_de \<lparr>filename = [46, 46] @ replicate 14 0, de_i_no = parent, f_type = FT_DIRECTORY\<rparr>
     @ replicate 464 0"

definition mkdir_rollback :: "nat \<Rightarrow> u32 \<Rightarrow> u32 \<Rightarrow> path_search_record \<Rightarrow> 'a fs_scheme \<Rightarrow> (u32 \<times> 'a fs_scheme) option" where
  "mkdir_rollback step io_buf inode_no r s =
     do {
       s \<leftarrow> (if 2 \<le> step then clear_inode_bit inode_no s else Some s);
       s \<leftarrow> dir_close (parent_dir r) s;
       fs_free io_buf;
       Some (-1, s)
     }"

definition mkdir_install :: "u32 \<Rightarrow> u32 \<Rightarrow> u32 \<Rightarrow> path_search_record \<Rightarrow> 'a fs_scheme \<Rightarrow> (u32 \<times> 'a fs_scheme) option" where
  "mkdir_install io_buf inode_no block_lba r s =
     do {
       let block_bitmap_idx = block_lba - data_start_lba (sb (cur_part s));
       ASSERT (block_bitmap_idx \<noteq> 0);
       s \<leftarrow> bitmap_sync block_bitmap_idx BLOCK_BITMAP s;
       s \<leftarrow> hd_write block_lba (dot_sector inode_no (i_no (dinode (parent_dir r) s))) 1 s;
       let new_dir_inode = \<lparr>i_no = inode_no, i_size = 2 * des s, i_open_cnts = 0, write_deny = False,
                            i_sectors = block_lba # replicate 12 0\<rparr>;
       new_dir_entry \<leftarrow> create_dir_entry (last_component (searched_path r)) inode_no FT_DIRECTORY empty_entry;
       (ok, s) \<leftarrow> sync_dir_entry (parent_dir r) new_dir_entry s;
       (if \<not> ok then mkdir_rollback 2 io_buf inode_no r s
        else do {
          s \<leftarrow> inode_sync (dinode (parent_dir r) s) s;
          s \<leftarrow> inode_sync new_dir_inode s;
          s \<leftarrow> bitmap_sync inode_no INODE_BITMAP s;
          fs_free io_buf;
          close_and_return r 0 s
        })
     }"

definition sys_mkdir :: "u8 list \<Rightarrow> 'a fs_scheme \<Rightarrow> (u32 \<times> 'a fs_scheme) option" where
  "sys_mkdir pathname s =
     (let (io_buf, s) = fs_malloc s in
      if io_buf = 0 then Some (-1, s)
      else do {
        (inode_no, r, s) \<leftarrow> search_file pathname s;
        (if inode_no \<noteq> -1 then mkdir_rollback 1 io_buf inode_no r s
         else do {
           pathname_depth \<leftarrow> path_depth_cnt pathname;
           path_searched_depth \<leftarrow> path_depth_cnt (searched_path r);
           (if pathname_depth \<noteq> path_searched_depth then mkdir_rollback 1 io_buf inode_no r s
            else do {
              (inode_no, s) \<leftarrow> inode_bitmap_alloc s;
              (if inode_no = -1 then mkdir_rollback 1 io_buf inode_no r s
               else do {
                 (block_lba, s) \<leftarrow> block_bitmap_alloc s;
                 (if block_lba = -1 then mkdir_rollback 2 io_buf inode_no r s
                  else mkdir_install io_buf inode_no block_lba r s)
               })
            })
         })
      })"

definition sys_rmdir :: "u8 list \<Rightarrow> 'a fs_scheme \<Rightarrow> (u32 \<times> 'a fs_scheme) option" where
  "sys_rmdir pathname s =
     do {
       (inode_no, r, s) \<leftarrow> search_file pathname s;
       ASSERT (inode_no \<noteq> 0);
       (if inode_no = -1 then close_and_return r (-1) s
        else if file_type r = FT_REGULAR then close_and_return r (-1) s
        else do {
          (dir, s) \<leftarrow> dir_open inode_no s;
          (ret, s) \<leftarrow> (if \<not> dir_is_empty dir s then Some (-1, s)
                        else do { (e, s) \<leftarrow> dir_remove (parent_dir r) dir s; Some (if e = 0 then 0 else -1, s) });
          s \<leftarrow> dir_close dir s;
          close_and_return r ret s
        })
     }"

section \<open>Directory streams\<close>

definition sys_opendir :: "u8 list \<Rightarrow> 'a fs_scheme \<Rightarrow> (dir_ptr \<times> 'a fs_scheme) option" where
  "sys_opendir name s =
     do {
       ASSERT (length name < MAX_PATH_LEN);
       (if name = [47] then Some (Root_dir, s)
        else do {
          (inode_no, r, s) \<leftarrow> search_file name s;
          (ret, s) \<leftarrow> (if inode_no \<noteq> -1 \<and> file_type r = FT_DIRECTORY then dir_open inode_no s
                        else Some (Heap_dir 0, s));
          s \<leftarrow> dir_close (parent_dir r) s;
          Some (ret, s)
        })
     }"

definition sys_closedir :: "dir_ptr \<Rightarrow> 'a fs_scheme \<Rightarrow> (u32 \<times> 'a fs_scheme) option" where
  "sys_closedir dir s =
     (if dir \<noteq> Heap_dir 0 then do { s \<leftarrow> dir_close dir s; Some (0, s) } else Some (-1, s))"

definition sys_readdir :: "dir_ptr \<Rightarrow> 'a fs_scheme \<Rightarrow> (dir_entry option \<times> 'a fs_scheme) option" where
  "sys_readdir dir s = do { ASSERT (dir \<noteq> Heap_dir 0); dir_read dir s }"

definition sys_rewinddir :: "dir_ptr \<Rightarrow> 'a fs_scheme \<Rightarrow> 'a fs_scheme" where
  "sys_rewinddir dir s = upd_dir dir (\<lambda>d. d\<lparr>dir_pos := 0\<rparr>) s"

section \<open>Working directory\<close>

definition get_parent_dir_inode_nr :: "u32 \<Rightarrow> 'a fs_scheme \<Rightarrow> (u32 \<times> 'a fs_scheme) option" where
  "get_parent_dir_inode_nr child_inode_nr s =
     do {
       (a, s) \<leftarrow> inode_open child_inode_nr s;
       let block_lba = i_sectors (inodes s a) ! 0;
       ASSERT (block_lba \<ge> data_start_lba (sb (cur_part s)));
       s \<leftarrow> inode_close a s;
       io_buf \<leftarrow> hd_read block_lba 1 s;
       ASSERT (de_i_no (de_at io_buf 1) < 4096 \<and> f_type (de_at io_buf 1) = FT_DIRECTORY);
       Some (de_i_no (de_at io_buf 1), s)
     }"

definition entry_name :: "u8 list \<Rightarrow> nat \<Rightarrow> u8 list" where
  "entry_name bf k = takeWhile (\<lambda>c. c \<noteq> 0) (drop (24 * k) bf)"

fun child_name_loop :: "u32 list \<Rightarrow> u32 \<Rightarrow> 'a fs_scheme \<Rightarrow> u8 list option option" where
  "child_name_loop [] c_inode_nr s = Some None"
| "child_name_loop (lba # lbas) c_inode_nr s =
     (if lba \<noteq> 0 then
        do {
          io_buf \<leftarrow> hd_read lba 1 s;
          (case List.find (\<lambda>k. de_i_no (de_at io_buf k) = c_inode_nr) [0..<per_sec s] of
             Some k \<Rightarrow> Some (Some (entry_name io_buf k))
           | None \<Rightarrow> child_name_loop lbas c_inode_nr s)
        }
      else child_name_loop lbas c_inode_nr s)"

definition get_child_dir_name :: "u32 \<Rightarrow> u32 \<Rightarrow> u8 list \<Rightarrow> 'a fs_scheme \<Rightarrow> (u8 list option \<times> 'a fs_scheme) option" where
  "get_child_dir_name p_inode_nr c_inode_nr path s =
     do {
       (a, s) \<leftarrow> inode_open p_inode_nr s;
       blocks \<leftarrow> all_blocks (inodes s a) s;
       let ind = i_sectors (inodes s a) ! 12;
       s \<leftarrow> inode_close a s;
       r \<leftarrow> child_name_loop (if ind \<noteq> 0 then blocks else take 12 blocks) c_inode_nr s;
       Some (map_option (\<lambda>n. path @ [47] @ n) r, s)
     }"

text \<open>From the working directory up to the root; a cycle of parents is a loop without end.  The path buffer has 512 bytes.\<close>

partial_function (option) getcwd_loop :: "u32 \<Rightarrow> u8 list \<Rightarrow> 'a fs_scheme \<Rightarrow> (u8 list option \<times> 'a fs_scheme) option" where
  "getcwd_loop child path s =
     (if child = 0 then Some (Some path, s)
      else Option.bind (get_parent_dir_inode_nr child s)
        (\<lambda>x. Option.bind (get_child_dir_name (fst x) child path (snd x))
          (\<lambda>y. case fst y of
                 None \<Rightarrow> Some (None, snd y)
               | Some path \<Rightarrow>
                   if length path < MAX_PATH_LEN then getcwd_loop (fst x) path (snd y) else None)))"

text \<open>The final loop moves the last component of the reversed path to the end of the result.\<close>

function turn_path :: "u8 list \<Rightarrow> u8 list \<Rightarrow> u8 list" where
  "turn_path full bf =
     (if 47 \<in> set full then
        let k = length full - length (last_component full) - 1 in turn_path (take k full) (bf @ drop k full)
      else bf)"
  by pat_completeness auto
termination
proof (relation "measure (\<lambda>(full, _). length full)", simp)
  fix full bf :: "u8 list" and k
  assume "47 \<in> set full" "k = length full - length (last_component full) - 1"
  then have "full \<noteq> []" "k < length full" by (auto simp: length_pos_if_in_set Suc_le_eq intro: diff_less)
  then show "((take k full, bf @ drop k full), full, bf) \<in> measure (\<lambda>(full, _). length full)" by simp
qed

declare turn_path.simps [simp del]

definition sys_getcwd :: "u32 \<Rightarrow> u32 \<Rightarrow> 'a fs_scheme \<Rightarrow> (u8 list option \<times> 'a fs_scheme) option" where
  "sys_getcwd bf sz s =
     do {
       ASSERT (bf \<noteq> 0);
       let (io_buf, s) = fs_malloc s;
       (if io_buf = 0 then Some (None, s)
        else do {
          let child = cwd_inode_nr (tasks s (running_thread s));
          ASSERT (child < 4096);
          (if child = 0 then Some (Some [47], s)
           else do {
             (full, s) \<leftarrow> getcwd_loop child [] s;
             (case full of
                None \<Rightarrow> Some (None, s)
              | Some full \<Rightarrow> do { ASSERT (length full \<le> unat sz); Some (Some (turn_path full []), s) })
           })
        })
     }"

definition sys_chdir :: "u8 list \<Rightarrow> 'a fs_scheme \<Rightarrow> (u32 \<times> 'a fs_scheme) option" where
  "sys_chdir path s =
     do {
       (inode_no, r, s) \<leftarrow> search_file path s;
       (if inode_no \<noteq> -1 \<and> file_type r = FT_DIRECTORY
        then close_and_return r 0 (upd_task (running_thread s) (\<lambda>t. t\<lparr>cwd_inode_nr := inode_no\<rparr>) s)
        else close_and_return r (-1) s)
     }"

record stat =
  st_ino :: u32
  st_size :: u32
  st_filetype :: u32

definition sys_stat :: "u8 list \<Rightarrow> 'a fs_scheme \<Rightarrow> (stat option \<times> 'a fs_scheme) option" where
  "sys_stat path s =
     (if is_root_path path
      then Some (Some \<lparr>st_ino = 0, st_size = i_size (dinode Root_dir s), st_filetype = FT_DIRECTORY\<rparr>, s)
      else do {
        (inode_no, r, s) \<leftarrow> search_file path s;
        (if inode_no \<noteq> -1 then
           do {
             (a, s) \<leftarrow> inode_open inode_no s;
             let sz = i_size (inodes s a);
             s \<leftarrow> inode_close a s;
             s \<leftarrow> dir_close (parent_dir r) s;
             Some (Some \<lparr>st_ino = inode_no, st_size = sz, st_filetype = file_type r\<rparr>, s)
           }
         else do { s \<leftarrow> dir_close (parent_dir r) s; Some (None, s) })
      })"

end
