(* ===== verification/Heap.thy ===== *)
theory Heap
  imports Memory
begin

text \<open>
  The block allocator of kernel/memory.c: \<open>sys_malloc\<close> and \<open>sys_free\<close> over size-class
  descriptors and arenas.  A kernel thread uses the kernel's descriptors, a
  process those in its control block.  Arena headers are kept in a store indexed by
  the arena's address and the free lists as sequences of block addresses, instead of
  in the bytes of the pages themselves; the clearing of pages and blocks acts on
  the bytes.
\<close>

definition DESC_CNT :: nat where
  "DESC_CNT = 7"

definition sizeof_arena :: u32 where
  "sizeof_arena = 12"

text \<open>The descriptors from \<open>block_size\<close> on, \<open>n\<close> of them.\<close>

primrec block_desc_loop :: "nat \<Rightarrow> u16 \<Rightarrow> mem_block_desc list" where
  "block_desc_loop 0 bsize = []"
| "block_desc_loop (Suc n) bsize =
     \<lparr>block_size = ucast bsize, blocks_per_arena = (PG_SIZE - sizeof_arena) div ucast bsize, free_list = []\<rparr>
     # block_desc_loop n (bsize * 2)"

definition block_desc_init :: "mem_block_desc list" where
  "block_desc_init = block_desc_loop DESC_CNT 16"

definition mem_init :: "u32 \<Rightarrow> 'a memory_scheme \<Rightarrow> 'a memory_scheme" where
  "mem_init mem_bytes_total s = (mem_pool_init mem_bytes_total s)\<lparr>k_block_descs := block_desc_init\<rparr>"

definition arena2block :: "mem_block_desc list \<Rightarrow> arena \<Rightarrow> u32 \<Rightarrow> u32 \<Rightarrow> u32 option" where
  "arena2block descs hdr a idx =
     do { d \<leftarrow> desc hdr; Some (a + sizeof_arena + idx * block_size (descs ! d)) }"

definition block2arena :: "u32 \<Rightarrow> u32" where
  "block2arena b = b AND 0xfffff000"

subsection \<open>The current heap\<close>

definition in_kernel :: "'a sched_scheme \<Rightarrow> bool" where
  "in_kernel s \<longleftrightarrow> pgdir (tasks s (running_thread s)) = 0"

definition heap_pf :: "'a sched_scheme \<Rightarrow> pool_flags" where
  "heap_pf s = (if in_kernel s then PF_KERNEL else PF_USER)"

definition heap_descs :: "'a memory_scheme \<Rightarrow> mem_block_desc list" where
  "heap_descs s = (if in_kernel s then k_block_descs s else u_block_desc (tasks s (running_thread s)))"

definition heap_arenas :: "'a memory_scheme \<Rightarrow> u32 \<Rightarrow> arena" where
  "heap_arenas s = (if in_kernel s then k_arenas s else u_arenas (tasks s (running_thread s)))"

definition set_descs :: "mem_block_desc list \<Rightarrow> 'a memory_scheme \<Rightarrow> 'a memory_scheme" where
  "set_descs d s =
     (if in_kernel s then s\<lparr>k_block_descs := d\<rparr>
      else upd_task (running_thread s) (\<lambda>p. p\<lparr>u_block_desc := d\<rparr>) s)"

definition set_arena :: "u32 \<Rightarrow> arena \<Rightarrow> 'a memory_scheme \<Rightarrow> 'a memory_scheme" where
  "set_arena a h s =
     (if in_kernel s then s\<lparr>k_arenas := (k_arenas s)(a := h)\<rparr>
      else upd_task (running_thread s) (\<lambda>p. p\<lparr>u_arenas := (u_arenas p)(a := h)\<rparr>) s)"

definition upd_free_list :: "nat \<Rightarrow> (u32 list \<Rightarrow> u32 list) \<Rightarrow> 'a memory_scheme \<Rightarrow> 'a memory_scheme" where
  "upd_free_list i f s =
     set_descs ((heap_descs s)[i := (heap_descs s ! i)\<lparr>free_list := f (free_list (heap_descs s ! i))\<rparr>]) s"

subsection \<open>Allocation\<close>

text \<open>\<open>memset(b, 0, n)\<close> for a dword-aligned block, \<open>n / 4\<close> dwords.\<close>

primrec words_clear :: "nat \<Rightarrow> u32 \<Rightarrow> 'a machine_scheme \<Rightarrow> 'a machine_scheme option" where
  "words_clear 0 va s = Some s"
| "words_clear (Suc n) va s = do { s \<leftarrow> vwrite va 0 s; words_clear n (va + 4) s }"

text \<open>Split a new arena into blocks \<open>idx\<close>, \<open>idx + 1\<close>, ... and append them to the free list; \<open>n\<close> remain.\<close>

primrec split_arena :: "nat \<Rightarrow> u32 \<Rightarrow> nat \<Rightarrow> u32 \<Rightarrow> 'a memory_scheme \<Rightarrow> 'a memory_scheme option" where
  "split_arena 0 a i idx s = Some s"
| "split_arena (Suc n) a i idx s =
     do {
       b \<leftarrow> arena2block (heap_descs s) (heap_arenas s a) a idx;
       ASSERT (b \<notin> set (free_list (heap_descs s ! i)));
       split_arena n a i (idx + 1) (upd_free_list i (\<lambda>l. l @ [b]) s)
     }"

definition desc_for :: "u32 \<Rightarrow> mem_block_desc list \<Rightarrow> nat" where
  "desc_for sz descs = length (takeWhile (\<lambda>d. \<not> sz \<le> block_size d) (take DESC_CNT descs))"

definition malloc_large :: "u32 \<Rightarrow> 'a memory_scheme \<Rightarrow> (u32 \<times> 'a memory_scheme) option" where
  "malloc_large sz s =
     (let pf = heap_pf s; page_cnt = DIV_ROUND_UP (sz + sizeof_arena) PG_SIZE in
      do {
        (a, s) \<leftarrow> malloc_page pf page_cnt s;
        (if a \<noteq> 0 then
           do {
             s \<leftarrow> pages_clear a page_cnt s;
             s \<leftarrow> pool_release pf (set_arena a \<lparr>desc = None, arena_cnt = page_cnt, large = True\<rparr> s);
             Some (a + sizeof_arena, s)
           }
         else do { s \<leftarrow> pool_release pf s; Some (0, s) })
      })"

text \<open>A new arena for descriptor \<open>i\<close>; \<open>False\<close> when there is no page.\<close>

definition new_arena :: "nat \<Rightarrow> 'a memory_scheme \<Rightarrow> (bool \<times> 'a memory_scheme) option" where
  "new_arena i s =
     do {
       (a, s) \<leftarrow> malloc_page (heap_pf s) 1 s;
       (if a = 0 then Some (False, s)
        else do {
          s \<leftarrow> pages_clear a 1 s;
          let bpa = blocks_per_arena (heap_descs s ! i);
          let s = set_arena a \<lparr>desc = Some i, arena_cnt = bpa, large = False\<rparr> s;
          let (old_status, s) = intr_disable s;
          s \<leftarrow> split_arena (unat bpa) a i 0 s;
          Some (True, snd (intr_set_status old_status s))
        })
     }"

definition take_block :: "nat \<Rightarrow> 'a memory_scheme \<Rightarrow> (u32 \<times> 'a memory_scheme) option" where
  "take_block i s =
     (case free_list (heap_descs s ! i) of
        [] \<Rightarrow> None
      | b # _ \<Rightarrow>
          do {
            let s = upd_free_list i tl s;
            s \<leftarrow> words_clear (unat (block_size (heap_descs s ! i)) div 4) b s;
            let a = block2arena b;
            let s = set_arena a ((heap_arenas s a)\<lparr>arena_cnt := arena_cnt (heap_arenas s a) - 1\<rparr>) s;
            s \<leftarrow> pool_release (heap_pf s) s;
            Some (b, s)
          })"

definition malloc_small :: "u32 \<Rightarrow> 'a memory_scheme \<Rightarrow> (u32 \<times> 'a memory_scheme) option" where
  "malloc_small sz s =
     (let i = desc_for sz (heap_descs s) in
      do {
        ASSERT (i < length (heap_descs s));
        (if free_list (heap_descs s ! i) = [] then
           do {
             (ok, s) \<leftarrow> new_arena i s;
             (if ok then take_block i s
              else do { s \<leftarrow> pool_release (heap_pf s) s; Some (0, s) })
           }
         else take_block i s)
      })"

definition sys_malloc :: "u32 \<Rightarrow> 'a memory_scheme \<Rightarrow> (u32 \<times> 'a memory_scheme) option" where
  "sys_malloc sz s =
     (let pf = heap_pf s in
      if \<not> (sz > 0 \<and> sz < pool_size (get_pool pf s)) then Some (0, s)
      else
        do {
          s \<leftarrow> pool_acquire pf s;
          (if sz > 1024 then malloc_large sz s else malloc_small sz s)
        })"

subsection \<open>Release\<close>

text \<open>Take the blocks \<open>idx\<close>, \<open>idx + 1\<close>, ... of an arena off its free list; \<open>n\<close> remain.\<close>

primrec unsplit_arena :: "nat \<Rightarrow> u32 \<Rightarrow> nat \<Rightarrow> u32 \<Rightarrow> 'a memory_scheme \<Rightarrow> 'a memory_scheme option" where
  "unsplit_arena 0 a i idx s = Some s"
| "unsplit_arena (Suc n) a i idx s =
     do {
       b \<leftarrow> arena2block (heap_descs s) (heap_arenas s a) a idx;
       ASSERT (b \<in> set (free_list (heap_descs s ! i)));
       unsplit_arena n a i (idx + 1) (upd_free_list i (remove1 b) s)
     }"

definition free_block :: "u32 \<Rightarrow> u32 \<Rightarrow> 'a memory_scheme \<Rightarrow> 'a memory_scheme option" where
  "free_block b a s =
     do {
       i \<leftarrow> desc (heap_arenas s a);
       let s = upd_free_list i (\<lambda>l. l @ [b]) s;
       let cnt = arena_cnt (heap_arenas s a) + 1;
       let s = set_arena a ((heap_arenas s a)\<lparr>arena_cnt := cnt\<rparr>) s;
       let bpa = blocks_per_arena (heap_descs s ! i);
       (if cnt = bpa then
          do {
            s \<leftarrow> unsplit_arena (unat bpa) a i 0 s;
            mfree_page (heap_pf s) a 1 s
          }
        else Some s)
     }"

definition sys_free :: "u32 \<Rightarrow> 'a memory_scheme \<Rightarrow> 'a memory_scheme option" where
  "sys_free ptr s =
     do {
       ASSERT (ptr \<noteq> 0);
       (if in_kernel s then ASSERT (ptr \<ge> K_HEAP_START) else Some ());
       let pf = heap_pf s;
       s \<leftarrow> pool_acquire pf s;
       let a = block2arena ptr;
       s \<leftarrow> (if desc (heap_arenas s a) = None \<and> large (heap_arenas s a)
              then mfree_page pf a (arena_cnt (heap_arenas s a)) s
              else free_block ptr a s);
       pool_release pf s
     }"

subsection \<open>Geometry of the size classes\<close>

lemma block_desc_loop_numeral [simp]:
  "block_desc_loop (numeral k) bsize =
     \<lparr>block_size = ucast bsize, blocks_per_arena = (PG_SIZE - sizeof_arena) div ucast bsize, free_list = []\<rparr>
     # block_desc_loop (pred_numeral k) (bsize * 2)"
  by (simp add: numeral_eq_Suc)

lemma block_desc_init_eq:
  "map block_size block_desc_init = [16, 32, 64, 128, 256, 512, 1024]"
  "map blocks_per_arena block_desc_init = [255, 127, 63, 31, 15, 7, 3]"
  by (simp_all add: block_desc_init_def DESC_CNT_def PG_SIZE_def sizeof_arena_def)

lemma length_descs [simp]: "length block_desc_init = 7"
  using arg_cong [OF block_desc_init_eq(1), of length] by simp

lemma desc_values:
  assumes "i < 7"
  shows "unat (block_size (block_desc_init ! i)) = 16 * 2 ^ i"
    "12 + unat (blocks_per_arena (block_desc_init ! i)) * unat (block_size (block_desc_init ! i)) \<le> 4096"
    "0 < unat (blocks_per_arena (block_desc_init ! i))"
proof -
  have v: "block_size (block_desc_init ! i) = [16, 32, 64, 128, 256, 512, 1024] ! i"
    "blocks_per_arena (block_desc_init ! i) = [255, 127, 63, 31, 15, 7, 3] ! i"
    using assms block_desc_init_eq by (metis length_descs nth_map)+
  have "i \<in> {0, 1, 2, 3, 4, 5, 6}" using assms by auto
  then show "unat (block_size (block_desc_init ! i)) = 16 * 2 ^ i"
    "12 + unat (blocks_per_arena (block_desc_init ! i)) * unat (block_size (block_desc_init ! i)) \<le> 4096"
    "0 < unat (blocks_per_arena (block_desc_init ! i))"
    unfolding v by (elim insertE emptyE; simp)+
qed

lemma frame_plus_low:
  assumes "frame a = a" "unat x < 4096"
  shows "frame (a + x) = a" "unat (a + x) = unat a + unat x"
proof -
  have "x = x AND mask 12"
    using assms(2) by (simp add: take_bit_eq_mask [symmetric] take_bit_eq_mod word_unat_eq_iff unat_mod)
  then have "a + x = frame a OR (x AND mask 12)" using frame_plus_offset [of a x] assms(1) by simp
  moreover have "frame (frame a OR (x AND mask 12)) = frame a"
    unfolding frame_bits by (rule bit_eqI) (auto simp: bit_simps)
  ultimately show "frame (a + x) = a" using assms(1) by simp
  obtain q where q: "unat a = 4096 * q" using assms(1) aligned_unat [of a] by (auto elim: dvdE)
  have "unat a < 4294967296" by simp
  then have "q < 1048576" using q by linarith
  then have "unat a + 4096 \<le> 4294967296" using q by linarith
  then show "unat (a + x) = unat a + unat x" using assms(2) by (intro unat_plus_small) linarith
qed

text \<open>The blocks of an arena tile its page behind the header, and \<open>block2arena\<close> leads back.\<close>

lemma arena_blocks_tile_the_page:
  assumes i: "i < 7" and a: "frame a = a" and hdr: "desc hdr = Some i"
    and idx: "idx < blocks_per_arena (block_desc_init ! i)" "jdx < blocks_per_arena (block_desc_init ! i)"
  shows "\<exists>b c. arena2block block_desc_init hdr a idx = Some b \<and> arena2block block_desc_init hdr a jdx = Some c \<and>
           block2arena b = a \<and> unat a + 12 \<le> unat b \<and>
           unat b + unat (block_size (block_desc_init ! i)) \<le> unat a + 4096 \<and>
           (idx < jdx \<longrightarrow> unat b + unat (block_size (block_desc_init ! i)) \<le> unat c)"
proof -
  let ?bs = "unat (block_size (block_desc_init ! i))" and ?n = "unat (blocks_per_arena (block_desc_init ! i))"
  note d = desc_values [OF i]
  have blk: "\<exists>b. arena2block block_desc_init hdr a k = Some b \<and> block2arena b = a \<and> unat b = unat a + 12 + unat k * ?bs \<and>
      unat k * ?bs + ?bs \<le> ?n * ?bs" if "k < blocks_per_arena (block_desc_init ! i)" for k
  proof -
    have "Suc (unat k) \<le> ?n" using that by (simp add: word_less_nat_alt)
    then have kb: "unat k * ?bs + ?bs \<le> ?n * ?bs" using mult_le_mono1 [of "Suc (unat k)" ?n ?bs] by simp
    have "0 < ?bs" using d(1) by simp
    then have lt: "12 + unat k * ?bs < 4096" using kb d(2) by linarith
    then have um: "unat (k * block_size (block_desc_init ! i)) = unat k * ?bs" by (simp add: unat_word_ariths)
    then have ux: "unat (sizeof_arena + k * block_size (block_desc_init ! i)) = 12 + unat k * ?bs"
      using lt by (simp add: unat_plus_small sizeof_arena_def)
    then have "unat (sizeof_arena + k * block_size (block_desc_init ! i)) < 4096" using lt by simp
    from frame_plus_low [OF a this] show ?thesis
      using hdr kb ux by (simp add: arena2block_def block2arena_def frame_def [symmetric] add.assoc)
  qed
  obtain b where b: "arena2block block_desc_init hdr a idx = Some b" "block2arena b = a" "unat b = unat a + 12 + unat idx * ?bs"
    "unat idx * ?bs + ?bs \<le> ?n * ?bs" using blk [OF idx(1)] by blast
  obtain c where c: "arena2block block_desc_init hdr a jdx = Some c" "unat c = unat a + 12 + unat jdx * ?bs"
    using blk [OF idx(2)] by blast
  have "unat idx * ?bs + ?bs \<le> unat jdx * ?bs" if "idx < jdx"
    using that mult_le_mono1 [of "Suc (unat idx)" "unat jdx" ?bs] by (simp add: word_less_nat_alt Suc_le_eq)
  then show ?thesis using b c d(2) by auto
qed

lemma arena_blocks_tile_the_page_demo:
  "\<exists>b. arena2block block_desc_init \<lparr>desc = Some 6, arena_cnt = 3, large = False\<rparr> 0xc0102000 2 = Some b \<and> block2arena b = 0xc0102000"
proof -
  have "blocks_per_arena (block_desc_init ! 6) = 3"
    by (simp add: block_desc_init_def DESC_CNT_def PG_SIZE_def sizeof_arena_def)
  then show ?thesis
    using arena_blocks_tile_the_page [of 6 "0xc0102000" "\<lparr>desc = Some 6, arena_cnt = 3, large = False\<rparr>" 2 2]
    by (auto simp: frame_def)
qed

end
