(* ===== verification/Process.thy ===== *)
theory Process
  imports DirSys Heap
begin

text \<open>
  The life of threads and processes: process identifiers, control blocks and first stacks
  (thread/thread.c), address spaces and the entry into user mode (userprog/process.c), exit and wait
  (userprog/wait_exit.c).

  The state adds the pool of process identifiers to the state of the file system, which
  already holds the memory manager and the scheduler.  The fields of control blocks are in the store \<open>tasks\<close>,
  the kernel stack above them in the page is physical memory, written through the page tables.  Addresses of code
  that is only jumped to (\<open>kernel_thread\<close>, \<open>start_process\<close>, \<open>init\<close>, \<open>idle\<close>) are arguments.
\<close>

section \<open>State\<close>

record proc = fs +
  pid_bitmap :: bitmap
  pid_start :: u32
  pid_lock :: lock

text \<open>Sizes of the structures \<open>intr_stack\<close> (19 words) and \<open>thread_stack\<close> (8 words).\<close>

definition sizeof_intr_stack :: u32 where "sizeof_intr_stack = 76"
definition sizeof_thread_stack :: u32 where "sizeof_thread_stack = 32"

definition default_prio :: u32 where "default_prio = 31"
definition USER_STACK3_VADDR :: u32 where "USER_STACK3_VADDR = 0xc0000000 - 0x1000"
definition USER_VADDR_START :: u32 where "USER_VADDR_START = 0x8048000"

section \<open>Process identifiers\<close>

definition pid_pool_init :: "'a proc_scheme \<Rightarrow> 'a proc_scheme" where
  "pid_pool_init s =
     s\<lparr>pid_start := 1, pid_bitmap := bitmap_init ((pid_bitmap s)\<lparr>btmp_bytes_len := 128\<rparr>), pid_lock := lock_init\<rparr>"

definition pid_acquire :: "'a proc_scheme \<Rightarrow> 'a proc_scheme option" where
  "pid_acquire s = do { (l, s) \<leftarrow> lock_acquire (pid_lock s) s; Some (s\<lparr>pid_lock := l\<rparr>) }"

definition pid_unlock :: "'a proc_scheme \<Rightarrow> 'a proc_scheme option" where
  "pid_unlock s = do { (l, s) \<leftarrow> lock_release (pid_lock s) s; Some (s\<lparr>pid_lock := l\<rparr>) }"

text \<open>The answer \<open>-1\<close> of \<open>bitmap_scan\<close> is used like an index, as in the source.\<close>

definition allocate_pid :: "'a proc_scheme \<Rightarrow> (u16 \<times> 'a proc_scheme) option" where
  "allocate_pid s =
     do {
       s \<leftarrow> pid_acquire s;
       bit_idx \<leftarrow> bitmap_scan (pid_bitmap s) 1;
       b \<leftarrow> bitmap_set (pid_bitmap s) bit_idx 1;
       s \<leftarrow> pid_unlock (s\<lparr>pid_bitmap := b\<rparr>);
       Some (ucast (bit_idx + pid_start s), s)
     }"

definition fork_pid :: "'a proc_scheme \<Rightarrow> (u16 \<times> 'a proc_scheme) option" where
  "fork_pid s = allocate_pid s"

definition release_pid :: "u16 \<Rightarrow> 'a proc_scheme \<Rightarrow> 'a proc_scheme option" where
  "release_pid p s =
     do {
       s \<leftarrow> pid_acquire s;
       let bit_idx = ucast p - pid_start s;
       b \<leftarrow> bitmap_set (pid_bitmap s) bit_idx 0;
       pid_unlock (s\<lparr>pid_bitmap := b\<rparr>)
     }"

section \<open>Threads\<close>

text \<open>\<open>memset(pthread, 0, sizeof(*pthread))\<close>; the headers of a process's arenas are not in its control block.\<close>

definition zero_task :: "task_struct \<Rightarrow> task_struct" where
  "zero_task t =
     \<lparr>self_kstack = 0, task_pid = 0, status = TASK_RUNNING, priority = 0, task_name = replicate 16 0, task_ticks = 0,
      elapsed_ticks = 0, pgdir = 0,
      userprog_vaddr = \<lparr>vaddr_bitmap = \<lparr>btmp_bytes_len = 0, bits = \<lambda>_. 0\<rparr>, vaddr_bits = 0, vaddr_start = 0\<rparr>,
      fd_table = replicate 8 0, cwd_inode_nr = 0, parent_pid = 0,
      u_block_desc = replicate DESC_CNT \<lparr>block_size = 0, blocks_per_arena = 0, free_list = []\<rparr>,
      u_arenas = u_arenas t, exit_status = 0, stack_magic = 0\<rparr>"

text \<open>A name of 16 characters or more overruns its field.\<close>

definition init_thread :: "u32 \<Rightarrow> u8 list \<Rightarrow> u32 \<Rightarrow> 'a proc_scheme \<Rightarrow> 'a proc_scheme option" where
  "init_thread pthread name prio s =
     do {
       ASSERT (pthread \<noteq> 0);
       let s = upd_task pthread zero_task s;
       (p, s) \<leftarrow> allocate_pid s;
       (if length name < 16 then Some () else None);
       Some (upd_task pthread (\<lambda>t. t\<lparr>
         task_pid := p,
         task_name := name @ replicate (16 - length name) 0,
         status := (if pthread = main_thread s then TASK_RUNNING else TASK_READY),
         priority := ucast prio, task_ticks := ucast prio, elapsed_ticks := 0, pgdir := 0,
         self_kstack := pthread + PG_SIZE,
         fd_table := [0, 1, 2, -1, -1, -1, -1, -1],
         cwd_inode_nr := 0, parent_pid := -1, stack_magic := 0x19870916\<rparr>) s)
     }"

text \<open>Stores of words at increasing addresses, the assignments to the fields of a stack structure.\<close>

fun vwrites :: "(u32 \<times> u32) list \<Rightarrow> 'a machine_scheme \<Rightarrow> 'a machine_scheme option" where
  "vwrites [] s = Some s"
| "vwrites ((a, v) # r) s = do { s \<leftarrow> vwrite a v s; vwrites r s }"

text \<open>
  \<open>self_kstack\<close> is a pointer to words, so each subtraction moves it by four times the size.  Fields of
  \<open>thread_stack\<close>: ebp, ebx, edi, esi at 0 to 12, eip at 16, function at 24, func\_arg at 28.
\<close>

definition thread_create :: "u32 \<Rightarrow> u32 \<Rightarrow> u32 \<Rightarrow> u32 \<Rightarrow> 'a sched_scheme \<Rightarrow> 'a sched_scheme option" where
  "thread_create kernel_thread pthread function func_arg s =
     (let k = self_kstack (tasks s pthread) - 4 * sizeof_intr_stack - 4 * sizeof_thread_stack;
          s = upd_task pthread (\<lambda>t. t\<lparr>self_kstack := k\<rparr>) s
      in vwrites [(k + 16, kernel_thread), (k + 24, function), (k + 28, func_arg),
                  (k + 12, 0), (k + 8, 0), (k + 4, 0), (k, 0)] s)"

text \<open>Both queues, with the assertions that the task is in neither.\<close>

definition enlist :: "u32 \<Rightarrow> 'a sched_scheme \<Rightarrow> 'a sched_scheme option" where
  "enlist t s =
     do {
       ASSERT (t \<notin> set (ready_list s));
       let s = s\<lparr>ready_list := ready_list s @ [t]\<rparr>;
       ASSERT (t \<notin> set (all_list s));
       Some (s\<lparr>all_list := all_list s @ [t]\<rparr>)
     }"

definition thread_start :: "u32 \<Rightarrow> u8 list \<Rightarrow> u32 \<Rightarrow> u32 \<Rightarrow> u32 \<Rightarrow> 'a proc_scheme \<Rightarrow> (u32 \<times> 'a proc_scheme) option" where
  "thread_start kernel_thread name prio function func_arg s =
     do {
       (thread, s) \<leftarrow> get_kernel_pages 1 s;
       s \<leftarrow> init_thread thread name prio s;
       s \<leftarrow> thread_create kernel_thread thread function func_arg s;
       s \<leftarrow> enlist thread s;
       Some (thread, s)
     }"

definition make_main_thread :: "'a proc_scheme \<Rightarrow> 'a proc_scheme option" where
  "make_main_thread s =
     do {
       let s = s\<lparr>main_thread := running_thread s\<rparr>;
       s \<leftarrow> init_thread (main_thread s) [109, 97, 105, 110] 31 s;
       ASSERT (main_thread s \<notin> set (all_list s));
       Some (s\<lparr>all_list := all_list s @ [main_thread s]\<rparr>)
     }"

section \<open>Processes\<close>

definition create_user_vaddr_bitmap :: "u32 \<Rightarrow> 'a proc_scheme \<Rightarrow> 'a proc_scheme option" where
  "create_user_vaddr_bitmap user_prog s =
     do {
       let bytes_len = (0xc0000000 - USER_VADDR_START) div PG_SIZE div 8;
       let bitmap_pg_cnt = DIV_ROUND_UP bytes_len PG_SIZE;
       (a, s) \<leftarrow> get_kernel_pages bitmap_pg_cnt s;
       ASSERT (a \<noteq> 0);
       Some (upd_task user_prog (\<lambda>t. t\<lparr>userprog_vaddr :=
         \<lparr>vaddr_bitmap = bitmap_init ((vaddr_bitmap (userprog_vaddr t))\<lparr>btmp_bytes_len := bytes_len\<rparr>),
          vaddr_bits = a, vaddr_start = USER_VADDR_START\<rparr>\<rparr>) s)
     }"

text \<open>A copy of whole words between two mapped areas.\<close>

fun vcopy :: "nat \<Rightarrow> u32 \<Rightarrow> u32 \<Rightarrow> 'a machine_scheme \<Rightarrow> 'a machine_scheme option" where
  "vcopy 0 dst src s = Some s"
| "vcopy (Suc n) dst src s =
     do { v \<leftarrow> vread s src; s \<leftarrow> vwrite dst v s; vcopy n (dst + 4) (src + 4) s }"

definition create_page_dir :: "'a memory_scheme \<Rightarrow> (u32 \<times> 'a memory_scheme) option" where
  "create_page_dir s =
     do {
       (page_dir_vaddr, s) \<leftarrow> get_kernel_pages 1 s;
       (if page_dir_vaddr = 0 then Some (0, s)
        else do {
          s \<leftarrow> vcopy 255 (page_dir_vaddr + 768 * 4) (0xfffff000 + 768 * 4) s;
          new_page_dir_phy_addr \<leftarrow> addr_v2p s page_dir_vaddr;
          s \<leftarrow> vwrite (page_dir_vaddr + 1023 * 4) (new_page_dir_phy_addr OR PG_US_U OR PG_RW_W OR PG_P_1) s;
          Some (page_dir_vaddr, s)
        })
     }"

definition process_execute :: "u32 \<Rightarrow> u32 \<Rightarrow> u32 \<Rightarrow> u8 list \<Rightarrow> 'a proc_scheme \<Rightarrow> 'a proc_scheme option" where
  "process_execute kernel_thread start_process entry name s =
     do {
       (thread, s) \<leftarrow> get_kernel_pages 1 s;
       s \<leftarrow> init_thread thread name default_prio s;
       s \<leftarrow> create_user_vaddr_bitmap thread s;
       s \<leftarrow> thread_create kernel_thread thread start_process entry s;
       (d, s) \<leftarrow> create_page_dir s;
       let s = upd_task thread (\<lambda>t. t\<lparr>pgdir := d, u_block_desc := block_desc_init\<rparr>) s;
       let (old_status, s) = intr_disable s;
       s \<leftarrow> enlist thread s;
       Some (snd (intr_set_status old_status s))
     }"

text \<open>\<open>thread_init\<close> without its messages; \<open>init_pc\<close> and \<open>idle_pc\<close> are the addresses of \<open>init\<close> and \<open>idle\<close>.\<close>

definition thread_init :: "u32 \<Rightarrow> u32 \<Rightarrow> u32 \<Rightarrow> u32 \<Rightarrow> 'a proc_scheme \<Rightarrow> 'a proc_scheme option" where
  "thread_init kernel_thread start_process init_pc idle_pc s =
     do {
       let s = pid_pool_init (s\<lparr>ready_list := [], all_list := []\<rparr>);
       s \<leftarrow> process_execute kernel_thread start_process init_pc [105, 110, 105, 116] s;
       s \<leftarrow> make_main_thread s;
       (t, s) \<leftarrow> thread_start kernel_thread [105, 100, 108, 101] 10 idle_pc 0 s;
       Some (s\<lparr>idle_thread := t\<rparr>)
     }"

text \<open>
  Entry into user mode, up to the jump to \<open>intr_exit\<close> with the stack pointer at the prepared \<open>intr_stack\<close>.
  Its fields: edi, esi, ebp, esp\_dummy, ebx, edx, ecx, eax at 4 to 32, gs, fs, es, ds at 36 to 48, eip, cs, eflags, esp, ss at 56 to 72.
\<close>

definition SELECTOR_U_CODE :: u32 where "SELECTOR_U_CODE = push_bit 3 5 + push_bit 2 0 + 3"
definition SELECTOR_U_DATA :: u32 where "SELECTOR_U_DATA = push_bit 3 6 + push_bit 2 0 + 3"
definition EFLAGS_MBS :: u32 where "EFLAGS_MBS = push_bit 1 1"
definition EFLAGS_IF_1 :: u32 where "EFLAGS_IF_1 = push_bit 9 1"
definition EFLAGS_IOPL_0 :: u32 where "EFLAGS_IOPL_0 = push_bit 12 0"

definition start_process :: "u32 \<Rightarrow> 'a memory_scheme \<Rightarrow> 'a memory_scheme option" where
  "start_process function s =
     do {
       let cur = running_thread s;
       let s = upd_task cur (\<lambda>t. t\<lparr>self_kstack := self_kstack t + 4 * sizeof_thread_stack\<rparr>) s;
       let k = self_kstack (tasks s cur);
       s \<leftarrow> vwrites [(k + 4, 0), (k + 8, 0), (k + 12, 0), (k + 16, 0), (k + 20, 0), (k + 24, 0), (k + 28, 0), (k + 32, 0),
                     (k + 36, 0), (k + 48, SELECTOR_U_DATA), (k + 44, SELECTOR_U_DATA), (k + 40, SELECTOR_U_DATA),
                     (k + 56, function), (k + 60, SELECTOR_U_CODE),
                     (k + 64, EFLAGS_IOPL_0 OR EFLAGS_MBS OR EFLAGS_IF_1)] s;
       (stk, s) \<leftarrow> get_a_page PF_USER USER_STACK3_VADDR s;
       s \<leftarrow> vwrites [(k + 68, stk + PG_SIZE), (k + 72, SELECTOR_U_DATA)] s;
       Some (s\<lparr>esp := k\<rparr>)
     }"

section \<open>Exit\<close>

text \<open>
  \<open>thread_exit\<close> reads the identifier from the control block after its page has been given back.  Unlinking a task
  that is in no list follows the pointers of a list it left, which the model refuses.
\<close>

definition thread_exit :: "u32 \<Rightarrow> bool \<Rightarrow> 'a proc_scheme \<Rightarrow> 'a proc_scheme option" where
  "thread_exit thread_over need_schedule s =
     do {
       let s = set_status thread_over TASK_DIED (snd (intr_disable s));
       let s = s\<lparr>ready_list := remove1 thread_over (ready_list s)\<rparr>;
       s \<leftarrow> (if pgdir (tasks s thread_over) \<noteq> 0 then mfree_page PF_KERNEL (pgdir (tasks s thread_over)) 1 s else Some s);
       (if thread_over \<in> set (all_list s) then Some () else None);
       let s = s\<lparr>all_list := remove1 thread_over (all_list s)\<rparr>;
       s \<leftarrow> (if thread_over \<noteq> main_thread s then mfree_page PF_KERNEL thread_over 1 s else Some s);
       s \<leftarrow> release_pid (task_pid (tasks s thread_over)) s;
       (if need_schedule then schedule s else Some s)
     }"

text \<open>The frames of the user half: the pages of each present table, then the table.\<close>

fun release_ptes :: "u32 \<Rightarrow> nat list \<Rightarrow> 'a memory_scheme \<Rightarrow> 'a memory_scheme option" where
  "release_ptes first_pte_vaddr [] s = Some s"
| "release_ptes first_pte_vaddr (pte_idx # r) s =
     do {
       pte \<leftarrow> vread s (first_pte_vaddr + of_nat pte_idx * 4);
       s \<leftarrow> (if pte AND 1 \<noteq> 0 then free_a_phy_page (pte AND 0xfffff000) s else Some s);
       release_ptes first_pte_vaddr r s
     }"

fun release_pdes :: "u32 \<Rightarrow> nat list \<Rightarrow> 'a memory_scheme \<Rightarrow> 'a memory_scheme option" where
  "release_pdes pgdir_vaddr [] s = Some s"
| "release_pdes pgdir_vaddr (pde_idx # r) s =
     do {
       pde \<leftarrow> vread s (pgdir_vaddr + of_nat pde_idx * 4);
       s \<leftarrow> (if pde AND 1 \<noteq> 0 then
               do {
                 s \<leftarrow> release_ptes (pte_ptr (of_nat pde_idx * 0x400000)) [0..<1024] s;
                 free_a_phy_page (pde AND 0xfffff000) s
               }
             else Some s);
       release_pdes pgdir_vaddr r s
     }"

fun release_fds :: "u32 \<Rightarrow> nat list \<Rightarrow> 'a fs_scheme \<Rightarrow> 'a fs_scheme option" where
  "release_fds t [] s = Some s"
| "release_fds t (local_fd # r) s =
     do {
       s \<leftarrow> (if fd_table (tasks s t) ! local_fd \<noteq> -1 then
               do {
                 pipe \<leftarrow> is_pipe (of_nat local_fd) s;
                 (if pipe then
                    do {
                      global_fd \<leftarrow> fd_local2global (of_nat local_fd) s;
                      ring_release global_fd (upd_file global_fd (\<lambda>f. f\<lparr>fd_pos := fd_pos f - 1\<rparr>) s)
                    }
                  else map_option snd (sys_close (of_nat local_fd) s))
               }
             else Some s);
       release_fds t r s
     }"

definition release_prog_resource :: "u32 \<Rightarrow> 'a fs_scheme \<Rightarrow> 'a fs_scheme option" where
  "release_prog_resource t s =
     do {
       s \<leftarrow> release_pdes (pgdir (tasks s t)) [0..<768] s;
       let v = userprog_vaddr (tasks s t);
       s \<leftarrow> mfree_page PF_KERNEL (vaddr_bits v) (btmp_bytes_len (vaddr_bitmap v) div PG_SIZE) s;
       release_fds t [3..<MAX_FILES_OPEN_PER_PROC] s
     }"

definition find_child :: "'a sched_scheme \<Rightarrow> u32 \<Rightarrow> u32 \<Rightarrow> bool" where
  "find_child s pthread ppid \<longleftrightarrow> scast (parent_pid (tasks s pthread)) = ppid"

definition find_hanging_child :: "'a sched_scheme \<Rightarrow> u32 \<Rightarrow> u32 \<Rightarrow> bool" where
  "find_hanging_child s pthread ppid \<longleftrightarrow>
     scast (parent_pid (tasks s pthread)) = ppid \<and> status (tasks s pthread) = TASK_HANGING"

definition init_adopt_a_child :: "u32 \<Rightarrow> u32 \<Rightarrow> 'a sched_scheme \<Rightarrow> 'a sched_scheme" where
  "init_adopt_a_child pthread p s =
     (if scast (parent_pid (tasks s pthread)) = p then upd_task pthread (\<lambda>t. t\<lparr>parent_pid := 1\<rparr>) s else s)"

definition adopt_children :: "u32 \<Rightarrow> 'a sched_scheme \<Rightarrow> 'a sched_scheme" where
  "adopt_children p s = fold (\<lambda>t. init_adopt_a_child t p) (all_list s) s"

text \<open>
  One round of the loop of \<open>sys_wait\<close>: \<open>Inr\<close> the result, stored through \<open>statusp\<close> in the caller's memory, or \<open>Inl\<close>
  the state in which the next task runs; the caller starts the next round when it is resumed.
\<close>

definition sys_wait :: "u32 \<Rightarrow> 'a proc_scheme \<Rightarrow> (intr_status \<times> 'a proc_scheme + u16 \<times> 'a proc_scheme) option" where
  "sys_wait statusp s =
     (let parent = running_thread s; ppid = ucast (task_pid (tasks s parent)) in
      case find (\<lambda>t. find_hanging_child s t ppid) (all_list s) of
        Some child \<Rightarrow>
          do {
            s \<leftarrow> vwrite statusp (scast (exit_status (tasks s child))) s;
            let child_pid = task_pid (tasks s child);
            s \<leftarrow> thread_exit child False s;
            Some (Inr (child_pid, s))
          }
      | None \<Rightarrow>
          (case find (\<lambda>t. find_child s t ppid) (all_list s) of
             None \<Rightarrow> Some (Inr (-1, s))
           | Some _ \<Rightarrow> map_option Inl (thread_block TASK_WAITING s)))"

text \<open>The parent is looked up without a test for \<open>NULL\<close>.\<close>

definition sys_exit :: "u32 \<Rightarrow> 'a proc_scheme \<Rightarrow> (intr_status \<times> 'a proc_scheme) option" where
  "sys_exit exit_st s =
     do {
       let child = running_thread s;
       let s = upd_task child (\<lambda>t. t\<lparr>exit_status := ucast exit_st\<rparr>) s;
       (if parent_pid (tasks s child) = -1 then panic_spin else Some ());
       let s = adopt_children (ucast (task_pid (tasks s child))) s;
       s \<leftarrow> release_prog_resource child s;
       let parent = pid2thread s (scast (parent_pid (tasks s child)));
       NONNULL parent;
       s \<leftarrow> (if status (tasks s parent) = TASK_WAITING then thread_unblock parent s else Some s);
       thread_block TASK_HANGING s
     }"


section \<open>Giving back one kernel page\<close>

text \<open>A page-aligned address that the kernel pool backs.\<close>

definition kernel_page :: "'a memory_scheme \<Rightarrow> u32 \<Rightarrow> bool" where
  "kernel_page s va \<longleftrightarrow>
     frame va = va \<and> table_private s va \<and>
     (\<exists>pa. mmu s va = Some pa \<and> pa \<ge> 0x102000 \<and> pa \<ge> phy_addr_start (kernel_pool s) \<and> pa < phy_addr_start (user_pool s))"

lemma frame_mod_0: "frame a = a \<Longrightarrow> a mod PG_SIZE = 0"
proof -
  assume "frame a = a"
  then have "4096 dvd unat a" by (simp only: aligned_unat)
  then show "a mod PG_SIZE = 0" by (simp add: PG_SIZE_def word_unat_eq_iff unat_mod dvd_imp_mod_0)
qed

lemma mmu_aligned: "mmu s va = Some pa \<Longrightarrow> frame va = va \<Longrightarrow> frame pa = pa"
proof -
  assume a: "mmu s va = Some pa" "frame va = va"
  have "frame va AND mask 12 = 0" by (rule bit_eqI) (simp add: frame_bits bit_simps)
  with a show "frame pa = pa" by (auto simp: mmu_def Let_def mask_consts(3) split: if_splits)
qed

lemma mmu_present: "mmu s va = Some pa \<Longrightarrow> present (phys s (pde_at s va))"
  by (auto simp: mmu_def Let_def split: if_splits)

text \<open>What giving back the page \<open>va\<close> does: the page is unmapped and nothing else changes but the pool's bitmaps.\<close>

definition page_freed :: "u32 \<Rightarrow> 'a memory_scheme \<Rightarrow> 'a memory_scheme \<Rightarrow> bool" where
  "page_freed va s s' \<longleftrightarrow>
     (\<exists>m kp kv. s' = s\<lparr>phys := m, kernel_pool := kp, kernel_vaddr := kv\<rparr> \<and> phy_addr_start kp = phy_addr_start (kernel_pool s)) \<and>
     self_mapped s' \<and> (\<forall>a. mmu s' a = (if frame a = va then None else mmu s a)) \<and>
     (\<forall>a. table_private s' a = table_private s a) \<and> (\<forall>a. phys s' (pde_at s a) = phys s (pde_at s a)) \<and>
     (\<forall>a. frame a \<noteq> frame (phys s (pde_at s va)) \<longrightarrow> phys s' a = phys s a)"

lemma mfree_kernel_eq:
  assumes self: "self_mapped s" and va: "frame va = va"
    and pa: "mmu s va = Some pa" "pa \<ge> 0x102000" "pa \<ge> phy_addr_start (kernel_pool s)" "pa < phy_addr_start (user_pool s)"
    and e: "e = phys s (pte_in (frame (phys s (pde_at s va))) va) AND NOT PG_P_1"
  shows "mfree_page PF_KERNEL va 1 s = Some (s\<lparr>phys := phys (set_pte va e s),
      kernel_pool := (kernel_pool s)\<lparr>pool_bitmap := set_bit_at (pool_bitmap (kernel_pool s)) ((pa - phy_addr_start (kernel_pool s)) div PG_SIZE) False\<rparr>,
      kernel_vaddr := (kernel_vaddr s)\<lparr>vaddr_bitmap := set_bit_at (vaddr_bitmap (kernel_vaddr s)) ((va - vaddr_start (kernel_vaddr s)) div PG_SIZE) False\<rparr>\<rparr>)"
    "\<not> present e"
proof -
  let ?kp = "(kernel_pool s)\<lparr>pool_bitmap := set_bit_at (pool_bitmap (kernel_pool s)) ((pa - phy_addr_start (kernel_pool s)) div PG_SIZE) False\<rparr>"
  note p = mmu_present [OF pa(1)]
  have s1: "pfree pa s = Some (s\<lparr>kernel_pool := ?kp\<rparr>)"
    using pa(4) by (simp add: pfree_def Let_def get_pool_def set_pool_def bitmap_set_0)
  have "page_table_pte_remove va (s\<lparr>kernel_pool := kp\<rparr>) = Some (s\<lparr>phys := phys (set_pte va e s), kernel_pool := kp\<rparr>)" for kp
    using p self vread_pte [of "s\<lparr>kernel_pool := kp\<rparr>" va] vwrite_pte [of "s\<lparr>kernel_pool := kp\<rparr>" va e]
    by (simp add: page_table_pte_remove_def self_mapped_def pde_at_def set_pte_def e)
  then show "mfree_page PF_KERNEL va 1 s = Some (s\<lparr>phys := phys (set_pte va e s), kernel_pool := ?kp,
      kernel_vaddr := (kernel_vaddr s)\<lparr>vaddr_bitmap := set_bit_at (vaddr_bitmap (kernel_vaddr s)) ((va - vaddr_start (kernel_vaddr s)) div PG_SIZE) False\<rparr>\<rparr>)"
    using pa frame_mod_0 [OF mmu_aligned [OF pa(1) va]] frame_mod_0 [OF va] s1 addr_v2p_agrees [OF self pa(1)]
    by (simp add: mfree_page_def mfree_kernel_loop_def vaddr_remove_def bitmap_set_0 Let_def)
  show "\<not> present e" by (simp add: e present_bit PG_P_1_def bit_simps)
qed

lemma mfree_kernel_page:
  assumes "self_mapped s" "kernel_page s va"
  obtains s' where "mfree_page PF_KERNEL va 1 s = Some s'" "page_freed va s s'"
proof -
  obtain pa where pa: "mmu s va = Some pa" "pa \<ge> 0x102000" "pa \<ge> phy_addr_start (kernel_pool s)" "pa < phy_addr_start (user_pool s)"
    and va: "frame va = va" "table_private s va"
    using assms(2) by (auto simp: kernel_page_def)
  note p = mmu_present [OF pa(1)]
  define e where "e = phys s (pte_in (frame (phys s (pde_at s va))) va) AND NOT PG_P_1"
  define kp where "kp = (kernel_pool s)\<lparr>pool_bitmap := set_bit_at (pool_bitmap (kernel_pool s)) ((pa - phy_addr_start (kernel_pool s)) div PG_SIZE) False\<rparr>"
  define kv where "kv = (kernel_vaddr s)\<lparr>vaddr_bitmap := set_bit_at (vaddr_bitmap (kernel_vaddr s)) ((va - vaddr_start (kernel_vaddr s)) div PG_SIZE) False\<rparr>"
  let ?m = "phys (set_pte va e s)"
  let ?s' = "s\<lparr>phys := ?m, kernel_pool := kp, kernel_vaddr := kv\<rparr>"
  note f = mfree_kernel_eq [OF assms(1) va(1) pa e_def, folded kp_def kv_def]
  have c: "phys ?s' = phys (set_pte va e s)" "cr3 ?s' = cr3 (set_pte va e s)" by simp_all
  have "?m a = phys s a" if "frame a \<noteq> frame (phys s (pde_at s va))" for a using that by (auto simp: set_pte_def)
  moreover have "\<exists>m q v. ?s' = s\<lparr>phys := m, kernel_pool := q, kernel_vaddr := v\<rparr> \<and> phy_addr_start q = phy_addr_start (kernel_pool s)"
    by (rule exI [of _ ?m], rule exI [of _ kp], rule exI [of _ kv]) (simp add: kp_def)
  ultimately have "page_freed va s ?s'"
    unfolding page_freed_def mmu_cong [OF c] self_mapped_cong [OF c] table_private_cong [OF c]
    using set_pte_self_mapped [OF va(2), of e] set_pte_mmu [OF va(2) p, of e] f(2)
      set_pte_private [OF va(2), of e] set_pte_pde [OF va(2), of e] assms(1) va(1) by (auto simp del: set_pte_fields)
  then show thesis using that f(1) by blast
qed

lemma page_freed_fields:
  assumes "page_freed va s s'"
  shows "self_mapped s'" "mmu s' a = (if frame a = va then None else mmu s a)" "table_private s' a = table_private s a"
    "phys s' (pde_at s a) = phys s (pde_at s a)" "frame a \<noteq> frame (phys s (pde_at s va)) \<Longrightarrow> phys s' a = phys s a"
    "pde_at s' a = pde_at s a" "cr3 s' = cr3 s" "esp s' = esp s" "eflags s' = eflags s" "tasks s' = tasks s" "ready_list s' = ready_list s"
    "all_list s' = all_list s" "main_thread s' = main_thread s" "idle_thread s' = idle_thread s" "user_pool s' = user_pool s"
    "phy_addr_start (kernel_pool s') = phy_addr_start (kernel_pool s)" "memory.more s' = memory.more s"
  using assms by (auto simp: page_freed_def pde_at_def)

lemma kernel_page_freed: "page_freed va s s' \<Longrightarrow> kernel_page s a \<Longrightarrow> a \<noteq> va \<Longrightarrow> kernel_page s' a"
  by (auto simp: kernel_page_def page_freed_fields)

section \<open>Identifiers\<close>

lemma proc_more: "memory.more s' = memory.more s \<Longrightarrow>
    pid_bitmap (s' :: 'a proc_scheme) = pid_bitmap s \<and> pid_start s' = pid_start s \<and> pid_lock s' = pid_lock s"
  by (cases s; cases s') simp

definition pid_pool_ok :: "'a proc_scheme \<Rightarrow> bool" where
  "pid_pool_ok s \<longleftrightarrow> btmp_bits (pid_bitmap s) = 1024 \<and> pid_start s = 1 \<and> lock_free (pid_lock s)"

definition pid_used :: "'a proc_scheme \<Rightarrow> u16 \<Rightarrow> bool" where
  "pid_used s p \<longleftrightarrow> 1 \<le> p \<and> p \<le> 1024 \<and> bit_at (pid_bitmap s) (unat p - 1)"

lemma pid_acquire_ok:
  assumes "lock_free (pid_lock s)" "running_thread s \<noteq> 0"
  obtains l where "pid_acquire s = Some (s\<lparr>pid_lock := l\<rparr>)" "lock_held (running_thread s) 1 l"
  using lock_acquire_free [OF assms] that by (fastforce simp: pid_acquire_def)

lemma pid_unlock_ok:
  assumes "lock_held (running_thread s) 1 (pid_lock s)"
  obtains l where "pid_unlock s = Some (s\<lparr>pid_lock := l\<rparr>)" "lock_free l"
  using lock_release_held [OF assms] that by (fastforce simp: pid_unlock_def)

lemma release_pid_ok:
  assumes "pid_pool_ok s" "running_thread s \<noteq> 0" "1 \<le> p" "p \<le> 1024"
  obtains b l where "release_pid p s = Some (s\<lparr>pid_bitmap := b, pid_lock := l\<rparr>)" "pid_pool_ok (s\<lparr>pid_bitmap := b, pid_lock := l\<rparr>)"
    "\<And>q. pid_used (s\<lparr>pid_bitmap := b, pid_lock := l\<rparr>) q \<longleftrightarrow> pid_used s q \<and> q \<noteq> p"
proof -
  let ?b = "set_bit_at (pid_bitmap s) (ucast p - 1) False"
  obtain l where l: "pid_acquire s = Some (s\<lparr>pid_lock := l\<rparr>)" "lock_held (running_thread s) 1 l"
    using assms by (auto simp: pid_pool_ok_def elim: pid_acquire_ok)
  obtain l' where l': "pid_unlock (s\<lparr>pid_lock := l, pid_bitmap := ?b\<rparr>) = Some (s\<lparr>pid_bitmap := ?b, pid_lock := l'\<rparr>)" "lock_free l'"
    using l(2) pid_unlock_ok [of "s\<lparr>pid_lock := l, pid_bitmap := ?b\<rparr>"] by (auto simp: running_thread_def)
  have rel: "release_pid p s = Some (s\<lparr>pid_bitmap := ?b, pid_lock := l'\<rparr>)"
    using l l' assms(1) by (simp add: release_pid_def Let_def bitmap_set_0 pid_pool_ok_def)
  have ok: "btmp_ok (pid_bitmap s)" "btmp_bits (pid_bitmap s) = 1024" using assms(1) by (simp_all add: pid_pool_ok_def btmp_ok_def)
  have up: "unat (ucast p - 1 :: u32) = unat p - 1"
    using assms(3) unat_sub_if' [of "ucast p :: u32" 1] by (simp add: word_le_nat_alt unat_u16_up)
  have "pid_used (s\<lparr>pid_bitmap := ?b, pid_lock := l'\<rparr>) q \<longleftrightarrow> pid_used s q \<and> q \<noteq> p" for q
  proof (cases "1 \<le> q \<and> q \<le> 1024")
    case True
    then have "unat q - 1 < 1024" "unat q - 1 = unat p - 1 \<longleftrightarrow> q = p"
      using assms(3) by (auto simp: word_le_nat_alt word_unat_eq_iff)
    then show ?thesis
      using btm.mark_used [OF bitmap_set_0, of "pid_bitmap s" "unat q - 1" "ucast p - 1"] ok up True
      by (auto simp: pid_used_def)
  qed (auto simp: pid_used_def)
  moreover have "pid_pool_ok (s\<lparr>pid_bitmap := ?b, pid_lock := l'\<rparr>)"
    using assms(1) l'(2) btm.mark_slots [OF bitmap_set_0, of "pid_bitmap s" "ucast p - 1"] by (simp add: pid_pool_ok_def)
  ultimately show thesis using that rel by blast
qed

section \<open>Collecting a child\<close>

text \<open>Physical words outside the page directory and the page tables.\<close>

definition data_word :: "'a machine_scheme \<Rightarrow> u32 \<Rightarrow> bool" where
  "data_word s pa \<longleftrightarrow> frame pa \<noteq> frame (cr3 s) \<and>
     (\<forall>a. present (phys s (pde_at s a)) \<longrightarrow> frame pa \<noteq> frame (phys s (pde_at s a)))"

lemma data_write:
  assumes "data_word s pa" and s'_def: "s' = s\<lparr>phys := (phys s)(pa := v)\<rparr>"
  shows "phys s' (pde_at s a) = phys s (pde_at s a)" "mmu s' a = mmu s a" "self_mapped s' = self_mapped s"
    "table_private s' a = table_private s a" "data_word s' pa"
proof -
  have d: "phys s' (pde_at s a) = phys s (pde_at s a)" for a
  proof -
    have "pde_at s a \<noteq> pa" using assms(1) frame_pde_at [of s a] by (auto simp: data_word_def)
    then show ?thesis by (simp add: s'_def)
  qed
  have at: "pde_at s' a = pde_at s a" for a by (simp add: s'_def pde_at_def)
  show "phys s' (pde_at s a) = phys s (pde_at s a)" by (rule d)
  show "mmu s' a = mmu s a"
  proof (cases "present (phys s (pde_at s a))")
    case True
    then have "pte_in (frame (phys s (pde_at s a))) a \<noteq> pa" using assms(1) by (auto simp: data_word_def)
    then show ?thesis using d at by (simp add: mmu_def Let_def s'_def)
  qed (simp add: mmu_def d at)
  show "self_mapped s' = self_mapped s" "table_private s' a = table_private s a" "data_word s' pa"
    using d d [of "-1"] at assms(1) by (simp_all add: self_mapped_def table_private_def data_word_def self_entry_at) (simp_all add: s'_def)
qed

text \<open>The control block and the page directory of a process that can be given back.\<close>

definition reapable :: "'a proc_scheme \<Rightarrow> u32 \<Rightarrow> bool" where
  "reapable s t \<longleftrightarrow> t \<noteq> main_thread s \<and> t \<ge> 0xc0000000 \<and> kernel_page s t \<and> 1 \<le> task_pid (tasks s t) \<and> task_pid (tasks s t) \<le> 1024 \<and>
     pgdir (tasks s t) \<ge> 0xc0000000 \<and> pgdir (tasks s t) \<noteq> t \<and> kernel_page s (pgdir (tasks s t))"

lemma thread_exit_ok:
  assumes "self_mapped s" "reapable s t" "t \<in> set (all_list s)" "pid_pool_ok s" "running_thread s \<noteq> 0"
  obtains s' where "thread_exit t False s = Some s'" "all_list s' = remove1 t (all_list s)" "ready_list s' = remove1 t (ready_list s)"
    "pid_pool_ok s'" "\<And>q. pid_used s' q \<longleftrightarrow> pid_used s q \<and> q \<noteq> task_pid (tasks s t)" "\<And>u. u \<noteq> t \<Longrightarrow> tasks s' u = tasks s u"
    "\<And>a. mmu s' a = (if frame a = t \<or> frame a = pgdir (tasks s t) then None else mmu s a)"
    "\<And>pa. data_word s pa \<Longrightarrow> phys s' pa = phys s pa"
proof -
  let ?d = "pgdir (tasks s t)"
  define s0 where "s0 = (set_status t TASK_DIED (snd (intr_disable s)))\<lparr>ready_list := remove1 t (ready_list s)\<rparr>"
  have s0: "phys s0 = phys s" "cr3 s0 = cr3 s" "esp s0 = esp s" "kernel_pool s0 = kernel_pool s" "user_pool s0 = user_pool s"
    "all_list s0 = all_list s" "main_thread s0 = main_thread s" "ready_list s0 = remove1 t (ready_list s)"
    "pid_bitmap s0 = pid_bitmap s" "pid_start s0 = pid_start s" "pid_lock s0 = pid_lock s"
    "tasks s0 = (tasks s)(t := (tasks s t)\<lparr>status := TASK_DIED\<rparr>)" "ready_list (snd (intr_disable s)) = ready_list s"
    by (simp_all add: s0_def set_status_def upd_task_def intr_disable_def cli_def)
  note eq0 = mmu_cong [OF s0(1,2)] self_mapped_cong [OF s0(1,2)] table_private_cong [OF s0(1,2)]
  have at0: "pde_at s0 a = pde_at s a" for a by (simp add: pde_at_def s0)
  have k: "kernel_page s0 ?d" "kernel_page s0 t" "self_mapped s0" "?d \<noteq> t" "?d \<noteq> 0" "t \<noteq> main_thread s"
    using assms(1,2) by (auto simp: reapable_def kernel_page_def s0 eq0)
  obtain s1 where s1: "mfree_page PF_KERNEL ?d 1 s0 = Some s1" "page_freed ?d s0 s1" by (rule mfree_kernel_page [OF k(3,1)])
  note f1 = page_freed_fields [OF s1(2)]
  define s2 where "s2 = s1\<lparr>all_list := remove1 t (all_list s)\<rparr>"
  have eq2: "phys s2 = phys s1" "cr3 s2 = cr3 s1" by (simp_all add: s2_def)
  note eq2' = mmu_cong [OF eq2] self_mapped_cong [OF eq2] table_private_cong [OF eq2]
  have k2: "kernel_page s2 t" "self_mapped s2"
    using kernel_page_freed [OF s1(2) k(2)] k(4) f1(1) by (simp_all add: kernel_page_def eq2') (simp add: s2_def)
  obtain s3 where s3: "mfree_page PF_KERNEL t 1 s2 = Some s3" "page_freed t s2 s3" by (rule mfree_kernel_page [OF k2(2,1)])
  note f3 = page_freed_fields [OF s3(2)]
  have m3: "pid_bitmap s3 = pid_bitmap s" "pid_start s3 = pid_start s" "pid_lock s3 = pid_lock s"
    using proc_more [OF f1(17)] proc_more [OF f3(17)] s0 by (simp_all add: s2_def)
  have p3: "pid_pool_ok s3" "running_thread s3 \<noteq> 0" "1 \<le> task_pid (tasks s t)" "task_pid (tasks s t) \<le> 1024"
    using assms(2,4,5) by (simp_all add: m3 pid_pool_ok_def reapable_def running_thread_def f3 s2_def f1 s0)
  obtain b l where r: "release_pid (task_pid (tasks s t)) s3 = Some (s3\<lparr>pid_bitmap := b, pid_lock := l\<rparr>)"
    "pid_pool_ok (s3\<lparr>pid_bitmap := b, pid_lock := l\<rparr>)"
    "\<And>q. pid_used (s3\<lparr>pid_bitmap := b, pid_lock := l\<rparr>) q \<longleftrightarrow> pid_used s3 q \<and> q \<noteq> task_pid (tasks s t)"
    by (rule release_pid_ok [OF p3]) blast
  let ?s' = "s3\<lparr>pid_bitmap := b, pid_lock := l\<rparr>"
  have g: "all_list s3 = remove1 t (all_list s)" "ready_list s3 = remove1 t (ready_list s)" "tasks s3 = tasks s0" "pid_used s3 q = pid_used s q"
    for q by (simp_all add: f3 s2_def f1 s0 pid_used_def m3)
  have e0: "(set_status t TASK_DIED (snd (intr_disable s)))\<lparr>ready_list := remove1 t (ready_list (set_status t TASK_DIED (snd (intr_disable s))))\<rparr> = s0"
    by (simp only: s0_def set_status_def upd_task_fields s0(13))
  have e1: "s1\<lparr>all_list := remove1 t (all_list s1)\<rparr> = s2" by (simp only: s2_def f1(12) s0(6))
  have e: "pgdir (tasks s0 t) = ?d" "t \<in> set (all_list s1)" "main_thread s2 = main_thread s" "task_pid (tasks s3 t) = task_pid (tasks s t)"
    using assms(3) by (simp_all add: g(3) s0 s2_def f1)
  have ex: "thread_exit t False s = Some ?s'"
    unfolding thread_exit_def Let_def e0 e(1) by (simp only: e s1(1) s3(1) r(1) k(5,6) e1 Option.bind.simps if_True if_False simp_thms)
  have mm: "mmu ?s' a = (if frame a = t \<or> frame a = ?d then None else mmu s a)" for a
    using mmu_cong [of ?s' s3 a] f3(2) [of a] f1(2) [of a] by (simp add: eq0 eq2')
  have pres: "present (phys s (pde_at s t))" "present (phys s (pde_at s ?d))"
    using assms(2) mmu_present by (auto simp: reapable_def kernel_page_def)
  have ph: "phys ?s' pa = phys s pa" if "data_word s pa" for pa
    using that pres f1(4) [of t] f1(5) [of pa] f3(5) [of pa] by (auto simp: data_word_def at0 s0 eq2 pde_at_def f1)
  show thesis using that [OF ex] r(2,3) mm ph by (simp add: g s0)
qed

definition children :: "'a sched_scheme \<Rightarrow> u32 list" where
  "children s = filter (\<lambda>t. scast (parent_pid (tasks s t)) = (ucast (task_pid (tasks s (running_thread s))) :: u32)) (all_list s)"

definition zombies :: "'a sched_scheme \<Rightarrow> u32 list" where
  "zombies s = filter (\<lambda>t. status (tasks s t) = TASK_HANGING) (children s)"

lemma find_filter: "find P xs = (case filter P xs of [] \<Rightarrow> None | x # _ \<Rightarrow> Some x)"
  by (induction xs) auto

lemma sys_wait_cases:
  "sys_wait statusp s =
     (if zombies s \<noteq> [] then
        let c = hd (zombies s) in
        do { s1 \<leftarrow> vwrite statusp (scast (exit_status (tasks s c))) s; s2 \<leftarrow> thread_exit c False s1; Some (Inr (task_pid (tasks s c), s2)) }
      else if children s = [] then Some (Inr (-1, s))
      else map_option Inl (thread_block TASK_WAITING s))"
proof -
  have f: "filter (\<lambda>t. find_hanging_child s t (ucast (task_pid (tasks s (running_thread s))))) (all_list s) = zombies s"
    "filter (\<lambda>t. find_child s t (ucast (task_pid (tasks s (running_thread s))))) (all_list s) = children s"
    by (auto simp: zombies_def children_def find_hanging_child_def find_child_def intro: filter_cong)
  have "tasks s1 = tasks s" if "vwrite a v s = Some s1" for a v s1 using that by (auto simp: vwrite_def)
  then show ?thesis
    by (auto simp: sys_wait_def Let_def find_filter f split: list.split Option.bind_splits)
qed

section \<open>Properties\<close>


text \<open>The main task with a child that exited with status 7; its identifier is 2.\<close>

definition demo_zombie :: task_struct where
  "demo_zombie = (demo_task 0xc0101000 TASK_HANGING)\<lparr>task_pid := 2, parent_pid := 1, pgdir := 0xc0102000, exit_status := 7\<rparr>"

definition demo_phys :: "u32 \<Rightarrow> u32" where
  "demo_phys = (\<lambda>_. 0)(0x100ffc := 0x100007, 0x100c00 := 0x101007, 0x100080 := 0x103007,
     0x101404 := 0x201007, 0x101408 := 0x202007, 0x103120 := 0x210007)"

definition demo_proc :: proc where
  "demo_proc = fs.extend (demo_fs\<lparr>phys := demo_phys, tasks := (tasks demo_sched)(0xc0101000 := demo_zombie), ready_list := []\<rparr>)
     \<lparr>pid_bitmap = \<lparr>btmp_bytes_len = 128, bits = (\<lambda>_. 3)\<rparr>, pid_start = 1, pid_lock = lock_init\<rparr>"

lemma demo_proc_fields [simp]:
  "phys demo_proc = demo_phys" "cr3 demo_proc = 0x100000" "running_thread demo_proc = 0xc009e000"
  "tasks demo_proc = (tasks demo_sched)(0xc0101000 := demo_zombie)" "all_list demo_proc = [0xc009e000, 0xc0100000, 0xc0101000]"
  "main_thread demo_proc = 0xc009e000" "phy_addr_start (kernel_pool demo_proc) = 0x200000" "phy_addr_start (user_pool demo_proc) = 0x208000"
  "pid_start demo_proc = 1" "pid_lock demo_proc = lock_init" "btmp_bits (pid_bitmap demo_proc) = 1024"
  by (simp_all add: demo_proc_def fs.defs demo_fs_def memory.defs demo_memory_def running_thread_def btmp_bits_def)

lemma demo_proc_pde:
  "demo_phys (pde_at demo_proc a) = (if pde_at demo_proc a = 0x100ffc then 0x100007 else if pde_at demo_proc a = 0x100c00 then 0x101007
     else if pde_at demo_proc a = 0x100080 then 0x103007 else 0)"
proof -
  have "pde_at demo_proc a \<noteq> x" if "frame x \<noteq> 0x100000" for x
    using that frame_pde_at [of demo_proc a] by (auto simp: frame_def)
  from this [of "0x101404"] this [of "0x101408"] this [of "0x103120"] show ?thesis by (simp add: demo_phys_def frame_def)
qed

lemma demo_proc_mmu:
  "mmu demo_proc 0xc0101000 = Some 0x201000" "mmu demo_proc 0xc0102000 = Some 0x202000" "mmu demo_proc 0x08048000 = Some 0x210000"
  by (simp_all add: mmu_def pde_at_def pte_in_def demo_phys_def frame_def present_def PDE_IDX_def PTE_IDX_def Let_def)

lemma demo_proc_table: "table_private demo_proc a" if "PDE_IDX a = 768"
proof -
  have at: "pde_at demo_proc 0xc0101000 = 0x100c00" "PDE_IDX 0xc0101000 = 768" by (simp_all add: pde_at_def frame_def PDE_IDX_def)
  then have "pde_at demo_proc a = 0x100c00" using that pde_at_inj [of demo_proc a "0xc0101000"] by simp
  moreover have "PDE_IDX b = 768" if "pde_at demo_proc b = 0x100c00" for b
    using that at pde_at_inj [of demo_proc b "0xc0101000"] by simp
  moreover have "demo_phys 0x100c00 = 0x101007" by (simp add: demo_phys_def)
  ultimately show ?thesis using that by (auto simp: table_private_def demo_proc_pde Let_def frame_def present_def split: if_splits)
qed

lemma demo_proc_ok:
  "self_mapped demo_proc" "data_word demo_proc 0x210000" "pid_pool_ok demo_proc" "zombies demo_proc = [0xc0101000]" "reapable demo_proc 0xc0101000"
proof -
  show "self_mapped demo_proc" by (simp add: self_mapped_def demo_phys_def frame_def present_def Let_def mask_eq_exp_minus_1)
  show "data_word demo_proc 0x210000" by (simp add: data_word_def demo_proc_pde frame_def)
  show "pid_pool_ok demo_proc" by (simp add: pid_pool_ok_def)
  show "zombies demo_proc = [0xc0101000]"
    by (simp add: zombies_def children_def demo_zombie_def demo_sched_def demo_task_def)
  have "PDE_IDX 0xc0101000 = 768" "PDE_IDX 0xc0102000 = 768" by (simp_all add: PDE_IDX_def)
  then show "reapable demo_proc 0xc0101000"
    by (simp add: reapable_def kernel_page_def demo_zombie_def demo_proc_mmu demo_proc_table frame_def)
qed

end
