(* ===== verification/Fork.thy ===== *)
theory Fork
  imports Process
begin

text \<open>
  Duplication of a process, userprog/fork.c.  The page of the control block is copied as the record in
  \<open>tasks\<close> and, for the kernel stack, as the words of the page.  The address bitmap is a value inside the control block, so
  copying its pages amounts to the record copy and the change of their address.  The failure
  returns keep what was allocated before, as in the source.
\<close>

section \<open>Control block and bitmap\<close>

definition copy_pcb_vaddrbitmap_stack0 :: "u32 \<Rightarrow> u32 \<Rightarrow> 'a proc_scheme \<Rightarrow> (bool \<times> 'a proc_scheme) option" where
  "copy_pcb_vaddrbitmap_stack0 child parent s =
     do {
       s \<leftarrow> vcopy 1024 child parent s;
       let s = upd_task child (\<lambda>_. tasks s parent) s;
       (p, s) \<leftarrow> fork_pid s;
       let s = upd_task child (\<lambda>t. t\<lparr>task_pid := p, elapsed_ticks := 0, status := TASK_READY, task_ticks := priority t,
                                parent_pid := task_pid (tasks s parent), u_block_desc := block_desc_init\<rparr>) s;
       let bitmap_pg_cnt = DIV_ROUND_UP ((0xc0000000 - USER_VADDR_START) div PG_SIZE div 8) PG_SIZE;
       (vaddr_btmp, s) \<leftarrow> get_kernel_pages bitmap_pg_cnt s;
       Some (if vaddr_btmp = 0 then (False, s)
             else (True, upd_task child (\<lambda>t. t\<lparr>userprog_vaddr := (userprog_vaddr t)\<lparr>vaddr_bits := vaddr_btmp\<rparr>\<rparr>) s))
     }"

section \<open>Pages of the process\<close>

text \<open>One page, through the kernel buffer: read under the parent's page tables, written under the child's.\<close>

definition copy_page :: "u32 \<Rightarrow> u32 \<Rightarrow> u32 \<Rightarrow> u32 \<Rightarrow> 'a memory_scheme \<Rightarrow> 'a memory_scheme option" where
  "copy_page child parent buf_page prog_vaddr s =
     do {
       s \<leftarrow> vcopy 1024 buf_page prog_vaddr s;
       s \<leftarrow> page_dir_activate child s;
       (_, s) \<leftarrow> get_a_page_without_opvaddrbitmap PF_USER prog_vaddr s;
       s \<leftarrow> vcopy 1024 prog_vaddr buf_page s;
       page_dir_activate parent s
     }"

fun copy_bits :: "nat list \<Rightarrow> nat \<Rightarrow> u8 \<Rightarrow> u32 \<Rightarrow> u32 \<Rightarrow> u32 \<Rightarrow> u32 \<Rightarrow> 'a memory_scheme \<Rightarrow> 'a memory_scheme option" where
  "copy_bits [] idx_byte byte vstart child parent buf_page s = Some s"
| "copy_bits (idx_bit # r) idx_byte byte vstart child parent buf_page s =
     do {
       s \<leftarrow> (if push_bit idx_bit BITMAP_MASK AND byte \<noteq> 0
              then copy_page child parent buf_page ((of_nat idx_byte * 8 + of_nat idx_bit) * PG_SIZE + vstart) s
              else Some s);
       copy_bits r idx_byte byte vstart child parent buf_page s
     }"

fun copy_bytes :: "nat list \<Rightarrow> bitmap \<Rightarrow> u32 \<Rightarrow> u32 \<Rightarrow> u32 \<Rightarrow> u32 \<Rightarrow> 'a memory_scheme \<Rightarrow> 'a memory_scheme option" where
  "copy_bytes [] btmp vstart child parent buf_page s = Some s"
| "copy_bytes (idx_byte # r) btmp vstart child parent buf_page s =
     do {
       s \<leftarrow> (if bits btmp (of_nat idx_byte) \<noteq> 0
              then copy_bits [0..<8] idx_byte (bits btmp (of_nat idx_byte)) vstart child parent buf_page s else Some s);
       copy_bytes r btmp vstart child parent buf_page s
     }"

definition copy_body_stack3 :: "u32 \<Rightarrow> u32 \<Rightarrow> u32 \<Rightarrow> 'a memory_scheme \<Rightarrow> 'a memory_scheme option" where
  "copy_body_stack3 child parent buf_page s =
     (let v = userprog_vaddr (tasks s parent) in
      copy_bytes [0..<unat (btmp_bytes_len (vaddr_bitmap v))] (vaddr_bitmap v) (vaddr_start v) child parent buf_page s)"

section \<open>Kernel stack and files\<close>

text \<open>The child leaves the kernel through \<open>intr_exit\<close> with 0 in the saved \<open>eax\<close>.\<close>

definition build_child_stack :: "u32 \<Rightarrow> u32 \<Rightarrow> 'a sched_scheme \<Rightarrow> 'a sched_scheme option" where
  "build_child_stack intr_exit child s =
     do {
       let intr_0_stack = child + PG_SIZE - sizeof_intr_stack;
       s \<leftarrow> vwrites [(intr_0_stack + 32, 0), (intr_0_stack - 4, intr_exit),
                     (intr_0_stack - 8, 0), (intr_0_stack - 12, 0), (intr_0_stack - 16, 0), (intr_0_stack - 20, 0)] s;
       Some (upd_task child (\<lambda>t. t\<lparr>self_kstack := intr_0_stack - 20\<rparr>) s)
     }"

fun update_inode_open_cnts :: "nat list \<Rightarrow> u32 \<Rightarrow> 'a fs_scheme \<Rightarrow> 'a fs_scheme option" where
  "update_inode_open_cnts [] thread s = Some s"
| "update_inode_open_cnts (local_fd # r) thread s =
     do {
       let global_fd = fd_table (tasks s thread) ! local_fd;
       ASSERT (sint global_fd < 32);
       s \<leftarrow> (if global_fd \<noteq> -1 then
               do {
                 pipe \<leftarrow> is_pipe (of_nat local_fd) s;
                 Some (if pipe then upd_file (unat global_fd) (\<lambda>f. f\<lparr>fd_pos := fd_pos f + 1\<rparr>) s
                       else upd_inode (fd_inode (file_table s ! unat global_fd)) (\<lambda>i. i\<lparr>i_open_cnts := i_open_cnts i + 1\<rparr>) s)
               }
             else Some s);
       update_inode_open_cnts r thread s
     }"

section \<open>fork\<close>

definition copy_process :: "u32 \<Rightarrow> u32 \<Rightarrow> u32 \<Rightarrow> 'a proc_scheme \<Rightarrow> (bool \<times> 'a proc_scheme) option" where
  "copy_process intr_exit child parent s =
     do {
       (buf_page, s) \<leftarrow> get_kernel_pages 1 s;
       (if buf_page = 0 then Some (False, s)
        else do {
          (ok, s) \<leftarrow> copy_pcb_vaddrbitmap_stack0 child parent s;
          (if \<not> ok then Some (False, s)
           else do {
             (d, s) \<leftarrow> create_page_dir s;
             let s = upd_task child (\<lambda>t. t\<lparr>pgdir := d\<rparr>) s;
             (if d = 0 then Some (False, s)
              else do {
                s \<leftarrow> copy_body_stack3 child parent buf_page s;
                s \<leftarrow> build_child_stack intr_exit child s;
                s \<leftarrow> update_inode_open_cnts [3..<MAX_FILES_OPEN_PER_PROC] child s;
                s \<leftarrow> mfree_page PF_KERNEL buf_page 1 s;
                Some (True, s)
              })
           })
        })
     }"

definition sys_fork :: "u32 \<Rightarrow> 'a proc_scheme \<Rightarrow> (u16 \<times> 'a proc_scheme) option" where
  "sys_fork intr_exit s =
     do {
       let parent = running_thread s;
       (child, s) \<leftarrow> get_kernel_pages 1 s;
       (if child = 0 then Some (-1, s)
        else do {
          ASSERT (INTR_OFF = intr_get_status s \<and> pgdir (tasks s parent) \<noteq> 0);
          (ok, s) \<leftarrow> copy_process intr_exit child parent s;
          (if \<not> ok then Some (-1, s)
           else do { s \<leftarrow> enlist child s; Some (task_pid (tasks s child), s) })
        })
     }"

end
