(* ===== verification/Exec.thy ===== *)
theory Exec
  imports Process
begin

text \<open>
  Replacement of the program of a process, userprog/exec.c: the program file is read through the file system, its
  loadable segments are mapped and filled, and the saved user context is changed.  User memory is written byte by byte
  through the page tables.  The descriptor comes from \<open>sys_open\<close>, so reads of it never wait for another task.
\<close>

section \<open>File format\<close>

definition rd16 :: "u8 list \<Rightarrow> nat \<Rightarrow> u16" where
  "rd16 xs k = ucast (xs ! k) OR push_bit 8 (ucast (xs ! (k + 1)))"

record Elf32_Ehdr =
  e_ident :: "u8 list"
  e_type :: u16
  e_machine :: u16
  e_version :: u32
  e_entry :: u32
  e_phoff :: u32
  e_phentsize :: u16
  e_phnum :: u16

text \<open>Only the fields that are used; the header has 52 bytes, a program header 32.\<close>

definition dec_ehdr :: "u8 list \<Rightarrow> Elf32_Ehdr" where
  "dec_ehdr bs = \<lparr>e_ident = take 16 bs, e_type = rd16 bs 16, e_machine = rd16 bs 18, e_version = rd32 bs 20, e_entry = rd32 bs 24,
     e_phoff = rd32 bs 28, e_phentsize = rd16 bs 42, e_phnum = rd16 bs 44\<rparr>"

record Elf32_Phdr =
  p_type :: u32
  p_offset :: u32
  p_vaddr :: u32
  p_filesz :: u32

definition dec_phdr :: "u8 list \<Rightarrow> Elf32_Phdr" where
  "dec_phdr bs = \<lparr>p_type = rd32 bs 0, p_offset = rd32 bs 4, p_vaddr = rd32 bs 8, p_filesz = rd32 bs 16\<rparr>"

definition sizeof_ehdr :: u32 where "sizeof_ehdr = 52"
definition sizeof_phdr :: u32 where "sizeof_phdr = 32"
definition PT_LOAD :: u32 where "PT_LOAD = 1"

definition elf_ok :: "Elf32_Ehdr \<Rightarrow> bool" where
  "elf_ok h \<longleftrightarrow> take 7 (e_ident h) = [127, 69, 76, 70, 1, 1, 1] \<and> e_type h = 2 \<and> e_machine h = 3 \<and> e_version h = 1 \<and>
     e_phnum h \<le> 1024 \<and> ucast (e_phentsize h) = sizeof_phdr"

section \<open>User memory\<close>

definition vwrite_byte :: "u32 \<Rightarrow> u8 \<Rightarrow> 'a machine_scheme \<Rightarrow> 'a machine_scheme option" where
  "vwrite_byte a b s =
     do {
       let sh = 8 * unat (a AND 3);
       w \<leftarrow> vread s (a AND NOT 3);
       vwrite (a AND NOT 3) ((w AND NOT (push_bit sh 0xff)) OR push_bit sh (ucast b)) s
     }"

fun vwrite_bytes :: "u32 \<Rightarrow> u8 list \<Rightarrow> 'a machine_scheme \<Rightarrow> 'a machine_scheme option" where
  "vwrite_bytes a [] s = Some s"
| "vwrite_bytes a (b # bs) s = do { s \<leftarrow> vwrite_byte a b s; vwrite_bytes (a + 1) bs s }"

section \<open>Loading\<close>

definition read_file :: "u32 \<Rightarrow> u32 \<Rightarrow> u32 \<Rightarrow> 'a fs_scheme \<Rightarrow> (u32 \<times> u8 list \<times> 'a fs_scheme) option" where
  "read_file fd bf count s = do { r \<leftarrow> sys_read fd bf count s; (case r of Inl _ \<Rightarrow> None | Inr x \<Rightarrow> Some x) }"

definition occupy_pages :: "u32 \<Rightarrow> u32 \<Rightarrow> u32" where
  "occupy_pages vaddr filesz =
     (let size_in_first_page = PG_SIZE - (vaddr AND 0x00000fff) in
      if filesz > size_in_first_page then DIV_ROUND_UP (filesz - size_in_first_page) PG_SIZE + 1 else 1)"

fun load_pages :: "nat \<Rightarrow> u32 \<Rightarrow> 'a memory_scheme \<Rightarrow> (bool \<times> 'a memory_scheme) option" where
  "load_pages 0 vaddr_page s = Some (True, s)"
| "load_pages (Suc n) vaddr_page s =
     do {
       pde \<leftarrow> vread s (pde_ptr vaddr_page);
       mapped \<leftarrow> (if pde AND 1 = 0 then Some False else do { pte \<leftarrow> vread s (pte_ptr vaddr_page); Some (pte AND 1 \<noteq> 0) });
       (if mapped then load_pages n (vaddr_page + PG_SIZE) s
        else do {
          (a, s) \<leftarrow> get_a_page PF_USER vaddr_page s;
          (if a = 0 then Some (False, s) else load_pages n (vaddr_page + PG_SIZE) s)
        })
     }"

definition segment_load :: "u32 \<Rightarrow> u32 \<Rightarrow> u32 \<Rightarrow> u32 \<Rightarrow> 'a fs_scheme \<Rightarrow> (bool \<times> 'a fs_scheme) option" where
  "segment_load fd offset filesz vaddr s =
     do {
       (ok, s) \<leftarrow> load_pages (unat (occupy_pages vaddr filesz)) (vaddr AND 0xfffff000) s;
       (if \<not> ok then Some (False, s)
        else do {
          (_, s) \<leftarrow> sys_lseek fd offset SEEK_SET s;
          (_, bs, s) \<leftarrow> read_file fd vaddr filesz s;
          s \<leftarrow> vwrite_bytes vaddr bs s;
          Some (True, s)
        })
     }"

text \<open>The program headers; the headers are read into local variables, at addresses on the kernel stack.\<close>

fun load_segments :: "nat \<Rightarrow> u32 \<Rightarrow> u32 \<Rightarrow> u32 \<Rightarrow> 'a fs_scheme \<Rightarrow> (bool \<times> 'a fs_scheme) option" where
  "load_segments 0 fd prog_header_size prog_header_offset s = Some (True, s)"
| "load_segments (Suc n) fd prog_header_size prog_header_offset s =
     do {
       (_, s) \<leftarrow> sys_lseek fd prog_header_offset SEEK_SET s;
       (r, bs, s) \<leftarrow> read_file fd (esp s) prog_header_size s;
       (if r \<noteq> prog_header_size then Some (False, s)
        else do {
          let h = dec_phdr bs;
          (ok, s) \<leftarrow> (if p_type h = PT_LOAD then segment_load fd (p_offset h) (p_filesz h) (p_vaddr h) s else Some (True, s));
          (if ok then load_segments n fd prog_header_size (prog_header_offset + prog_header_size) s else Some (False, s))
        })
     }"

definition load_image :: "u32 \<Rightarrow> 'a fs_scheme \<Rightarrow> (u32 \<times> 'a fs_scheme) option" where
  "load_image fd s =
     do {
       (r, bs, s) \<leftarrow> read_file fd (esp s) sizeof_ehdr s;
       (if r \<noteq> sizeof_ehdr then Some (-1, s)
        else do {
          let h = dec_ehdr bs;
          (if \<not> elf_ok h then Some (-1, s)
           else do {
             (ok, s) \<leftarrow> load_segments (unat (e_phnum h)) fd (ucast (e_phentsize h)) (e_phoff h) s;
             Some (if ok then e_entry h else -1, s)
           })
        })
     }"

definition load :: "u8 list \<Rightarrow> 'a fs_scheme \<Rightarrow> (u32 \<times> 'a fs_scheme) option" where
  "load pathname s =
     do {
       (fd, s) \<leftarrow> sys_open pathname (ucast O_RDONLY) s;
       (if fd = -1 then Some (-1, s)
        else do {
          (ret, s) \<leftarrow> load_image fd s;
          (_, s) \<leftarrow> sys_close fd s;
          Some (ret, s)
        })
     }"

section \<open>execv\<close>

partial_function (option) count_args :: "u32 \<Rightarrow> u32 \<Rightarrow> 'a machine_scheme \<Rightarrow> u32 option" where
  "count_args argv argc s =
     do { p \<leftarrow> vread s (argv + 4 * argc); (if p \<noteq> 0 then count_args argv (argc + 1) s else Some argc) }"

text \<open>
  \<open>after\<close> are the bytes behind the path's terminating 0, of which \<open>memcpy\<close> copies some when the path is short.
  \<open>Inl\<close>: failure, with result -1; \<open>Inr\<close>: the state in which \<open>intr_exit\<close> pops the changed context.
\<close>

definition sys_execv :: "u8 list \<Rightarrow> u8 list \<Rightarrow> u32 \<Rightarrow> 'a proc_scheme \<Rightarrow> ('a proc_scheme + 'a proc_scheme) option" where
  "sys_execv path after argv s =
     do {
       argc \<leftarrow> count_args argv 0 s;
       (entry_point, s) \<leftarrow> load path s;
       (if entry_point = -1 then Some (Inl s)
        else do {
          let cur = running_thread s;
          let s = upd_task cur (\<lambda>t. t\<lparr>task_name := take 15 (path @ 0 # after) @ [0]\<rparr>) s;
          let k = cur + PG_SIZE - sizeof_intr_stack;
          s \<leftarrow> vwrites [(k + 20, argv), (k + 28, argc), (k + 56, entry_point), (k + 68, 0xc0000000)] s;
          Some (Inr (s\<lparr>esp := k\<rparr>))
        })
     }"

section \<open>Pages of a segment\<close>

text \<open>The pages that \<open>segment_load\<close> maps are exactly those that the bytes of a non-empty segment touch.\<close>

lemma unat_round_up: "unat x + 4095 < 2 ^ 32 \<Longrightarrow> unat (DIV_ROUND_UP x PG_SIZE) = (unat x + 4095) div 4096"
  by (simp add: DIV_ROUND_UP_def PG_SIZE_def unat_div unat_word_ariths)

lemma occupy_pages_exact:
  assumes "0 < unat filesz" "unat vaddr + unat filesz + 4096 \<le> 2 ^ 32"
  shows "unat (occupy_pages vaddr filesz) = (unat vaddr + unat filesz - 1) div 4096 - unat vaddr div 4096 + 1"
proof -
  let ?v = "unat vaddr" let ?n = "unat filesz" let ?o = "?v mod 4096"
  have o: "unat (vaddr AND 0xfff) = ?o"
    unfolding mask_consts(3) take_bit_eq_mask [symmetric] by (simp add: take_bit_eq_mod unat_mod)
  have first: "unat (PG_SIZE - (vaddr AND 0xfff)) = 4096 - ?o"
    using o unat_minus_small [of "vaddr AND 0xfff" PG_SIZE] by (simp add: PG_SIZE_def)
  have v: "?v = 4096 * (?v div 4096) + ?o" by simp
  show ?thesis
  proof (cases "?n > 4096 - ?o")
    case True
    have "unat (filesz - (PG_SIZE - (vaddr AND 0xfff))) = ?n - (4096 - ?o)"
      using True first unat_minus_small [of "PG_SIZE - (vaddr AND 0xfff)" filesz] by simp
    moreover have "?n - (4096 - ?o) + 4095 < 2 ^ 32" using assms(2) by linarith
    ultimately have d: "unat (DIV_ROUND_UP (filesz - (PG_SIZE - (vaddr AND 0xfff))) PG_SIZE) = (?n - (4096 - ?o) + 4095) div 4096"
      using unat_round_up [of "filesz - (PG_SIZE - (vaddr AND 0xfff))"] by (simp only:)
    then have "unat (DIV_ROUND_UP (filesz - (PG_SIZE - (vaddr AND 0xfff))) PG_SIZE + 1) = (?n - (4096 - ?o) + 4095) div 4096 + 1"
    proof -
      have "unat (DIV_ROUND_UP (filesz - (PG_SIZE - (vaddr AND 0xfff))) PG_SIZE) + unat (1 :: u32) < 4294967296"
        unfolding d unat_1 using div_le_dividend [of "?n - (4096 - ?o) + 4095" 4096] assms(2) by simp
      then show ?thesis using d by (simp only: unat_plus_small unat_1)
    qed
    moreover have "(?n - (4096 - ?o) + 4095) div 4096 + 1 = (?v + ?n - 1) div 4096 - ?v div 4096 + 1"
      using True v assms(1) by linarith
    moreover have "PG_SIZE - (vaddr AND 0xfff) < filesz" using True first by (simp only: word_less_nat_alt)
    ultimately show ?thesis by (simp only: occupy_pages_def Let_def if_True)
  next
    case False
    then have "(?v + ?n - 1) div 4096 = ?v div 4096" using v assms(1) by linarith
    then show ?thesis using False first by (simp add: occupy_pages_def Let_def word_less_nat_alt)
  qed
qed

end
