(* ===== verification/Stdio.thy ===== *)
theory Stdio
  imports Ide
begin

text \<open>
  Formatted output, lib/stdio.c.  The variable argument list is the sequence of its words and strings; taking an
  argument of the other kind, or one that is missing, has no defined meaning.  \<open>vsprintf\<close> works on the bytes of
  the caller's buffer and fails when it would write behind its end, which the source does not check.
\<close>

section \<open>Conversion of numbers\<close>

text \<open>\<open>itoa\<close>, as the characters it appends; division by zero traps.\<close>

partial_function (option) itoa :: "u32 \<Rightarrow> u8 \<Rightarrow> u8 list option" where
  "itoa v base =
     (if base = 0 then None
      else let m = v mod ucast base; i = v div ucast base in
        do {
          front \<leftarrow> (if i \<noteq> 0 then itoa i base else Some []);
          Some (front @ [if m < 10 then ucast m + 48 else ucast m - 10 + 65])
        })"

section \<open>Format strings\<close>

datatype va = Int_arg u32 | Str_arg "u8 list"

definition put_bytes :: "nat \<Rightarrow> u8 list \<Rightarrow> u8 list \<Rightarrow> u8 list option" where
  "put_bytes pos bs str = (if pos + length bs \<le> length str then Some (splice pos bs str) else None)"

text \<open>
  The loop, from the character \<open>index_char\<close> on.  \<open>strcpy\<close> writes the terminating 0 of a string argument, which
  the next character overwrites.  A character behind \<open>%\<close> that is no directive is printed as it stands.
\<close>

fun vsprintf_loop :: "u8 list \<Rightarrow> va list \<Rightarrow> nat \<Rightarrow> u8 list \<Rightarrow> (nat \<times> u8 list) option" where
  "vsprintf_loop [] ap pos str = Some (pos, str)"
| "vsprintf_loop (c # r) ap pos str =
     (if c \<noteq> 37 then do { str \<leftarrow> put_bytes pos [c] str; vsprintf_loop r ap (pos + 1) str }
      else case r of
        [] \<Rightarrow> Some (pos, str)
      | d # r' \<Rightarrow>
          (if d = 115 then
             (case ap of Str_arg w # ap' \<Rightarrow> do { str \<leftarrow> put_bytes pos (w @ [0]) str; vsprintf_loop r' ap' (pos + length w) str } | _ \<Rightarrow> None)
           else if d = 99 then
             (case ap of Int_arg w # ap' \<Rightarrow> do { str \<leftarrow> put_bytes pos [ucast w] str; vsprintf_loop r' ap' (pos + 1) str } | _ \<Rightarrow> None)
           else if d = 100 then
             (case ap of
                Int_arg w # ap' \<Rightarrow>
                  do {
                    ds \<leftarrow> (if sint w < 0 then map_option ((#) 45) (itoa (0 - w) 10) else itoa w 10);
                    str \<leftarrow> put_bytes pos ds str;
                    vsprintf_loop r' ap' (pos + length ds) str
                  }
              | _ \<Rightarrow> None)
           else if d = 120 then
             (case ap of
                Int_arg w # ap' \<Rightarrow> do { ds \<leftarrow> itoa w 16; str \<leftarrow> put_bytes pos ds str; vsprintf_loop r' ap' (pos + length ds) str }
              | _ \<Rightarrow> None)
           else vsprintf_loop r ap pos str))"

text \<open>The result is the length of the string in the buffer: up to the first 0, which the routine itself does not append.\<close>

definition vsprintf :: "u8 list \<Rightarrow> u8 list \<Rightarrow> va list \<Rightarrow> (nat \<times> u8 list) option" where
  "vsprintf str format ap =
     do {
       (_, str) \<leftarrow> vsprintf_loop format ap 0 str;
       (if 0 \<in> set str then Some (length (takeWhile (\<lambda>c. c \<noteq> 0) str), str) else None)
     }"

definition sprintf :: "u8 list \<Rightarrow> u8 list \<Rightarrow> va list \<Rightarrow> (nat \<times> u8 list) option" where
  "sprintf bf format ap = vsprintf bf format ap"

text \<open>\<open>printf\<close> up to the system call: the bytes handed to \<open>write(1, ...)\<close>.\<close>

definition printf :: "u8 list \<Rightarrow> va list \<Rightarrow> u8 list option" where
  "printf format ap = do { (n, bf) \<leftarrow> vsprintf (replicate 1024 0) format ap; Some (take n bf) }"

section \<open>Correctness of the conversion\<close>

text \<open>The value of a digit character, and of a numeral.\<close>

definition digit_val :: "u8 \<Rightarrow> nat" where
  "digit_val c = (if c < 58 then unat c - 48 else unat c - 55)"

definition numeral_val :: "nat \<Rightarrow> u8 list \<Rightarrow> nat" where
  "numeral_val b ds = foldl (\<lambda>n c. b * n + digit_val c) 0 ds"

definition is_digit :: "nat \<Rightarrow> u8 \<Rightarrow> bool" where
  "is_digit b c \<longleftrightarrow> (48 \<le> c \<and> c < 58 \<or> 65 \<le> c \<and> c < 71) \<and> digit_val c < b"

lemma digit_char:
  assumes "unat m < b" "b \<le> 16"
  defines "c \<equiv> if m < (10 :: u32) then ucast m + 48 else ucast m - 10 + (65 :: u8)"
  shows "digit_val c = unat m" "is_digit b c" "c = 48 \<longleftrightarrow> m = 0"
proof -
  have "unat m \<in> set [0..<16]" using assms by simp
  then have "m \<in> set (map of_nat [0..<16])" by (force simp: word_unat_eq_iff unat_of_nat)
  then have m: "m = 0 \<or> m = 1 \<or> m = 2 \<or> m = 3 \<or> m = 4 \<or> m = 5 \<or> m = 6 \<or> m = 7 \<or> m = 8 \<or> m = 9 \<or> m = 10 \<or> m = 11 \<or>
      m = 12 \<or> m = 13 \<or> m = 14 \<or> m = 15"
    by (simp add: upt_rec)
  show "digit_val c = unat m" using m by (elim disjE) (simp_all add: c_def digit_val_def)
  with assms(1) show "is_digit b c" using m by (elim disjE) (simp_all add: c_def is_digit_def)
  show "c = 48 \<longleftrightarrow> m = 0" using m by (elim disjE) (simp_all add: c_def)
qed

lemma itoa_correct:
  assumes "2 \<le> unat base" "unat base \<le> 16"
  shows "\<exists>ds. itoa v base = Some ds \<and> numeral_val (unat base) ds = unat v \<and> list_all (is_digit (unat base)) ds \<and>
     (v \<noteq> 0 \<longrightarrow> hd ds \<noteq> 48) \<and> ds \<noteq> []"
proof (induction "unat v" arbitrary: v rule: less_induct)
  case less
  let ?b = "ucast base :: u32" let ?m = "v mod ?b" let ?i = "v div ?b"
  let ?c = "if ?m < 10 then ucast ?m + 48 else ucast ?m - 10 + (65 :: u8)"
  have "unat base < 4294967296" using assms(2) by simp
  then have b: "unat ?b = unat base" by (simp add: unsigned_ucast_eq take_bit_nat_eq_self)
  have nz: "base \<noteq> 0" using assms(1) by auto
  have d: "unat ?m = unat v mod unat base" "unat ?i = unat v div unat base" by (simp_all add: unat_mod unat_div b)
  note dc = digit_char [of ?m "unat base", OF _ assms(2)]
  have ml: "unat ?m < unat base" using assms(1) by (simp add: d)
  show ?case
  proof (cases "?i = 0")
    case True
    then have "unat ?i = 0" by simp
    then have v: "unat v = unat ?m" using d assms(1) by (simp add: div_eq_0_iff)
    have "itoa v base = Some [?c]" using True nz by (subst itoa.simps) (simp add: Let_def)
    moreover have "v \<noteq> 0 \<longrightarrow> ?c \<noteq> 48" using dc(3) [OF ml] v word_unat_eq_iff [of v ?m] by metis
    moreover have "numeral_val (unat base) [?c] = unat v" by (simp only: numeral_val_def foldl.simps dc(1) [OF ml] v)
    ultimately show ?thesis using dc(2) [OF ml] by (intro exI [of _ "[?c]"] conjI) (simp_all only: list.sel list.pred_inject list.distinct simp_thms)
  next
    case False
    then have "unat ?i \<noteq> 0" by (simp add: unat_eq_0)
    then have "unat ?i < unat v" using d(2) assms(1) by (cases "unat v") auto
    from less [OF this] obtain ds where ds: "itoa ?i base = Some ds" "numeral_val (unat base) ds = unat ?i"
      "list_all (is_digit (unat base)) ds" "?i \<noteq> 0 \<longrightarrow> hd ds \<noteq> 48" "ds \<noteq> []" by blast
    have "itoa v base = Some (ds @ [?c])" using False nz ds(1) by (subst itoa.simps) (simp add: Let_def)
    moreover have "numeral_val (unat base) (ds @ [?c]) = unat v"
      using ds(2) dc(1) [OF ml] d by (simp add: numeral_val_def)
    ultimately show ?thesis using ds False dc(2) [OF ml] by simp
  qed
qed


lemma itoa_length:
  assumes "2 \<le> unat base" "unat base \<le> 16"
  shows "unat v < 2 ^ Suc k \<Longrightarrow> itoa v base = Some ds \<Longrightarrow> length ds \<le> Suc k"
proof (induction k arbitrary: v ds)
  case (0 v ds)
  let ?i = "v div ucast base"
  have "unat (ucast base :: u32) = unat base" using assms(2) by (simp add: unsigned_ucast_eq take_bit_nat_eq_self)
  then have "unat ?i = 0" using 0(1) assms(1) by (simp add: unat_div)
  then have "?i = 0" by (simp add: unat_eq_0)
  then show ?case using 0(2) assms(1) by (subst (asm) itoa.simps) (auto simp: Let_def split: if_splits)
next
  case (Suc k v ds)
  let ?i = "v div ucast base"
  have "unat (ucast base :: u32) = unat base" using assms(2) by (simp add: unsigned_ucast_eq take_bit_nat_eq_self)
  moreover have "unat v div unat base \<le> unat v div 2" using assms(1) by (simp add: div_le_mono2)
  ultimately have "unat ?i < 2 ^ Suc k" using Suc.prems(1) by (simp add: unat_div)
  then show ?case
    using Suc.IH [of ?i] Suc.prems(2) by (subst (asm) (2) itoa.simps) (auto simp: Let_def split: if_splits Option.bind_splits)
qed

section \<open>Signed decimal output\<close>

definition signed_val :: "u8 list \<Rightarrow> int" where
  "signed_val ds = (if hd ds = 45 then - int (numeral_val 10 (tl ds)) else int (numeral_val 10 ds))"

lemma printf_word:
  assumes "length ds \<le> 1000" "0 \<notin> set ds" "vsprintf_loop fmt ap 0 (replicate 1024 0) = Some (n, splice 0 ds (replicate 1024 0))"
  shows "printf fmt ap = Some ds"
proof -
  have "splice 0 ds (replicate 1024 0) = ds @ replicate (1024 - length ds) 0" using assms(1) by (simp add: splice_def)
  moreover have "replicate (1024 - length ds) (0 :: u8) = 0 # replicate (1023 - length ds) 0"
    using assms(1) by (simp add: Suc_diff_le replicate_Suc [symmetric] del: replicate_Suc)
  ultimately show ?thesis using assms by (simp add: printf_def vsprintf_def takeWhile_stop)
qed

lemma digits_no_zero: "list_all (is_digit b) ds \<Longrightarrow> 0 \<notin> set ds \<and> 45 \<notin> set ds"
  by (induction ds) (auto simp: is_digit_def)

lemma signed_bounds:
  fixes w :: u32
  shows "- 2147483648 \<le> sint w" "sint w < 0 \<Longrightarrow> int (unat (0 - w)) = - sint w" "\<not> sint w < 0 \<Longrightarrow> int (unat w) = sint w"
proof -
  have r: "- 2147483648 \<le> sint w" "sint w < 2147483648" using sint_ge [of w] sint_lt [of w] by simp_all
  have u: "uint w = sint w mod 4294967296" by (simp add: uint_sint take_bit_eq_mod)
  show "- 2147483648 \<le> sint w" by (rule r)
  have "uint (0 - w) = (- uint w) mod 4294967296" by (simp add: uint_word_ariths)
  also have "\<dots> = (- sint w) mod 4294967296" by (simp add: u mod_minus_eq)
  finally have n: "uint (0 - w) = (- sint w) mod 4294967296" .
  show "int (unat (0 - w)) = - sint w" if "sint w < 0" using n that r(1) by (simp add: mod_pos_pos_trivial)
  show "int (unat w) = sint w" if "\<not> sint w < 0" using u that r(2) by (simp add: mod_pos_pos_trivial)
qed


end
