(* ===== verification/Shell.thy ===== *)
theory Shell
  imports Fork Exec Stdio
begin

text \<open>
  The command interpreter: line editing and splitting of command lines (shell/shell.c), path cleaning and the built-in commands
  (shell/buildin\_cmd.c), and the task listing of thread/thread.c.  Strings are byte sequences without the terminating 0.
  The interpreter is a user process; its system calls are the kernel operations of the other theories.
  Text is printed with \<open>sys_write\<close> on descriptor 1, which can be the console or a pipe; a write that waits for another
  task never comes back when the interpreter itself is the reader, and is \<open>None\<close>.
\<close>

definition str :: "string \<Rightarrow> u8 list" where
  "str = map of_char"

definition cstr :: "u8 list \<Rightarrow> u8 list" where
  "cstr bs = takeWhile (\<lambda>c. c \<noteq> 0) bs"

definition emit :: "u8 list \<Rightarrow> 'a fs_scheme \<Rightarrow> 'a fs_scheme option" where
  "emit t s = do { r \<leftarrow> sys_write 1 t (of_nat (length t)) s; (case r of Inl _ \<Rightarrow> None | Inr (_, s) \<Rightarrow> Some s) }"

definition put :: "u8 list \<Rightarrow> va list \<Rightarrow> 'a fs_scheme \<Rightarrow> 'a fs_scheme option" where
  "put fmt ap s = do { t \<leftarrow> printf fmt ap; emit t s }"

section \<open>Line editing\<close>

definition cmd_len :: nat where "cmd_len = 128"

text \<open>
  \<open>readline\<close> on the characters that \<open>read\<close> delivers, one per round; echoing is omitted.  The line buffer has
  \<open>cmd_len\<close> bytes and the routine is called with the larger bound \<open>MAX_PATH_LEN\<close>: a store behind the buffer is \<open>None\<close>.
  The result is the buffer; running out of characters means waiting for more.
\<close>

fun readline :: "u8 list \<Rightarrow> nat \<Rightarrow> u8 list \<Rightarrow> u8 list option" where
  "readline [] pos bf = None"
| "readline (c # input) pos bf =
     (if pos \<ge> cmd_len then None
      else let bf = bf[pos := c] in
        if pos \<ge> MAX_PATH_LEN then Some bf
        else if c = 10 \<or> c = 13 then Some (bf[pos := 0])
        else if c = 8 then readline input (if bf ! 0 \<noteq> 8 then pos - 1 else pos) bf
        else if c = 11 then readline input pos (bf[pos := 0])
        else if c = 20 then readline input 0 (take 1 bf @ replicate pos 0 @ drop (pos + 1) bf)
        else readline input (pos + 1) bf)"

section \<open>Splitting a command line\<close>

definition MAX_ARG_NR :: nat where "MAX_ARG_NR = 16"

text \<open>
  The outer loop of \<open>cmd_parse\<close>; the words are the strings that the entries of \<open>argv\<close> point to.  The
  store into \<open>argv[argc]\<close> comes before the test of the bound, which is off by one: a store behind the array is \<open>None\<close>.
\<close>

function cmd_parse_loop :: "u8 \<Rightarrow> u8 list \<Rightarrow> u8 list list \<Rightarrow> (u32 \<times> u8 list list) option" where
  "cmd_parse_loop token nxt argv =
     (let p = dropWhile (\<lambda>c. c = token) nxt in
      if p = [] then Some (of_nat (length argv), argv)
      else if length argv \<ge> MAX_ARG_NR then None
      else if length argv > MAX_ARG_NR then Some (-1, argv)
      else cmd_parse_loop token (drop 1 (dropWhile (\<lambda>c. c \<noteq> token) p)) (argv @ [takeWhile (\<lambda>c. c \<noteq> token) p]))"
  by pat_completeness auto
termination
proof (relation "measure (\<lambda>(_, nxt, _). length nxt)", simp)
  fix token :: u8 and nxt p :: "u8 list" and argv :: "u8 list list"
  assume p: "p = dropWhile (\<lambda>c. c = token) nxt" "p \<noteq> []"
  then have "hd p \<noteq> token" using hd_dropWhile [of "\<lambda>c. c = token" nxt] by metis
  with p(2) have "takeWhile (\<lambda>c. c \<noteq> token) p \<noteq> []" by (cases p) simp_all
  then have "0 < length (takeWhile (\<lambda>c. c \<noteq> token) p)" by simp
  moreover have "length (takeWhile (\<lambda>c. c \<noteq> token) p) + length (dropWhile (\<lambda>c. c \<noteq> token) p) = length p"
    unfolding length_append [symmetric] takeWhile_dropWhile_id ..
  moreover have "length p \<le> length nxt" unfolding p(1) by (rule length_dropWhile_mono)
  ultimately have "length (drop 1 (dropWhile (\<lambda>c. c \<noteq> token) p)) < length nxt" unfolding length_drop by linarith
  then show "((token, drop 1 (dropWhile (\<lambda>c. c \<noteq> token) p), argv @ [takeWhile (\<lambda>c. c \<noteq> token) p]), token, nxt, argv)
      \<in> measure (\<lambda>(_, nxt, _). length nxt)" by simp
qed

declare cmd_parse_loop.simps [simp del]

definition cmd_parse :: "u8 list \<Rightarrow> u8 \<Rightarrow> (u32 \<times> u8 list list) option" where
  "cmd_parse cmd_str token = cmd_parse_loop token cmd_str []"

section \<open>Absolute paths\<close>

text \<open>One component of \<open>wash_path\<close>: \<open>strrchr\<close> finds the last slash of the path built so far.\<close>

definition wash_step :: "u8 list \<Rightarrow> u8 list \<Rightarrow> u8 list" where
  "wash_step new_abs_path name =
     (if name = [46, 46] then
        let slash = length new_abs_path - length (last_component new_abs_path) - 1 in
        if slash \<noteq> 0 then take slash new_abs_path else take 1 new_abs_path
      else if name \<noteq> [46] then (if new_abs_path \<noteq> [47] then new_abs_path @ [47] else new_abs_path) @ name
      else new_abs_path)"

function wash_loop :: "u8 list \<Rightarrow> u8 list option \<Rightarrow> u8 list \<Rightarrow> u8 list option" where
  "wash_loop name sub_path new_abs_path =
     (if name = [] then Some new_abs_path
      else Option.bind (next_component sub_path) (\<lambda>r. wash_loop (fst r) (snd r) (wash_step new_abs_path name)))"
  by pat_completeness auto
termination
proof (relation "measure (\<lambda>(name, p, _). rest_size p + (if name = [] then 0 else 1))", simp)
  fix name new :: "u8 list" and sub :: "u8 list option" and r
  assume "name \<noteq> []" "next_component sub = Some r"
  then show "((fst r, snd r, wash_step new name), name, sub, new) \<in> measure (\<lambda>(name, p, _). rest_size p + (if name = [] then 0 else 1))"
    using next_component_size [of sub "fst r" "snd r"] by (auto simp: less_Suc_eq_le)
qed

declare wash_loop.simps [simp del]

definition wash_path :: "u8 list \<Rightarrow> u8 list option" where
  "wash_path old_abs_path =
     do {
       ASSERT (old_abs_path \<noteq> [] \<and> hd old_abs_path = 47);
       (name, sub_path) \<leftarrow> path_parse old_abs_path;
       (if name = [] then Some [47] else wash_loop name sub_path [47])
     }"

text \<open>The buffers for the path have \<open>MAX_PATH_LEN\<close> bytes; a longer concatenation overruns them.\<close>

definition make_clear_abs_path :: "u8 list \<Rightarrow> 'a fs_scheme \<Rightarrow> (u8 list \<times> 'a fs_scheme) option" where
  "make_clear_abs_path path s =
     do {
       (abs_path, s) \<leftarrow>
         (if path \<noteq> [] \<and> hd path = 47 then Some ([], s)
          else do {
            (cwd, s) \<leftarrow> sys_getcwd 1 (of_nat MAX_PATH_LEN) s;
            Some (case cwd of None \<Rightarrow> [] | Some c \<Rightarrow> if c \<noteq> [47] then c @ [47] else c, s)
          });
       (if length (abs_path @ path) < MAX_PATH_LEN then Some () else None);
       final_path \<leftarrow> wash_path (abs_path @ path);
       Some (final_path, s)
     }"


section \<open>Built-in commands\<close>

definition buildin_pwd :: "u32 \<Rightarrow> 'a fs_scheme \<Rightarrow> 'a fs_scheme option" where
  "buildin_pwd argc s =
     (if argc \<noteq> 1 then put (str ''pwd: no argument support!'' @ [10]) [] s
      else do {
        (cwd, s) \<leftarrow> sys_getcwd 1 (of_nat MAX_PATH_LEN) s;
        (case cwd of
           Some final_path \<Rightarrow> put (str ''%s'' @ [10]) [Str_arg final_path] s
         | None \<Rightarrow> put (str ''pwd: get current work directory failed.'' @ [10]) [] s)
      })"

text \<open>The result is the new working directory, \<open>None\<close> the null pointer.\<close>

definition buildin_cd :: "u32 \<Rightarrow> u8 list list \<Rightarrow> 'a fs_scheme \<Rightarrow> (u8 list option \<times> 'a fs_scheme) option" where
  "buildin_cd argc argv s =
     (if argc > 2 then do { s \<leftarrow> put (str ''cd: only support 1 argument!'' @ [10]) [] s; Some (None, s) }
      else do {
        (final_path, s) \<leftarrow> (if argc = 1 then Some ([47], s) else make_clear_abs_path (argv ! 1) s);
        (ret, s) \<leftarrow> sys_chdir final_path s;
        (if ret = -1
         then do { s \<leftarrow> put (str ''cd: no such directory %s'' @ [10]) [Str_arg final_path] s; Some (None, s) }
         else Some (Some final_path, s))
      })"

text \<open>\<open>mkdir\<close>, \<open>rmdir\<close> and \<open>rm\<close> clean the path and, unless it is the root, call their system call.\<close>

definition path_command ::
  "string \<Rightarrow> string \<Rightarrow> (u8 list \<Rightarrow> 'a fs_scheme \<Rightarrow> (u32 \<times> 'a fs_scheme) option) \<Rightarrow> u32 \<Rightarrow> u8 list list \<Rightarrow> 'a fs_scheme \<Rightarrow>
   (u32 \<times> 'a fs_scheme) option" where
  "path_command usage failed call argc argv s =
     (if argc \<noteq> 2 then do { s \<leftarrow> put (str usage @ [10]) [] s; Some (-1, s) }
      else do {
        (final_path, s) \<leftarrow> make_clear_abs_path (argv ! 1) s;
        (if final_path = [47] then Some (-1, s)
         else do {
           (ret, s) \<leftarrow> call final_path s;
           (if ret = 0 then Some (0, s)
            else do { s \<leftarrow> put (str failed @ [10]) [Str_arg (argv ! 1)] s; Some (-1, s) })
         })
      })"

definition buildin_mkdir :: "u32 \<Rightarrow> u8 list list \<Rightarrow> 'a fs_scheme \<Rightarrow> (u32 \<times> 'a fs_scheme) option" where
  "buildin_mkdir = path_command ''mkdir: only support 1 argument!'' ''mkdir: create directory %s failed.'' sys_mkdir"

definition buildin_rmdir :: "u32 \<Rightarrow> u8 list list \<Rightarrow> 'a fs_scheme \<Rightarrow> (u32 \<times> 'a fs_scheme) option" where
  "buildin_rmdir = path_command ''rmdir: only support 1 argument!'' ''rmdir: remove %s failed.'' sys_rmdir"

definition buildin_rm :: "u32 \<Rightarrow> u8 list list \<Rightarrow> 'a fs_scheme \<Rightarrow> (u32 \<times> 'a fs_scheme) option" where
  "buildin_rm = path_command ''rm: only support 1 argument!'' ''rm: delete %s failed.'' sys_unlink"

section \<open>ls\<close>

text \<open>The arguments: \<open>Inl\<close> an early return with its message, \<open>Inr\<close> the long flag and the path.\<close>

fun ls_args :: "u8 list list \<Rightarrow> bool \<Rightarrow> u8 list option \<Rightarrow> (u8 list \<times> va list + bool \<times> u8 list option)" where
  "ls_args [] long_info path = Inr (long_info, path)"
| "ls_args (a # as) long_info path =
     (if take 1 a = [45] then
        (if a = [45, 108] then ls_args as True path
         else if a = [45, 104]
         then Inl (str ''usage: -l list all infomation about the file.'' @ [10] @ str ''-h for help'' @ [10] @
                   str ''list all files in the current dirctory if no option'' @ [10], [])
         else Inl (str ''ls: invalid option %s'' @ [10] @ str ''Try `ls -h' for more information.'' @ [10], [Str_arg a]))
      else case path of
        None \<Rightarrow> ls_args as long_info (Some a)
      | Some _ \<Rightarrow> Inl (str ''ls: only support one path'' @ [10], []))"

text \<open>The two listing loops; \<open>Inl\<close> is the early return, which leaves the directory open.\<close>

partial_function (option) ls_long_loop ::
  "u8 list \<Rightarrow> dir_ptr \<Rightarrow> 'a fs_scheme \<Rightarrow> ('a fs_scheme + 'a fs_scheme) option" where
  "ls_long_loop sub_pathname dir s =
     do {
       r \<leftarrow> sys_readdir dir s;
       (case fst r of
          None \<Rightarrow> Some (Inr (snd r))
        | Some e \<Rightarrow>
            (if length sub_pathname + length (cstr (filename e)) < MAX_PATH_LEN then
               do {
                 st \<leftarrow> sys_stat (sub_pathname @ cstr (filename e)) (snd r);
                 (case fst st of
                    None \<Rightarrow>
                      map_option Inl (put (str ''ls: cannot access %s: No such file or directory'' @ [10]) [Str_arg (cstr (filename e))] (snd st))
                  | Some f \<Rightarrow>
                      do {
                        s \<leftarrow> put (str ''%c  %d  %d  %s'' @ [10])
                               [Int_arg (if f_type e = FT_REGULAR then 45 else 100), Int_arg (de_i_no e), Int_arg (st_size f),
                                Str_arg (cstr (filename e))] (snd st);
                        ls_long_loop sub_pathname dir s
                      })
               }
             else None))
     }"

partial_function (option) ls_short_loop :: "dir_ptr \<Rightarrow> 'a fs_scheme \<Rightarrow> 'a fs_scheme option" where
  "ls_short_loop dir s =
     do {
       r \<leftarrow> sys_readdir dir s;
       (case fst r of
          None \<Rightarrow> put [10] [] (snd r)
        | Some e \<Rightarrow> do { s \<leftarrow> put (str ''%s '') [Str_arg (cstr (filename e))] (snd r); ls_short_loop dir s })
     }"

definition ls_directory :: "bool \<Rightarrow> u8 list \<Rightarrow> stat \<Rightarrow> 'a fs_scheme \<Rightarrow> 'a fs_scheme option" where
  "ls_directory long_info pathname file_stat s =
     do {
       (dir, s) \<leftarrow> sys_opendir pathname s;
       (if dir = Heap_dir 0 then None else Some ());
       let sub_pathname = (if last pathname \<noteq> 47 then pathname @ [47] else pathname);
       let s = sys_rewinddir dir s;
       (if long_info then
          do {
            s \<leftarrow> put (str ''total: %d'' @ [10]) [Int_arg (st_size file_stat)] s;
            r \<leftarrow> ls_long_loop sub_pathname dir s;
            (case r of Inl s \<Rightarrow> Some s | Inr s \<Rightarrow> do { (_, s) \<leftarrow> sys_closedir dir s; Some s })
          }
        else do {
          s \<leftarrow> ls_short_loop dir s;
          (_, s) \<leftarrow> sys_closedir dir s;
          Some s
        })
     }"

definition ls_path :: "bool \<Rightarrow> u8 list \<Rightarrow> 'a fs_scheme \<Rightarrow> 'a fs_scheme option" where
  "ls_path long_info pathname s =
     do {
       (st, s) \<leftarrow> sys_stat pathname s;
       (case st of
          None \<Rightarrow> put (str ''ls: cannot access %s: No such file or directory'' @ [10]) [Str_arg pathname] s
        | Some file_stat \<Rightarrow>
            (if st_filetype file_stat = FT_DIRECTORY then ls_directory long_info pathname file_stat s
             else if long_info
             then put (str ''-  %d  %d  %s'' @ [10]) [Int_arg (st_ino file_stat), Int_arg (st_size file_stat), Str_arg pathname] s
             else put (str ''%s'' @ [10]) [Str_arg pathname] s))
     }"

definition buildin_ls :: "u8 list list \<Rightarrow> 'a fs_scheme \<Rightarrow> 'a fs_scheme option" where
  "buildin_ls argv s =
     (case ls_args (drop 1 argv) False None of
        Inl (fmt, ap) \<Rightarrow> put fmt ap s
      | Inr (long_info, None) \<Rightarrow>
          do {
            (cwd, s) \<leftarrow> sys_getcwd 1 (of_nat MAX_PATH_LEN) s;
            (case cwd of
               Some pathname \<Rightarrow> ls_path long_info pathname s
             | None \<Rightarrow> put (str ''ls: getcwd for default path failed'' @ [10]) [] s)
          }
      | Inr (long_info, Some p) \<Rightarrow> do { (pathname, s) \<leftarrow> make_clear_abs_path p s; ls_path long_info pathname s })"

section \<open>ps\<close>

text \<open>
  \<open>pad_print\<close>: 15 characters padded with blanks.  The case \<open>d\<close> lacks a \<open>break\<close>, so a number is
  printed as decimal and at once overwritten by its hexadecimal form.  A number is the word at the field's address; the
  half word behind a 16-bit field is padding of the zeroed control block.
\<close>

definition pad_text :: "u8 \<Rightarrow> va \<Rightarrow> (nat \<times> u8 list) option" where
  "pad_text format a =
     (case a of
        Str_arg _ \<Rightarrow> sprintf (replicate 16 0) (str ''%s'') [a]
      | Int_arg v \<Rightarrow>
          do {
            (_, out) \<leftarrow> (if format = 100 then sprintf (replicate 16 0) (str ''%d'') [Int_arg (scast (ucast v :: u16))]
                          else Some (0, replicate 16 0));
            sprintf out (str ''%x'') [Int_arg v]
          })"

definition pad_print :: "u8 \<Rightarrow> va \<Rightarrow> 'a fs_scheme \<Rightarrow> 'a fs_scheme option" where
  "pad_print format a s =
     do { (n, out) \<leftarrow> pad_text format a; emit (take 15 (take n out @ replicate (16 - n) 32)) s }"

definition status_text :: "task_status \<Rightarrow> u8 list" where
  "status_text st =
     str (case st of TASK_RUNNING \<Rightarrow> ''RUNNING'' | TASK_READY \<Rightarrow> ''READY'' | TASK_BLOCKED \<Rightarrow> ''BLOCKED''
          | TASK_WAITING \<Rightarrow> ''WAITING'' | TASK_HANGING \<Rightarrow> ''HANGING'' | TASK_DIED \<Rightarrow> ''DIED'')"

text \<open>The name and a newline go into a buffer of 16 bytes, with the terminating 0.\<close>

definition elem2thread_info :: "u32 \<Rightarrow> 'a fs_scheme \<Rightarrow> 'a fs_scheme option" where
  "elem2thread_info t s =
     do {
       let p = tasks s t;
       s \<leftarrow> pad_print 100 (Int_arg (ucast (task_pid p))) s;
       s \<leftarrow> (if parent_pid p = -1 then pad_print 115 (Str_arg (str ''NULL'')) s else pad_print 100 (Int_arg (ucast (parent_pid p))) s);
       s \<leftarrow> pad_print 115 (Str_arg (status_text (status p))) s;
       s \<leftarrow> pad_print 120 (Int_arg (elapsed_ticks p)) s;
       ASSERT (length (cstr (task_name p)) < 17);
       (if length (cstr (task_name p)) + 2 \<le> 16 then emit (cstr (task_name p) @ [10]) s else None)
     }"

fun ps_loop :: "u32 list \<Rightarrow> 'a fs_scheme \<Rightarrow> 'a fs_scheme option" where
  "ps_loop [] s = Some s"
| "ps_loop (t # ts) s = do { s \<leftarrow> elem2thread_info t s; ps_loop ts s }"

definition sys_ps :: "'a fs_scheme \<Rightarrow> 'a fs_scheme option" where
  "sys_ps s =
     do {
       s \<leftarrow> emit (str ''PID            PPID           STAT           TICKS          COMMAND'' @ [10]) s;
       ps_loop (all_list s) s
     }"

definition buildin_ps :: "u32 \<Rightarrow> 'a fs_scheme \<Rightarrow> 'a fs_scheme option" where
  "buildin_ps argc s = (if argc \<noteq> 1 then put (str ''ps: no argument support!'' @ [10]) [] s else sys_ps s)"

text \<open>Clearing the screen and the help text go to the console driver, which is not part of the state.\<close>

definition buildin_clear :: "u32 \<Rightarrow> 'a fs_scheme \<Rightarrow> 'a fs_scheme option" where
  "buildin_clear argc s = (if argc \<noteq> 1 then put (str ''clear: no argument support!'' @ [10]) [] s else Some s)"

definition buildin_help :: "'a fs_scheme \<Rightarrow> 'a fs_scheme option" where
  "buildin_help s = Some s"

section \<open>Running commands\<close>

record shell = proc +
  cwd_cache :: "u8 list"

text \<open>
  An external command is run by a child: \<open>Forked\<close> is the state in which \<open>fork\<close> has returned to the parent with the
  child's identifier; the parent goes on with \<open>external_parent\<close>, the child with \<open>external_child\<close>.
\<close>

datatype 's outcome = Finished 's | Forked u16 's

text \<open>
  \<open>cwd_cache\<close> has 64 bytes and is cleared for \<open>MAX_PATH_LEN\<close>; the bytes behind it are not modelled.  Without any
  word \<open>argv[0]\<close> is the null pointer, which \<open>strcmp\<close> asserts against.
\<close>

definition cmd_execute :: "u32 \<Rightarrow> u32 \<Rightarrow> u8 list list \<Rightarrow> 'a shell_scheme \<Rightarrow> 'a shell_scheme outcome option" where
  "cmd_execute intr_exit argc argv s =
     (case argv of
        [] \<Rightarrow> panic_spin
      | cmd # _ \<Rightarrow>
          (if cmd = str ''ls'' then map_option Finished (buildin_ls argv s)
           else if cmd = str ''cd'' then
             do {
               (r, s) \<leftarrow> buildin_cd argc argv s;
               Some (Finished (case r of None \<Rightarrow> s | Some p \<Rightarrow> s\<lparr>cwd_cache := p\<rparr>))
             }
           else if cmd = str ''pwd'' then map_option Finished (buildin_pwd argc s)
           else if cmd = str ''ps'' then map_option Finished (buildin_ps argc s)
           else if cmd = str ''clear'' then map_option Finished (buildin_clear argc s)
           else if cmd = str ''mkdir'' then map_option (\<lambda>r. Finished (snd r)) (buildin_mkdir argc argv s)
           else if cmd = str ''rmdir'' then map_option (\<lambda>r. Finished (snd r)) (buildin_rmdir argc argv s)
           else if cmd = str ''rm'' then map_option (\<lambda>r. Finished (snd r)) (buildin_rm argc argv s)
           else if cmd = str ''help'' then map_option Finished (buildin_help s)
           else map_option (\<lambda>(p, s). Forked p s) (sys_fork intr_exit s)))"

text \<open>The parent waits; \<open>Inl\<close> is the state in which it sleeps.  The identifier is widened before it is compared with -1.\<close>

definition external_parent :: "u32 \<Rightarrow> 'a proc_scheme \<Rightarrow> ('a proc_scheme + 'a proc_scheme) option" where
  "external_parent statusp s =
     do {
       r \<leftarrow> sys_wait statusp s;
       (case r of
          Inl (_, s) \<Rightarrow> Some (Inl s)
        | Inr (child_pid, s) \<Rightarrow>
            (if ucast child_pid = (-1 :: u32) then panic_spin
             else do {
               st \<leftarrow> vread s statusp;
               map_option Inr (put (str ''child_pid %d, it's status: %d'' @ [10]) [Int_arg (ucast child_pid), Int_arg st] s)
             }))
     }"

text \<open>The child: \<open>Inl\<close> after \<open>exit\<close>, \<open>Inr\<close> the result of \<open>execv\<close>.\<close>

definition external_child :: "u8 list \<Rightarrow> u8 list \<Rightarrow> u32 \<Rightarrow> 'a proc_scheme \<Rightarrow> ('a proc_scheme + 'a proc_scheme + 'a proc_scheme) option" where
  "external_child cmd after argvp s =
     do {
       (final_path, s) \<leftarrow> make_clear_abs_path cmd s;
       (st, s) \<leftarrow> sys_stat final_path s;
       (case st of
          None \<Rightarrow>
            do {
              s \<leftarrow> put (str ''my_shell: cannot access %s: No such file or directory'' @ [10]) [Str_arg final_path] s;
              (_, s) \<leftarrow> sys_exit (-1) s;
              Some (Inl s)
            }
        | Some _ \<Rightarrow> map_option Inr (sys_execv final_path after argvp s))
     }"

section \<open>One command line\<close>

text \<open>
  What \<open>my_shell\<close> does with a line, as the sequence of its system calls and commands: a line with \<open>|\<close> (124) runs
  its parts one after the other around a pipe, the first with its output and the last with its input redirected.
\<close>

datatype fd_ref = Fixed u32 | Read_end | Write_end

datatype shell_op = Op_pipe | Op_redirect u32 fd_ref | Op_command "u8 list" | Op_close fd_ref

fun split_pipes :: "u8 list \<Rightarrow> u8 list list" where
  "split_pipes [] = [[]]"
| "split_pipes (c # cs) = (if c = 124 then [] # split_pipes cs else (case split_pipes cs of [] \<Rightarrow> [[c]] | w # ws \<Rightarrow> (c # w) # ws))"

definition my_shell_plan :: "u8 list \<Rightarrow> shell_op list" where
  "my_shell_plan line =
     (if line = [] then []
      else case split_pipes line of
        first # second # others \<Rightarrow>
          [Op_pipe, Op_redirect 1 Write_end, Op_command first, Op_redirect 0 Read_end] @
          map Op_command (butlast (second # others)) @
          [Op_redirect 1 (Fixed 1), Op_command (last (second # others)), Op_redirect 0 (Fixed 0), Op_close Read_end, Op_close Write_end]
      | _ \<Rightarrow> [Op_command line])"

definition fd_of :: "u32 \<times> u32 \<Rightarrow> fd_ref \<Rightarrow> u32" where
  "fd_of fds r = (case r of Fixed k \<Rightarrow> k | Read_end \<Rightarrow> fst fds | Write_end \<Rightarrow> snd fds)"

definition run_op :: "u32 \<Rightarrow> shell_op \<Rightarrow> u32 \<times> u32 \<Rightarrow> 'a shell_scheme \<Rightarrow> ((u32 \<times> u32) \<times> 'a shell_scheme outcome) option" where
  "run_op intr_exit op fds s =
     (case op of
        Op_pipe \<Rightarrow> do { (r, w, s) \<leftarrow> sys_pipe s; Some ((r, w), Finished s) }
      | Op_redirect old r \<Rightarrow> do { s \<leftarrow> sys_fd_redirect old (fd_of fds r) s; Some (fds, Finished s) }
      | Op_close r \<Rightarrow> do { (_, s) \<leftarrow> sys_close (fd_of fds r) s; Some (fds, Finished s) }
      | Op_command c \<Rightarrow>
          do {
            (argc, argv) \<leftarrow> cmd_parse c 32;
            (if argc = -1 then do { s \<leftarrow> put (str ''num of arguments exceed %d'' @ [10]) [Int_arg 16] s; Some (fds, Finished s) }
             else do { r \<leftarrow> cmd_execute intr_exit argc argv s; Some (fds, r) })
          })"

text \<open>The listing shows the process 10 as \<open>A0\<close>: the hexadecimal digit and the rest of the decimal number.\<close>

lemma ps_mixes_bases: "map_option (\<lambda>(n, out). take n out) (pad_text 100 (Int_arg 10)) = Some (str ''A0'')"
proof -
  have d: "itoa 10 10 = Some [49, 48]" "itoa 1 10 = Some [49]" "itoa 10 16 = Some [65]"
    by (subst itoa.simps, simp add: Let_def itoa.simps)+
  have s: "str ''%d'' = [37, 100]" "str ''%x'' = [37, 120]" "str ''A0'' = [65, 48]" by (simp_all add: str_def)
  have z: "replicate 16 (0 :: u8) = [0, 0, 0, 0, 0, 0, 0, 0, 0, 0, 0, 0, 0, 0, 0, 0]" by (simp add: numeral_eq_Suc)
  have "sprintf (replicate 16 0) [37, 100] [Int_arg 10] = Some (2, [49, 48, 0, 0, 0, 0, 0, 0, 0, 0, 0, 0, 0, 0, 0, 0])"
    unfolding z by (simp add: sprintf_def vsprintf_def put_bytes_def splice_def d)
  moreover have "sprintf [49, 48, 0, 0, 0, 0, 0, 0, 0, 0, 0, 0, 0, 0, 0, 0] [37, 120] [Int_arg 10] =
      Some (2, [65, 48, 0, 0, 0, 0, 0, 0, 0, 0, 0, 0, 0, 0, 0, 0])"
    by (simp add: sprintf_def vsprintf_def put_bytes_def splice_def d)
  ultimately show ?thesis by (simp add: pad_text_def s)
qed

section \<open>Path cleaning against a reference\<close>

definition norm_step :: "u8 list list \<Rightarrow> u8 list \<Rightarrow> u8 list list" where
  "norm_step st n = (if n = [46, 46] then butlast st else if n = [46] then st else st @ [n])"

definition abs_string :: "u8 list list \<Rightarrow> u8 list" where
  "abs_string st = (if st = [] then [47] else concat (map ((#) 47) st))"

definition word_ok :: "u8 list \<Rightarrow> bool" where
  "word_ok w \<longleftrightarrow> w \<noteq> [] \<and> 47 \<notin> set w"

lemma split_slash_words: "w \<in> set (split_slash p) \<Longrightarrow> 47 \<notin> set w"
  by (induction p arbitrary: w rule: split_slash.induct) (auto split: if_splits list.splits)

lemma components_ok: "w \<in> set (components p) \<Longrightarrow> word_ok w"
  using split_slash_words by (auto simp: components_def word_ok_def)

lemma last_component_append: "47 \<notin> set n \<Longrightarrow> last_component (p @ 47 # n) = n"
  by (simp add: last_component_def takeWhile_stop)

lemma wash_step_norm:
  assumes "list_all word_ok st" "word_ok n"
  shows "wash_step (abs_string st) n = abs_string (norm_step st n)"
proof (cases "n = [46, 46]")
  case True
  show ?thesis
  proof (cases st rule: rev_cases)
    case Nil
    then show ?thesis using True by (simp add: wash_step_def abs_string_def norm_step_def last_component_def)
  next
    case (snoc st' m)
    let ?p = "concat (map ((#) 47) st')"
    have "47 \<notin> set m" using snoc assms(1) by (simp add: word_ok_def)
    then have "last_component (?p @ 47 # m) = m" by (rule last_component_append)
    moreover have "abs_string st = ?p @ 47 # m" using snoc by (simp add: abs_string_def)
    moreover have "?p = [] \<longleftrightarrow> st' = []" by (cases st') auto
    ultimately show ?thesis using True snoc by (auto simp: wash_step_def norm_step_def abs_string_def Let_def)
  qed
next
  case False
  have "abs_string st = [47] \<longleftrightarrow> st = []"
    using assms(1) by (cases st) (auto simp: abs_string_def word_ok_def)
  then show ?thesis using False by (auto simp: wash_step_def norm_step_def abs_string_def)
qed

lemma norm_step_ok: "list_all word_ok st \<Longrightarrow> word_ok n \<Longrightarrow> list_all word_ok (norm_step st n)"
  by (auto simp: norm_step_def list_all_iff dest: in_set_butlastD)

lemma wash_steps_norm:
  "list_all word_ok st \<Longrightarrow> list_all word_ok ns \<Longrightarrow> foldl wash_step (abs_string st) ns = abs_string (foldl norm_step st ns)"
  by (induction ns arbitrary: st) (simp_all add: wash_step_norm norm_step_ok)

lemma next_component_cases:
  obtains "rest_components sub = []" "next_component sub = Some ([], None)"
  | w ws p where "rest_components sub = w # ws" "short_name w" "next_component sub = Some (w, p)" "rest_components p = ws"
  | w ws where "rest_components sub = w # ws" "\<not> short_name w" "next_component sub = None"
proof (cases sub)
  case None
  then show thesis using that(1) by (simp add: rest_components_def next_component_def)
next
  case (Some q)
  then have eq: "rest_components sub = components q" "next_component sub = path_parse q"
    by (simp_all add: rest_components_def next_component_def)
  show thesis using that unfolding eq by (rule path_parse_cases [of q])
qed

lemma wash_loop_eq:
  "name \<noteq> [] \<Longrightarrow> wash_loop name sub new =
     (if list_all short_name (rest_components sub) then Some (foldl wash_step new (name # rest_components sub)) else None)"
proof (induction name sub new rule: wash_loop.induct)
  case (1 name sub new)
  show ?case
  proof (rule next_component_cases [of sub])
    assume a: "rest_components sub = []" "next_component sub = Some ([], None)"
    then show ?thesis using 1(2) by (simp add: wash_loop.simps [of name] wash_loop.simps [of "[]"])
  next
    fix w ws p
    assume a: "rest_components sub = w # ws" "short_name w" "next_component sub = Some (w, p)" "rest_components p = ws"
    have "w \<in> set (rest_components sub)" using a(1) by simp
    then have "w \<noteq> []" using components_ok by (auto simp: rest_components_def word_ok_def split: option.splits)
    then show ?thesis using 1(1) [OF 1(2) a(3)] a 1(2) by (simp add: wash_loop.simps [of name])
  next
    fix w ws
    assume "rest_components sub = w # ws" "\<not> short_name w" "next_component sub = None"
    then show ?thesis using 1(2) by (simp add: wash_loop.simps [of name])
  qed
qed

lemma wash_path_eq:
  assumes "p \<noteq> []" "hd p = 47" "list_all short_name (components p)"
  shows "wash_path p = Some (abs_string (foldl norm_step [] (components p)))"
proof (rule path_parse_cases [of p])
  assume "components p = []" "path_parse p = Some ([], None)"
  then show ?thesis using assms by (simp add: wash_path_def abs_string_def)
next
  fix w ws q
  assume a: "components p = w # ws" "short_name w" "path_parse p = Some (w, q)" "rest_components q = ws"
  then have ok: "word_ok w" "list_all word_ok (components p)" using components_ok [of _ p] by (auto simp: list_all_iff)
  then have "w \<noteq> []" by (simp add: word_ok_def)
  then have "wash_path p = Some (foldl wash_step (abs_string []) (components p))"
    using a assms wash_loop_eq [of w q "[47]"] by (simp add: wash_path_def abs_string_def)
  then show ?thesis using wash_steps_norm [of "[]" "components p"] ok by simp
next
  fix w ws
  assume "components p = w # ws" "\<not> short_name w"
  then show ?thesis using assms(3) by simp
qed

section \<open>Command words against a reference\<close>

fun split_on :: "u8 \<Rightarrow> u8 list \<Rightarrow> u8 list list" where
  "split_on t [] = [[]]"
| "split_on t (c # cs) = (if c = t then [] # split_on t cs else (case split_on t cs of [] \<Rightarrow> [[c]] | w # ws \<Rightarrow> (c # w) # ws))"

definition words_of :: "u8 \<Rightarrow> u8 list \<Rightarrow> u8 list list" where
  "words_of t xs = filter (\<lambda>w. w \<noteq> []) (split_on t xs)"

lemma words_skip: "words_of t (dropWhile (\<lambda>c. c = t) xs) = words_of t xs"
  by (induction xs) (simp_all add: words_of_def)

lemma split_on_word: "t \<notin> set w \<Longrightarrow> split_on t (w @ r) = (case split_on t r of [] \<Rightarrow> [w] | v # vs \<Rightarrow> (w @ v) # vs)"
proof (induction w)
  case Nil
  show ?case by (cases r) (simp_all split: list.split)
next
  case (Cons c w)
  then show ?case by (cases "split_on t r") auto
qed

lemma words_append:
  assumes "w \<noteq> []" "t \<notin> set w" "r = [] \<or> r = t # drop 1 r"
  shows "words_of t (w @ r) = w # words_of t (drop 1 r)"
  using assms(3)
proof
  assume "r = []"
  then show ?thesis using split_on_word [OF assms(2), of "[]"] assms(1) by (simp add: words_of_def)
next
  assume "r = t # drop 1 r"
  then obtain r' where r: "r = t # r'" by blast
  have "split_on t (w @ t # r') = w # split_on t r'" using split_on_word [OF assms(2), of "t # r'"] by simp
  then show ?thesis using r assms(1) by (simp add: words_of_def)
qed

lemma words_take:
  assumes "p \<noteq> []" "hd p \<noteq> t"
  shows "words_of t p = takeWhile (\<lambda>c. c \<noteq> t) p # words_of t (drop 1 (dropWhile (\<lambda>c. c \<noteq> t) p))"
proof -
  let ?w = "takeWhile (\<lambda>c. c \<noteq> t) p" let ?r = "dropWhile (\<lambda>c. c \<noteq> t) p"
  have w: "?w \<noteq> []" "t \<notin> set ?w" using assms by (cases p; auto dest: set_takeWhileD)+
  have "?r = [] \<or> ?r = t # drop 1 ?r" using hd_dropWhile [of "\<lambda>c. c \<noteq> t" p] by (cases ?r) auto
  from words_append [OF w this] show ?thesis by (simp only: takeWhile_dropWhile_id)
qed

lemma cmd_parse_loop_eq:
  "length argv \<le> 16 \<Longrightarrow> cmd_parse_loop t xs argv =
     (if length argv + length (words_of t xs) \<le> 16
      then Some (of_nat (length argv + length (words_of t xs)), argv @ words_of t xs) else None)"
proof (induction t xs argv rule: cmd_parse_loop.induct)
  case (1 t xs argv)
  let ?p = "dropWhile (\<lambda>c. c = t) xs"
  show ?case
  proof (cases "?p = []")
    case True
    then have "words_of t xs = words_of t []" by (metis words_skip)
    then have "words_of t xs = []" by (simp add: words_of_def)
    then show ?thesis using True 1(2) by (subst cmd_parse_loop.simps) (simp add: Let_def)
  next
    case False
    then have "hd ?p \<noteq> t" using hd_dropWhile [of "\<lambda>c. c = t" xs] by metis
    note w = words_take [OF False this, unfolded words_skip]
    show ?thesis
    proof (cases "length argv < 16")
      case True
      then show ?thesis using 1(1) [OF refl False] False w
        by (subst cmd_parse_loop.simps) (simp add: Let_def MAX_ARG_NR_def)
    next
      case nf: False
      then show ?thesis using False w 1(2) by (subst cmd_parse_loop.simps) (simp add: Let_def MAX_ARG_NR_def)
    qed
  qed
qed

section \<open>Line editing against a reference\<close>

definition edit :: "u8 list \<Rightarrow> u8 \<Rightarrow> u8 list" where
  "edit line c = (if c = 8 then butlast line else if c = 11 then line else if c = 20 then [] else line @ [c])"

lemma edit_simps:
  "edit line 8 = butlast line" "edit line 11 = line" "edit line 20 = []" "\<not> (c = 8 \<or> c = 11 \<or> c = 20) \<Longrightarrow> edit line c = line @ [c]"
  by (simp_all add: edit_def)

lemma readline_edits:
  assumes "length bf = cmd_len" "take (length line) bf = line" "8 \<notin> set line" "0 \<notin> set line"
    and "set input \<inter> {0, 10, 13} = {}" "\<And>k. length (foldl edit line (take k input)) < cmd_len"
  shows "\<exists>bf'. readline (input @ [13]) (length line) bf = Some bf' \<and> cstr bf' = foldl edit line input"
  using assms
proof (induction input arbitrary: line bf)
  case Nil
  let ?n = "length line"
  have n: "?n < length bf" using Nil(6) [of 0] Nil(1) by simp
  then have "bf[?n := 0] = line @ 0 # drop (Suc ?n) bf" using Nil(2) by (simp add: upd_conv_take_nth_drop)
  then have "cstr (bf[?n := 0]) = line" using Nil(4) by (simp add: cstr_def takeWhile_stop)
  then show ?case using n Nil(1) by (simp add: cmd_len_def MAX_PATH_LEN_def)
next
  case (Cons c input)
  let ?n = "length line" let ?b = "bf[?n := c]"
  have n: "?n < cmd_len" "?n < length bf" using Cons.prems(6) [of 0] Cons.prems(1) by simp_all
  have c: "c \<noteq> 10" "c \<noteq> 13" "c \<noteq> 0" "set input \<inter> {0, 10, 13} = {}" using Cons.prems(5) by auto
  have len: "length (foldl edit (edit line c) (take k input)) < cmd_len" for k using Cons.prems(6) [of "Suc k"] by simp
  have b: "length ?b = cmd_len" "take ?n ?b = line" "?b ! ?n = c" using Cons.prems(1,2) n by simp_all
  have b0: "?b ! 0 = 8 \<longleftrightarrow> line = []" if "c = 8"
    using b(2,3) Cons.prems(3) that n by (cases line) (auto simp: nth_list_update, metis list.set_intros(1) nth_Cons_0 nth_take length_Cons zero_less_Suc)
  have step: "\<exists>bf'. readline (input @ [13]) (length l) b' = Some bf' \<and> cstr bf' = foldl edit (edit line c) input"
    if "l = edit line c" "length b' = cmd_len" "take (length l) b' = l" for l b'
  proof -
    have "set l \<subseteq> set line \<union> (if c = 8 then {} else {c})"
      using that(1) by (auto simp: edit_def dest: in_set_butlastD)
    then have "8 \<notin> set l" "0 \<notin> set l" using Cons.prems(3,4) c(3) by (auto split: if_splits)
    then show ?thesis using Cons.IH [of b' l] that len c(4) by auto
  qed
  have r: "readline ((c # input) @ [13]) ?n bf =
      (if c = 8 then readline (input @ [13]) (if ?b ! 0 \<noteq> 8 then ?n - 1 else ?n) ?b
       else if c = 11 then readline (input @ [13]) ?n (?b[?n := 0])
       else if c = 20 then readline (input @ [13]) 0 (take 1 ?b @ replicate ?n 0 @ drop (?n + 1) ?b)
       else readline (input @ [13]) (?n + 1) ?b)"
    using n(1) c by (simp add: Let_def cmd_len_def MAX_PATH_LEN_def)
  show ?case
  proof (cases "c = 8 \<or> c = 11 \<or> c = 20")
    case True
    then consider "c = 8" | "c = 11" | "c = 20" by blast
    then show ?thesis
    proof cases
      case 1
      have "take (?n - 1) ?b = butlast line" using b(2) by (metis butlast_conv_take min.absorb1 diff_le_self take_take)
      then show ?thesis using 1 r b0 step [of "butlast line" ?b] b(1) by (cases "line = []") (simp_all add: edit_simps(1-3) del: readline.simps)
    next
      case 2
      then show ?thesis using r step [of line "?b[?n := 0]"] b by (simp add: edit_simps(1-3) del: readline.simps)
    next
      case 3
      then show ?thesis using r step [of "[]" "take 1 ?b @ replicate ?n 0 @ drop (?n + 1) ?b"] b n by (simp add: edit_simps(1-3) del: readline.simps)
    qed
  next
    case False
    have "take (Suc ?n) ?b = line @ [c]" using b n by (simp add: take_Suc_conv_app_nth)
    then show ?thesis using False r step [of "line @ [c]" ?b] b(1) edit_simps(4) [OF False] by (simp del: readline.simps)
  qed
qed

lemma components_abs_string: "list_all word_ok st \<Longrightarrow> components (abs_string st) = st"
proof -
  have "components (concat (map ((#) 47) st)) = st" if "list_all word_ok st"
    using that
  proof (induction st)
    case (Cons n st)
    have "concat (map ((#) 47) st) = [] \<or> take 1 (concat (map ((#) 47) st)) = [47]" by (cases st) auto
    then show ?case using Cons components_word [of n "concat (map ((#) 47) st)"] by (simp add: word_ok_def)
  qed simp
  then show "list_all word_ok st \<Longrightarrow> components (abs_string st) = st" by (auto simp: abs_string_def components_def)
qed

lemma norm_steps_ok: "list_all word_ok st \<Longrightarrow> list_all word_ok ns \<Longrightarrow> list_all word_ok (foldl norm_step st ns)"
  by (induction ns arbitrary: st) (simp_all add: norm_step_ok)

lemma norm_steps_plain:
  assumes "set st \<inter> {[46], [46, 46]} = {}" "set ns \<inter> {[46], [46, 46]} = {}"
  shows "foldl norm_step st ns = st @ ns"
  using assms(2) by (induction ns arbitrary: st) (auto simp: norm_step_def)

lemma norm_steps_no_dots: "set st \<inter> {[46], [46, 46]} = {} \<Longrightarrow> set (foldl norm_step st ns) \<inter> {[46], [46, 46]} = {}"
  by (induction ns arbitrary: st) (auto simp: norm_step_def dest: in_set_butlastD)

lemma norm_steps_set: "set (foldl norm_step st ns) \<subseteq> set st \<union> set ns"
proof (induction ns arbitrary: st)
  case (Cons n ns)
  have "set (norm_step st n) \<subseteq> set st \<union> {n}" by (auto simp: norm_step_def dest: in_set_butlastD)
  with Cons [of "norm_step st n"] show ?case by auto
qed simp

lemma norm_steps_short: "list_all short_name ns \<Longrightarrow> list_all short_name (foldl norm_step [] ns)"
  using norm_steps_set [of "[]" ns] by (auto simp: list_all_iff)

section \<open>Properties\<close>



text \<open>
  Property C39: \<open>cmd_parse\<close> returns the words of the command line and their number when there are at most 16, and
  writes behind the end of \<open>argv\<close> as soon as there are 17: the check for too many words comes after the store, so its error value is
  never returned before the array is overrun.
\<close>

theorem cmd_parse_splits_words:
  "cmd_parse line token =
     (if length (words_of token line) \<le> 16 then Some (of_nat (length (words_of token line)), words_of token line) else None)"
  using cmd_parse_loop_eq [of "[]" token line] by (simp add: cmd_parse_def)
end
