(* ===== verification/Cat.thy ===== *)
theory Cat
  imports FileData Shell
begin

text \<open>
  The user program command/cat.c.  The result of \<open>main\<close> is the exit status, the bytes that the program has
  written to descriptor 1 and the new state.  A read or write that waits for another task is \<open>None\<close>: the program does not get further by itself.
\<close>

section \<open>The program\<close>

text \<open>One round of the loop: \<open>read_bytes\<close> and, unless it is -1, the bytes written.\<close>

definition cat_step :: "u32 \<Rightarrow> u32 \<Rightarrow> 'a fs_scheme \<Rightarrow> (u32 \<times> u8 list \<times> 'a fs_scheme) option" where
  "cat_step fd bf s =
     do {
       r \<leftarrow> sys_read fd bf 1024 s;
       (case r of
          Inl _ \<Rightarrow> None
        | Inr (read_bytes, bs, s) \<Rightarrow>
            if read_bytes = -1 then Some (-1, [], s) else do { s \<leftarrow> emit bs s; Some (read_bytes, bs, s) })
     }"

partial_function (option) drain :: "('s \<Rightarrow> (u32 \<times> u8 list \<times> 's) option) \<Rightarrow> 's \<Rightarrow> (u8 list \<times> 's) option" where
  "drain step s =
     do {
       r \<leftarrow> step s;
       (if fst r = -1 then Some ([], snd (snd r))
        else do { t \<leftarrow> drain step (snd (snd r)); Some (fst (snd r) @ fst t, snd t) })
     }"

definition cat_loop :: "u32 \<Rightarrow> u32 \<Rightarrow> 'a fs_scheme \<Rightarrow> (u8 list \<times> 'a fs_scheme) option" where
  "cat_loop fd bf = drain (cat_step fd bf)"

definition say :: "u8 list \<Rightarrow> va list \<Rightarrow> u32 \<Rightarrow> 'a fs_scheme \<Rightarrow> (u32 \<times> u8 list \<times> 'a fs_scheme) option" where
  "say fmt ap code s = do { t \<leftarrow> printf fmt ap; s \<leftarrow> emit t s; Some (code, t, s) }"

text \<open>
  Without a file name: up to 512 bytes of descriptor 0.  The buffer has no room for a terminating 0 behind them, so 512 bytes
  without a 0 make \<open>printf\<close> read past its end.
\<close>

definition cat_stdin :: "u32 \<Rightarrow> 'a fs_scheme \<Rightarrow> (u32 \<times> u8 list \<times> 'a fs_scheme) option" where
  "cat_stdin bf s =
     do {
       r \<leftarrow> sys_read 0 bf 512 s;
       (case r of
          Inl _ \<Rightarrow> None
        | Inr (_, bs, s) \<Rightarrow> if length bs < 512 \<or> 0 \<in> set bs then say (str ''%s'') [Str_arg (cstr bs)] 0 s else None)
     }"

text \<open>The path is at most 511 bytes long; \<open>strcat\<close> of a longer one overruns its buffer.\<close>

definition cat_path :: "u8 list \<Rightarrow> 'a fs_scheme \<Rightarrow> (u8 list \<times> 'a fs_scheme) option" where
  "cat_path arg s =
     do {
       (abs_path, s) \<leftarrow>
         (if arg \<noteq> [] \<and> hd arg = 47 then Some (arg, s)
          else do {
            (cwd, s) \<leftarrow> sys_getcwd 1 512 s;
            Some ((case cwd of None \<Rightarrow> [] | Some c \<Rightarrow> c) @ [47] @ arg, s)
          });
       (if length abs_path < 512 then Some (abs_path, s) else None)
     }"

text \<open>\<open>bf\<close> is the address of the buffer on the stack; the arguments are the words of the command line.\<close>

definition cat_main :: "u32 \<Rightarrow> u32 \<Rightarrow> u8 list list \<Rightarrow> 'a fs_scheme \<Rightarrow> (u32 \<times> u8 list \<times> 'a fs_scheme) option" where
  "cat_main bf argc argv s =
     (if sint argc > 2 then say (str ''cat: argument error'' @ [10]) [] (-2) s
      else if argc = 1 then cat_stdin bf s
      else let (ptr, s) = fs_malloc s in
        if ptr = 0 then say (str ''cat: malloc memory failed'' @ [10]) [] (-1) s
        else do {
          (abs_path, s) \<leftarrow> cat_path (argv ! 1) s;
          (fd, s) \<leftarrow> sys_open abs_path 0 s;
          (if fd = -1 then say (str ''cat: open: open %s failed'' @ [10]) [Str_arg (argv ! 1)] (-1) s
           else do {
             (out, s) \<leftarrow> cat_loop fd ptr s;
             fs_free ptr;
             (_, s) \<leftarrow> sys_close fd s;
             Some (66, out, s)
           })
        })"


section \<open>Reading a stream to its end\<close>

text \<open>
  What the loop relies on: a source with a sequence of bytes still to come.  A step at the end reports -1, and otherwise delivers a
  non-empty prefix.  Every such source is drained completely, and the loop ends.
\<close>

locale byte_source =
  fixes ready :: "'s \<Rightarrow> bool"
    and rest :: "'s \<Rightarrow> u8 list"
    and step :: "'s \<Rightarrow> (u32 \<times> u8 list \<times> 's) option"
  assumes step_end: "ready s \<Longrightarrow> rest s = [] \<Longrightarrow> step s = Some (-1, [], s)"
    and step_more: "ready s \<Longrightarrow> rest s \<noteq> [] \<Longrightarrow>
      \<exists>n bs s'. step s = Some (n, bs, s') \<and> n \<noteq> -1 \<and> bs \<noteq> [] \<and> rest s = bs @ rest s' \<and> ready s'"
begin

lemma drain_all: "ready s \<Longrightarrow> \<exists>s'. drain step s = Some (rest s, s') \<and> ready s' \<and> rest s' = []"
proof (induction "length (rest s)" arbitrary: s rule: less_induct)
  case less
  show ?case
  proof (cases "rest s = []")
    case True
    then show ?thesis using step_end [OF less.prems] less.prems by (subst drain.simps) simp
  next
    case False
    then obtain n bs s' where st: "step s = Some (n, bs, s')" "n \<noteq> -1" "bs \<noteq> []" "rest s = bs @ rest s'" "ready s'"
      using step_more [OF less.prems] by blast
    then obtain t where "drain step s' = Some (rest s', t)" "ready t" "rest t = []" using less.hyps [of s'] by auto
    then show ?thesis using st by (subst drain.simps) simp
  qed
qed

lemma drain_determined: "ready s \<Longrightarrow> ready t \<Longrightarrow> rest s = rest t \<Longrightarrow> map_option fst (drain step s) = map_option fst (drain step t)"
  using drain_all [of s] drain_all [of t] by auto

end

text \<open>
  A regular file opened for reading is such a source: the bytes from the file position to the end.  Descriptor 1 is the
  console, and the heap has two blocks for each read.
\<close>

definition console_out :: "'a fs_scheme \<Rightarrow> bool" where
  "console_out s \<longleftrightarrow> is_pipe 1 s = Some False"

definition cat_rest :: "nat \<Rightarrow> u32 \<Rightarrow> 'a fs_scheme \<Rightarrow> u8 list" where
  "cat_rest k a s = drop (unat (fd_pos (file_table s ! k))) (file_data a s)"

definition cat_ready :: "u32 \<Rightarrow> nat \<Rightarrow> u32 \<Rightarrow> 'a fs_scheme \<Rightarrow> bool" where
  "cat_ready fd k a s \<longleftrightarrow> part_ok s \<and> file_ok a s \<and> fd_file fd k a s \<and> console_out s \<and>
     unat (fd_pos (file_table s ! k)) \<le> unat (i_size (inodes s a)) \<and>
     0 \<notin> set (mallocs s) \<and> 2 * length (cat_rest k a s) \<le> length (mallocs s)"

lemma emit_console: "console_out s \<Longrightarrow> length bs \<le> 1024 \<Longrightarrow> emit bs s = Some s"
  by (simp add: emit_def sys_write_def console_out_def unat_of_nat)

lemma length_file_data: "part_ok s \<Longrightarrow> file_ok a s \<Longrightarrow> length (file_data a s) = unat (i_size (inodes s a))"
  using file_ok_facts(2,4) [of a s] by (simp add: file_data_def part_ok_def fs_ok_def)

lemma cat_step_reads:
  assumes r: "cat_ready fd k a s" and bf: "bf \<noteq> 0" and more: "cat_rest k a s \<noteq> []"
  shows "\<exists>n bs s'. cat_step fd bf s = Some (n, bs, s') \<and> n \<noteq> -1 \<and> bs \<noteq> [] \<and> cat_rest k a s = bs @ cat_rest k a s' \<and> cat_ready fd k a s'"
proof -
  let ?m = "unat (fd_pos (file_table s ! k))" and ?z = "unat (i_size (inodes s a))"
  have ok: "part_ok s" "file_ok a s" "fd_file fd k a s" "console_out s" "?m \<le> ?z" using r by (auto simp: cat_ready_def)
  have k: "k < length (file_table s)" "fd_inode (file_table s ! k) = a" using fd_file_resolves [OF ok(3)] ok(3) by (auto simp: fd_file_def)
  have len: "length (cat_rest k a s) = ?z - ?m" using length_file_data [OF ok(1,2)] by (simp add: cat_rest_def)
  have z: "?z < 6145" using file_ok_facts(2,3) [OF ok(2)] by linarith
  have "2 \<le> length (mallocs s)" using r more by (cases "cat_rest k a s") (auto simp: cat_ready_def)
  then obtain p q y where mem: "mallocs s = p # q # y" by (metis Suc_le_length_iff numeral_2_eq_2)
  define n where "n = min 1024 (?z - ?m)"
  have n: "0 < n" "n \<le> 1024" "n \<le> ?z - ?m" using more len [symmetric] by (auto simp: n_def)
  define s' where "s' = upd_file k (\<lambda>f. f\<lparr>fd_pos := fd_pos f + of_nat n\<rparr>) (s\<lparr>mallocs := y\<rparr>)"
  let ?bs = "take n (drop ?m (file_data a s))"
  have "file_read k 1024 s = Some (of_nat n, ?bs, s')"
    using file_read_effect [OF ok(1,2) k mem _ _ refl ok(5), of 1024] r mem n(1) z by (simp add: cat_ready_def n_def s'_def)
  moreover have m1: "(of_nat n :: u32) \<noteq> -1" using n(2) by (auto simp: u32_eq_iff_unat unat_of_nat unat_neg_one)
  moreover have pos': "unat (fd_pos (file_table s' ! k)) = ?m + n" using k(1) n(2) z ok(5) by (simp add: s'_def unat_plus_small unat_of_nat)
  have i': "inodes s' = inodes s" "file_data a s' = file_data a s" "mallocs s' = y" "tasks s' = tasks s" "esp s' = esp s"
      "file_table s' = (file_table s)[k := (file_table s ! k)\<lparr>fd_pos := fd_pos (file_table s ! k) + of_nat n\<rparr>]"
    by (simp_all add: s'_def file_data_def) (simp_all add: upd_file_def)
  have fd': "fd_file fd k a s'" by (rule fd_file_step [OF ok(3) i'(4,5,6)])
  have con: "console_out s'"
    using ok(4) i'(4,5,6) k(1)
    by (auto simp: console_out_def is_pipe_def fd_local2global_def running_thread_def Let_def nth_list_update split: if_splits)
  have ok': "part_ok s'" "file_ok a s'"
    using ok(1,2) by (simp_all add: s'_def part_ok_def file_ok_def fs_ok_def free_blocks_def block_free_def in_data_def)
  have split: "cat_rest k a s = ?bs @ cat_rest k a s'"
    unfolding cat_rest_def pos' i'(2) by (metis append_take_drop_id drop_drop add.commute)
  have bs: "length ?bs = n" using n(3) length_file_data [OF ok(1,2)] by simp
  have "cat_ready fd k a s'"
    using ok' fd' con pos' n r arg_cong [OF split, of length] bs mem by (auto simp: cat_ready_def i')
  moreover have "emit ?bs s' = Some s'" using con bs n(2) by (intro emit_console) simp_all
  ultimately show ?thesis
    using sys_read_file [OF ok(3) bf, of 1024] bs n(1) split
    by (intro exI [of _ "of_nat n"] exI [of _ ?bs] exI [of _ s']) (auto simp: cat_step_def)
qed

interpretation cat: byte_source "\<lambda>s. bf \<noteq> 0 \<and> cat_ready fd k a s" "cat_rest k a" "cat_step fd bf"
proof
  fix s :: "'a fs_scheme"
  assume r: "bf \<noteq> 0 \<and> cat_ready fd k a s"
  show "\<exists>n bs s'. cat_step fd bf s = Some (n, bs, s') \<and> n \<noteq> -1 \<and> bs \<noteq> [] \<and> cat_rest k a s = bs @ cat_rest k a s' \<and>
          (bf \<noteq> 0 \<and> cat_ready fd k a s')" if "cat_rest k a s \<noteq> []"
    using cat_step_reads [of fd k a s bf] r that by blast
  assume e: "cat_rest k a s = []"
  let ?m = "unat (fd_pos (file_table s ! k))"
  have ok: "part_ok s" "file_ok a s" "fd_file fd k a s" "?m \<le> unat (i_size (inodes s a))" using r by (auto simp: cat_ready_def)
  have m: "unat (i_size (inodes s a)) = ?m" using e ok(4) length_file_data [OF ok(1,2)] by (simp add: cat_rest_def)
  then have w: "i_size (inodes s a) = fd_pos (file_table s ! k)" by (simp add: u32_eq_iff_unat)
  have fi: "fd_inode (file_table s ! k) = a" using ok(3) by (simp add: fd_file_def)
  have "?m + 1024 < 4294967296" using m file_ok_facts(2,3) [OF ok(2)] by simp
  then have "fd_pos (file_table s ! k) < fd_pos (file_table s ! k) + 1024" by (simp add: word_less_nat_alt unat_plus_small)
  then have "file_read k 1024 s = Some (-1, [], s)" using w fi by (simp add: file_read_def)
  then show "cat_step fd bf s = Some (-1, [], s)" using r sys_read_file [OF ok(3), of bf 1024] by (simp add: cat_step_def)
qed

section \<open>Properties\<close>


text \<open>An example: the file with the bytes of \<open>hi\<close> and a line feed.\<close>

definition demo_cat_fs :: fs where
  "demo_cat_fs = demo_file_fs\<lparr>inodes := (\<lambda>_. (demo_inode 0)\<lparr>i_size := 3, i_sectors := 2660 # replicate 12 0\<rparr>),
     hd0 := (\<lambda>l. if l = 2660 then [104, 105, 10] @ replicate 509 0 else replicate 512 0), mallocs := replicate 6 0xc0103000\<rparr>"

lemma demo_cat_fs_ready:
  "cat_ready 3 3 0xc0107000 demo_cat_fs" "fd_pos (file_table demo_cat_fs ! 3) = 0" "file_data a demo_cat_fs = [104, 105, 10]"
proof -
  show f: "fd_pos (file_table demo_cat_fs ! 3) = 0" by (simp add: demo_cat_fs_def)
  show d: "file_data a demo_cat_fs = [104, 105, 10]" for a
    by (simp add: file_data_def bytes_of_def file_blocks_def n_blocks_def demo_cat_fs_def)
  have p: "part_ok demo_cat_fs"
    using demo_file_fs_ok(1) by (simp add: demo_cat_fs_def part_ok_def fs_ok_def disk_ok_def free_blocks_def block_free_def)
  have "free_blocks demo_cat_fs = free_blocks demo_file_fs" by (simp add: demo_cat_fs_def free_blocks_def block_free_def)
  moreover have "2660 \<notin> free_blocks demo_file_fs" using demo_file_fs_ok(1) by (simp add: part_ok_def) (simp add: demo_part_def demo_sb_def)
  ultimately have "file_ok 0xc0107000 demo_cat_fs"
    by (auto simp: file_ok_def n_blocks_def file_blocks_def demo_cat_fs_def in_data_def nth_Cons' demo_part_def demo_sb_def)
  moreover have "fd_file 3 3 0xc0107000 demo_cat_fs" using demo_file_fs_ok(3) by (simp add: fd_file_def demo_cat_fs_def running_thread_def)
  moreover have "console_out demo_cat_fs"
    by (simp add: console_out_def is_pipe_def fd_local2global_def demo_cat_fs_def MAX_FILES_OPEN_PER_PROC_def MAX_FILE_OPEN_def PIPE_FLAG_def)
  ultimately show "cat_ready 3 3 0xc0107000 demo_cat_fs" using p f d by (simp add: cat_ready_def cat_rest_def) (simp add: demo_cat_fs_def)
qed

end
