(* ===== verification/SchedInv.thy ===== *)
theory SchedInv
  imports Sched
begin

text \<open>
  The scheduler as a transition system: every sequence of the operations that move tasks, in any order.  The invariant ties together the
  lists, the states of the tasks, their stack marks and their address spaces; it is kept by every operation, and no operation
  of the scheduler stops the kernel in a state where its caller may invoke it.
\<close>

section \<open>Operations\<close>

datatype sched_op = Block task_status | Unblock u32 | Yield | Tick | Resume intr_status

text \<open>The timer interrupt comes through an interrupt gate, which clears the flag.\<close>

definition sched_do :: "sched_op \<Rightarrow> 'a sched_scheme \<Rightarrow> 'a sched_scheme option" where
  "sched_do op s =
     (case op of
        Block st \<Rightarrow> map_option snd (thread_block st s)
      | Unblock t \<Rightarrow> thread_unblock t s
      | Yield \<Rightarrow> map_option snd (thread_yield s)
      | Tick \<Rightarrow> intr_timer_handler (cli s)
      | Resume st \<Rightarrow> Some (resume st s))"

text \<open>
  When the callers use an operation: tasks block in one of the three sleeping states, the idle task only as \<open>TASK_BLOCKED\<close>;
  woken is a task that sleeps; the timer interrupts only with the flag set.
\<close>

definition may_do :: "sched_op \<Rightarrow> 'a sched_scheme \<Rightarrow> bool" where
  "may_do op s =
     (case op of
        Block st \<Rightarrow> st \<in> {TASK_BLOCKED, TASK_WAITING, TASK_HANGING} \<and> (running_thread s = idle_thread s \<longrightarrow> st = TASK_BLOCKED)
      | Unblock t \<Rightarrow> t \<in> set (all_list s) \<and> status (tasks s t) \<in> {TASK_BLOCKED, TASK_WAITING, TASK_HANGING}
      | Yield \<Rightarrow> True
      | Tick \<Rightarrow> intr_get_status s = INTR_ON
      | Resume st \<Rightarrow> True)"

inductive sched_reach :: "'a sched_scheme \<Rightarrow> 'a sched_scheme \<Rightarrow> bool" for s0 where
  start: "sched_reach s0 s0"
| move: "sched_reach s0 s \<Longrightarrow> may_do op s \<Longrightarrow> sched_do op s = Some s' \<Longrightarrow> sched_reach s0 s'"

section \<open>The invariant\<close>

text \<open>
  The page directories, by physical address: the kernel's is one, the current one is one, and in each of them the
  directory of every process can be found.
\<close>

definition spaces_ok :: "u32 set \<Rightarrow> 'a sched_scheme \<Rightarrow> bool" where
  "spaces_ok C s \<longleftrightarrow> cr3 s \<in> C \<and> 0x100000 \<in> C \<and>
     (\<forall>c \<in> C. \<forall>t \<in> set (all_list s). pgdir (tasks s t) \<noteq> 0 \<longrightarrow> (\<exists>c' \<in> C. addr_v2p (s\<lparr>cr3 := c\<rparr>) (pgdir (tasks s t)) = Some c'))"

definition sched_good :: "u32 set \<Rightarrow> 'a sched_scheme \<Rightarrow> bool" where
  "sched_good C s \<longleftrightarrow> sched_inv s \<and> spaces_ok C s \<and> (\<forall>t \<in> set (all_list s). stack_magic (tasks s t) = 0x19870916)"

text \<open>What no operation touches.\<close>

definition same_frame :: "u32 set \<Rightarrow> 'a sched_scheme \<Rightarrow> 'a sched_scheme \<Rightarrow> bool" where
  "same_frame C s s' \<longleftrightarrow> phys s' = phys s \<and> all_list s' = all_list s \<and> (cr3 s \<in> C \<longrightarrow> cr3 s' \<in> C) \<and>
     (\<forall>t. pgdir (tasks s' t) = pgdir (tasks s t) \<and> stack_magic (tasks s' t) = stack_magic (tasks s t))"

lemma same_frame_good:
  assumes "same_frame C s s'" "sched_good C s" "sched_inv s'"
  shows "sched_good C s'"
proof -
  have "addr_v2p (s'\<lparr>cr3 := c\<rparr>) va = addr_v2p (s\<lparr>cr3 := c\<rparr>) va" for c va
    using assms(1) by (intro addr_v2p_cong) (simp_all add: same_frame_def)
  then show ?thesis using assms by (simp add: sched_good_def same_frame_def spaces_ok_def)
qed

lemma spaces_here:
  assumes "spaces_ok C s" "t \<in> set (all_list s)" "pgdir (tasks s t) \<noteq> 0"
  shows "\<exists>c \<in> C. addr_v2p s (pgdir (tasks s t)) = Some c"
proof -
  have "addr_v2p (s\<lparr>cr3 := cr3 s\<rparr>) (pgdir (tasks s t)) = addr_v2p s (pgdir (tasks s t))" by (intro addr_v2p_cong) simp_all
  then show ?thesis using assms unfolding spaces_ok_def by metis
qed

lemma spaces_activatable: "spaces_ok C s \<Longrightarrow> t \<in> set (all_list s) \<Longrightarrow> activatable s t"
  using spaces_here [of C s t] by (auto simp: activatable_def)

lemma spaces_cong:
  assumes "phys s' = phys s" "cr3 s' = cr3 s" "\<And>t. pgdir (tasks s' t) = pgdir (tasks s t)" "all_list s' = all_list s"
  shows "spaces_ok C s' = spaces_ok C s"
proof -
  have "addr_v2p (s'\<lparr>cr3 := c\<rparr>) va = addr_v2p (s\<lparr>cr3 := c\<rparr>) va" for c va
    using assms(1) by (intro addr_v2p_cong) simp_all
  then show ?thesis using assms by (simp add: spaces_ok_def)
qed

lemma activate_frame:
  assumes "spaces_ok C s" "process_activate t s = Some s'" "t \<in> set (all_list s)"
  shows "same_frame C s s'"
proof -
  have t: "t \<noteq> 0" using assms(2) by (auto simp: process_activate_def)
  obtain c e where c: "process_activate t s = Some (s\<lparr>cr3 := c, esp0 := e\<rparr>)" "pgdir (tasks s t) = 0 \<longrightarrow> c = 0x100000"
    "pgdir (tasks s t) \<noteq> 0 \<longrightarrow> addr_v2p s (pgdir (tasks s t)) = Some c"
    using process_activate_ok [OF spaces_activatable [OF assms(1,3)] t] by blast
  have "c \<in> C" using c(2,3) spaces_here [OF assms(1,3)] assms(1) by (cases "pgdir (tasks s t) = 0") (auto simp: spaces_ok_def)
  then show ?thesis using c(1) assms(2) by (auto simp: same_frame_def)
qed

lemma schedule_frame:
  assumes sp: "spaces_ok C s" and wf: "sched_wf s" "intr_get_status s = INTR_OFF" and sc: "schedule s = Some s'"
  shows "same_frame C s s'"
proof -
  define q where "q = set_status (hd (candidates s)) TASK_RUNNING (requeue s\<lparr>ready_list := tl (candidates s)\<rparr>)"
  have rq: "stack_magic (tasks (requeue s) t) = stack_magic (tasks s t)" for t by (simp add: requeue_def requeue_cur_def)
  have q: "phys q = phys s" "cr3 q = cr3 s" "all_list q = all_list s" "pgdir (tasks q t) = pgdir (tasks s t)" "stack_magic (tasks q t) = stack_magic (tasks s t)" for t
    by (simp_all add: q_def rq)
  obtain s1 where s1: "process_activate (hd (candidates s)) q = Some s1" "s' = switch_to (running_thread (requeue s)) (hd (candidates s)) s1"
    using sc unfolding schedule_dispatch [OF wf] by (auto simp: dispatch_def Let_def q_def bind_eq_Some_conv)
  have "spaces_ok C q" using spaces_cong [of q s C] q sp by blast
  moreover have "hd (candidates s) \<in> set (all_list q)" using requeue_status(1) [OF wf(1), of "hd (candidates s)"] q(3) by simp
  ultimately have "same_frame C q s1" using s1(1) by (intro activate_frame)
  then show ?thesis
    using q s1(2) by (simp add: same_frame_def switch_to_def Let_def)
qed

section \<open>Every operation\<close>

lemma sched_wf_cong:
  assumes "ready_list s' = ready_list s" "all_list s' = all_list s" "idle_thread s' = idle_thread s" "esp s' = esp s"
    and "\<And>t. status (tasks s' t) = status (tasks s t)" "\<And>t. self_kstack (tasks s' t) = self_kstack (tasks s t)"
  shows "sched_wf s' = sched_wf s"
  using assms by (simp add: sched_wf_def running_thread_def)

lemma block_good:
  assumes "sched_good C s" "may_do (Block st) s"
  shows "\<exists>s'. sched_do (Block st) s = Some s' \<and> sched_good C s'"
proof -
  let ?b = "set_status (running_thread s) st (s\<lparr>eflags := eflags s AND NOT EFLAGS_IF\<rparr>)"
  have inv: "sched_inv s" "spaces_ok C s" using assms(1) by (simp_all add: sched_good_def)
  have st: "st = TASK_BLOCKED \<or> st = TASK_WAITING \<or> st = TASK_HANGING" "running_thread s = idle_thread s \<Longrightarrow> st = TASK_BLOCKED"
    using assms(2) by (auto simp: may_do_def)
  obtain s' where s': "thread_block st s = Some (intr_get_status s, s')" "sched_inv s'"
  proof (rule thread_block_inv [OF inv(1) st])
    show "activatable s (successor s)" using inv_facts(4) [OF inv(1)]
      by (intro spaces_activatable [OF inv(2)]) (cases "ready_list s", auto simp: successor_def sched_wf_def)
  qed
  have "schedule ?b = Some s'" using s'(1) st by (auto simp: thread_block_def intr_disable_eq bind_eq_Some_conv)
  moreover have "spaces_ok C ?b" using inv(2) spaces_cong [of ?b s C] by simp
  ultimately have "same_frame C ?b s'" using wf_leave [OF inv(1) st] by (intro schedule_frame) simp_all
  then have "same_frame C s s'" by (simp add: same_frame_def)
  then show ?thesis using s' same_frame_good [OF _ assms(1)] by (auto simp: sched_do_def)
qed

lemma unblock_good:
  assumes "sched_good C s" "may_do (Unblock t) s"
  shows "\<exists>s'. sched_do (Unblock t) s = Some s' \<and> sched_good C s'"
proof -
  let ?s' = "set_status t TASK_READY (s\<lparr>ready_list := t # ready_list s\<rparr>)"
  have "sched_inv s" "t \<in> set (all_list s)" "status (tasks s t) \<in> {TASK_BLOCKED, TASK_WAITING, TASK_HANGING}"
    using assms by (simp_all add: sched_good_def may_do_def)
  note u = thread_unblock_inv [OF this]
  have "same_frame C s ?s'" by (simp add: same_frame_def)
  then show ?thesis using u same_frame_good [OF _ assms(1) u(2)] by (simp add: sched_do_def)
qed

lemma yield_good:
  assumes "sched_good C s"
  shows "\<exists>s'. sched_do Yield s = Some s' \<and> sched_good C s'"
proof -
  let ?cur = "running_thread s"
  let ?b = "set_status ?cur TASK_READY (s\<lparr>eflags := eflags s AND NOT EFLAGS_IF, ready_list := ready_list s @ [?cur]\<rparr>)"
  have inv: "sched_inv s" "spaces_ok C s" using assms by (simp_all add: sched_good_def)
  note f = inv_facts [OF inv(1)]
  obtain s' where s': "thread_yield s = Some (intr_get_status s, s')" "sched_inv s'"
  proof (rule thread_yield_inv [OF inv(1)])
    show "activatable s (hd (ready_list s @ [?cur]))" using f wf_ready [OF f(4)]
      by (intro spaces_activatable [OF inv(2)]) (cases "ready_list s", auto)
  qed
  have "schedule ?b = Some s'" using s'(1) f(1) by (simp add: thread_yield_def intr_disable_eq Let_def bind_eq_Some_conv)
  moreover have "spaces_ok C ?b" using inv(2) spaces_cong [of ?b s C] by simp
  moreover have "\<forall>t. t \<in> set (ready_list s @ [?cur]) \<longleftrightarrow>
      t \<in> set (all_list s) \<and> status (((tasks s)(?cur := tasks s ?cur\<lparr>status := TASK_READY\<rparr>)) t) = TASK_READY"
    using wf_ready [OF f(4)] f by auto
  then have "sched_wf ?b" using f(1,4) unfolding sched_wf_def by simp blast
  ultimately have "same_frame C ?b s'" by (intro schedule_frame) simp_all
  then have "same_frame C s s'" by (simp add: same_frame_def)
  then show ?thesis using s' same_frame_good [OF _ assms] by (auto simp: sched_do_def)
qed

lemma tick_good:
  assumes "sched_good C s"
  shows "\<exists>s'. sched_do Tick s = Some s' \<and> sched_good C s'"
proof -
  let ?cur = "running_thread s"
  have inv: "sched_inv s" "spaces_ok C s" using assms by (simp_all add: sched_good_def)
  have mg: "stack_magic (tasks s ?cur) = 0x19870916" using assms inv_facts(3) [OF inv(1)] by (simp add: sched_good_def)
  define u where "u = (upd_task ?cur (\<lambda>p. p\<lparr>elapsed_ticks := elapsed_ticks p + 1\<rparr>) (cli s))\<lparr>ticks := ticks s + 1\<rparr>"
  have run: "running_thread (cli s) = ?cur" by (simp add: cli_def running_thread_def)
  have u: "ready_list u = ready_list s" "all_list u = all_list s" "idle_thread u = idle_thread s" "esp u = esp s" "phys u = phys s" "cr3 u = cr3 s"
    "status (tasks u t) = status (tasks s t)" "self_kstack (tasks u t) = self_kstack (tasks s t)" "pgdir (tasks u t) = pgdir (tasks s t)"
    "stack_magic (tasks u t) = stack_magic (tasks s t)" "task_ticks (tasks u t) = task_ticks (tasks s t)"
    "intr_get_status u = INTR_OFF" for t
    using get_status_cli [of s] get_status_cong [of u "cli s"] by (simp_all add: u_def cli_def)
  have wf: "sched_wf u" using sched_wf_cong [of u s] u inv(1) by (simp add: sched_inv_def)
  have sp: "spaces_ok C u" using spaces_cong [of u s C] u inv(2) by simp
  have eq: "intr_timer_handler (cli s) =
      (if task_ticks (tasks s ?cur) = 0 then schedule u else Some (upd_task ?cur (\<lambda>p. p\<lparr>task_ticks := task_ticks p - 1\<rparr>) u))"
    using mg run by (simp add: intr_timer_handler_def Let_def u_def cli_def)
  show ?thesis
  proof (cases "task_ticks (tasks s ?cur) = 0")
    case True
    obtain s' where s': "schedule u = Some s'" "sched_inv s'"
    proof (rule schedule_correct [OF wf u(12)])
      show "activatable u (hd (candidates u))" using requeue_status(1) [OF wf, of "hd (candidates u)"] by (intro spaces_activatable [OF sp]) simp
    qed
    have "same_frame C s s'" using schedule_frame [OF sp wf u(12) s'(1)] u by (simp add: same_frame_def)
    then show ?thesis using True eq s' same_frame_good [OF _ assms s'(2)] by (simp add: sched_do_def)
  next
    case False
    let ?s' = "upd_task ?cur (\<lambda>p. p\<lparr>task_ticks := task_ticks p - 1\<rparr>) u"
    have "sched_inv ?s'" using sched_wf_cong [of ?s' u] wf u inv(1) by (simp add: sched_inv_def running_thread_def)
    moreover have "same_frame C s ?s'" using u by (simp add: same_frame_def)
    ultimately show ?thesis using False eq same_frame_good [OF _ assms] by (simp add: sched_do_def)
  qed
qed

lemma resume_good:
  assumes "sched_good C s"
  shows "\<exists>s'. sched_do (Resume st) s = Some s' \<and> sched_good C s'"
proof -
  have "\<exists>e. resume st s = s\<lparr>eflags := e\<rparr>"
  proof (cases st)
    case INTR_ON
    then show ?thesis
      by (intro exI [of _ "if intr_get_status s = INTR_ON then eflags s else eflags s OR EFLAGS_IF"])
        (auto simp: resume_def intr_set_status_def intr_enable_def sti_def)
  qed (auto simp: resume_def intr_set_status_def intr_disable_eq)
  then obtain e where e: "resume st s = s\<lparr>eflags := e\<rparr>" ..
  have "sched_inv (s\<lparr>eflags := e\<rparr>)" using assms sched_wf_cong [of "s\<lparr>eflags := e\<rparr>" s] by (simp add: sched_good_def sched_inv_def)
  moreover have "same_frame C s (s\<lparr>eflags := e\<rparr>)" by (simp add: same_frame_def)
  ultimately show ?thesis using e same_frame_good [OF _ assms] by (simp add: sched_do_def)
qed

lemma sched_do_good:
  assumes "sched_good C s" "may_do op s"
  shows "\<exists>s'. sched_do op s = Some s' \<and> sched_good C s'"
  using assms by (cases op) (simp_all add: block_good unblock_good yield_good tick_good resume_good)

lemma reach_good: "sched_reach s0 s \<Longrightarrow> sched_good C s0 \<Longrightarrow> sched_good C s"
proof (induction rule: sched_reach.induct)
  case (move s op s')
  then show ?case using sched_do_good [of C s op] by auto
qed

text \<open>
  Property C1: from a well-formed state, every sequence of blocking, waking, yielding, timer interrupts and changes of the
  interrupt flag, in any order, stays well-formed, and every operation that its caller may invoke in a state so reached returns: no
  assertion of the scheduler ever fails.
\<close>

theorem scheduler_never_fails:
  assumes "sched_reach s0 s" "sched_good C s0" "may_do op s"
  shows "sched_good C s \<and> (\<exists>s'. sched_do op s = Some s' \<and> sched_good C s')"
  using sched_do_good [OF reach_good [OF assms(1,2)] assms(3)] reach_good [OF assms(1,2)] by blast

theorem scheduler_never_fails_witness:
  "\<exists>s1 s2. sched_do (Block TASK_WAITING) demo_sched = Some s1 \<and> sched_do (Unblock 0xc009e000) s1 = Some s2 \<and> sched_good {0x100000} s2"
proof -
  let ?C = "{0x100000} :: u32 set"
  have pd: "pgdir (tasks demo_sched t) = 0" "stack_magic (tasks demo_sched t) = 0x19870916" for t by (simp_all add: demo_sched_def demo_task_def)
  then have g0: "sched_good ?C demo_sched"
    using demo_sched_inv by (simp add: sched_good_def spaces_ok_def) (simp add: demo_sched_def)
  have ne: "running_thread demo_sched \<noteq> idle_thread demo_sched" unfolding demo_sched_run by (simp add: demo_sched_def)
  then have m0: "may_do (Block TASK_WAITING) demo_sched" by (simp add: may_do_def)
  obtain s1 where s1: "sched_do (Block TASK_WAITING) demo_sched = Some s1"
    using scheduler_never_fails [OF sched_reach.start g0 m0] by blast
  have r1: "sched_reach demo_sched s1" by (rule sched_reach.move [OF sched_reach.start m0 s1])
  obtain s' where s': "thread_block TASK_WAITING demo_sched = Some (intr_get_status demo_sched, s')" "all_list s' = all_list demo_sched"
    "\<And>t. t \<noteq> successor demo_sched \<Longrightarrow> status (tasks s' t) = (if t = running_thread demo_sched then TASK_WAITING else status (tasks demo_sched t))"
    by (rule thread_block_inv [OF demo_sched_inv, of TASK_WAITING]) (use ne pd in \<open>auto simp: activatable_def\<close>)
  have "s1 = s'" using s1 s'(1) by (simp add: sched_do_def)
  moreover have "successor demo_sched = 0xc0101000" "(0xc009e000 :: u32) \<in> set (all_list demo_sched)" by (simp_all add: successor_def demo_sched_def)
  ultimately have "may_do (Unblock 0xc009e000) s1" using s'(2) s'(3) [of "0xc009e000"] demo_sched_run by (simp add: may_do_def)
  from scheduler_never_fails [OF r1 g0 this] show ?thesis using s1 by blast
qed

end
