(* ===== verification/HeapInv.thy ===== *)
theory HeapInv
  imports Process
begin

text \<open>
  The kernel heap as a set of blocks in use: what \<open>sys_malloc\<close> and \<open>sys_free\<close> of kernel/memory.c do to it while
  the arenas stay.  The invariant ties free lists, arena headers and counters together.
\<close>

section \<open>The invariant\<close>

definition bsize :: "nat \<Rightarrow> u32" where "bsize i = block_size (block_desc_init ! i)"
definition bcount :: "nat \<Rightarrow> u32" where "bcount i = blocks_per_arena (block_desc_init ! i)"

definition free_of :: "'a memory_scheme \<Rightarrow> nat \<Rightarrow> u32 list" where
  "free_of s i = free_list (k_block_descs s ! i)"

text \<open>\<open>b\<close> is a block of size class \<open>i\<close>: it lies in an arena of that class, at a multiple of the block size behind the header.\<close>

definition is_block :: "u32 set \<Rightarrow> 'a memory_scheme \<Rightarrow> nat \<Rightarrow> u32 \<Rightarrow> bool" where
  "is_block A s i b \<longleftrightarrow> i < 7 \<and> block2arena b \<in> A \<and> desc (k_arenas s (block2arena b)) = Some i \<and> K_HEAP_START \<le> b \<and>
     (\<exists>idx < bcount i. b = block2arena b + sizeof_arena + idx * bsize i)"

definition descs_ok :: "mem_block_desc list \<Rightarrow> bool" where
  "descs_ok ds \<longleftrightarrow> map block_size ds = map block_size block_desc_init \<and> map blocks_per_arena ds = map blocks_per_arena block_desc_init"

definition heap_ok :: "u32 set \<Rightarrow> 'a memory_scheme \<Rightarrow> bool" where
  "heap_ok A s \<longleftrightarrow> descs_ok (k_block_descs s) \<and>
     (\<forall>i < 7. distinct (free_of s i) \<and> (\<forall>b \<in> set (free_of s i). is_block A s i b)) \<and>
     (\<forall>a \<in> A. desc (k_arenas s a) \<noteq> None \<and> (\<forall>i. desc (k_arenas s a) = Some i \<longrightarrow>
        i < 7 \<and> unat (arena_cnt (k_arenas s a)) = length (filter (\<lambda>b. block2arena b = a) (free_of s i))))"

definition in_use :: "u32 set \<Rightarrow> 'a memory_scheme \<Rightarrow> (nat \<times> u32) set" where
  "in_use A s = {(i, b). is_block A s i b \<and> b \<notin> set (free_of s i)}"

lemma descs_ok_facts:
  assumes "descs_ok ds"
  shows "length ds = 7" "i < 7 \<Longrightarrow> block_size (ds ! i) = bsize i" "i < 7 \<Longrightarrow> blocks_per_arena (ds ! i) = bcount i"
proof -
  show l: "length ds = 7" using assms by (metis descs_ok_def length_map length_descs)
  show "block_size (ds ! i) = bsize i" "blocks_per_arena (ds ! i) = bcount i" if "i < 7"
    using assms that l by (metis descs_ok_def bsize_def bcount_def length_descs nth_map)+
qed

lemma descs_ok_upd:
  assumes "descs_ok ds"
  shows "descs_ok (ds[i := (ds ! i)\<lparr>free_list := l\<rparr>])"
proof -
  have "map f (ds[i := (ds ! i)\<lparr>free_list := l\<rparr>]) = map f ds" if "\<And>d. f (d\<lparr>free_list := l\<rparr>) = f d" for f :: "mem_block_desc \<Rightarrow> u32"
    by (rule nth_equalityI) (simp_all, metis nth_list_update_eq nth_list_update_neq that)
  then show ?thesis using assms by (simp add: descs_ok_def)
qed

text \<open>The class that serves a size is the first whose blocks are large enough.\<close>

lemma desc_for_fits:
  assumes "descs_ok ds" "0 < sz" "sz \<le> 1024"
  shows "desc_for sz ds < 7" "sz \<le> bsize (desc_for sz ds)"
proof -
  let ?P = "\<lambda>d. \<not> sz \<le> block_size d"
  note f = descs_ok_facts [OF assms(1)]
  have t: "take DESC_CNT ds = ds" using f(1) by (simp add: DESC_CNT_def)
  have "block_size (ds ! 6) = 1024" using f(2) [of 6] arg_cong [OF block_desc_init_eq(1), of "\<lambda>l. l ! 6"] by (simp add: bsize_def)
  then have ex: "\<not> ?P (ds ! 6)" "ds ! 6 \<in> set ds" using assms(3) f(1) by simp_all
  then have "takeWhile ?P ds \<noteq> ds" using takeWhile_eq_all_conv [of ?P ds] by blast
  then have len: "length (takeWhile ?P ds) < length ds"
    by (metis takeWhile_eq_take length_takeWhile_le nat_less_le take_all_iff order_refl)
  then show lt: "desc_for sz ds < 7" using f(1) t by (simp add: desc_for_def)
  have "\<not> ?P (ds ! desc_for sz ds)" using nth_length_takeWhile [OF len] t by (simp add: desc_for_def)
  then show "sz \<le> bsize (desc_for sz ds)" using f(2) [OF lt] by simp
qed

section \<open>Clearing a block\<close>

lemma data_write_other:
  assumes "data_word s pa"
  shows "data_word (s\<lparr>phys := (phys s)(pa := v)\<rparr>) x = data_word s x" "mmu (s\<lparr>phys := (phys s)(pa := v)\<rparr>) a = mmu s a"
  using data_write [OF assms refl, of v] by (simp_all add: data_word_def pde_at_def)

lemma words_clear_zeroes:
  assumes "\<And>k. k < n \<Longrightarrow> \<exists>pa. mmu s (va + 4 * of_nat k) = Some pa \<and> data_word s pa"
  shows "\<exists>m. words_clear n va s = Some (s\<lparr>phys := m\<rparr>) \<and> (\<forall>k < n. vread (s\<lparr>phys := m\<rparr>) (va + 4 * of_nat k) = Some 0) \<and>
    (\<forall>a. mmu (s\<lparr>phys := m\<rparr>) a = mmu s a) \<and> (\<forall>x. (\<forall>k < n. mmu s (va + 4 * of_nat k) \<noteq> Some x) \<longrightarrow> m x = phys s x) \<and>
    (\<forall>x. m x = 0 \<or> m x = phys s x)"
  using assms
proof (induction n arbitrary: va s)
  case 0
  show ?case by (intro exI [of _ "phys s"]) simp
next
  case (Suc n)
  obtain pa where pa: "mmu s va = Some pa" "data_word s pa" using Suc.prems [of 0] by auto
  let ?s = "s\<lparr>phys := (phys s)(pa := 0)\<rparr>"
  note w = data_write_other [OF pa(2), of 0]
  have shift: "va + 4 + 4 * of_nat k = va + 4 * of_nat (Suc k)" for k by (simp add: algebra_simps)
  have "\<exists>x. mmu ?s (va + 4 + 4 * of_nat k) = Some x \<and> data_word ?s x" if "k < n" for k
    using Suc.prems [of "Suc k"] that by (simp add: w shift)
  from Suc.IH [OF this] obtain m where m: "words_clear n (va + 4) ?s = Some (?s\<lparr>phys := m\<rparr>)"
    "\<And>k. k < n \<Longrightarrow> vread (?s\<lparr>phys := m\<rparr>) (va + 4 + 4 * of_nat k) = Some 0" "\<And>a. mmu (?s\<lparr>phys := m\<rparr>) a = mmu ?s a"
    "\<And>x. (\<forall>k < n. mmu ?s (va + 4 + 4 * of_nat k) \<noteq> Some x) \<Longrightarrow> m x = phys ?s x" "\<And>x. m x = 0 \<or> m x = phys ?s x" by blast
  have mm: "mmu (s\<lparr>phys := m\<rparr>) a = mmu s a" for a using m(3) [of a] w(2) by simp
  have "vread (s\<lparr>phys := m\<rparr>) (va + 4 * of_nat k) = Some 0" if "k < Suc n" for k
  proof (cases k)
    case 0
    then show ?thesis using pa(1) m(5) [of pa] by (auto simp: vread_def mm split: if_splits)
  next
    case (Suc j)
    then show ?thesis using m(2) [of j] that by (simp add: shift)
  qed
  moreover have "m x = phys s x" if "\<forall>k < Suc n. mmu s (va + 4 * of_nat k) \<noteq> Some x" for x
  proof -
    have "x \<noteq> pa" using that pa(1) by auto
    moreover have "\<forall>k < n. mmu ?s (va + 4 + 4 * of_nat k) \<noteq> Some x" using that by (auto simp: w(2) shift simp del: of_nat_Suc)
    ultimately show ?thesis using m(4) [of x] by simp
  qed
  moreover have "m x = 0 \<or> m x = phys s x" for x using m(5) [of x] by (auto split: if_splits)
  ultimately show ?case using m(1) pa(1) mm by (intro exI [of _ m]) (simp add: vwrite_def)
qed


section \<open>Allocation and release\<close>

definition pool_free :: "'a memory_scheme \<Rightarrow> bool" where
  "pool_free s \<longleftrightarrow> lock_free (pool_lock (kernel_pool s)) \<and> running_thread s \<noteq> 0"

lemma pool_acquire_kernel:
  assumes "pool_free s"
  obtains l where "pool_acquire PF_KERNEL s = Some (s\<lparr>kernel_pool := (kernel_pool s)\<lparr>pool_lock := l\<rparr>\<rparr>)" "lock_held (running_thread s) 1 l"
proof -
  obtain l where "lock_acquire (pool_lock (kernel_pool s)) s = Some (l, s)" "lock_held (running_thread s) 1 l"
    using lock_acquire_free [of "pool_lock (kernel_pool s)" s] assms by (auto simp: pool_free_def)
  then show thesis by (intro that [of l]) (simp_all add: pool_acquire_def get_pool_def set_pool_def)
qed

lemma pool_release_kernel:
  assumes "lock_held (running_thread s) 1 (pool_lock (kernel_pool s))"
  obtains l where "pool_release PF_KERNEL s = Some (s\<lparr>kernel_pool := (kernel_pool s)\<lparr>pool_lock := l\<rparr>\<rparr>)" "lock_free l"
proof -
  obtain l where "lock_release (pool_lock (kernel_pool s)) s = Some (l, s)" "lock_free l" using lock_release_held [OF assms] by blast
  then show thesis by (intro that [of l]) (simp_all add: pool_release_def get_pool_def set_pool_def)
qed

text \<open>The effect on free lists and headers: a block leaves its free list, or comes back at the end.\<close>

definition heap_upd :: "nat \<Rightarrow> u32 list \<Rightarrow> u32 \<Rightarrow> u32 \<Rightarrow> 'a memory_scheme \<Rightarrow> 'a memory_scheme" where
  "heap_upd i l a n s = s\<lparr>k_block_descs := (k_block_descs s)[i := (k_block_descs s ! i)\<lparr>free_list := l\<rparr>],
     k_arenas := (k_arenas s)(a := (k_arenas s a)\<lparr>arena_cnt := n\<rparr>)\<rparr>"

lemma is_block_upd [simp]: "is_block A (heap_upd i l a n s) j b = is_block A s j b"
  by (simp add: is_block_def heap_upd_def)

lemma free_of_upd: "i < length (k_block_descs s) \<Longrightarrow> free_of (heap_upd i l a n s) j = (if j = i then l else free_of s j)"
  by (auto simp: free_of_def heap_upd_def)

lemma heap_upd_ok:
  assumes ok: "heap_ok A s" and i: "i < 7" and a: "desc (k_arenas s a) = Some i"
    and l: "distinct l" "\<And>b. b \<in> set l \<Longrightarrow> is_block A s i b"
    and n: "unat n = length (filter (\<lambda>b. block2arena b = a) l)"
    and other: "\<And>c. c \<noteq> a \<Longrightarrow> length (filter (\<lambda>b. block2arena b = c) l) = length (filter (\<lambda>b. block2arena b = c) (free_of s i))"
  shows "heap_ok A (heap_upd i l a n s)"
proof -
  have d: "descs_ok (k_block_descs s)" using ok by (simp add: heap_ok_def)
  note f = free_of_upd [of i s l a n]
  have len: "i < length (k_block_descs s)" using descs_ok_facts(1) [OF d] i by simp
  have ar: "k_arenas (heap_upd i l a n s) c = (if c = a then (k_arenas s a)\<lparr>arena_cnt := n\<rparr> else k_arenas s c)" for c
    by (simp add: heap_upd_def)
  have "descs_ok (k_block_descs (heap_upd i l a n s))" using descs_ok_upd [OF d] by (simp add: heap_upd_def)
  then show ?thesis
    using ok l n other a i by (auto simp: heap_ok_def f [OF len] ar)
qed

lemma heap_cong:
  assumes "k_block_descs s = k_block_descs t" "k_arenas s = k_arenas t"
  shows "heap_ok A s = heap_ok A t" "in_use A s = in_use A t" "free_of s i = free_of t i" "is_block A s i b = is_block A t i b"
  using assms by (simp_all add: heap_ok_def in_use_def free_of_def is_block_def)

text \<open>The same address space and pools; the lock of the kernel's pool may differ.\<close>

definition same_space :: "'a memory_scheme \<Rightarrow> 'a memory_scheme \<Rightarrow> bool" where
  "same_space s s' \<longleftrightarrow> keeps_dir s s' \<and> (\<forall>a. mmu s' a = mmu s a) \<and> kernel_vaddr s' = kernel_vaddr s \<and> user_pool s' = user_pool s \<and>
     (\<exists>l. kernel_pool s' = (kernel_pool s)\<lparr>pool_lock := l\<rparr>)"

lemma same_space_trans: "same_space s t \<Longrightarrow> same_space t u \<Longrightarrow> same_space s u"
  using keeps_dir_at [of s t] by (auto simp: same_space_def keeps_dir_def)

lemma same_space_phys:
  assumes "phys t = phys s" "cr3 t = cr3 s" "kernel_vaddr t = kernel_vaddr s" "user_pool t = user_pool s"
    "kernel_pool t = (kernel_pool s)\<lparr>pool_lock := l\<rparr>"
  shows "same_space s t"
  using assms mmu_cong [of t s] by (auto simp: same_space_def keeps_dir_def)

text \<open>The same heap, locks, task and address space, except for the parts named.\<close>

definition heap_step :: "nat \<Rightarrow> u32 list \<Rightarrow> u32 \<Rightarrow> u32 \<Rightarrow> 'a memory_scheme \<Rightarrow> 'a memory_scheme \<Rightarrow> bool" where
  "heap_step i l a n s s' \<longleftrightarrow> k_block_descs s' = k_block_descs (heap_upd i l a n s) \<and> k_arenas s' = k_arenas (heap_upd i l a n s) \<and>
     tasks s' = tasks s \<and> esp s' = esp s \<and> pool_free s' \<and> same_space s s'"

definition block_mapped :: "'a machine_scheme \<Rightarrow> u32 \<Rightarrow> u32 \<Rightarrow> bool" where
  "block_mapped s b n \<longleftrightarrow> (\<forall>k < unat n div 4. \<exists>pa. mmu s (b + 4 * of_nat k) = Some pa \<and> data_word s pa)"

lemma block_mapped_cong: "phys s = phys t \<Longrightarrow> cr3 s = cr3 t \<Longrightarrow> block_mapped s b n = block_mapped t b n"
  using mmu_cong [of s t] by (simp add: block_mapped_def data_word_def pde_at_def)

lemma take_block_kernel:
  assumes k: "in_kernel s" "lock_held (running_thread s) 1 (pool_lock (kernel_pool s))" "running_thread s \<noteq> 0"
    and ok: "descs_ok (k_block_descs s)" "i < 7" "free_of s i = b # l" and m: "block_mapped s b (bsize i)"
  shows "\<exists>s'. take_block i s = Some (b, s') \<and> heap_step i l (block2arena b) (arena_cnt (k_arenas s (block2arena b)) - 1) s s' \<and>
    (\<forall>k < unat (bsize i) div 4. vread s' (b + 4 * of_nat k) = Some 0) \<and>
    (\<forall>x. (\<forall>k < unat (bsize i) div 4. mmu s (b + 4 * of_nat k) \<noteq> Some x) \<longrightarrow> phys s' x = phys s x)"
proof -
  let ?ds = "k_block_descs s" and ?a = "block2arena b"
  define s1 where "s1 = s\<lparr>k_block_descs := ?ds[i := (?ds ! i)\<lparr>free_list := l\<rparr>]\<rparr>"
  have len: "i < length ?ds" using descs_ok_facts(1) [OF ok(1)] ok(2) by simp
  have fl: "free_list (?ds ! i) = b # l" using ok(3) by (simp add: free_of_def)
  have s1: "upd_free_list i tl s = s1" using k(1) fl by (simp add: upd_free_list_def set_descs_def heap_descs_def s1_def)
  have i1: "in_kernel s1" "k_block_descs s1 = ?ds[i := (?ds ! i)\<lparr>free_list := l\<rparr>]" "k_arenas s1 = k_arenas s" "tasks s1 = tasks s"
    "esp s1 = esp s" "kernel_pool s1 = kernel_pool s" using k(1) by (simp_all add: s1_def in_kernel_def running_thread_def)
  have bs: "block_size (heap_descs s1 ! i) = bsize i"
    using i1(1,2) len descs_ok_facts(2) [OF ok(1,2)] by (simp add: heap_descs_def)
  have c1: "phys s1 = phys s" "cr3 s1 = cr3 s" by (simp_all add: s1_def)
  have bm: "block_mapped s1 b (bsize i)" using m block_mapped_cong [OF c1] by simp
  then have "\<exists>m. words_clear (unat (bsize i) div 4) b s1 = Some (s1\<lparr>phys := m\<rparr>) \<and>
      (\<forall>k < unat (bsize i) div 4. vread (s1\<lparr>phys := m\<rparr>) (b + 4 * of_nat k) = Some 0) \<and> (\<forall>a. mmu (s1\<lparr>phys := m\<rparr>) a = mmu s1 a) \<and>
      (\<forall>x. (\<forall>k < unat (bsize i) div 4. mmu s1 (b + 4 * of_nat k) \<noteq> Some x) \<longrightarrow> m x = phys s1 x)"
    using words_clear_zeroes [of "unat (bsize i) div 4" s1 b] unfolding block_mapped_def by blast
  then obtain m where m: "words_clear (unat (bsize i) div 4) b s1 = Some (s1\<lparr>phys := m\<rparr>)"
    "\<And>k. k < unat (bsize i) div 4 \<Longrightarrow> vread (s1\<lparr>phys := m\<rparr>) (b + 4 * of_nat k) = Some 0" "\<And>a. mmu (s1\<lparr>phys := m\<rparr>) a = mmu s1 a"
    "\<And>x. (\<forall>k < unat (bsize i) div 4. mmu s1 (b + 4 * of_nat k) \<noteq> Some x) \<Longrightarrow> m x = phys s1 x" by blast
  have rest: "m x = phys s x" if "\<forall>k < unat (bsize i) div 4. mmu s (b + 4 * of_nat k) \<noteq> Some x" for x
    using m(4) [of x] that mmu_cong [OF c1] c1 by simp
  have dir: "m (pde_at s a) = phys s (pde_at s a)" for a
  proof (rule rest, intro allI impI notI)
    fix k assume k: "k < unat (bsize i) div 4" "mmu s (b + 4 * of_nat k) = Some (pde_at s a)"
    then have "data_word s1 (pde_at s a)" using bm mmu_cong [OF c1] by (auto simp: block_mapped_def)
    then show False using frame_pde_at [of s a] c1 by (simp add: data_word_def)
  qed
  define s2 where "s2 = s1\<lparr>phys := m, k_arenas := (k_arenas s)(?a := (k_arenas s ?a)\<lparr>arena_cnt := arena_cnt (k_arenas s ?a) - 1\<rparr>)\<rparr>"
  have k2: "in_kernel (s1\<lparr>phys := m\<rparr>)" using i1(1) by (simp add: in_kernel_def running_thread_def)
  have s2: "set_arena ?a ((heap_arenas (s1\<lparr>phys := m\<rparr>) ?a)\<lparr>arena_cnt := arena_cnt (heap_arenas (s1\<lparr>phys := m\<rparr>) ?a) - 1\<rparr>) (s1\<lparr>phys := m\<rparr>) = s2"
    using k2 i1(3) by (simp add: set_arena_def heap_arenas_def s2_def)
  have i2: "heap_pf s2 = PF_KERNEL" "kernel_pool s2 = kernel_pool s" "running_thread s2 = running_thread s"
    using i1 by (simp_all add: heap_pf_def s2_def in_kernel_def running_thread_def)
  obtain lk where lk: "pool_release PF_KERNEL s2 = Some (s2\<lparr>kernel_pool := (kernel_pool s)\<lparr>pool_lock := lk\<rparr>\<rparr>)" "lock_free lk"
    using pool_release_kernel [of s2] k(2) i2 by auto
  let ?s' = "s2\<lparr>kernel_pool := (kernel_pool s)\<lparr>pool_lock := lk\<rparr>\<rparr>"
  have "take_block i s = Some (b, ?s')"
    using fl k(1) s1 bs m(1) s2 lk(1) i2(1) by (simp add: take_block_def heap_descs_def Let_def)
  moreover have "same_space s ?s'"
    using m(3) mmu_cong [OF c1] mmu_cong [of ?s' "s1\<lparr>phys := m\<rparr>"] dir by (auto simp: same_space_def keeps_dir_def s2_def s1_def)
  then have "heap_step i l ?a (arena_cnt (k_arenas s ?a) - 1) s ?s'"
    using i1 lk(2) k(3) by (simp add: heap_step_def heap_upd_def s2_def pool_free_def running_thread_def)
  moreover have "vread ?s' x = vread (s1\<lparr>phys := m\<rparr>) x" for x
    using mmu_cong [of ?s' "s1\<lparr>phys := m\<rparr>" x] by (simp add: vread_def s2_def)
  moreover have "phys ?s' = m" by (simp add: s2_def)
  ultimately show ?thesis using m(2) rest by auto
qed

lemma free_block_kernel:
  assumes k: "in_kernel s" "pool_free s" and ok: "descs_ok (k_block_descs s)" "is_block A s i b"
    and n: "arena_cnt (k_arenas s (block2arena b)) + 1 \<noteq> bcount i"
  shows "\<exists>s'. sys_free b s = Some s' \<and>
    heap_step i (free_of s i @ [b]) (block2arena b) (arena_cnt (k_arenas s (block2arena b)) + 1) s s' \<and> phys s' = phys s"
proof -
  let ?ds = "k_block_descs s" and ?a = "block2arena b"
  have i: "i < 7" "desc (k_arenas s ?a) = Some i" "K_HEAP_START \<le> b" using ok(2) by (simp_all add: is_block_def)
  have len: "i < length ?ds" using descs_ok_facts(1) [OF ok(1)] i(1) by simp
  obtain lk where lk: "pool_acquire PF_KERNEL s = Some (s\<lparr>kernel_pool := (kernel_pool s)\<lparr>pool_lock := lk\<rparr>\<rparr>)" "lock_held (running_thread s) 1 lk"
    by (rule pool_acquire_kernel [OF k(2)])
  define s1 where "s1 = s\<lparr>kernel_pool := (kernel_pool s)\<lparr>pool_lock := lk\<rparr>\<rparr>"
  have i1: "in_kernel s1" "k_block_descs s1 = ?ds" "k_arenas s1 = k_arenas s" using k(1) by (simp_all add: s1_def in_kernel_def running_thread_def)
  define s2 where "s2 = s1\<lparr>k_block_descs := ?ds[i := (?ds ! i)\<lparr>free_list := free_of s i @ [b]\<rparr>]\<rparr>"
  have s2: "upd_free_list i (\<lambda>l. l @ [b]) s1 = s2"
    using i1 by (simp add: upd_free_list_def set_descs_def heap_descs_def s2_def free_of_def)
  have i2: "in_kernel s2" "k_arenas s2 = k_arenas s" using i1 by (simp_all add: s2_def in_kernel_def running_thread_def)
  define s3 where "s3 = s2\<lparr>k_arenas := (k_arenas s)(?a := (k_arenas s ?a)\<lparr>arena_cnt := arena_cnt (k_arenas s ?a) + 1\<rparr>)\<rparr>"
  have s3: "set_arena ?a ((heap_arenas s2 ?a)\<lparr>arena_cnt := arena_cnt (heap_arenas s2 ?a) + 1\<rparr>) s2 = s3"
    using i2 by (simp add: set_arena_def heap_arenas_def s3_def)
  have i3: "in_kernel s3" "k_block_descs s3 = ?ds[i := (?ds ! i)\<lparr>free_list := free_of s i @ [b]\<rparr>]"
    "kernel_pool s3 = (kernel_pool s)\<lparr>pool_lock := lk\<rparr>" "running_thread s3 = running_thread s"
    using i2 by (simp_all add: s3_def in_kernel_def running_thread_def s2_def s1_def)
  have bpa: "blocks_per_arena (heap_descs s3 ! i) = bcount i"
    using i3(1,2) len descs_ok_facts(3) [OF ok(1) i(1)] by (simp add: heap_descs_def)
  have fb: "free_block b ?a s1 = Some s3"
    using i(2) i1(1,3) s2 s3 bpa n i2 by (simp add: free_block_def heap_arenas_def Let_def)
  obtain lk' where lk': "pool_release PF_KERNEL s3 = Some (s3\<lparr>kernel_pool := (kernel_pool s3)\<lparr>pool_lock := lk'\<rparr>\<rparr>)" "lock_free lk'"
    using pool_release_kernel [of s3] lk(2) i3(3,4) by auto
  have "b \<noteq> 0" using i(3) by (auto simp: K_HEAP_START_def)
  moreover have "heap_pf s = PF_KERNEL" using k(1) by (simp add: heap_pf_def)
  ultimately have "sys_free b s = Some (s3\<lparr>kernel_pool := (kernel_pool s3)\<lparr>pool_lock := lk'\<rparr>\<rparr>)"
    using k(1) i lk(1) fb lk'(1) i1(1,3) by (simp add: sys_free_def Let_def s1_def [symmetric] heap_arenas_def)
  moreover have "heap_step i (free_of s i @ [b]) ?a (arena_cnt (k_arenas s ?a) + 1) s (s3\<lparr>kernel_pool := (kernel_pool s3)\<lparr>pool_lock := lk'\<rparr>\<rparr>)"
    using lk'(2) k(2) same_space_phys [of "s3\<lparr>kernel_pool := (kernel_pool s3)\<lparr>pool_lock := lk'\<rparr>\<rparr>" s lk']
    by (simp add: heap_step_def heap_upd_def s3_def s2_def s1_def pool_free_def running_thread_def)
  moreover have "phys (s3\<lparr>kernel_pool := (kernel_pool s3)\<lparr>pool_lock := lk'\<rparr>\<rparr>) = phys s" by (simp add: s3_def s2_def s1_def)
  ultimately show ?thesis by blast
qed

lemma heap_okD:
  assumes "heap_ok A s"
  shows "descs_ok (k_block_descs s)" "i < 7 \<Longrightarrow> distinct (free_of s i)" "i < 7 \<Longrightarrow> b \<in> set (free_of s i) \<Longrightarrow> is_block A s i b"
    "a \<in> A \<Longrightarrow> desc (k_arenas s a) = Some i \<Longrightarrow> unat (arena_cnt (k_arenas s a)) = length (filter (\<lambda>b. block2arena b = a) (free_of s i))"
  using assms by (auto simp: heap_ok_def)

text \<open>No more free blocks of an arena than the arena has, so its counter does not wrap around.\<close>

lemma arena_blocks_le:
  assumes "distinct l" "\<And>b. b \<in> set l \<Longrightarrow> is_block A s i b \<and> block2arena b = a"
  shows "length l \<le> unat (bcount i)"
proof -
  let ?f = "\<lambda>k. a + sizeof_arena + of_nat k * bsize i"
  have "set l \<subseteq> ?f ` {..<unat (bcount i)}"
  proof
    fix b assume "b \<in> set l"
    then obtain idx where x: "idx < bcount i" "b = a + sizeof_arena + idx * bsize i" using assms(2) by (auto simp: is_block_def)
    then have "b = ?f (unat idx)" "unat idx < unat (bcount i)" by (simp_all add: word_less_nat_alt)
    then show "b \<in> ?f ` {..<unat (bcount i)}" by blast
  qed
  then have "card (set l) \<le> card (?f ` {..<unat (bcount i)})" by (intro card_mono) auto
  also have "\<dots> \<le> unat (bcount i)" using card_image_le [of "{..<unat (bcount i)}" ?f] by simp
  finally show ?thesis using distinct_card [OF assms(1)] by simp
qed

lemma in_use_upd:
  assumes "i < length (k_block_descs s)"
  shows "in_use A (heap_upd i l a n s) = {(j, b). is_block A s j b \<and> b \<notin> set (if j = i then l else free_of s j)}"
  by (auto simp: in_use_def free_of_upd [OF assms])

lemma heap_step_facts:
  assumes "heap_step i l a n s s'"
  shows "heap_ok A s' = heap_ok A (heap_upd i l a n s)" "in_use A s' = in_use A (heap_upd i l a n s)"
    "in_kernel s' = in_kernel s" "pool_free s'"
  using assms heap_cong [of s' "heap_upd i l a n s"]
  by (simp_all add: heap_step_def in_kernel_def running_thread_def)

lemma heap_take_ok:
  assumes ok: "heap_ok A s" and i: "i < 7" and f: "free_of s i = b # l" and st: "heap_step i l (block2arena b) (arena_cnt (k_arenas s (block2arena b)) - 1) s s'"
  shows "heap_ok A s'" "in_use A s' = insert (i, b) (in_use A s)" "(i, b) \<notin> in_use A s"
proof -
  let ?a = "block2arena b"
  note h = heap_okD [OF ok]
  have blk: "is_block A s i b" using h(3) [OF i] f by simp
  then have ar: "?a \<in> A" and d: "desc (k_arenas s ?a) = Some i" by (simp_all add: is_block_def)
  have c: "unat (arena_cnt (k_arenas s ?a)) = Suc (length (filter (\<lambda>c. block2arena c = ?a) l))" using h(4) [OF ar d] f by simp
  then have "unat (arena_cnt (k_arenas s ?a) - 1) = length (filter (\<lambda>c. block2arena c = ?a) l)"
    using unat_minus_small [of 1 "arena_cnt (k_arenas s ?a)"] by simp
  moreover have "is_block A s i c" if "c \<in> set l" for c using h(3) [OF i, of c] f that by simp
  ultimately show "heap_ok A s'"
    using heap_step_facts(1) [OF st] heap_upd_ok [OF ok i d, of l] h(2) [OF i] f by simp
  show "(i, b) \<notin> in_use A s" using f by (simp add: in_use_def)
  have "i < length (k_block_descs s)" using descs_ok_facts(1) [OF h(1)] i by simp
  from in_use_upd [OF this] show "in_use A s' = insert (i, b) (in_use A s)"
    using h(2) [OF i] f blk unfolding heap_step_facts(2) [OF st] by (auto simp: in_use_def split: if_splits)
qed

lemma heap_give_ok:
  assumes ok: "heap_ok A s" and u: "(i, b) \<in> in_use A s"
    and st: "heap_step i (free_of s i @ [b]) (block2arena b) (arena_cnt (k_arenas s (block2arena b)) + 1) s s'"
  shows "heap_ok A s'" "in_use A s' = in_use A s - {(i, b)}"
proof -
  let ?a = "block2arena b" and ?l = "free_of s i @ [b]"
  note h = heap_okD [OF ok]
  have blk: "is_block A s i b" and new: "b \<notin> set (free_of s i)" using u by (simp_all add: in_use_def)
  then have ar: "?a \<in> A" and d: "desc (k_arenas s ?a) = Some i" and i: "i < 7" by (simp_all add: is_block_def)
  have all: "is_block A s i c" if "c \<in> set ?l" for c using h(3) [OF i, of c] that blk by auto
  have dist: "distinct ?l" using h(2) [OF i] new by simp
  have "length (filter (\<lambda>c. block2arena c = ?a) ?l) \<le> unat (bcount i)"
    using all dist by (intro arena_blocks_le [of _ A s _ ?a]) auto
  then have "unat (arena_cnt (k_arenas s ?a)) + 1 \<le> unat (bcount i)" using h(4) [OF ar d] by simp
  also have "\<dots> < 2 ^ 32" by (rule order_less_le_trans [OF unsigned_less]) simp
  finally have "unat (arena_cnt (k_arenas s ?a)) + 1 < 2 ^ 32" .
  then have "unat (arena_cnt (k_arenas s ?a) + 1) = length (filter (\<lambda>c. block2arena c = ?a) ?l)"
    using unat_plus_small [of "arena_cnt (k_arenas s ?a)" 1] h(4) [OF ar d] by simp
  then show "heap_ok A s'"
    using heap_step_facts(1) [OF st] heap_upd_ok [OF ok i d dist all] by simp
  have "i < length (k_block_descs s)" using descs_ok_facts(1) [OF h(1)] i by simp
  from in_use_upd [OF this] show "in_use A s' = in_use A s - {(i, b)}"
    using blk unfolding heap_step_facts(2) [OF st] by (auto simp: in_use_def split: if_splits)
qed

lemma block_place:
  assumes "is_block A s i b"
  obtains idx where "idx < bcount i" "b = block2arena b + sizeof_arena + idx * bsize i" "unat (block2arena b) + 12 \<le> unat b"
    "unat b + unat (bsize i) \<le> unat (block2arena b) + 4096"
    "\<And>jdx. idx < jdx \<Longrightarrow> jdx < bcount i \<Longrightarrow> unat b + unat (bsize i) \<le> unat (block2arena b + sizeof_arena + jdx * bsize i)"
proof -
  let ?a = "block2arena b"
  obtain idx where x: "i < 7" "idx < bcount i" "b = ?a + sizeof_arena + idx * bsize i" using assms by (auto simp: is_block_def)
  have a: "frame ?a = ?a" by (simp add: block2arena_def frame_def)
  have t: "unat ?a + 12 \<le> unat b \<and> unat b + unat (bsize i) \<le> unat ?a + 4096 \<and>
      (idx < jdx \<longrightarrow> unat b + unat (bsize i) \<le> unat (?a + sizeof_arena + jdx * bsize i))" if "jdx < bcount i" for jdx
    using arena_blocks_tile_the_page [OF x(1) a, of "\<lparr>desc = Some i, arena_cnt = 0, large = False\<rparr>" idx jdx] x(2,3) that
    by (simp add: arena2block_def bsize_def bcount_def)
  show thesis using t [OF x(2)] t x(2,3) by (intro that [of idx]) blast+
qed

text \<open>Two different blocks never overlap: in one arena they have different indices, in two arenas different pages.\<close>

lemma blocks_disjoint:
  assumes b: "is_block A s i b" and c: "is_block A s j c" and ne: "b \<noteq> c"
  shows "unat b + unat (bsize i) \<le> unat c \<or> unat c + unat (bsize j) \<le> unat b"
proof (cases "block2arena b = block2arena c")
  case True
  then have ij: "i = j" using b c by (simp add: is_block_def)
  obtain x where x: "x < bcount i" "b = block2arena b + sizeof_arena + x * bsize i"
    "\<And>y. x < y \<Longrightarrow> y < bcount i \<Longrightarrow> unat b + unat (bsize i) \<le> unat (block2arena b + sizeof_arena + y * bsize i)"
    by (rule block_place [OF b]) blast
  obtain y where y: "y < bcount j" "c = block2arena c + sizeof_arena + y * bsize j"
    "\<And>z. y < z \<Longrightarrow> z < bcount j \<Longrightarrow> unat c + unat (bsize j) \<le> unat (block2arena c + sizeof_arena + z * bsize j)"
    by (rule block_place [OF c]) blast
  have "x \<noteq> y" using ne x(2) y(2) True ij by metis
  then consider "x < y" | "y < x" by (metis linorder_neqE)
  then show ?thesis using x y True ij by cases metis+
next
  case False
  obtain x where x: "unat (block2arena b) + 12 \<le> unat b" "unat b + unat (bsize i) \<le> unat (block2arena b) + 4096"
    by (rule block_place [OF b]) blast
  obtain y where y: "unat (block2arena c) + 12 \<le> unat c" "unat c + unat (bsize j) \<le> unat (block2arena c) + 4096"
    by (rule block_place [OF c]) blast
  have "4096 dvd unat (block2arena b)" "4096 dvd unat (block2arena c)"
    using aligned_unat [of "block2arena b"] aligned_unat [of "block2arena c"] by (simp_all add: block2arena_def frame_def)
  then obtain p q where pq: "unat (block2arena b) = 4096 * p" "unat (block2arena c) = 4096 * q" by (auto elim!: dvdE)
  then have "p \<noteq> q" using False by (metis unsigned_word_eqI)
  then show ?thesis using x y pq by linarith
qed

text \<open>One page of blocks of 1024 bytes at 0xc0100000, the first of its three blocks in use.\<close>

definition demo_heap :: memory where
  "demo_heap = demo_memory
     \<lparr>k_block_descs := block_desc_init[6 := (block_desc_init ! 6)\<lparr>free_list := [0xc010040c, 0xc010080c]\<rparr>],
      k_arenas := (k_arenas demo_memory)(0xc0100000 := \<lparr>desc = Some 6, arena_cnt = 2, large = False\<rparr>)\<rparr>"

lemma demo_heap_sizes: "bsize 6 = 1024" "bcount 6 = 3"
  using arg_cong [OF block_desc_init_eq(1), of "\<lambda>l. l ! 6"] arg_cong [OF block_desc_init_eq(2), of "\<lambda>l. l ! 6"]
  by (simp_all add: bsize_def bcount_def)

lemma demo_heap_free: "free_of demo_heap i = (if i = 6 then [0xc010040c, 0xc010080c] else free_list (block_desc_init ! i))"
  by (simp add: free_of_def demo_heap_def)

lemma block_desc_init_free: "i < 7 \<Longrightarrow> free_list (block_desc_init ! i) = []"
proof -
  have "\<forall>d \<in> set (block_desc_loop n b). free_list d = []" for n b by (induction n arbitrary: b) simp_all
  then show "free_list (block_desc_init ! i) = []" if "i < 7"
    using that nth_mem [of i block_desc_init] length_descs unfolding block_desc_init_def by metis
qed

lemma demo_heap_blocks: "is_block {0xc0100000} demo_heap 6 0xc010040c" "is_block {0xc0100000} demo_heap 6 0xc010080c"
  unfolding is_block_def demo_heap_sizes
  by (simp_all add: demo_heap_def block2arena_def K_HEAP_START_def sizeof_arena_def)
    (intro exI [of _ 1], simp, intro exI [of _ 2], simp)

lemma demo_heap_ok: "heap_ok {0xc0100000} demo_heap"
  unfolding heap_ok_def
proof (intro conjI allI impI)
  show "descs_ok (k_block_descs demo_heap)" using descs_ok_upd [of block_desc_init] by (simp add: demo_heap_def descs_ok_def)
next
  fix i :: nat assume "i < 7"
  then show "distinct (free_of demo_heap i)" "\<forall>b \<in> set (free_of demo_heap i). is_block {0xc0100000} demo_heap i b"
    using demo_heap_blocks by (simp_all add: demo_heap_free block_desc_init_free)
next
  show "\<forall>a \<in> {0xc0100000}. desc (k_arenas demo_heap a) \<noteq> None \<and> (\<forall>i. desc (k_arenas demo_heap a) = Some i \<longrightarrow>
      i < 7 \<and> unat (arena_cnt (k_arenas demo_heap a)) = length (filter (\<lambda>b. block2arena b = a) (free_of demo_heap i)))"
    unfolding demo_heap_free by (simp add: demo_heap_def block2arena_def)
qed

lemma demo_heap_desc: "desc_for 700 (k_block_descs demo_heap) = 6"
proof -
  have d: "descs_ok (k_block_descs demo_heap)" using demo_heap_ok by (rule heap_okD)
  have "map block_size (k_block_descs demo_heap) = [16, 32, 64, 128, 256, 512, 1024]" "length (k_block_descs demo_heap) = 7"
    using d descs_ok_facts(1) [OF d] block_desc_init_eq(1) by (simp_all add: descs_ok_def)
  moreover have "desc_for 700 ds = length (takeWhile (\<lambda>b. \<not> 700 \<le> b) (map block_size (take DESC_CNT ds)))" for ds
    by (simp add: desc_for_def takeWhile_map comp_def)
  ultimately show ?thesis by (simp add: DESC_CNT_def)
qed

lemma demo_page:
  assumes "unat x < 4096"
  shows "mmu demo_heap (0xc0100000 + x) = Some (0x200000 OR ((0xc0100000 + x) AND 0xfff))" "data_word demo_heap (0x200000 OR (y AND 0xfff))"
proof -
  have f0: "frame 0xc0100000 = 0xc0100000" by (simp add: frame_def)
  have "frame (0xc0100000 + x) = frame 0xc0100abc" using frame_plus_low(1) [OF f0 assms] by (simp add: frame_def)
  then have "PDE_IDX (0xc0100000 + x) = PDE_IDX 0xc0100abc" "PTE_IDX (0xc0100000 + x) = PTE_IDX 0xc0100abc" using same_page by blast+
  then show "mmu demo_heap (0xc0100000 + x) = Some (0x200000 OR ((0xc0100000 + x) AND 0xfff))"
    by (simp add: mmu_def pde_at_def pte_in_def demo_heap_def demo_memory_def demo_machine_def frame_def present_def PDE_IDX_def PTE_IDX_def Let_def)
  have "frame (0x200000 OR (y AND 0xfff)) = 0x200000"
  proof -
    have "0xfffff000 AND (y AND 0xfff) = 0" by (simp add: and.left_commute)
    then show ?thesis by (simp add: frame_def and.commute [of _ "0xfffff000"] bit.conj_disj_distrib)
  qed
  moreover have "frame (phys demo_memory (pde_at demo_memory a)) \<noteq> 0x200000"
    if "present (phys demo_memory (pde_at demo_memory a))" for a
    using demo_pde_present [OF that]
    by (auto simp: pde_at_def demo_memory_def demo_machine_def frame_def mask_eq_exp_minus_1)
  moreover have "phys demo_heap = phys demo_memory" "cr3 demo_heap = 0x100000" "pde_at demo_heap a = pde_at demo_memory a" for a
    by (simp_all add: demo_heap_def pde_at_def demo_memory_def)
  ultimately show "data_word demo_heap (0x200000 OR (y AND 0xfff))" by (simp add: data_word_def frame_def)
qed

lemma demo_heap_mapped: "block_mapped demo_heap 0xc010040c 1024"
proof -
  have "\<exists>pa. mmu demo_heap (0xc010040c + 4 * of_nat k) = Some pa \<and> data_word demo_heap pa" if "k < 256" for k
  proof -
    let ?x = "0x40c + 4 * of_nat k :: u32"
    have "?x = of_nat (1036 + 4 * k)" by simp
    then have "unat ?x < 4096" using that unat_of_nat_small [of "1036 + 4 * k"] by simp
    note d = demo_page(1) [OF this] demo_page(2) [OF this, of "0xc0100000 + ?x"]
    have "0xc010040c + 4 * of_nat k = 0xc0100000 + ?x" by simp
    with d show ?thesis by metis
  qed
  then show ?thesis by (simp add: block_mapped_def)
qed

end
