(* ===== verification/HeapSpace.thy ===== *)
theory HeapSpace
  imports HeapInv
begin

text \<open>
  The kernel heap over the page allocator of kernel/memory.c: \<open>sys_malloc\<close> when the free list is empty and a new arena has to be
  made, and \<open>sys_free\<close> of the last block of an arena, which gives the page back.  The invariant of a kernel thread's heap covers the
  size classes, the arenas, the address pool, the page tables and the frames behind the arenas.
\<close>

section \<open>Address space and frames\<close>

text \<open>No frame of the kernel's pool is the page directory or a page table in use.\<close>

definition tables_outside :: "'a memory_scheme \<Rightarrow> bool" where
  "tables_outside s \<longleftrightarrow> (\<forall>f < frames (kernel_pool s). \<forall>x. frame x = frame_of (kernel_pool s) f \<longrightarrow> data_word s x)"

definition space_ok :: "'a memory_scheme \<Rightarrow> bool" where
  "space_ok s \<longleftrightarrow> kernel_space_ok s \<and> pools_ok s \<and> tables_outside s \<and> 0x102000 \<le> phy_addr_start (kernel_pool s) \<and>
     K_HEAP_START \<le> vaddr_start (kernel_vaddr s)"

text \<open>The arenas are pages of the address pool, each with its own frame.\<close>

definition vbits :: "'a memory_scheme \<Rightarrow> nat" where "vbits s = btmp_bits (vaddr_bitmap (kernel_vaddr s))"
definition vbit :: "'a memory_scheme \<Rightarrow> nat \<Rightarrow> bool" where "vbit s k = bit_at (vaddr_bitmap (kernel_vaddr s)) k"

definition arena_page :: "'a memory_scheme \<Rightarrow> u32 \<Rightarrow> bool" where
  "arena_page s a \<longleftrightarrow> (\<exists>k < vbits s. a = kpage s k \<and> vbit s k) \<and>
     (\<exists>f < frames (kernel_pool s). frame_used (kernel_pool s) f \<and> mmu s a = Some (frame_of (kernel_pool s) f))"

definition backed :: "u32 set \<Rightarrow> 'a memory_scheme \<Rightarrow> bool" where
  "backed A s \<longleftrightarrow> (\<forall>a \<in> A. arena_page s a) \<and> (\<forall>a \<in> A. \<forall>c \<in> A. mmu s a = mmu s c \<longrightarrow> a = c)"

lemma keeps_dir_data: "keeps_dir s s' \<Longrightarrow> data_word s' x = data_word s x"
  using keeps_dir_at [of s s'] by (simp add: data_word_def keeps_dir_def)

lemma same_space_ok:
  assumes "same_space s s'"
  shows "space_ok s' = space_ok s" "backed A s' = backed A s" "kpage s' k = kpage s k"
proof -
  obtain l where h: "keeps_dir s s'" "\<And>a. mmu s' a = mmu s a" "kernel_vaddr s' = kernel_vaddr s" "user_pool s' = user_pool s"
    "kernel_pool s' = (kernel_pool s)\<lparr>pool_lock := l\<rparr>" using assms by (auto simp: same_space_def)
  have p: "frames (kernel_pool s') = frames (kernel_pool s)" "frame_of (kernel_pool s') f = frame_of (kernel_pool s) f"
    "frame_used (kernel_pool s') f = frame_used (kernel_pool s) f" "pool_ok (kernel_pool s') = pool_ok (kernel_pool s)"
    "phy_addr_start (kernel_pool s') = phy_addr_start (kernel_pool s)" for f
    using h(5) by (simp_all add: frames_def frame_of_def frame_used_def pool_ok_def)
  show k: "kpage s' k = kpage s k" for k using h(3) by (simp add: kpage_def)
  have d: "phys s' (pde_at s' a) = phys s (pde_at s a)" for a using h(1) keeps_dir_at [OF h(1)] by (simp add: keeps_dir_def)
  have "self_mapped s' = self_mapped s" using d [of "-1"] h(1) by (simp add: self_mapped_def keeps_dir_def self_entry_at)
  then have "kernel_space_ok s' = kernel_space_ok s" using h(2,3) d keeps_dir_kernel [OF h(1)] k by (simp add: kernel_space_ok_def)
  moreover have "pools_ok s' = pools_ok s" using p h(4) by (simp add: pools_ok_def)
  moreover have "tables_outside s' = tables_outside s" using p keeps_dir_data [OF h(1)] by (simp add: tables_outside_def)
  ultimately show "space_ok s' = space_ok s" using h(3) p by (simp add: space_ok_def)
  show "backed A s' = backed A s" using h(2,3) p k by (simp add: backed_def arena_page_def vbits_def vbit_def)
qed

section \<open>Taking and giving back one page\<close>

definition take_page :: "nat \<Rightarrow> nat \<Rightarrow> 'a memory_scheme \<Rightarrow> 'a memory_scheme" where
  "take_page r f s = set_pte (kpage s r) (frame_of (kernel_pool s) f OR PG_US_U OR PG_RW_W OR PG_P_1)
     (s\<lparr>kernel_vaddr := (kernel_vaddr s)\<lparr>vaddr_bitmap := set_bit_at (vaddr_bitmap (kernel_vaddr s)) (of_nat r) True\<rparr>,
        kernel_pool := (kernel_pool s)\<lparr>pool_bitmap := set_bit_at (pool_bitmap (kernel_pool s)) (of_nat f) True\<rparr>\<rparr>)"

lemma malloc_one_page:
  assumes ks: "kernel_space_ok s" and po: "pools_ok s" and v: "v < vbits s" "\<not> vbit s v" and fr: "free_frames (kernel_pool s) \<noteq> {}"
  obtains r f where "malloc_page PF_KERNEL 1 s = Some (kpage s r, take_page r f s)" "r < vbits s" "\<not> vbit s r"
    "f \<in> free_frames (kernel_pool s)" "kernel_space_ok (take_page r f s)" "pools_ok (take_page r f s)" "kpage s r \<noteq> 0"
proof -
  let ?vb = "vaddr_bitmap (kernel_vaddr s)"
  have bok: "btmp_ok ?vb" using ks by (simp add: kernel_space_ok_def)
  obtain w where w: "bitmap_scan ?vb 1 = Some w" using btm.scan_some [OF bok] by blast
  have wn: "w \<noteq> -1" using btm.scan_full [OF bok] w v by (auto simp: vbits_def vbit_def)
  note wa = btm.alloc_one [OF bok w wn bitmap_set_1]
  define s1 where "s1 = s\<lparr>kernel_vaddr := (kernel_vaddr s)\<lparr>vaddr_bitmap := set_bit_at ?vb w True\<rparr>\<rparr>"
  have pk: "pool_ok (kernel_pool s)" using po by (simp add: pools_ok_def)
  have ne: "\<not> (\<forall>k < frames (kernel_pool s). frame_used (kernel_pool s) k)" using fr by (auto simp: free_frames_def)
  obtain f where f: "f < frames (kernel_pool s)" "\<not> frame_used (kernel_pool s) f" "frame_of (kernel_pool s) f \<noteq> 0"
    "palloc (kernel_pool s) = Some (frame_of (kernel_pool s) f, (kernel_pool s)\<lparr>pool_bitmap := set_bit_at (pool_bitmap (kernel_pool s)) (of_nat f) True\<rparr>)"
    by (rule palloc_cases [OF pk]) (use ne in blast, blast)
  define s2 where "s2 = s1\<lparr>kernel_pool := (kernel_pool s)\<lparr>pool_bitmap := set_bit_at (pool_bitmap (kernel_pool s)) (of_nat f) True\<rparr>\<rparr>"
  have r: "unat w < vbits s" "\<not> vbit s (unat w)" using wa(1,2) by (simp_all add: vbits_def vbit_def)
  have c: "phys s2 = phys s" "cr3 s2 = cr3 s" "pde_at s2 a = pde_at s a" for a by (simp_all add: s2_def s1_def pde_at_def)
  have h: "present (phys s (pde_at s (kpage s (unat w))))" "mmu s (kpage s (unat w)) = None" "self_mapped s"
    using ks r by (auto simp: kernel_space_ok_def vbits_def vbit_def)
  have add: "page_table_add (kpage s (unat w)) (frame_of (kernel_pool s) f) s2 = Some (take_page (unat w) f s)"
    using page_table_add_present [of s2 "kpage s (unat w)" "frame_of (kernel_pool s) f"] h c mmu_cong [OF c(1,2)] self_mapped_cong [OF c(1,2)]
    by (simp add: take_page_def s2_def s1_def)
  have nz: "kpage s (unat w) \<noteq> 0"
    using kpage_facts(1) [OF ks, of "unat w"] r(1) ks by (auto simp: vbits_def kernel_space_ok_def word_unat_eq_iff)
  have get: "vaddr_get PF_KERNEL 1 s = Some (kpage s (unat w), s1)"
    using w wn bitmap_set_1 [of ?vb w] by (simp add: vaddr_get_def kpage_def s1_def)
  have pin: "palloc_in PF_KERNEL s1 = Some (frame_of (kernel_pool s) f, s2)"
    using f(4) by (simp add: palloc_in_def get_pool_def set_pool_def s1_def s2_def)
  have mal: "malloc_page PF_KERNEL 1 s = Some (kpage s (unat w), take_page (unat w) f s)"
    using get nz pin f(3) add by (simp add: malloc_page_def)
  have fit: "fits ?vb (unat (1 :: u32)) v" using v by (simp add: fits_1 vbits_def vbit_def)
  have one: "0 < unat (1 :: u32)" "unat (1 :: u32) < 3840" by simp_all
  have "unat (1 :: u32) \<le> card (free_frames (kernel_pool s))" using fr by (simp add: Suc_le_eq card_gt_0_iff)
  then obtain q t where "malloc_page PF_KERNEL 1 s = Some (q, t)" "kernel_space_ok t" "pools_ok t"
    using malloc_page_kernel [OF ks po one fit] by metis
  then show thesis using that [of "unat w" f] mal r f nz by (simp add: free_frames_def)
qed

lemma set_pte_data:
  assumes "present (phys s (pde_at s va))" "data_word s x"
  shows "phys (set_pte va v s) x = phys s x"
proof -
  have "x \<noteq> pte_in (frame (phys s (pde_at s va))) va" using assms frame_pte_in by (metis data_word_def)
  then show ?thesis by (simp add: set_pte_def)
qed

lemma set_pte_keeps: "kernel_table s va \<Longrightarrow> keeps_dir s (set_pte va v s)"
  using set_pte_dir [of s va v] by (simp add: keeps_dir_def kernel_table_def)

lemma kpage_inj:
  assumes "kernel_space_ok s" "j < vbits s" "k < vbits s" "kpage s j = kpage s k"
  shows "j = k"
proof -
  have "unat (kpage s j) = unat (vaddr_start (kernel_vaddr s)) + 4096 * j" "unat (kpage s k) = unat (vaddr_start (kernel_vaddr s)) + 4096 * k"
    using kpage_facts(1) [OF assms(1)] assms(2,3) unfolding vbits_def by blast+
  then show ?thesis unfolding assms(4) by linarith
qed

lemma take_page_facts:
  assumes sp: "space_ok s" and r: "r < vbits s" "\<not> vbit s r" and f: "f \<in> free_frames (kernel_pool s)"
  defines "s' \<equiv> take_page r f s"
  shows "mmu s' x = (if frame x = kpage s r \<or> low_twin s (kpage s r) x then Some (frame_of (kernel_pool s) f OR (x AND 0xfff)) else mmu s x)"
    "data_word s x \<Longrightarrow> phys s' x = phys s x" "keeps_dir s s'" "data_word s' x = data_word s x"
    "vbits s' = vbits s" "j < vbits s \<Longrightarrow> vbit s' j = (vbit s j \<or> j = r)" "kpage s' k = kpage s k"
    "frames (kernel_pool s') = frames (kernel_pool s)" "frame_of (kernel_pool s') g = frame_of (kernel_pool s) g"
    "g < frames (kernel_pool s) \<Longrightarrow> frame_used (kernel_pool s') g = (frame_used (kernel_pool s) g \<or> g = f)"
    "user_pool s' = user_pool s" "phy_addr_start (kernel_pool s') = phy_addr_start (kernel_pool s)"
    "pool_lock (kernel_pool s') = pool_lock (kernel_pool s)" "pool_size (kernel_pool s') = pool_size (kernel_pool s)"
    "vaddr_start (kernel_vaddr s') = vaddr_start (kernel_vaddr s)" "k_arenas s' = k_arenas s" "k_block_descs s' = k_block_descs s"
    "tasks s' = tasks s" "esp s' = esp s"
proof -
  have ks: "kernel_space_ok s" and po: "pools_ok s" using sp by (simp_all add: space_ok_def)
  have h: "present (phys s (pde_at s (kpage s r)))" "kernel_table s (kpage s r)"
    using ks r(1) by (auto simp: kernel_space_ok_def vbits_def)
  have bv: "btmp_ok (vaddr_bitmap (kernel_vaddr s))" and bp: "btmp_ok (pool_bitmap (kernel_pool s))" and pk: "pool_ok (kernel_pool s)"
    using ks po by (simp_all add: kernel_space_ok_def pools_ok_def pool_ok_def)
  have fl: "f < frames (kernel_pool s)" using f by (simp add: free_frames_def)
  define t where "t = s\<lparr>kernel_vaddr := (kernel_vaddr s)\<lparr>vaddr_bitmap := set_bit_at (vaddr_bitmap (kernel_vaddr s)) (of_nat r) True\<rparr>,
        kernel_pool := (kernel_pool s)\<lparr>pool_bitmap := set_bit_at (pool_bitmap (kernel_pool s)) (of_nat f) True\<rparr>\<rparr>"
  have c: "phys t = phys s" "cr3 t = cr3 s" by (simp_all add: t_def)
  have at: "pde_at t a = pde_at s a" for a by (simp add: t_def pde_at_def)
  have s': "s' = set_pte (kpage s r) (frame_of (kernel_pool s) f OR PG_US_U OR PG_RW_W OR PG_P_1) t"
    by (simp add: s'_def take_page_def t_def)
  have ht: "present (phys t (pde_at t (kpage s r)))" "kernel_table t (kpage s r)" using h kernel_table_cong(1) [OF c] c at by simp_all
  have al: "frame (kpage s r) = kpage s r" using kpage_facts(2) [OF ks] r(1) by (simp add: vbits_def)
  show "mmu s' x = (if frame x = kpage s r \<or> low_twin s (kpage s r) x then Some (frame_of (kernel_pool s) f OR (x AND 0xfff)) else mmu s x)"
    using set_pte_kernel_mmu [OF ht(2,1)] al mmu_cong [OF c] kernel_table_cong(2) [OF c] frame_of_aligned [OF pk fl]
    by (simp add: s' attr_bits mask_consts(3))
  show kd: "keeps_dir s s'" using set_pte_keeps [OF ht(2)] c at by (simp add: s' keeps_dir_def)
  show "data_word s' x = data_word s x" by (rule keeps_dir_data [OF kd])
  show "data_word s x \<Longrightarrow> phys s' x = phys s x"
    using set_pte_data [OF ht(1), of x] c at by (simp add: s' data_word_def)
  have ur: "unat (of_nat r :: u32) = r" and uf: "unat (of_nat f :: u32) = f"
    using btmp_bits_small [OF bv] btmp_bits_small [OF bp] r(1) fl by (simp_all add: vbits_def frames_def unat_of_nat_small)
  show "vbits s' = vbits s" "frames (kernel_pool s') = frames (kernel_pool s)"
    using btm.mark_slots [OF bitmap_set_1] by (simp_all add: s' t_def vbits_def frames_def)
  show "vbit s' j = (vbit s j \<or> j = r)" if "j < vbits s"
    using btm.mark_used [OF bitmap_set_1 bv, of j "of_nat r"] that ur by (simp add: s' t_def vbit_def vbits_def)
  show "frame_used (kernel_pool s') g = (frame_used (kernel_pool s) g \<or> g = f)" if "g < frames (kernel_pool s)"
    using btm.mark_used [OF bitmap_set_1 bp, of g "of_nat f"] that uf by (simp add: s' t_def frame_used_def frames_def)
qed (simp_all add: s'_def take_page_def kpage_def frame_of_def set_pte_def)

lemma aligned_low: "frame x = x \<Longrightarrow> x AND 0xfff = 0"
proof -
  have "frame x AND mask 12 = 0" by (rule bit_eqI) (simp add: frame_bits bit_simps)
  then show "frame x = x \<Longrightarrow> x AND 0xfff = 0" by (simp add: mask_consts(3))
qed

lemma frame_of_inj:
  assumes "pool_ok p" "f < frames p" "g < frames p" "frame_of p f = frame_of p g"
  shows "f = g"
  using unat_frame_of [OF assms(1,2)] unat_frame_of [OF assms(1,3)] unfolding assms(4) by linarith

lemma arena_not_taken:
  assumes sp: "space_ok s" and a: "arena_page s a" and r: "r < vbits s" "\<not> vbit s r"
  shows "a \<noteq> kpage s r" "frame a = a" "kernel_table s a" "\<not> low_twin s v a" "frame x = a \<Longrightarrow> \<not> low_twin s v x"
proof -
  have ks: "kernel_space_ok s" using sp by (simp add: space_ok_def)
  obtain k where k: "k < vbits s" "a = kpage s k" "vbit s k" using a by (auto simp: arena_page_def)
  show "a \<noteq> kpage s r" using kpage_inj [OF ks k(1) r(1)] k r(2) by auto
  show al: "frame a = a" using kpage_facts(2) [OF ks] k(1,2) by (simp add: vbits_def)
  show kt: "kernel_table s a" using ks k(1,2) by (auto simp: kernel_space_ok_def vbits_def)
  then show "\<not> low_twin s v a" by (rule not_low)
  show "\<not> low_twin s v x" if "frame x = a"
  proof -
    have "PDE_IDX x = PDE_IDX a" using same_page [of x a] that al by simp
    then show ?thesis using kt by (auto simp: low_twin_def kernel_table_def)
  qed
qed

lemma take_page_ok:
  assumes sp: "space_ok s" and ba: "backed A s" and r: "r < vbits s" "\<not> vbit s r" and f: "f \<in> free_frames (kernel_pool s)"
    and ks': "kernel_space_ok (take_page r f s)" "pools_ok (take_page r f s)"
  shows "space_ok (take_page r f s)" "backed (insert (kpage s r) A) (take_page r f s)" "kpage s r \<notin> A"
    "a \<in> A \<Longrightarrow> frame x = a \<Longrightarrow> mmu (take_page r f s) x = mmu s x"
proof -
  let ?t = "take_page r f s" and ?a = "kpage s r" and ?p = "kernel_pool s"
  note t = take_page_facts [OF sp r f]
  have ks: "kernel_space_ok s" and po: "pool_ok ?p" using sp by (simp_all add: space_ok_def pools_ok_def)
  have fl: "f < frames ?p" "\<not> frame_used ?p f" using f by (simp_all add: free_frames_def)
  have old: "mmu ?t x = mmu s x" if "a \<in> A" "frame x = a" for a x
  proof -
    have "arena_page s a" using ba that(1) unfolding backed_def by blast
    note n = arena_not_taken [OF sp this r]
    show ?thesis unfolding t(1) using n(1) n(5) [OF that(2)] that(2) by simp
  qed
  then show "mmu (take_page r f s) x = mmu s x" if "a \<in> A" "frame x = a" using that by blast
  have al: "frame ?a = ?a" using kpage_facts(2) [OF ks] r(1) by (simp add: vbits_def)
  have new: "mmu ?t ?a = Some (frame_of ?p f)" using al aligned_low [OF al] by (simp add: t(1))
  show na: "?a \<notin> A"
  proof
    assume "?a \<in> A"
    then have "arena_page s ?a" using ba unfolding backed_def by blast
    from arena_not_taken(1) [OF sp this r] show False by blast
  qed
  show "space_ok ?t" using sp ks' t(4,8,9,12,15) by (simp add: space_ok_def tables_outside_def)
  have mine: "arena_page ?t ?a" using r(1) fl(1) new t(5-10) by (auto simp: arena_page_def)
  have theirs: "arena_page ?t a" "mmu ?t a = mmu s a" "mmu s a \<noteq> Some (frame_of ?p f)" if a: "a \<in> A" for a
  proof -
    have pa: "arena_page s a" using ba a by (simp add: backed_def)
    show m: "mmu ?t a = mmu s a" using old [OF a] arena_not_taken(2) [OF sp pa r] by blast
    show "arena_page ?t a" using pa m t(5-10) unfolding arena_page_def by auto
    obtain g where g: "g < frames ?p" "frame_used ?p g" "mmu s a = Some (frame_of ?p g)" using pa unfolding arena_page_def by blast
    have "g \<noteq> f" using g(2) fl(2) by auto
    then have "frame_of ?p g \<noteq> frame_of ?p f" using frame_of_inj [OF po g(1) fl(1)] by blast
    then show "mmu s a \<noteq> Some (frame_of ?p f)" using g(3) by simp
  qed
  show "backed (insert ?a A) ?t"
    unfolding backed_def
  proof (intro conjI ballI impI)
    show "arena_page ?t a" if "a \<in> insert ?a A" for a using that mine theirs(1) by auto
    show "a = c" if "a \<in> insert ?a A" "c \<in> insert ?a A" "mmu ?t a = mmu ?t c" for a c
      using that new theirs(2,3) ba unfolding backed_def by (metis insertE)
  qed
qed

text \<open>Clearing a frame of the pool changes its words and nothing about the address space.\<close>

lemma clear_pool_frame:
  assumes "\<And>x. frame x = F \<Longrightarrow> data_word s x"
  shows "same_space s (s\<lparr>phys := clear_frame F (phys s)\<rparr>)"
proof -
  let ?t = "s\<lparr>phys := clear_frame F (phys s)\<rparr>"
  have nd: "frame (pde_at s a) \<noteq> F" for a
    using assms [of "pde_at s a"] frame_pde_at [of s a] by (auto simp: data_word_def)
  then have d: "phys ?t (pde_at ?t a) = phys s (pde_at s a)" for a by (simp add: clear_frame_def)
  have "mmu ?t a = mmu s a" for a
  proof (cases "present (phys s (pde_at s a))")
    case True
    have "frame (pte_in (frame (phys s (pde_at s a))) a) \<noteq> F"
      using assms [of "pte_in (frame (phys s (pde_at s a))) a"] True by (auto simp: data_word_def)
    then show ?thesis using d by (simp add: mmu_def Let_def clear_frame_def)
  next
    case False
    then show ?thesis using d by (simp add: mmu_def Let_def)
  qed
  then show ?thesis using d by (auto simp: same_space_def keeps_dir_def intro: exI [of _ "pool_lock (kernel_pool s)"])
qed

definition give_page :: "nat \<Rightarrow> nat \<Rightarrow> 'a memory_scheme \<Rightarrow> 'a memory_scheme" where
  "give_page r f s = s\<lparr>phys := phys (set_pte (kpage s r) (phys s (pte_in (frame (phys s (pde_at s (kpage s r)))) (kpage s r)) AND NOT PG_P_1) s),
      kernel_pool := (kernel_pool s)\<lparr>pool_bitmap := set_bit_at (pool_bitmap (kernel_pool s)) (of_nat f) False\<rparr>,
      kernel_vaddr := (kernel_vaddr s)\<lparr>vaddr_bitmap := set_bit_at (vaddr_bitmap (kernel_vaddr s)) (of_nat r) False\<rparr>\<rparr>"

lemma kpage_index:
  assumes "kernel_space_ok s" "r < vbits s"
  shows "(kpage s r - vaddr_start (kernel_vaddr s)) div PG_SIZE = of_nat r"
proof -
  have u: "unat (kpage s r) = unat (vaddr_start (kernel_vaddr s)) + 4096 * r" using kpage_facts(1) [OF assms(1)] assms(2) by (simp add: vbits_def)
  have "unat (kpage s r) < 4294967296" by simp
  then have lt: "4096 * r < 4294967296" using u by linarith
  have "kpage s r - vaddr_start (kernel_vaddr s) = of_nat r * PG_SIZE" by (simp add: kpage_def)
  moreover have "unat (of_nat r * PG_SIZE :: u32) = 4096 * r" using unat_of_nat_small [of "4096 * r"] lt by (simp add: PG_SIZE_def mult.commute)
  ultimately show ?thesis using lt by (simp add: word_unat_eq_iff unat_div PG_SIZE_def unat_of_nat_small)
qed

lemma mfree_one_page:
  assumes sp: "space_ok s" and r: "r < vbits s" and f: "f < frames (kernel_pool s)" "mmu s (kpage s r) = Some (frame_of (kernel_pool s) f)"
  shows "mfree_page PF_KERNEL (kpage s r) 1 s = Some (give_page r f s)"
proof -
  have ks: "kernel_space_ok s" and po: "pools_ok s" "pool_ok (kernel_pool s)" using sp by (simp_all add: space_ok_def pools_ok_def)
  have al: "frame (kpage s r) = kpage s r" using kpage_facts(2) [OF ks] r(1) by (simp add: vbits_def)
  have u: "unat (frame_of (kernel_pool s) f) = unat (phy_addr_start (kernel_pool s)) + 4096 * f" by (rule unat_frame_of [OF po(2) f(1)])
  have lo: "phy_addr_start (kernel_pool s) \<le> frame_of (kernel_pool s) f" using u by (simp add: word_le_nat_alt)
  moreover have "0x102000 \<le> frame_of (kernel_pool s) f" using lo sp order_trans by (auto simp: space_ok_def)
  moreover have "frame_of (kernel_pool s) f < phy_addr_start (user_pool s)" using u f(1) po(1) by (simp add: pools_ok_def word_less_nat_alt)
  ultimately show ?thesis
    using mfree_kernel_eq(1) [OF _ al f(2) _ _ _ refl] ks frame_index [OF po(2) f(1)] kpage_index [OF ks r]
    by (simp add: kernel_space_ok_def give_page_def)
qed

lemma give_page_facts:
  assumes sp: "space_ok s" and r: "r < vbits s" and f: "f < frames (kernel_pool s)"
  defines "s' \<equiv> give_page r f s"
  shows "mmu s' x = (if frame x = kpage s r \<or> low_twin s (kpage s r) x then None else mmu s x)"
    "data_word s x \<Longrightarrow> phys s' x = phys s x" "keeps_dir s s'" "data_word s' x = data_word s x"
    "vbits s' = vbits s" "j < vbits s \<Longrightarrow> vbit s' j = (vbit s j \<and> j \<noteq> r)" "kpage s' k = kpage s k"
    "frames (kernel_pool s') = frames (kernel_pool s)" "frame_of (kernel_pool s') g = frame_of (kernel_pool s) g"
    "g < frames (kernel_pool s) \<Longrightarrow> frame_used (kernel_pool s') g = (frame_used (kernel_pool s) g \<and> g \<noteq> f)"
    "user_pool s' = user_pool s" "phy_addr_start (kernel_pool s') = phy_addr_start (kernel_pool s)"
    "pool_lock (kernel_pool s') = pool_lock (kernel_pool s)" "pool_size (kernel_pool s') = pool_size (kernel_pool s)"
    "vaddr_start (kernel_vaddr s') = vaddr_start (kernel_vaddr s)" "k_arenas s' = k_arenas s" "k_block_descs s' = k_block_descs s"
    "tasks s' = tasks s" "esp s' = esp s"
proof -
  have ks: "kernel_space_ok s" and po: "pools_ok s" using sp by (simp_all add: space_ok_def)
  have h: "present (phys s (pde_at s (kpage s r)))" "kernel_table s (kpage s r)"
    using ks r(1) by (auto simp: kernel_space_ok_def vbits_def)
  have bv: "btmp_ok (vaddr_bitmap (kernel_vaddr s))" and bp: "btmp_ok (pool_bitmap (kernel_pool s))"
    using ks po by (simp_all add: kernel_space_ok_def pools_ok_def pool_ok_def)
  define e where "e = phys s (pte_in (frame (phys s (pde_at s (kpage s r)))) (kpage s r)) AND NOT PG_P_1"
  have c: "phys s' = phys (set_pte (kpage s r) e s)" "cr3 s' = cr3 (set_pte (kpage s r) e s)" by (simp_all add: s'_def give_page_def e_def)
  have al: "frame (kpage s r) = kpage s r" using kpage_facts(2) [OF ks] r(1) by (simp add: vbits_def)
  have "\<not> present e" by (simp add: e_def present_bit PG_P_1_def bit_simps)
  then show "mmu s' x = (if frame x = kpage s r \<or> low_twin s (kpage s r) x then None else mmu s x)"
    using set_pte_kernel_mmu [OF h(2,1), of e x] al mmu_cong [OF c] by simp
  show kd: "keeps_dir s s'" using set_pte_keeps [OF h(2), of e] c by (simp add: keeps_dir_def)
  show "data_word s' x = data_word s x" by (rule keeps_dir_data [OF kd])
  show "data_word s x \<Longrightarrow> phys s' x = phys s x" using set_pte_data [OF h(1), of x e] c by simp
  have ur: "unat (of_nat r :: u32) = r" and uf: "unat (of_nat f :: u32) = f"
    using btmp_bits_small [OF bv] btmp_bits_small [OF bp] r(1) f by (simp_all add: vbits_def frames_def unat_of_nat_small)
  show "vbits s' = vbits s" "frames (kernel_pool s') = frames (kernel_pool s)"
    using btm.mark_slots [OF bitmap_set_0] by (simp_all add: s'_def give_page_def vbits_def frames_def)
  show "vbit s' j = (vbit s j \<and> j \<noteq> r)" if "j < vbits s"
    using btm.mark_used [OF bitmap_set_0 bv, of j "of_nat r"] that ur by (simp add: s'_def give_page_def vbit_def vbits_def)
  show "frame_used (kernel_pool s') g = (frame_used (kernel_pool s) g \<and> g \<noteq> f)" if "g < frames (kernel_pool s)"
    using btm.mark_used [OF bitmap_set_0 bp, of g "of_nat f"] that uf by (simp add: s'_def give_page_def frame_used_def frames_def)
qed (simp_all add: s'_def give_page_def kpage_def frame_of_def)

lemma give_page_ok:
  assumes sp: "space_ok s" and ba: "backed A s" and r: "r < vbits s" "kpage s r \<in> A"
    and f: "f < frames (kernel_pool s)" "mmu s (kpage s r) = Some (frame_of (kernel_pool s) f)"
  shows "space_ok (give_page r f s)" "backed (A - {kpage s r}) (give_page r f s)"
    "a \<in> A \<Longrightarrow> a \<noteq> kpage s r \<Longrightarrow> frame x = a \<Longrightarrow> mmu (give_page r f s) x = mmu s x"
proof -
  let ?t = "give_page r f s" and ?a = "kpage s r" and ?p = "kernel_pool s"
  note t = give_page_facts [OF sp r(1) f(1)]
  have ks: "kernel_space_ok s" and po: "pools_ok s" "pool_ok ?p" using sp by (simp_all add: space_ok_def pools_ok_def)
  have page: "frame (kpage s k) = kpage s k" "kernel_table s (kpage s k)" if "k < vbits s" for k
    using kpage_facts(2) [OF ks] ks that by (auto simp: kernel_space_ok_def vbits_def)
  have other: "mmu ?t x = mmu s x" if "k < vbits s" "k \<noteq> r" "frame x = kpage s k" for k x
  proof -
    have "kpage s k \<noteq> ?a" using kpage_inj [OF ks that(1) r(1)] that(2) by blast
    moreover have "PDE_IDX x = PDE_IDX (kpage s k)" using same_page [of x "kpage s k"] page(1) [OF that(1)] that(3) by simp
    then have "\<not> low_twin s ?a x" using page(2) [OF that(1)] by (auto simp: low_twin_def kernel_table_def)
    ultimately show ?thesis unfolding t(1) using that(3) by simp
  qed
  have ap: "arena_page s a" if "a \<in> A" for a using ba that unfolding backed_def by blast
  show "mmu ?t x = mmu s x" if a: "a \<in> A" "a \<noteq> ?a" "frame x = a"
  proof -
    obtain k where k: "k < vbits s" "a = kpage s k" using ap [OF a(1)] unfolding arena_page_def by blast
    then show ?thesis using other [OF k(1), of x] a(2,3) by blast
  qed
  have old: "mmu ?t a = mmu s a" if a: "a \<in> A" "a \<noteq> ?a" for a
  proof -
    obtain k where k: "k < vbits s" "a = kpage s k" using ap [OF a(1)] unfolding arena_page_def by blast
    then show ?thesis using other [OF k(1), of a] page(1) [OF k(1)] a(2) by blast
  qed
  have none: "mmu ?t (kpage s k) = None" if k: "k < vbits s" "\<not> vbit ?t k" for k
  proof (cases "k = r")
    case True
    then show ?thesis using page(1) [OF r(1)] by (simp add: t(1))
  next
    case False
    then have "\<not> vbit s k" using t(6) [OF k(1)] k(2) by blast
    then have "mmu s (kpage s k) = None" using ks k(1) by (auto simp: kernel_space_ok_def vbits_def vbit_def)
    then show ?thesis using other [OF k(1) False page(1) [OF k(1)]] by simp
  qed
  have d: "phys ?t (pde_at ?t a) = phys s (pde_at s a)" for a using t(3) keeps_dir_at [OF t(3)] by (simp add: keeps_dir_def)
  have "self_mapped ?t" using ks d [of "-1"] t(3) by (simp add: self_mapped_def keeps_dir_def self_entry_at kernel_space_ok_def)
  moreover have "btmp_ok (vaddr_bitmap (kernel_vaddr ?t))" using ks t(5) by (simp add: kernel_space_ok_def btmp_ok_def vbits_def)
  ultimately have "kernel_space_ok ?t"
    using ks t(5,15) none page(2) d keeps_dir_kernel [OF t(3)] by (simp add: kernel_space_ok_def t(7) vbits_def vbit_def)
  moreover have "pools_ok ?t" using po t(8,11,12) by (simp add: pools_ok_def pool_ok_def frames_def btmp_ok_def)
  ultimately show "space_ok ?t" using sp t(4,8,9,12,15) by (simp add: space_ok_def tables_outside_def)
  have "arena_page ?t a" if a: "a \<in> A" "a \<noteq> ?a" for a
  proof -
    obtain k where k: "k < vbits s" "a = kpage s k" "vbit s k" using ap [OF a(1)] unfolding arena_page_def by blast
    obtain g where g: "g < frames ?p" "frame_used ?p g" "mmu s a = Some (frame_of ?p g)" using ap [OF a(1)] unfolding arena_page_def by blast
    have "mmu s a \<noteq> mmu s ?a" using ba a r(2) unfolding backed_def by blast
    then have "g \<noteq> f" using g(3) f(2) by auto
    moreover have "k \<noteq> r" using k(2) a(2) by auto
    ultimately show ?thesis using k g old [OF a] t(5-10) unfolding arena_page_def by auto
  qed
  moreover have "a = c" if "a \<in> A - {?a}" "c \<in> A - {?a}" "mmu ?t a = mmu ?t c" for a c
  proof -
    have "mmu s a = mmu s c" using old [of a] old [of c] that by simp
    then show ?thesis using ba that(1,2) unfolding backed_def by blast
  qed
  ultimately show "backed (A - {?a}) ?t" unfolding backed_def by blast
qed

section \<open>Splitting a page into blocks and joining them again\<close>

definition arena_blocks :: "u32 \<Rightarrow> nat \<Rightarrow> nat \<Rightarrow> nat \<Rightarrow> u32 list" where
  "arena_blocks a i idx n = map (\<lambda>k. a + sizeof_arena + of_nat k * bsize i) [idx..<idx + n]"

definition set_free :: "nat \<Rightarrow> u32 list \<Rightarrow> 'a memory_scheme \<Rightarrow> 'a memory_scheme" where
  "set_free i l s = s\<lparr>k_block_descs := (k_block_descs s)[i := (k_block_descs s ! i)\<lparr>free_list := l\<rparr>]\<rparr>"

lemma set_free_simps [simp]:
  "k_arenas (set_free i l s) = k_arenas s" "in_kernel (set_free i l s) = in_kernel s"
  "phys (set_free i l s) = phys s" "cr3 (set_free i l s) = cr3 s" "kernel_pool (set_free i l s) = kernel_pool s"
  "user_pool (set_free i l s) = user_pool s" "kernel_vaddr (set_free i l s) = kernel_vaddr s" "tasks (set_free i l s) = tasks s"
  "esp (set_free i l s) = esp s"
  by (simp_all add: set_free_def in_kernel_def running_thread_def)

lemma set_free_idem [simp]: "set_free i l (set_free i l' s) = set_free i l s"
  by (cases "i < length (k_block_descs s)") (simp_all add: set_free_def list_update_beyond not_less)

lemma set_free_of: "i < length (k_block_descs s) \<Longrightarrow> free_of (set_free i l s) j = (if j = i then l else free_of s j)"
  by (auto simp: free_of_def set_free_def)

lemma set_free_descs: "descs_ok (k_block_descs s) \<Longrightarrow> descs_ok (k_block_descs (set_free i l s))"
  by (simp add: set_free_def descs_ok_upd)

lemma set_free_same [simp]: "set_free i (free_of s i) s = s"
  by (simp add: set_free_def free_of_def)

lemma upd_free_kernel: "in_kernel s \<Longrightarrow> upd_free_list i g s = set_free i (g (free_of s i)) s"
  by (simp add: upd_free_list_def set_descs_def heap_descs_def set_free_def free_of_def)

lemma arena_block_at:
  assumes "in_kernel s" "descs_ok (k_block_descs s)" "i < 7" "desc (k_arenas s a) = Some i"
  shows "arena2block (heap_descs s) (heap_arenas s a) a idx = Some (a + sizeof_arena + idx * bsize i)"
  using assms descs_ok_facts(2) [OF assms(2,3)] by (simp add: arena2block_def heap_descs_def heap_arenas_def)

lemma split_arena_eq:
  assumes "in_kernel s" "descs_ok (k_block_descs s)" "i < 7" "desc (k_arenas s a) = Some i"
    and "distinct (free_of s i @ arena_blocks a i idx n)"
  shows "split_arena n a i (of_nat idx) s = Some (set_free i (free_of s i @ arena_blocks a i idx n) s)"
  using assms
proof (induction n arbitrary: idx s)
  case 0
  then show ?case by (simp add: arena_blocks_def)
next
  case (Suc n)
  let ?b = "a + sizeof_arena + of_nat idx * bsize i"
  let ?s = "set_free i (free_of s i @ [?b]) s"
  have len: "i < length (k_block_descs s)" using descs_ok_facts(1) [OF Suc.prems(2)] Suc.prems(3) by simp
  have bs: "arena_blocks a i idx (Suc n) = ?b # arena_blocks a i (Suc idx) n" by (simp add: arena_blocks_def upt_rec)
  have "split_arena n a i (of_nat (Suc idx)) ?s = Some (set_free i (free_of ?s i @ arena_blocks a i (Suc idx) n) ?s)"
    using Suc.prems set_free_descs [OF Suc.prems(2)] by (intro Suc.IH) (simp_all add: set_free_of [OF len] bs)
  moreover have "?b \<notin> set (free_list (heap_descs s ! i))" using Suc.prems(1,5) bs by (auto simp: heap_descs_def free_of_def)
  ultimately show ?case
    using arena_block_at [OF Suc.prems(1-4), of "of_nat idx"] upd_free_kernel [OF Suc.prems(1), of i "\<lambda>l. l @ [?b]"]
    by (simp add: bs set_free_of [OF len] add.commute)
qed

lemma unsplit_arena_eq:
  assumes "in_kernel s" "descs_ok (k_block_descs s)" "i < 7" "desc (k_arenas s a) = Some i"
    and "distinct (free_of s i)" "distinct (arena_blocks a i idx n)" "set (arena_blocks a i idx n) \<subseteq> set (free_of s i)"
  shows "unsplit_arena n a i (of_nat idx) s = Some (set_free i (filter (\<lambda>b. b \<notin> set (arena_blocks a i idx n)) (free_of s i)) s)"
  using assms
proof (induction n arbitrary: idx s)
  case 0
  then show ?case by (simp add: arena_blocks_def)
next
  case (Suc n)
  let ?b = "a + sizeof_arena + of_nat idx * bsize i"
  let ?s = "set_free i (remove1 ?b (free_of s i)) s"
  have len: "i < length (k_block_descs s)" using descs_ok_facts(1) [OF Suc.prems(2)] Suc.prems(3) by simp
  have bs: "arena_blocks a i idx (Suc n) = ?b # arena_blocks a i (Suc idx) n" by (simp add: arena_blocks_def upt_rec)
  have rm: "remove1 ?b (free_of s i) = filter (\<lambda>c. c \<noteq> ?b) (free_of s i)"
    using Suc.prems(5) by (simp add: distinct_remove1_removeAll removeAll_filter_not_eq eq_commute [of ?b])
  have "unsplit_arena n a i (of_nat (Suc idx)) ?s = Some (set_free i (filter (\<lambda>b. b \<notin> set (arena_blocks a i (Suc idx) n)) (free_of ?s i)) ?s)"
    using Suc.prems set_free_descs [OF Suc.prems(2)] by (intro Suc.IH) (auto simp: set_free_of [OF len] bs rm)
  moreover have "?b \<in> set (free_list (heap_descs s ! i))" using Suc.prems(1,7) bs by (auto simp: heap_descs_def free_of_def)
  moreover have "filter (\<lambda>b. b \<notin> set (arena_blocks a i (Suc idx) n)) (remove1 ?b (free_of s i)) =
      filter (\<lambda>b. b \<notin> set (arena_blocks a i idx (Suc n))) (free_of s i)"
    unfolding rm bs by (simp add: conj_commute)
  ultimately show ?case
    using arena_block_at [OF Suc.prems(1-4), of "of_nat idx"] upd_free_kernel [OF Suc.prems(1), of i "remove1 ?b"]
    by (simp add: set_free_of [OF len] add.commute)
qed

definition blocks_of :: "u32 \<Rightarrow> nat \<Rightarrow> u32 list" where
  "blocks_of a i = arena_blocks a i 0 (unat (bcount i))"

lemma blocks_of_nth: "k < unat (bcount i) \<Longrightarrow> blocks_of a i ! k = a + sizeof_arena + of_nat k * bsize i"
  by (simp add: blocks_of_def arena_blocks_def)

lemma blocks_of_length [simp]: "length (blocks_of a i) = unat (bcount i)"
  by (simp add: blocks_of_def arena_blocks_def)

lemma in_blocks_of: "b \<in> set (blocks_of a i) \<longleftrightarrow> (\<exists>idx < bcount i. b = a + sizeof_arena + idx * bsize i)"
proof
  assume "b \<in> set (blocks_of a i)"
  then obtain k where k: "k < unat (bcount i)" "b = a + sizeof_arena + of_nat k * bsize i" by (auto simp: blocks_of_def arena_blocks_def)
  have "unat (bcount i) < 4294967296" by simp
  then have "unat (of_nat k :: u32) = k" using k(1) by (intro unat_of_nat_small) linarith
  then have "(of_nat k :: u32) < bcount i" using k(1) by (simp add: word_less_nat_alt)
  then show "\<exists>idx < bcount i. b = a + sizeof_arena + idx * bsize i" using k(2) by blast
next
  assume "\<exists>idx < bcount i. b = a + sizeof_arena + idx * bsize i"
  then obtain idx where x: "idx < bcount i" "b = a + sizeof_arena + idx * bsize i" by blast
  then have "unat idx < unat (bcount i)" "b = a + sizeof_arena + of_nat (unat idx) * bsize i" by (simp_all add: word_less_nat_alt)
  then show "b \<in> set (blocks_of a i)" unfolding blocks_of_def arena_blocks_def set_map set_upt by (intro image_eqI [of _ _ "unat idx"]) simp_all
qed

lemma blocks_of_facts:
  assumes i: "i < 7" and a: "frame a = a"
  shows "distinct (blocks_of a i)" "b \<in> set (blocks_of a i) \<Longrightarrow> block2arena b = a" "b \<in> set (blocks_of a i) \<Longrightarrow> a \<le> b"
    "blocks_of a i \<noteq> []"
proof -
  let ?h = "\<lparr>desc = Some i, arena_cnt = 0, large = False\<rparr>"
  have t: "block2arena (a + sizeof_arena + idx * bsize i) = a \<and> unat a + 12 \<le> unat (a + sizeof_arena + idx * bsize i) \<and>
      (idx < jdx \<longrightarrow> unat (a + sizeof_arena + idx * bsize i) + unat (bsize i) \<le> unat (a + sizeof_arena + jdx * bsize i))"
    if "idx < bcount i" "jdx < bcount i" for idx jdx
    using arena_blocks_tile_the_page [OF i a, of ?h idx jdx] that by (simp add: arena2block_def bsize_def bcount_def)
  have "unat (bsize i) = 16 * 2 ^ i" "0 < unat (bcount i)" using desc_values(1,3) [OF i] by (simp_all add: bsize_def bcount_def)
  then have bp: "0 < unat (bsize i)" and cp: "0 < unat (bcount i)" by simp_all
  show "blocks_of a i \<noteq> []" using cp blocks_of_length [of a i] by (metis length_greater_0_conv)
  show "block2arena b = a" "a \<le> b" if "b \<in> set (blocks_of a i)"
  proof -
    obtain idx where x: "idx < bcount i" "b = a + sizeof_arena + idx * bsize i" using \<open>b \<in> set (blocks_of a i)\<close> unfolding in_blocks_of by blast
    have "block2arena b = a" "unat a + 12 \<le> unat b" using t [OF x(1) x(1)] unfolding x(2) by blast+
    then show "block2arena b = a" "a \<le> b" by (simp_all add: word_le_nat_alt)
  qed
  have um: "unat (of_nat k :: u32) = k \<and> (of_nat k :: u32) < bcount i" if "k < unat (bcount i)" for k
  proof -
    have "unat (bcount i) < 4294967296" by simp
    then have "unat (of_nat k :: u32) = k" using that by (intro unat_of_nat_small) linarith
    then show ?thesis using that by (simp add: word_less_nat_alt)
  qed
  have ne: "blocks_of a i ! j \<noteq> blocks_of a i ! k" if "j < k" "k < unat (bcount i)" for j k
  proof -
    have "(of_nat j :: u32) < of_nat k" using um [of j] um [of k] that by (simp add: word_less_nat_alt)
    then have "unat (blocks_of a i ! j) + unat (bsize i) \<le> unat (blocks_of a i ! k)"
      using t [of "of_nat j" "of_nat k"] um [of j] um [of k] that by (simp add: blocks_of_nth)
    then show ?thesis using bp by auto
  qed
  show "distinct (blocks_of a i)"
    unfolding distinct_conv_nth blocks_of_length
  proof (intro allI impI)
    fix j k assume "j < unat (bcount i)" "k < unat (bcount i)" "j \<noteq> k"
    then show "blocks_of a i ! j \<noteq> blocks_of a i ! k" using ne [of j k] ne [of k j] by (metis linorder_neqE_nat)
  qed
qed

section \<open>A new arena\<close>

definition opened :: "nat \<Rightarrow> nat \<Rightarrow> nat \<Rightarrow> 'a memory_scheme \<Rightarrow> 'a memory_scheme" where
  "opened i r f s = set_free i (blocks_of (kpage s r) i)
     ((take_page r f s)\<lparr>phys := clear_frame (frame_of (kernel_pool s) f) (phys (take_page r f s)),
        k_arenas := (k_arenas s)(kpage s r := \<lparr>desc = Some i, arena_cnt = bcount i, large = False\<rparr>)\<rparr>)"

lemma set_free_eflags: "(set_free i l (s\<lparr>eflags := x\<rparr>))\<lparr>eflags := y\<rparr> = set_free i l (s\<lparr>eflags := y\<rparr>)"
  by (simp add: set_free_def)

lemma eflags_set_free [simp]: "eflags (set_free i l s) = eflags s"
  by (simp add: set_free_def)

lemma new_arena_kernel:
  assumes k: "in_kernel s" and ok: "descs_ok (k_block_descs s)" "i < 7" "free_of s i = []" and sp: "space_ok s"
    and room: "v < vbits s" "\<not> vbit s v" "free_frames (kernel_pool s) \<noteq> {}"
  obtains r f where "new_arena i s = Some (True, opened i r f s)" "r < vbits s" "\<not> vbit s r" "f \<in> free_frames (kernel_pool s)"
    "kernel_space_ok (take_page r f s)" "pools_ok (take_page r f s)"
proof -
  have ks: "kernel_space_ok s" "pools_ok s" using sp by (simp_all add: space_ok_def)
  obtain r f where m: "malloc_page PF_KERNEL 1 s = Some (kpage s r, take_page r f s)" "r < vbits s" "\<not> vbit s r"
    "f \<in> free_frames (kernel_pool s)" "kernel_space_ok (take_page r f s)" "pools_ok (take_page r f s)" "kpage s r \<noteq> 0"
    by (rule malloc_one_page [OF ks room])
  let ?a = "kpage s r" and ?F = "frame_of (kernel_pool s) f"
  define s1 where "s1 = take_page r f s"
  note t = take_page_facts [OF sp m(2-4), folded s1_def]
  have al: "frame ?a = ?a" using kpage_facts(2) [OF ks(1)] m(2) by (simp add: vbits_def)
  have fl: "f < frames (kernel_pool s)" using m(4) by (simp add: free_frames_def)
  have F: "frame ?F = ?F" using frame_of_aligned [OF _ fl] ks(2) by (simp add: pools_ok_def)
  have mm: "mmu s1 ?a = Some ?F" using t(1) [of ?a] al aligned_low [OF al] by simp
  define s2 where "s2 = s1\<lparr>phys := clear_frame ?F (phys s1)\<rparr>"
  have clr: "pages_clear ?a 1 s1 = Some s2" using m(7) mm F by (simp add: pages_clear_def page_clear_def s2_def)
  have f2: "in_kernel s2" "k_block_descs s2 = k_block_descs s" "k_arenas s2 = k_arenas s"
    using k t(16-19) by (simp_all add: s2_def in_kernel_def running_thread_def)
  have bpa: "blocks_per_arena (heap_descs s2 ! i) = bcount i" using f2 descs_ok_facts(3) [OF ok(1,2)] by (simp add: heap_descs_def)
  define s3 where "s3 = s2\<lparr>k_arenas := (k_arenas s)(?a := \<lparr>desc = Some i, arena_cnt = bcount i, large = False\<rparr>)\<rparr>"
  have s3: "set_arena ?a \<lparr>desc = Some i, arena_cnt = bcount i, large = False\<rparr> s2 = s3" using f2 by (simp add: set_arena_def s3_def)
  define s4 where "s4 = s3\<lparr>eflags := eflags s3 AND NOT EFLAGS_IF\<rparr>"
  have f4: "in_kernel s4" "descs_ok (k_block_descs s4)" "desc (k_arenas s4 ?a) = Some i" "free_of s4 i = []"
    using f2 ok by (simp_all add: s4_def s3_def in_kernel_def running_thread_def free_of_def)
  have "split_arena (unat (bcount i)) ?a i 0 s4 = Some (set_free i (blocks_of ?a i) s4)"
    using split_arena_eq [OF f4(1,2) ok(2) f4(3), of 0 "unat (bcount i)"] f4(4) blocks_of_facts(1) [OF ok(2) al]
    by (simp add: blocks_of_def)
  moreover have "snd (intr_set_status (intr_get_status s3) (set_free i (blocks_of ?a i) s4)) = set_free i (blocks_of ?a i) s3"
    using intr_restore [of "set_free i (blocks_of ?a i) s4" s3] by (simp add: s4_def set_free_eflags)
  ultimately have "new_arena i s = Some (True, set_free i (blocks_of ?a i) s3)"
    using k m(1,7) clr s3 bpa by (simp add: new_arena_def heap_pf_def s1_def [symmetric] Let_def intr_disable_eq s4_def [symmetric])
  moreover have "set_free i (blocks_of ?a i) s3 = opened i r f s" by (simp add: opened_def s3_def s2_def s1_def)
  ultimately show thesis using that [of r f] m by simp
qed

lemma or_low_frame:
  assumes "frame F = F"
  shows "frame (F OR (x AND 0xfff)) = F"
proof -
  have "frame (frame F OR (x AND mask 12)) = frame F" unfolding frame_bits by (rule bit_eqI) (auto simp: bit_simps)
  then show ?thesis using assms by (simp add: mask_consts(3))
qed

lemma mmu_page:
  assumes "mmu s a = Some F" "frame a = a" "frame x = a"
  shows "mmu s x = Some (F OR (x AND 0xfff))" "frame F = F"
proof -
  have i: "PDE_IDX x = PDE_IDX a" "PTE_IDX x = PTE_IDX a" using same_page [of x a] assms(2,3) by simp_all
  have "a AND 0xfff = 0" by (rule aligned_low [OF assms(2)])
  then show "mmu s x = Some (F OR (x AND 0xfff))" "frame F = F"
    using assms(1) i by (auto simp: mmu_def pde_at_def pte_in_def Let_def split: if_splits)
qed

lemma opened_space:
  assumes sp: "space_ok s" and ba: "backed A s" and r: "r < vbits s" "\<not> vbit s r" and f: "f \<in> free_frames (kernel_pool s)"
    and tp: "kernel_space_ok (take_page r f s)" "pools_ok (take_page r f s)"
  shows "space_ok (opened i r f s)" "backed (insert (kpage s r) A) (opened i r f s)" "kpage s r \<notin> A"
    "\<And>c x. c \<in> A \<Longrightarrow> frame x = c \<Longrightarrow> vread (opened i r f s) x = vread s x"
    "\<And>x. frame x = kpage s r \<Longrightarrow> \<exists>pa. mmu (opened i r f s) x = Some pa \<and> data_word (opened i r f s) pa"
proof -
  let ?t = "take_page r f s" and ?F = "frame_of (kernel_pool s) f" and ?o = "opened i r f s" and ?a = "kpage s r"
  note t = take_page_facts [OF sp r f] and k = take_page_ok [OF sp ba r f tp]
  have ks: "kernel_space_ok s" and po: "pool_ok (kernel_pool s)" "tables_outside s" using sp by (simp_all add: space_ok_def pools_ok_def)
  have fl: "f < frames (kernel_pool s)" "\<not> frame_used (kernel_pool s) f" using f by (simp_all add: free_frames_def)
  have F: "frame ?F = ?F" by (rule frame_of_aligned [OF po(1) fl(1)])
  have dF: "data_word s x" if "frame x = ?F" for x using po(2) fl(1) that by (simp add: tables_outside_def)
  then have c: "same_space ?t (?t\<lparr>phys := clear_frame ?F (phys ?t)\<rparr>)" using t(4) by (intro clear_pool_frame) blast
  define u where "u = ?t\<lparr>phys := clear_frame ?F (phys ?t)\<rparr>"
  have ou: "phys ?o = phys u" "cr3 ?o = cr3 u" "kernel_vaddr ?o = kernel_vaddr u" "user_pool ?o = user_pool u" "kernel_pool ?o = kernel_pool u"
    by (simp_all add: opened_def u_def)
  then have "same_space u ?o" by (intro same_space_phys [of _ _ "pool_lock (kernel_pool u)"]) simp_all
  then have sm: "same_space ?t ?o" using c same_space_trans u_def by blast
  show "space_ok ?o" "backed (insert ?a A) ?o" using same_space_ok [OF sm] k(1,2) by simp_all
  show "?a \<notin> A" by (rule k(3))
  have mt: "mmu ?o x = mmu ?t x" for x using sm by (simp add: same_space_def)
  have ph: "phys ?o x = (if frame x = ?F then 0 else phys ?t x)" for x using ou(1) by (simp add: u_def clear_frame_def)
  show "vread ?o x = vread s x" if c: "c \<in> A" "frame x = c" for c x
  proof -
    have ap: "arena_page s c" using ba c(1) unfolding backed_def by blast
    then obtain g where g: "g < frames (kernel_pool s)" "frame_used (kernel_pool s) g" "mmu s c = Some (frame_of (kernel_pool s) g)"
      unfolding arena_page_def by blast
    have x: "mmu s x = Some (frame_of (kernel_pool s) g OR (x AND 0xfff))"
      by (rule mmu_page(1) [OF g(3) arena_not_taken(2) [OF sp ap r] c(2)])
    have G: "frame (frame_of (kernel_pool s) g) = frame_of (kernel_pool s) g" by (rule frame_of_aligned [OF po(1) g(1)])
    have "g \<noteq> f" using g(2) fl(2) by auto
    then have "frame_of (kernel_pool s) g \<noteq> ?F" using frame_of_inj [OF po(1) g(1) fl(1)] by blast
    then have "phys ?o (frame_of (kernel_pool s) g OR (x AND 0xfff)) = phys ?t (frame_of (kernel_pool s) g OR (x AND 0xfff))"
      by (simp add: ph or_low_frame [OF G])
    also have "\<dots> = phys s (frame_of (kernel_pool s) g OR (x AND 0xfff))"
      using po(2) g(1) or_low_frame [OF G] by (intro t(2)) (simp add: tables_outside_def)
    finally show ?thesis using x mt [of x] k(4) [OF c] by (simp add: vread_def)
  qed
  show "\<exists>pa. mmu ?o x = Some pa \<and> data_word ?o pa" if "frame x = ?a" for x
  proof -
    have "data_word ?o y = data_word s y" for y
      using t(4) keeps_dir_data [of ?t ?o y] sm by (simp add: same_space_def)
    then have "data_word ?o (?F OR (x AND 0xfff))" using dF or_low_frame [OF F] by simp
    moreover have "mmu ?o x = Some (?F OR (x AND 0xfff))" unfolding mt t(1) using that by simp
    ultimately show ?thesis by blast
  qed
qed

lemma opened_heap:
  assumes ok: "heap_ok A s" and sp: "space_ok s" and i: "i < 7" "free_of s i = []" and r: "r < vbits s" and na: "kpage s r \<notin> A"
  shows "heap_ok (insert (kpage s r) A) (opened i r f s)" "in_use (insert (kpage s r) A) (opened i r f s) = in_use A s"
    "free_of (opened i r f s) i = blocks_of (kpage s r) i"
proof -
  let ?a = "kpage s r" and ?o = "opened i r f s"
  note h = heap_okD [OF ok]
  have ks: "kernel_space_ok s" using sp by (simp add: space_ok_def)
  have al: "frame ?a = ?a" using kpage_facts(2) [OF ks] r by (simp add: vbits_def)
  note b = blocks_of_facts [OF i(1) al]
  have len: "i < length (k_block_descs s)" using descs_ok_facts(1) [OF h(1)] i(1) by simp
  have ds: "k_block_descs ?o = k_block_descs (set_free i (blocks_of ?a i) s)" by (simp add: opened_def set_free_def take_page_def set_pte_def)
  then have fo: "free_of ?o j = (if j = i then blocks_of ?a i else free_of s j)" for j
    using set_free_of [OF len] by (simp add: free_of_def)
  show "free_of ?o i = blocks_of ?a i" by (simp add: fo)
  have ar: "k_arenas ?o = (k_arenas s)(?a := \<lparr>desc = Some i, arena_cnt = bcount i, large = False\<rparr>)" by (simp add: opened_def)
  have "unat ?a = unat (vaddr_start (kernel_vaddr s)) + 4096 * r" using kpage_facts(1) [OF ks] r by (simp add: vbits_def)
  then have lo: "K_HEAP_START \<le> ?a" using sp by (simp add: space_ok_def word_le_nat_alt)
  have blk: "is_block (insert ?a A) ?o j c \<longleftrightarrow> is_block A s j c \<or> (j = i \<and> c \<in> set (blocks_of ?a i))" for j c
  proof (cases "block2arena c = ?a")
    case True
    then have "\<not> is_block A s j c" using na by (simp add: is_block_def)
    moreover have "is_block (insert ?a A) ?o j c \<longleftrightarrow> j = i \<and> K_HEAP_START \<le> c \<and> c \<in> set (blocks_of ?a i)"
      using True i(1) ar by (auto simp: is_block_def in_blocks_of)
    moreover have "K_HEAP_START \<le> c" if "c \<in> set (blocks_of ?a i)" using b(3) [OF that] lo by (rule order_trans [rotated])
    ultimately show ?thesis by blast
  next
    case False
    then have "c \<notin> set (blocks_of ?a i)" using b(2) by blast
    moreover have "is_block (insert ?a A) ?o j c \<longleftrightarrow> is_block A s j c" using False ar by (simp add: is_block_def)
    ultimately show ?thesis by blast
  qed
  have notin: "block2arena c \<noteq> ?a" if "j < 7" "c \<in> set (free_of s j)" for j c using h(3) [OF that] na by (auto simp: is_block_def)
  have "\<not> is_block A s j c" if "c \<in> set (blocks_of ?a i)" for j c using b(2) [OF that] na by (simp add: is_block_def)
  then show "in_use (insert ?a A) ?o = in_use A s"
    using i(2) by (auto simp: in_use_def blk fo split: if_splits)
  have cnt: "desc (k_arenas ?o c) \<noteq> None \<and> (\<forall>j. desc (k_arenas ?o c) = Some j \<longrightarrow>
      j < 7 \<and> unat (arena_cnt (k_arenas ?o c)) = length (filter (\<lambda>b. block2arena b = c) (free_of ?o j)))" if "c \<in> insert ?a A" for c
  proof (cases "c = ?a")
    case True
    have "filter (\<lambda>b. block2arena b = ?a) (blocks_of ?a i) = blocks_of ?a i" using b(2) by (simp add: filter_id_conv)
    then show ?thesis using True ar i(1) by (simp add: fo)
  next
    case False
    then have c: "c \<in> A" using that by simp
    have z: "length (filter (\<lambda>b. block2arena b = c) (blocks_of ?a i)) = 0" using b(2) False by auto
    show ?thesis
      using ok c False ar z i(2) by (auto simp: heap_ok_def fo split: if_splits)
  qed
  show "heap_ok (insert ?a A) ?o"
    unfolding heap_ok_def
  proof (intro conjI allI impI ballI)
    show "descs_ok (k_block_descs ?o)" unfolding ds by (rule set_free_descs [OF h(1)])
    show "distinct (free_of ?o j)" if "j < 7" for j using h(2) [OF that] b(1) by (simp add: fo)
    show "is_block (insert ?a A) ?o j c" if "j < 7" "c \<in> set (free_of ?o j)" for j c using h(3) [of j c] that by (auto simp: blk fo split: if_splits)
  qed (use cnt in blast)+
qed

section \<open>The words of a block\<close>

lemma arena_addr:
  assumes "space_ok s" "backed A s" "a \<in> A"
  obtains f where "frame a = a" "f < frames (kernel_pool s)" "frame_used (kernel_pool s) f"
    "\<And>x. frame x = a \<Longrightarrow> mmu s x = Some (frame_of (kernel_pool s) f OR (x AND 0xfff))" "frame (frame_of (kernel_pool s) f) = frame_of (kernel_pool s) f"
    "\<And>x. data_word s (frame_of (kernel_pool s) f OR (x AND 0xfff))"
proof -
  have ap: "arena_page s a" using assms(2,3) unfolding backed_def by blast
  obtain k where k: "k < vbits s" "a = kpage s k" using ap unfolding arena_page_def by blast
  obtain f where f: "f < frames (kernel_pool s)" "frame_used (kernel_pool s) f" "mmu s a = Some (frame_of (kernel_pool s) f)"
    using ap unfolding arena_page_def by blast
  have al: "frame a = a" using kpage_facts(2) [of s k] k assms(1) by (simp add: space_ok_def vbits_def)
  have F: "frame (frame_of (kernel_pool s) f) = frame_of (kernel_pool s) f" using frame_of_aligned [OF _ f(1)] assms(1) by (simp add: space_ok_def pools_ok_def)
  show thesis
  proof (rule that [OF al f(1,2) mmu_page(1) [OF f(3) al] F])
    show "data_word s (frame_of (kernel_pool s) f OR (x AND 0xfff))" for x
      using assms(1) f(1) or_low_frame [OF F] by (simp add: space_ok_def tables_outside_def)
  qed
qed

text \<open>Different addresses in arenas are different words of memory.\<close>

lemma arena_words_apart:
  assumes sp: "space_ok s" and ba: "backed A s" and x: "frame x \<in> A" and y: "frame y \<in> A" and eq: "mmu s x = mmu s y"
  shows "x = y"
proof -
  obtain f where f: "frame (frame x) = frame x" "\<And>z. frame z = frame x \<Longrightarrow> mmu s z = Some (frame_of (kernel_pool s) f OR (z AND 0xfff))"
    "frame (frame_of (kernel_pool s) f) = frame_of (kernel_pool s) f" by (rule arena_addr [OF sp ba x]) blast
  obtain g where g: "frame (frame y) = frame y" "\<And>z. frame z = frame y \<Longrightarrow> mmu s z = Some (frame_of (kernel_pool s) g OR (z AND 0xfff))"
    "frame (frame_of (kernel_pool s) g) = frame_of (kernel_pool s) g" by (rule arena_addr [OF sp ba y]) blast
  have e: "frame_of (kernel_pool s) f OR (x AND 0xfff) = frame_of (kernel_pool s) g OR (y AND 0xfff)" using eq f(2) [of x] g(2) [of y] by simp
  then have F: "frame_of (kernel_pool s) f = frame_of (kernel_pool s) g" using or_low_frame [OF f(3), of x] or_low_frame [OF g(3), of y] by simp
  then have "mmu s (frame x) = mmu s (frame y)" using f(2) [OF f(1)] g(2) [OF g(1)] aligned_low [OF f(1)] aligned_low [OF g(1)] by simp
  then have fr: "frame x = frame y" using ba x y unfolding backed_def by blast
  have low: "(frame z OR (w AND mask 12)) AND mask 12 = w AND mask 12" for z w by (rule bit_eqI) (auto simp: frame_bits bit_simps)
  have "x AND mask 12 = y AND mask 12"
    using e low [of "frame_of (kernel_pool s) f" x] low [of "frame_of (kernel_pool s) f" y] f(3) F by (simp add: mask_consts(3))
  moreover have "z = frame z OR (z AND mask 12)" for z by (rule bit_eqI) (auto simp: frame_bits bit_simps)
  ultimately show ?thesis using fr by metis
qed

lemma block_word:
  assumes "is_block A s i b" "k < unat (bsize i) div 4"
  shows "frame (b + 4 * of_nat k) = block2arena b" "unat (b + 4 * of_nat k) = unat b + 4 * k"
proof -
  let ?a = "block2arena b" and ?x = "b - block2arena b + 4 * of_nat k"
  obtain idx where p: "unat ?a + 12 \<le> unat b" "unat b + unat (bsize i) \<le> unat ?a + 4096" by (rule block_place [OF assms(1)]) blast
  have al: "frame ?a = ?a" by (simp add: block2arena_def frame_def)
  have k: "4 * k < unat (bsize i)" using assms(2) by linarith
  have d: "unat (b - ?a) = unat b - unat ?a" using p(1) by (simp add: unat_sub word_le_nat_alt)
  have "4 * k < 4096" using k p by linarith
  then have u4: "unat (4 * of_nat k :: u32) = 4 * k" using unat_of_nat_small [of "4 * k"] by simp
  then have ux: "unat ?x = unat b - unat ?a + 4 * k" using d k p by (subst unat_plus_small) simp_all
  then have "unat ?x < 4096" using k p by linarith
  note f = frame_plus_low [OF al this]
  have e: "?a + ?x = b + 4 * of_nat k" by simp
  show "frame (b + 4 * of_nat k) = ?a" using f(1) unfolding e .
  show "unat (b + 4 * of_nat k) = unat b + 4 * k" using f(2) ux p(1) unfolding e by linarith
qed

lemma backed_block_mapped:
  assumes "space_ok s" "backed A s" "is_block A s i b"
  shows "block_mapped s b (bsize i)"
  unfolding block_mapped_def
proof (intro allI impI)
  fix k assume k: "k < unat (bsize i) div 4"
  have a: "block2arena b \<in> A" using assms(3) by (simp add: is_block_def)
  obtain f where "\<And>x. frame x = block2arena b \<Longrightarrow> mmu s x = Some (frame_of (kernel_pool s) f OR (x AND 0xfff))"
    "\<And>x. data_word s (frame_of (kernel_pool s) f OR (x AND 0xfff))" by (rule arena_addr [OF assms(1,2) a]) blast
  then show "\<exists>pa. mmu s (b + 4 * of_nat k) = Some pa \<and> data_word s pa" using block_word(1) [OF assms(3) k] by blast
qed

section \<open>The heap of a kernel thread\<close>

text \<open>\<open>A\<close> is the set of arenas; nothing in the program keeps it.\<close>

definition heap_inv :: "u32 set \<Rightarrow> 'a memory_scheme \<Rightarrow> bool" where
  "heap_inv A s \<longleftrightarrow> in_kernel s \<and> pool_free s \<and> heap_ok A s \<and> space_ok s \<and> backed A s"

text \<open>The blocks of \<open>U\<close> keep their contents.\<close>

definition kept :: "(nat \<times> u32) set \<Rightarrow> 'a machine_scheme \<Rightarrow> 'a machine_scheme \<Rightarrow> bool" where
  "kept U s s' \<longleftrightarrow> (\<forall>j c. (j, c) \<in> U \<longrightarrow> (\<forall>k < unat (bsize j) div 4. vread s' (c + 4 * of_nat k) = vread s (c + 4 * of_nat k)))"

definition zeroed :: "nat \<Rightarrow> u32 \<Rightarrow> 'a machine_scheme \<Rightarrow> bool" where
  "zeroed i b s \<longleftrightarrow> (\<forall>k < unat (bsize i) div 4. vread s (b + 4 * of_nat k) = Some 0)"

lemma kept_trans: "kept U s t \<Longrightarrow> kept U t u \<Longrightarrow> kept U s u"
  by (simp add: kept_def)

lemma kept_same: "same_space s s' \<Longrightarrow> phys s' = phys s \<Longrightarrow> kept U s s'"
  by (simp add: kept_def vread_def same_space_def)

lemma in_use_block: "(i, b) \<in> in_use A s \<Longrightarrow> is_block A s i b"
  by (simp add: in_use_def)

text \<open>A block on a free list overlaps no block in use.\<close>

lemma free_apart:
  assumes "heap_ok A s" "i < 7" "b \<in> set (free_of s i)" "(j, c) \<in> in_use A s"
  shows "unat b + unat (bsize i) \<le> unat c \<or> unat c + unat (bsize j) \<le> unat b"
proof (rule blocks_disjoint [of A s])
  show b: "is_block A s i b" using heap_okD(3) [OF assms(1,2)] assms(3) by blast
  show c: "is_block A s j c" by (rule in_use_block [OF assms(4)])
  show "b \<noteq> c" using assms(3,4) b c by (auto simp: in_use_def is_block_def)
qed

lemma take_block_ok:
  assumes k: "in_kernel s" "lock_held (running_thread s) 1 (pool_lock (kernel_pool s))" "running_thread s \<noteq> 0"
    and h: "heap_ok A s" "space_ok s" "backed A s" and i: "i < 7" "free_of s i = b # l"
  shows "\<exists>s'. take_block i s = Some (b, s') \<and> heap_inv A s' \<and> in_use A s' = insert (i, b) (in_use A s) \<and> (i, b) \<notin> in_use A s \<and>
    zeroed i b s' \<and> kept (in_use A s) s s'"
proof -
  have b: "b \<in> set (free_of s i)" "is_block A s i b" using heap_okD(3) [OF h(1) i(1)] i(2) by simp_all
  obtain s' where s': "take_block i s = Some (b, s')" "heap_step i l (block2arena b) (arena_cnt (k_arenas s (block2arena b)) - 1) s s'"
    "\<forall>k < unat (bsize i) div 4. vread s' (b + 4 * of_nat k) = Some 0"
    "\<And>x. (\<forall>k < unat (bsize i) div 4. mmu s (b + 4 * of_nat k) \<noteq> Some x) \<Longrightarrow> phys s' x = phys s x"
    using take_block_kernel [OF k heap_okD(1) [OF h(1)] i backed_block_mapped [OF h(2,3) b(2)]] by blast
  note t = heap_take_ok [OF h(1) i s'(2)] and f = heap_step_facts(3,4) [OF s'(2)]
  have sm: "same_space s s'" using s'(2) by (simp add: heap_step_def)
  have "heap_inv A s'" using t(1) f k(1) same_space_ok [OF sm] h by (simp add: heap_inv_def)
  moreover have "kept (in_use A s) s s'"
    unfolding kept_def
  proof (intro allI impI)
    fix j c n assume c: "(j, c) \<in> in_use A s" and n: "n < unat (bsize j) div 4"
    let ?x = "c + 4 * of_nat n"
    note cb = in_use_block [OF c]
    note w = block_word [OF cb n]
    have ca: "frame ?x \<in> A" using cb w(1) by (simp add: is_block_def)
    have "mmu s (b + 4 * of_nat m) \<noteq> mmu s ?x" if m: "m < unat (bsize i) div 4" for m
    proof
      note v = block_word [OF b(2) m]
      assume "mmu s (b + 4 * of_nat m) = mmu s ?x"
      moreover have "frame (b + 4 * of_nat m) \<in> A" using b(2) v(1) by (simp add: is_block_def)
      ultimately have "b + 4 * of_nat m = ?x" using arena_words_apart [OF h(2,3) _ ca] by blast
      then have "unat b + 4 * m = unat c + 4 * n" using v(2) w(2) by simp
      moreover have "4 * m < unat (bsize i)" "4 * n < unat (bsize j)" using m n by linarith+
      ultimately show False using free_apart [OF h(1) i(1) b(1) c] by linarith
    qed
    moreover have "mmu s' ?x = mmu s ?x" using sm by (simp add: same_space_def)
    ultimately show "vread s' ?x = vread s ?x" using s'(4) by (cases "mmu s ?x") (auto simp: vread_def)
  qed
  ultimately show ?thesis using s'(1,3) t(2,3) unfolding zeroed_def by blast
qed

lemma with_lock:
  assumes "heap_inv A s" "lock_held (running_thread s) 1 l"
  defines "s1 \<equiv> s\<lparr>kernel_pool := (kernel_pool s)\<lparr>pool_lock := l\<rparr>\<rparr>"
  shows "in_kernel s1" "lock_held (running_thread s1) 1 (pool_lock (kernel_pool s1))" "running_thread s1 \<noteq> 0" "heap_ok A s1" "space_ok s1"
    "backed A s1" "in_use A s1 = in_use A s" "free_of s1 i = free_of s i" "same_space s s1" "phys s1 = phys s" "heap_descs s1 = k_block_descs s"
    "vbits s1 = vbits s" "vbit s1 v = vbit s v" "free_frames (kernel_pool s1) = free_frames (kernel_pool s)" "k_block_descs s1 = k_block_descs s"
    "k_arenas s1 = k_arenas s"
proof -
  show sm: "same_space s s1" by (rule same_space_phys [of _ _ l]) (simp_all add: s1_def)
  show "in_kernel s1" using assms(1) by (simp add: heap_inv_def s1_def in_kernel_def running_thread_def)
  then show "heap_descs s1 = k_block_descs s" by (simp add: heap_descs_def s1_def)
  show "heap_ok A s1" "space_ok s1" "backed A s1" "in_use A s1 = in_use A s" "free_of s1 i = free_of s i"
    using assms(1) same_space_ok [OF sm] heap_cong [of s1 s] by (simp_all add: heap_inv_def s1_def)
qed (use assms in \<open>simp_all add: heap_inv_def pool_free_def running_thread_def vbits_def vbit_def free_frames_def frames_def frame_used_def\<close>)

definition page_left :: "'a memory_scheme \<Rightarrow> bool" where
  "page_left s \<longleftrightarrow> (\<exists>v < vbits s. \<not> vbit s v) \<and> free_frames (kernel_pool s) \<noteq> {}"

lemma malloc_small_ok:
  assumes k: "in_kernel s" "lock_held (running_thread s) 1 (pool_lock (kernel_pool s))" "running_thread s \<noteq> 0"
    and h: "heap_ok A s" "space_ok s" "backed A s" and i: "i = desc_for sz (k_block_descs s)" "i < 7"
    and room: "free_of s i \<noteq> [] \<or> page_left s"
  shows "\<exists>b s' B. malloc_small sz s = Some (b, s') \<and> A \<subseteq> B \<and> heap_inv B s' \<and> in_use B s' = insert (i, b) (in_use A s) \<and> (i, b) \<notin> in_use A s \<and>
    zeroed i b s' \<and> kept (in_use A s) s s'"
proof -
  note d = heap_okD(1) [OF h(1)]
  have ms: "malloc_small sz s = (if free_of s i = [] then
      do { (ok, s) \<leftarrow> new_arena i s; (if ok then take_block i s else do { s \<leftarrow> pool_release (heap_pf s) s; Some (0, s) }) } else take_block i s)"
    using k(1) i(2) descs_ok_facts(1) [OF d] by (simp add: malloc_small_def heap_descs_def free_of_def Let_def i(1) [symmetric])
  show ?thesis
  proof (cases "free_of s i")
    case (Cons b l)
    then show ?thesis using take_block_ok [OF k h i(2) Cons] ms by auto
  next
    case Nil
    then obtain v where v: "v < vbits s" "\<not> vbit s v" "free_frames (kernel_pool s) \<noteq> {}" using room by (auto simp: page_left_def)
    obtain r f where n: "new_arena i s = Some (True, opened i r f s)" "r < vbits s" "\<not> vbit s r" "f \<in> free_frames (kernel_pool s)"
      "kernel_space_ok (take_page r f s)" "pools_ok (take_page r f s)" by (rule new_arena_kernel [OF k(1) d i(2) Nil h(2) v])
    let ?o = "opened i r f s" and ?a = "kpage s r"
    note sp = opened_space(1,2,4) [OF h(2,3) n(2-6), where i = i] and na = opened_space(3) [OF h(2,3) n(2-6)]
    note hp = opened_heap [OF h(1,2) i(2) Nil n(2) na, where f = f]
    have ko: "in_kernel ?o" "lock_held (running_thread ?o) 1 (pool_lock (kernel_pool ?o))" "running_thread ?o \<noteq> 0"
      using k by (simp_all add: opened_def take_page_def set_pte_def in_kernel_def running_thread_def)
    have "blocks_of ?a i \<noteq> []"
      using blocks_of_facts(4) [OF i(2)] kpage_facts(2) [of s r] n(2) h(2) by (simp add: space_ok_def vbits_def)
    then obtain b l where bl: "free_of ?o i = b # l" using hp(3) by (cases "blocks_of ?a i") auto
    obtain s' where s': "take_block i ?o = Some (b, s')" "heap_inv (insert ?a A) s'" "in_use (insert ?a A) s' = insert (i, b) (in_use A s)"
      "(i, b) \<notin> in_use A s" "zeroed i b s'" "kept (in_use A s) ?o s'"
      using take_block_ok [OF ko hp(1) sp(1,2) i(2) bl] unfolding hp(2) by blast
    have "kept (in_use A s) s ?o"
      unfolding kept_def
    proof (intro allI impI)
      fix j c n assume c: "(j, c) \<in> in_use A s" "n < unat (bsize j) div 4"
      have "block2arena c \<in> A" using in_use_block [OF c(1)] by (simp add: is_block_def)
      then show "vread ?o (c + 4 * of_nat n) = vread s (c + 4 * of_nat n)" using sp(3) block_word(1) [OF in_use_block [OF c(1)] c(2)] by blast
    qed
    then have "kept (in_use A s) s s'" using s'(6) kept_trans by blast
    moreover have "malloc_small sz s = Some (b, s')" using ms Nil n(1) s'(1) by simp
    ultimately show ?thesis using s'(2-5) by (intro exI [of _ b] exI [of _ s'] exI [of _ "insert ?a A"]) auto
  qed
qed

lemma no_page:
  assumes ks: "kernel_space_ok s" "pools_ok s" and full: "\<not> page_left s"
  obtains w where "malloc_page PF_KERNEL 1 s = Some (0, s\<lparr>kernel_vaddr := (kernel_vaddr s)\<lparr>vaddr_bitmap := w\<rparr>\<rparr>)"
    "btmp_bits w = vbits s" "\<And>j. j < vbits s \<Longrightarrow> vbit s j \<Longrightarrow> bit_at w j"
proof -
  let ?vb = "vaddr_bitmap (kernel_vaddr s)"
  have bok: "btmp_ok ?vb" using ks(1) by (simp add: kernel_space_ok_def)
  obtain w where w: "bitmap_scan ?vb 1 = Some w" using btm.scan_some [OF bok] by blast
  show thesis
  proof (cases "w = -1")
    case True
    then have "malloc_page PF_KERNEL 1 s = Some (0, s)" using w by (simp add: malloc_page_def vaddr_get_def)
    then show thesis by (intro that [of ?vb]) (simp_all add: vbits_def vbit_def)
  next
    case False
    note wa = btm.alloc_one [OF bok w False bitmap_set_1]
    have nz: "vaddr_start (kernel_vaddr s) + w * PG_SIZE \<noteq> 0"
      using kpage_facts(1) [OF ks(1), of "unat w"] wa(1) ks(1) by (auto simp: kpage_def kernel_space_ok_def word_unat_eq_iff)
    have "\<forall>k < frames (kernel_pool s). frame_used (kernel_pool s) k"
      using full wa(1,2) by (auto simp: page_left_def vbits_def vbit_def free_frames_def)
    then have "palloc (kernel_pool s) = Some (0, kernel_pool s)"
      using palloc_cases [of "kernel_pool s" "palloc (kernel_pool s) = Some (0, kernel_pool s)"] ks(2) by (auto simp: pools_ok_def)
    then have "malloc_page PF_KERNEL 1 s = Some (0, s\<lparr>kernel_vaddr := (kernel_vaddr s)\<lparr>vaddr_bitmap := set_bit_at ?vb w True\<rparr>\<rparr>)"
      using w False bitmap_set_1 [of ?vb w] nz by (simp add: malloc_page_def vaddr_get_def palloc_in_def get_pool_def set_pool_def)
    moreover have "bit_at (set_bit_at ?vb w True) j" if "j < vbits s" "vbit s j" for j
      using wa(3) wa(6) [of j] that by (cases "j = unat w") (simp_all add: vbits_def vbit_def)
    ultimately show thesis using wa(4) by (intro that [of "set_bit_at ?vb w True"]) (simp_all add: vbits_def)
  qed
qed

lemma malloc_small_none:
  assumes k: "in_kernel s" "lock_held (running_thread s) 1 (pool_lock (kernel_pool s))" "running_thread s \<noteq> 0"
    and h: "heap_ok A s" "space_ok s" "backed A s" and i: "i = desc_for sz (k_block_descs s)" "i < 7"
    and none: "free_of s i = []" "\<not> page_left s"
  shows "\<exists>s'. malloc_small sz s = Some (0, s') \<and> heap_inv A s' \<and> in_use A s' = in_use A s \<and> kept (in_use A s) s s'"
proof -
  have ks: "kernel_space_ok s" "pools_ok s" using h(2) by (simp_all add: space_ok_def)
  obtain w where w: "malloc_page PF_KERNEL 1 s = Some (0, s\<lparr>kernel_vaddr := (kernel_vaddr s)\<lparr>vaddr_bitmap := w\<rparr>\<rparr>)"
    "btmp_bits w = vbits s" "\<And>j. j < vbits s \<Longrightarrow> vbit s j \<Longrightarrow> bit_at w j" by (rule no_page [OF ks none(2)]) blast
  define t where "t = s\<lparr>kernel_vaddr := (kernel_vaddr s)\<lparr>vaddr_bitmap := w\<rparr>\<rparr>"
  have f: "in_kernel t" "running_thread t = running_thread s" "pool_lock (kernel_pool t) = pool_lock (kernel_pool s)"
    "kernel_pool t = kernel_pool s" using k(1) by (simp_all add: t_def in_kernel_def running_thread_def)
  obtain l where l: "pool_release PF_KERNEL t = Some (t\<lparr>kernel_pool := (kernel_pool t)\<lparr>pool_lock := l\<rparr>\<rparr>)" "lock_free l"
    using pool_release_kernel [of t] k(2) f(2,3) by auto
  define s' where "s' = t\<lparr>kernel_pool := (kernel_pool t)\<lparr>pool_lock := l\<rparr>\<rparr>"
  have c: "phys t = phys s" "cr3 t = cr3 s" by (simp_all add: t_def)
  have at: "pde_at t a = pde_at s a" for a by (simp add: t_def pde_at_def)
  have kp: "kpage t j = kpage s j" for j by (simp add: t_def kpage_def)
  have ksv: "\<And>j. j < btmp_bits w \<Longrightarrow> present (phys s (pde_at s (kpage s j))) \<and> kernel_table s (kpage s j) \<and> (\<not> bit_at w j \<longrightarrow> mmu s (kpage s j) = None)"
    using ks(1) w(2,3) by (auto simp: kernel_space_ok_def vbits_def vbit_def)
  have "kernel_space_ok t"
    using ks(1) w(2) ksv self_mapped_cong [OF c] mmu_cong [OF c] kernel_table_cong(1) [OF c] c(1)
    unfolding kernel_space_ok_def kp at by (simp add: t_def vbits_def btmp_ok_def)
  then have sp: "space_ok t" using h(2) by (simp add: space_ok_def t_def pools_ok_def tables_outside_def data_word_def pde_at_def)
  have ba: "backed A t" using h(3) w(2,3) mmu_cong [OF c] kp f(4) unfolding backed_def arena_page_def by (fastforce simp: t_def vbits_def vbit_def)
  have sm: "same_space t s'" by (rule same_space_phys [of _ _ l]) (simp_all add: s'_def)
  have hc: "heap_ok A s' = heap_ok A s" "in_use A s' = in_use A s" using heap_cong [of s' s] by (simp_all add: s'_def t_def)
  have "heap_inv A s'"
    using hc h(1) same_space_ok [OF sm] sp ba f l(2) k(3) by (simp add: heap_inv_def s'_def pool_free_def in_kernel_def running_thread_def)
  moreover have "kept (in_use A s) s s'" using mmu_cong [of s' s] by (simp add: kept_def vread_def s'_def t_def)
  moreover have "malloc_small sz s = Some (0, s')"
    using k(1) i(2) descs_ok_facts(1) [OF heap_okD(1) [OF h(1)]] none(1) w(1) l(1) f(1)
    by (simp add: malloc_small_def heap_descs_def free_of_def Let_def new_arena_def heap_pf_def t_def [symmetric] s'_def i(1) [symmetric])
  ultimately show ?thesis using hc by blast
qed

section \<open>Giving back the last block of an arena\<close>

lemma unat_add_one_cases: "unat (x + 1 :: u32) = unat x + 1 \<or> x + 1 = 0"
  using unatSuc [of x] by (metis Suc_eq_plus1 add.commute)

text \<open>When the counter says so, the free list together with the last block holds every block of the arena.\<close>

lemma arena_complete:
  assumes ok: "heap_ok A s" and u: "(i, b) \<in> in_use A s" and n: "arena_cnt (k_arenas s (block2arena b)) + 1 = bcount i"
  shows "set (blocks_of (block2arena b) i) \<subseteq> set (free_of s i @ [b])" "i < 7" "block2arena b \<in> A" "desc (k_arenas s (block2arena b)) = Some i"
    "distinct (free_of s i @ [b])"
proof -
  let ?a = "block2arena b" and ?l = "free_of s i @ [b]"
  note h = heap_okD [OF ok]
  have blk: "is_block A s i b" and new: "b \<notin> set (free_of s i)" using u by (simp_all add: in_use_def)
  then show i: "i < 7" and ar: "?a \<in> A" and d: "desc (k_arenas s ?a) = Some i" by (simp_all add: is_block_def)
  show dist: "distinct ?l" using h(2) [OF i] new by simp
  let ?f = "filter (\<lambda>c. block2arena c = ?a) ?l"
  have al: "frame ?a = ?a" by (simp add: block2arena_def frame_def)
  have sub: "set ?f \<subseteq> set (blocks_of ?a i)"
  proof
    fix c assume c: "c \<in> set ?f"
    then have "is_block A s i c" using h(3) [OF i, of c] blk by auto
    then show "c \<in> set (blocks_of ?a i)" using c by (auto simp: is_block_def in_blocks_of)
  qed
  have "0 < unat (bcount i)" using desc_values(3) [OF i] by (simp add: bcount_def)
  then have "unat (bcount i) = unat (arena_cnt (k_arenas s ?a)) + 1"
    using n unat_add_one_cases [of "arena_cnt (k_arenas s ?a)"] by auto
  then have len: "length ?f = length (blocks_of ?a i)" using h(4) [OF ar d] by simp
  have "card (set ?f) = length ?f" by (rule distinct_card [OF distinct_filter [OF dist]])
  also have "\<dots> = card (set (blocks_of ?a i))" unfolding len by (rule distinct_card [OF blocks_of_facts(1) [OF i al], symmetric])
  finally have "set ?f = set (blocks_of ?a i)" using sub by (intro card_subset_eq) auto
  then show "set (blocks_of ?a i) \<subseteq> set ?l" by auto
qed

text \<open>The heap without the arena \<open>a\<close>, whose blocks are all free.\<close>

lemma heap_without:
  assumes ok: "heap_ok A s" and u: "(i, b) \<in> in_use A s" and n: "arena_cnt (k_arenas s (block2arena b)) + 1 = bcount i"
    and ds: "k_block_descs t = k_block_descs (set_free i (filter (\<lambda>c. c \<notin> set (blocks_of (block2arena b) i)) (free_of s i @ [b])) s)"
    and ar: "\<And>c. c \<noteq> block2arena b \<Longrightarrow> k_arenas t c = k_arenas s c"
  shows "heap_ok (A - {block2arena b}) t" "in_use (A - {block2arena b}) t = in_use A s - {(i, b)}"
proof -
  let ?a = "block2arena b"
  note h = heap_okD [OF ok] and c = arena_complete [OF ok u n]
  have al: "frame ?a = ?a" by (simp add: block2arena_def frame_def)
  note bs = blocks_of_facts [OF c(2) al]
  have len: "i < length (k_block_descs s)" using descs_ok_facts(1) [OF h(1)] c(2) by simp
  have bb: "b \<in> set (blocks_of ?a i)" using in_use_block [OF u] by (simp add: is_block_def in_blocks_of)
  have mem: "x \<in> set (blocks_of ?a i) \<longleftrightarrow> block2arena x = ?a" if "is_block A s i x" for x
    using that bs(2) by (auto simp: is_block_def in_blocks_of)
  have "filter (\<lambda>c. c \<notin> set (blocks_of ?a i)) (free_of s i @ [b]) = filter (\<lambda>c. block2arena c \<noteq> ?a) (free_of s i)"
    using bb mem h(3) [OF c(2)] by (simp cong: filter_cong)
  then have ft: "free_of t j = (if j = i then filter (\<lambda>c. block2arena c \<noteq> ?a) (free_of s i) else free_of s j)" for j
    using ds set_free_of [OF len, of _ j] by (simp add: free_of_def)
  have blk: "is_block (A - {?a}) t j x \<longleftrightarrow> is_block A s j x \<and> block2arena x \<noteq> ?a" for j x
    using ar [of "block2arena x"] by (auto simp: is_block_def)
  have other: "j = i" if "is_block A s j x" "block2arena x = ?a" for j x using that c(4) by (simp add: is_block_def)
  show "in_use (A - {?a}) t = in_use A s - {(i, b)}"
  proof
    show "in_use (A - {?a}) t \<subseteq> in_use A s - {(i, b)}" by (auto simp: in_use_def blk ft split: if_splits)
    show "in_use A s - {(i, b)} \<subseteq> in_use (A - {?a}) t"
    proof
      fix q assume "q \<in> in_use A s - {(i, b)}"
      then obtain j x where q: "q = (j, x)" and x: "(j, x) \<in> in_use A s" "j = i \<longrightarrow> x \<noteq> b" by (cases q) auto
      have "block2arena x \<noteq> ?a"
      proof
        assume e: "block2arena x = ?a"
        then have "j = i" "x \<in> set (blocks_of ?a i)" using other [OF in_use_block [OF x(1)]] mem in_use_block [OF x(1)] by auto
        then show False using c(1) x by (auto simp: in_use_def)
      qed
      then show "q \<in> in_use (A - {?a}) t" using x q by (auto simp: in_use_def blk ft)
    qed
  qed
  have cnt: "desc (k_arenas t x) \<noteq> None \<and> (\<forall>j. desc (k_arenas t x) = Some j \<longrightarrow>
      j < 7 \<and> unat (arena_cnt (k_arenas t x)) = length (filter (\<lambda>b. block2arena b = x) (free_of t j)))" if x: "x \<in> A - {?a}" for x
  proof -
    have "filter (\<lambda>b. block2arena b = x) (free_of t j) = filter (\<lambda>b. block2arena b = x) (free_of s j)" for j
      using x by (auto simp: ft intro!: filter_cong)
    then show ?thesis using ok x ar [of x] by (auto simp: heap_ok_def)
  qed
  show "heap_ok (A - {?a}) t"
    unfolding heap_ok_def
  proof (intro conjI allI impI ballI)
    show "descs_ok (k_block_descs t)" unfolding ds by (rule set_free_descs [OF h(1)])
    show "distinct (free_of t j)" if "j < 7" for j using h(2) [OF that] by (auto simp: ft)
    show "is_block (A - {?a}) t j x" if j: "j < 7" "x \<in> set (free_of t j)" for j x
    proof -
      have x: "x \<in> set (free_of s j)" "j = i \<longrightarrow> block2arena x \<noteq> ?a" using j(2) by (auto simp: ft split: if_splits)
      have b: "is_block A s j x" by (rule h(3) [OF j(1) x(1)])
      then show ?thesis unfolding blk using x(2) other by blast
    qed
  qed (use cnt in blast)+
qed

lemma set_free_arenas: "(set_free i l s)\<lparr>k_arenas := g\<rparr> = set_free i l (s\<lparr>k_arenas := g\<rparr>)"
  by (simp add: set_free_def)

definition emptied :: "nat \<Rightarrow> u32 \<Rightarrow> 'a memory_scheme \<Rightarrow> 'a memory_scheme" where
  "emptied i b s = set_free i (filter (\<lambda>x. x \<notin> set (blocks_of (block2arena b) i)) (free_of s i @ [b]))
     (s\<lparr>k_arenas := (k_arenas s)(block2arena b := (k_arenas s (block2arena b))\<lparr>arena_cnt := arena_cnt (k_arenas s (block2arena b)) + 1\<rparr>)\<rparr>)"

lemma emptied_space: "same_space s (emptied i b s)" "phys (emptied i b s) = phys s" "in_kernel (emptied i b s) = in_kernel s"
  by (rule same_space_phys [of _ _ "pool_lock (kernel_pool s)"]) (simp_all add: emptied_def in_kernel_def running_thread_def)

lemma free_block_last:
  assumes k: "in_kernel s" and ok: "heap_ok A s" and u: "(i, b) \<in> in_use A s" and n: "arena_cnt (k_arenas s (block2arena b)) + 1 = bcount i"
    and mf: "mfree_page PF_KERNEL (block2arena b) 1 (emptied i b s) = Some t"
  shows "free_block b (block2arena b) s = Some t"
proof -
  let ?a = "block2arena b"
  note c = arena_complete [OF ok u n] and d = heap_okD(1) [OF ok]
  have al: "frame ?a = ?a" by (simp add: block2arena_def frame_def)
  define s3 where "s3 = set_free i (free_of s i @ [b])
      (s\<lparr>k_arenas := (k_arenas s)(?a := (k_arenas s ?a)\<lparr>arena_cnt := arena_cnt (k_arenas s ?a) + 1\<rparr>)\<rparr>)"
  have len: "i < length (k_block_descs s)" using descs_ok_facts(1) [OF d] c(2) by simp
  have d3: "descs_ok (k_block_descs s3)" unfolding s3_def using d by (intro set_free_descs) simp
  have f3: "in_kernel s3" "free_of s3 i = free_of s i @ [b]" "desc (k_arenas s3 ?a) = Some i"
    using k c(4) len by (simp_all add: s3_def set_free_of in_kernel_def running_thread_def)
  have un: "unsplit_arena (unat (bcount i)) ?a i 0 s3 = Some (emptied i b s)"
    using unsplit_arena_eq [OF f3(1) d3 c(2) f3(3), of 0 "unat (bcount i)"] f3(2) c(1,5) blocks_of_facts(1) [OF c(2) al]
    by (simp add: blocks_of_def emptied_def s3_def)
  have a2: "upd_free_list i (\<lambda>l. l @ [b]) s = set_free i (free_of s i @ [b]) s" using upd_free_kernel [OF k] by simp
  have a3: "set_arena ?a ((k_arenas s ?a)\<lparr>arena_cnt := arena_cnt (k_arenas s ?a) + 1\<rparr>) (set_free i (free_of s i @ [b]) s) = s3"
    using k by (simp add: set_arena_def s3_def set_free_arenas)
  have bpa: "blocks_per_arena (heap_descs s3 ! i) = bcount i" using f3(1) descs_ok_facts(3) [OF d3 c(2)] by (simp add: heap_descs_def)
  show ?thesis
    using k c(4) a2 a3 bpa n un mf emptied_space(3) [of i b s] by (simp add: free_block_def heap_arenas_def Let_def heap_pf_def)
qed

lemma give_page_reads:
  assumes sp: "space_ok s" and ba: "backed A s" and r: "r < vbits s" "kpage s r \<in> A"
    and f: "f < frames (kernel_pool s)" "mmu s (kpage s r) = Some (frame_of (kernel_pool s) f)" and x: "frame x \<in> A" "frame x \<noteq> kpage s r"
  shows "vread (give_page r f s) x = vread s x"
proof -
  obtain q where q: "\<And>z. frame z = frame x \<Longrightarrow> mmu s z = Some (frame_of (kernel_pool s) q OR (z AND 0xfff))"
    "\<And>z. data_word s (frame_of (kernel_pool s) q OR (z AND 0xfff))" by (rule arena_addr [OF sp ba x(1)]) blast
  have "mmu (give_page r f s) x = mmu s x" by (rule give_page_ok(3) [OF sp ba r f x refl])
  then show ?thesis using q(1) [OF refl] give_page_facts(2) [OF sp r(1) f(1) q(2)] by (simp add: vread_def)
qed

lemma free_last_kernel:
  assumes inv: "heap_inv A s" and u: "(i, b) \<in> in_use A s" and n: "arena_cnt (k_arenas s (block2arena b)) + 1 = bcount i"
  shows "\<exists>s'. sys_free b s = Some s' \<and> heap_inv (A - {block2arena b}) s' \<and> in_use (A - {block2arena b}) s' = in_use A s - {(i, b)} \<and>
    kept (in_use A s - {(i, b)}) s s'"
proof -
  let ?a = "block2arena b"
  have h: "in_kernel s" "pool_free s" "heap_ok A s" using inv by (simp_all add: heap_inv_def)
  note c = arena_complete [OF h(3) u n]
  obtain lk where lk: "pool_acquire PF_KERNEL s = Some (s\<lparr>kernel_pool := (kernel_pool s)\<lparr>pool_lock := lk\<rparr>\<rparr>)" "lock_held (running_thread s) 1 lk"
    by (rule pool_acquire_kernel [OF h(2)])
  define s1 where "s1 = s\<lparr>kernel_pool := (kernel_pool s)\<lparr>pool_lock := lk\<rparr>\<rparr>"
  note w = with_lock [OF inv lk(2), folded s1_def]
  let ?e = "emptied i b s1"
  have sm: "same_space s ?e" "phys ?e = phys s" using same_space_trans [OF w(9) emptied_space(1)] emptied_space(2) [of i b s1] w(10) by simp_all
  have e: "space_ok ?e" "backed A ?e" using same_space_ok [OF sm(1)] inv by (simp_all add: heap_inv_def)
  then have "arena_page ?e ?a" using c(3) unfolding backed_def by blast
  then obtain r f where rf: "r < vbits ?e" "?a = kpage ?e r" "f < frames (kernel_pool ?e)" "mmu ?e ?a = Some (frame_of (kernel_pool ?e) f)"
    unfolding arena_page_def by blast
  let ?g = "give_page r f ?e"
  have ra: "kpage ?e r \<in> A" "mmu ?e (kpage ?e r) = Some (frame_of (kernel_pool ?e) f)" using c(3) rf(2,4) by simp_all
  note g = give_page_ok(1,2) [OF e rf(1) ra(1) rf(3) ra(2)] and gf = give_page_facts [OF e(1) rf(1,3)]
  have fb: "free_block b ?a s1 = Some ?g"
    using free_block_last [OF w(1,4), of i b ?g] u n w(7,16) mfree_one_page [OF e(1) rf(1,3) ra(2)] rf(2) by simp
  have kg: "in_kernel ?g" "running_thread ?g = running_thread s" "pool_lock (kernel_pool ?g) = lk"
    using w(1) gf(13,18,19) by (simp_all add: in_kernel_def running_thread_def emptied_def s1_def)
  obtain l2 where l2: "pool_release PF_KERNEL ?g = Some (?g\<lparr>kernel_pool := (kernel_pool ?g)\<lparr>pool_lock := l2\<rparr>\<rparr>)" "lock_free l2"
    using pool_release_kernel [of ?g] lk(2) kg by auto
  define s' where "s' = ?g\<lparr>kernel_pool := (kernel_pool ?g)\<lparr>pool_lock := l2\<rparr>\<rparr>"
  have "b \<noteq> 0" "K_HEAP_START \<le> b" using in_use_block [OF u] by (auto simp: is_block_def K_HEAP_START_def)
  then have fr: "sys_free b s = Some s'"
    using h(1) lk(1) fb l2(1) w(1,16) c(4) by (simp add: sys_free_def Let_def heap_pf_def s1_def [symmetric] heap_arenas_def s'_def)
  have sm': "same_space ?g s'" "phys s' = phys ?g" by (rule same_space_phys [of _ _ l2]) (simp_all add: s'_def)
  have ds: "k_block_descs s' = k_block_descs (set_free i (filter (\<lambda>x. x \<notin> set (blocks_of ?a i)) (free_of s i @ [b])) s)"
    using gf(17) w(8,15) by (simp add: s'_def emptied_def set_free_def)
  have ar: "k_arenas s' x = k_arenas s x" if "x \<noteq> ?a" for x using that gf(16) w(16) by (simp add: s'_def emptied_def)
  note hw = heap_without [OF h(3) u n ds ar]
  have "heap_inv (A - {?a}) s'"
    using hw(1) same_space_ok [OF sm'(1)] g rf(2) kg l2(2) h(2) by (simp add: heap_inv_def s'_def pool_free_def in_kernel_def running_thread_def)
  moreover have "kept (in_use A s - {(i, b)}) s s'"
    unfolding kept_def
  proof (intro allI impI)
    fix j x m assume x: "(j, x) \<in> in_use A s - {(i, b)}" and m: "m < unat (bsize j) div 4"
    have xb: "is_block A s j x" "block2arena x \<in> A" "block2arena x \<noteq> ?a"
      using x in_use_block [of j x A s] in_use_block [of j x "A - {?a}" s'] hw(2) by (auto simp: is_block_def)
    have "vread ?g (x + 4 * of_nat m) = vread ?e (x + 4 * of_nat m)"
      using give_page_reads [OF e rf(1) ra(1) rf(3) ra(2)] block_word(1) [OF xb(1) m] xb(2,3) rf(2) by simp
    then show "vread s' (x + 4 * of_nat m) = vread s (x + 4 * of_nat m)" using sm sm' by (simp add: vread_def same_space_def)
  qed
  ultimately show ?thesis using fr hw(2) by blast
qed

section \<open>Properties\<close>

lemma in_use_apart:
  assumes "(i, b) \<in> in_use A s" "(j, c) \<in> in_use A s" "(i, b) \<noteq> (j, c)"
  shows "unat b + unat (bsize i) \<le> unat c \<or> unat c + unat (bsize j) \<le> unat b"
proof (rule blocks_disjoint)
  show b: "is_block A s i b" and c: "is_block A s j c" using assms in_use_block by blast+
  show "b \<noteq> c" using assms(3) b c by (auto simp: is_block_def)
qed

lemma sys_malloc_eq:
  assumes "in_kernel s" "0 < sz" "sz \<le> 1024" "sz < pool_size (kernel_pool s)" "pool_acquire PF_KERNEL s = Some t"
  shows "sys_malloc sz s = malloc_small sz t"
proof -
  have "\<not> 1024 < sz" using assms(3) by (simp add: not_less)
  then show ?thesis using assms by (simp add: sys_malloc_def heap_pf_def get_pool_def)
qed

lemma sys_malloc_ok:
  assumes inv: "heap_inv A s" and sz: "0 < sz" "sz \<le> 1024" "sz < pool_size (kernel_pool s)" and i: "i = desc_for sz (k_block_descs s)"
    and room: "free_of s i \<noteq> [] \<or> page_left s"
  obtains b s' B where "sys_malloc sz s = Some (b, s')" "A \<subseteq> B" "heap_inv B s'" "in_use B s' = insert (i, b) (in_use A s)" "(i, b) \<notin> in_use A s"
    "zeroed i b s'" "kept (in_use A s) s s'" "b \<noteq> 0" "sz \<le> bsize i"
proof -
  have h: "in_kernel s" "pool_free s" "descs_ok (k_block_descs s)" using inv by (simp_all add: heap_inv_def heap_ok_def)
  obtain lk where lk: "pool_acquire PF_KERNEL s = Some (s\<lparr>kernel_pool := (kernel_pool s)\<lparr>pool_lock := lk\<rparr>\<rparr>)" "lock_held (running_thread s) 1 lk"
    by (rule pool_acquire_kernel [OF h(2)])
  define s1 where "s1 = s\<lparr>kernel_pool := (kernel_pool s)\<lparr>pool_lock := lk\<rparr>\<rparr>"
  note w = with_lock [OF inv lk(2), folded s1_def] and d = desc_for_fits [OF h(3) sz(1,2), folded i]
  have "free_of s1 i \<noteq> [] \<or> page_left s1" using room w(8,12-14) by (simp add: page_left_def)
  from malloc_small_ok [OF w(1-6) _ d(1) this, of sz] obtain b s' B where m: "malloc_small sz s1 = Some (b, s')" "A \<subseteq> B" "heap_inv B s'"
    "in_use B s' = insert (i, b) (in_use A s)" "(i, b) \<notin> in_use A s" "zeroed i b s'" "kept (in_use A s) s1 s'"
    using i w(7,15) by auto
  have "sys_malloc sz s = Some (b, s')" using sys_malloc_eq [OF h(1) sz lk(1)] m(1) by (simp add: s1_def)
  moreover have "kept (in_use A s) s s'" using kept_trans [OF kept_same [OF w(9,10)] m(7)] .
  moreover have "b \<noteq> 0"
  proof -
    have "(i, b) \<in> in_use B s'" using m(4) by simp
    then show ?thesis using in_use_block [of i b B s'] by (auto simp: is_block_def K_HEAP_START_def)
  qed
  ultimately show thesis using m d(2) that by blast
qed

lemma sys_malloc_none:
  assumes inv: "heap_inv A s" and sz: "0 < sz" "sz \<le> 1024" "sz < pool_size (kernel_pool s)" and i: "i = desc_for sz (k_block_descs s)"
    and none: "free_of s i = []" "\<not> page_left s"
  obtains s' where "sys_malloc sz s = Some (0, s')" "heap_inv A s'" "in_use A s' = in_use A s" "kept (in_use A s) s s'"
proof -
  have h: "in_kernel s" "pool_free s" "descs_ok (k_block_descs s)" using inv by (simp_all add: heap_inv_def heap_ok_def)
  obtain lk where lk: "pool_acquire PF_KERNEL s = Some (s\<lparr>kernel_pool := (kernel_pool s)\<lparr>pool_lock := lk\<rparr>\<rparr>)" "lock_held (running_thread s) 1 lk"
    by (rule pool_acquire_kernel [OF h(2)])
  define s1 where "s1 = s\<lparr>kernel_pool := (kernel_pool s)\<lparr>pool_lock := lk\<rparr>\<rparr>"
  note w = with_lock [OF inv lk(2), folded s1_def] and d = desc_for_fits [OF h(3) sz(1,2), folded i]
  have "free_of s1 i = []" "\<not> page_left s1" using none w(8,12-14) by (simp_all add: page_left_def)
  from malloc_small_none [OF w(1-6) _ d(1) this, of sz] obtain s' where m: "malloc_small sz s1 = Some (0, s')" "heap_inv A s'"
    "in_use A s' = in_use A s" "kept (in_use A s) s1 s'" using i w(7,15) by auto
  have "sys_malloc sz s = Some (0, s')" using sys_malloc_eq [OF h(1) sz lk(1)] m(1) by (simp add: s1_def)
  then show thesis using that m kept_trans [OF kept_same [OF w(9,10)] m(4)] by blast
qed

lemma sys_free_ok:
  assumes inv: "heap_inv A s" and u: "(i, b) \<in> in_use A s"
  obtains s' B where "sys_free b s = Some s'" "B \<subseteq> A" "heap_inv B s'" "in_use B s' = in_use A s - {(i, b)}" "kept (in_use A s - {(i, b)}) s s'"
proof (cases "arena_cnt (k_arenas s (block2arena b)) + 1 = bcount i")
  case True
  then show thesis using free_last_kernel [OF inv u True] that [of _ "A - {block2arena b}"] by blast
next
  case False
  have h: "in_kernel s" "pool_free s" "heap_ok A s" "space_ok s" "backed A s" using inv by (simp_all add: heap_inv_def)
  obtain s' where s': "sys_free b s = Some s'" "phys s' = phys s"
    "heap_step i (free_of s i @ [b]) (block2arena b) (arena_cnt (k_arenas s (block2arena b)) + 1) s s'"
    using free_block_kernel [OF h(1,2) heap_okD(1) [OF h(3)] in_use_block [OF u] False] by blast
  have sm: "same_space s s'" using s'(3) by (simp add: heap_step_def)
  have "heap_inv A s'" using heap_give_ok(1) [OF h(3) u s'(3)] heap_step_facts(3,4) [OF s'(3)] same_space_ok [OF sm] h by (simp add: heap_inv_def)
  then show thesis using that [of s' A] s'(1) heap_give_ok(2) [OF h(3) u s'(3)] kept_same [OF sm s'(2)] by blast
qed

text \<open>
  Property C8: \<open>sys_malloc\<close> of at most 1024 bytes in a kernel thread.  When the size class has a free block, or a page is left for a new arena, it
  returns a block that is large enough, was not in use, overlaps no block in use and is filled with zeros; otherwise it returns null.  It never fails an
  assertion, keeps the invariant of the heap, and leaves the contents of all blocks in use alone.
\<close>

theorem malloc_serves_blocks:
  assumes "heap_inv A s" "0 < sz" "sz \<le> 1024" "sz < pool_size (kernel_pool s)" "i = desc_for sz (k_block_descs s)"
  shows "if free_of s i \<noteq> [] \<or> page_left s then
      (\<exists>b s' B. sys_malloc sz s = Some (b, s') \<and> b \<noteq> 0 \<and> sz \<le> bsize i \<and> heap_inv B s' \<and> (i, b) \<notin> in_use A s \<and> in_use B s' = insert (i, b) (in_use A s) \<and>
         (\<forall>j c. (j, c) \<in> in_use A s \<longrightarrow> unat b + unat (bsize i) \<le> unat c \<or> unat c + unat (bsize j) \<le> unat b) \<and>
         zeroed i b s' \<and> kept (in_use A s) s s')
    else (\<exists>s'. sys_malloc sz s = Some (0, s') \<and> heap_inv A s' \<and> in_use A s' = in_use A s \<and> kept (in_use A s) s s')"
proof (cases "free_of s i \<noteq> [] \<or> page_left s")
  case True
  obtain b s' B where m: "sys_malloc sz s = Some (b, s')" "heap_inv B s'" "in_use B s' = insert (i, b) (in_use A s)" "(i, b) \<notin> in_use A s"
    "zeroed i b s'" "kept (in_use A s) s s'" "b \<noteq> 0" "sz \<le> bsize i" by (rule sys_malloc_ok [OF assms True])
  have "unat b + unat (bsize i) \<le> unat c \<or> unat c + unat (bsize j) \<le> unat b" if "(j, c) \<in> in_use A s" for j c
    using in_use_apart [of i b B s' j c] m(3,4) that by auto
  then show ?thesis using True m by auto
next
  case False
  then obtain s' where "sys_malloc sz s = Some (0, s')" "heap_inv A s'" "in_use A s' = in_use A s" "kept (in_use A s) s s'"
    using sys_malloc_none [OF assms] by auto
  then show ?thesis using False by auto
qed

text \<open>
  Property C9: \<open>sys_free\<close> of any block in use, in a kernel thread, returns; it takes that block alone out of use and leaves the contents of the
  others alone.  The last block of an arena takes the arena with it: its blocks leave the free list, its page is unmapped and its frame and address are
  free again; the invariant of the heap holds afterwards in both cases.
\<close>

theorem free_returns_blocks:
  assumes "heap_inv A s" "(i, b) \<in> in_use A s"
  shows "\<exists>s' B. sys_free b s = Some s' \<and> B \<subseteq> A \<and> heap_inv B s' \<and> in_use B s' = in_use A s - {(i, b)} \<and> kept (in_use A s - {(i, b)}) s s'"
proof -
  obtain s' B where "sys_free b s = Some s'" "B \<subseteq> A" "heap_inv B s'" "in_use B s' = in_use A s - {(i, b)}" "kept (in_use A s - {(i, b)}) s s'"
    by (rule sys_free_ok [OF assms])
  then show ?thesis by blast
qed

text \<open>Any sequence of such calls: \<open>heap_trace s U t\<close> leads from \<open>s\<close> to \<open>t\<close> and leaves the blocks \<open>U\<close> with the caller.\<close>

inductive heap_trace :: "'a memory_scheme \<Rightarrow> (nat \<times> u32) set \<Rightarrow> 'a memory_scheme \<Rightarrow> bool" for s :: "'a memory_scheme" where
  ht_start: "heap_trace s {} s"
| ht_malloc: "heap_trace s U t \<Longrightarrow> sz \<le> 1024 \<Longrightarrow> sys_malloc sz t = Some (b, t') \<Longrightarrow>
     heap_trace s (if b = 0 then U else insert (desc_for sz (k_block_descs t), b) U) t'"
| ht_free: "heap_trace s U t \<Longrightarrow> (i, b) \<in> U \<Longrightarrow> sys_free b t = Some t' \<Longrightarrow> heap_trace s (U - {(i, b)}) t'"

lemma malloc_any:
  assumes inv: "heap_inv A s" and sz: "sz \<le> 1024"
  shows "\<exists>b s' B. sys_malloc sz s = Some (b, s') \<and> heap_inv B s' \<and>
    in_use B s' = (if b = 0 then in_use A s else insert (desc_for sz (k_block_descs s), b) (in_use A s)) \<and>
    (b \<noteq> 0 \<longrightarrow> sz \<le> bsize (desc_for sz (k_block_descs s)) \<and> (desc_for sz (k_block_descs s), b) \<notin> in_use A s) \<and> kept (in_use A s) s s'"
proof (cases "0 < sz \<and> sz < pool_size (kernel_pool s)")
  case True
  then have z: "0 < sz" "sz < pool_size (kernel_pool s)" by simp_all
  show ?thesis
  proof (cases "free_of s (desc_for sz (k_block_descs s)) \<noteq> [] \<or> page_left s")
    case True
    show ?thesis by (rule sys_malloc_ok [OF inv z(1) sz z(2) refl True]) auto
  next
    case False
    then have "free_of s (desc_for sz (k_block_descs s)) = []" "\<not> page_left s" by simp_all
    then show ?thesis by (rule sys_malloc_none [OF inv z(1) sz z(2) refl]) auto
  qed
next
  case False
  then have "sys_malloc sz s = Some (0, s)" using inv by (auto simp: sys_malloc_def heap_inv_def heap_pf_def get_pool_def)
  then show ?thesis using inv by (auto simp: kept_def)
qed

lemma heap_trace_inv:
  assumes "heap_trace s U t" "heap_inv A s" "in_use A s = {}"
  shows "\<exists>B. heap_inv B t \<and> in_use B t = U"
  using assms(1)
proof induction
  case ht_start
  then show ?case using assms(2,3) by blast
next
  case (ht_malloc U t sz b t')
  then show ?case using malloc_any [of _ t sz] by (metis option.inject prod.inject)
next
  case (ht_free U t i b t')
  then obtain B where B: "heap_inv B t" "in_use B t = U" by blast
  show ?case by (rule sys_free_ok [OF B(1), of i b]) (use B ht_free in auto)
qed

text \<open>The heap of one page at 0xc0100000, with the first of its three blocks of 1024 bytes in use.\<close>

lemma demo_heap_cong:
  "phys demo_heap = phys demo_memory" "cr3 demo_heap = cr3 demo_memory" "kernel_pool demo_heap = kernel_pool demo_memory"
  "user_pool demo_heap = user_pool demo_memory" "kernel_vaddr demo_heap = kernel_vaddr demo_memory"
  by (simp_all add: demo_heap_def)

lemma demo_tables: "tables_outside demo_heap"
  unfolding tables_outside_def data_word_def
proof (intro allI impI conjI)
  fix f x a
  assume f: "f < frames (kernel_pool demo_heap)" and x: "frame x = frame_of (kernel_pool demo_heap) f"
  have pk: "pool_ok (kernel_pool demo_heap)" using demo_memory_pools by (simp add: pools_ok_def demo_heap_cong)
  have u: "0x200000 \<le> unat (frame x)" unfolding x unat_frame_of [OF pk f] by (simp add: demo_heap_def demo_memory_def)
  show "frame x \<noteq> frame (cr3 demo_heap)" using u by (auto simp: demo_heap_def demo_memory_def frame_def)
  have at: "pde_at demo_heap a = pde_at demo_memory a" by (simp add: pde_at_def demo_heap_cong)
  assume "present (phys demo_heap (pde_at demo_heap a))"
  then have "PDE_IDX a = mask 10 \<or> PDE_IDX a = 768" using demo_pde_present [of a] by (simp add: demo_heap_cong at)
  then have "unat (frame (phys demo_heap (pde_at demo_heap a))) < 0x200000"
    by (auto simp: demo_heap_def pde_at_def demo_memory_def demo_machine_def frame_def mask_eq_exp_minus_1)
  then show "frame x \<noteq> frame (phys demo_heap (pde_at demo_heap a))" using u by auto
qed

lemma demo_heap_space: "space_ok demo_heap"
proof -
  have at: "pde_at demo_heap a = pde_at demo_memory a" "kpage demo_heap k = kpage demo_memory k" for a k
    by (simp_all add: pde_at_def kpage_def demo_heap_cong)
  have "kernel_space_ok demo_heap"
    using demo_kernel_space self_mapped_cong [of demo_heap demo_memory] mmu_cong [of demo_heap demo_memory] kernel_table_cong(1) [of demo_heap demo_memory]
    by (simp add: kernel_space_ok_def at demo_heap_cong)
  moreover have "pools_ok demo_heap" using demo_memory_pools by (simp add: pools_ok_def demo_heap_cong)
  ultimately show ?thesis using demo_tables by (simp add: space_ok_def K_HEAP_START_def) (simp add: demo_heap_def demo_memory_def)
qed

lemma demo_heap_inv: "heap_inv {0xc0100000} demo_heap"
proof -
  have "vbits demo_heap = 8" "vbit demo_heap 0" using demo_vbits(1) demo_vbits(2) [of 0] by (simp_all add: vbits_def vbit_def demo_heap_cong)
  moreover have "kpage demo_heap 0 = 0xc0100000" by (simp add: kpage_def demo_heap_def demo_memory_def)
  moreover have "mmu demo_heap 0xc0100000 = Some (frame_of (kernel_pool demo_heap) 0)"
    using demo_page(1) [of 0] by (simp add: frame_of_def demo_heap_def demo_memory_def)
  moreover have "0 < frames (kernel_pool demo_heap)" "frame_used (kernel_pool demo_heap) 0"
    by (simp_all add: frames_def frame_used_def demo_heap_def demo_memory_def btmp_bits_def bit_at_def)
  ultimately have "arena_page demo_heap 0xc0100000" unfolding arena_page_def by (metis zero_less_numeral)
  then have "backed {0xc0100000} demo_heap" by (simp add: backed_def)
  moreover have "in_kernel demo_heap" "pool_free demo_heap"
    by (simp_all add: in_kernel_def pool_free_def running_thread_def demo_heap_def demo_memory_def demo_sched_def demo_task_def
        lock_free_def lock_init_def sema_init_def)
  ultimately show ?thesis using demo_heap_space demo_heap_ok by (simp add: heap_inv_def)
qed

text \<open>A request for 20 bytes needs a new arena, one for 700 bytes does not; freeing the block in use leaves an empty heap.\<close>

lemma demo_heap_room: "page_left demo_heap"
proof -
  have "vbits demo_heap = 8" "\<not> vbit demo_heap 1" using demo_vbits(1) demo_vbits(2) [of 1] by (simp_all add: vbits_def vbit_def demo_heap_cong)
  then show ?thesis unfolding page_left_def demo_heap_cong(3) demo_memory_free by (metis insert_not_empty one_less_numeral_iff semiring_norm(76))
qed

theorem malloc_serves_blocks_witness:
  "\<exists>b s' B. sys_malloc 20 demo_heap = Some (b, s') \<and> b \<noteq> 0 \<and> heap_inv B s' \<and>
     in_use B s' = insert (desc_for 20 (k_block_descs demo_heap), b) (in_use {0xc0100000} demo_heap)"
proof -
  have "(20 :: u32) < pool_size (kernel_pool demo_heap)" by (simp add: demo_heap_def demo_memory_def)
  then show ?thesis using malloc_serves_blocks [OF demo_heap_inv, of 20 "desc_for 20 (k_block_descs demo_heap)"] demo_heap_room by auto
qed

theorem free_returns_blocks_witness:
  "\<exists>s' B. sys_free 0xc010000c demo_heap = Some s' \<and> B \<subseteq> {0xc0100000} \<and> heap_inv B s' \<and> in_use B s' = in_use {0xc0100000} demo_heap - {(6, 0xc010000c)}"
proof -
  have "is_block {0xc0100000} demo_heap 6 0xc010000c"
    unfolding is_block_def demo_heap_sizes by (simp add: demo_heap_def block2arena_def K_HEAP_START_def sizeof_arena_def) (intro exI [of _ 0], simp)
  then have "(6, 0xc010000c) \<in> in_use {0xc0100000} demo_heap" by (simp add: in_use_def demo_heap_free)
  then show ?thesis using free_returns_blocks [OF demo_heap_inv] by blast
qed

end
