(* ===== verification/IntrInit.thy ===== *)
theory IntrInit
  imports Interrupt
begin

text \<open>
  Setting up interrupts, kernel/interrupt.c: the default handler and the names of the exceptions (\<open>exception_init\<close>), the
  programming of the two 8259A controllers (\<open>pic_init\<close>) and \<open>idt_init\<close>.  Port writes are the sequence of port and byte,
  and the output of the default handler the sequence of calls of the screen driver; progress messages are left out.  Handlers are numbers, the addresses of their code.
\<close>

section \<open>The code\<close>

definition PIC_M_CTRL :: u16 where "PIC_M_CTRL = 0x20"
definition PIC_M_DATA :: u16 where "PIC_M_DATA = 0x21"
definition PIC_S_CTRL :: u16 where "PIC_S_CTRL = 0xa0"
definition PIC_S_DATA :: u16 where "PIC_S_DATA = 0xa1"

definition pic_init :: "(u16 \<times> u8) list" where
  "pic_init =
     [(PIC_M_CTRL, 0x11), (PIC_M_DATA, 0x20), (PIC_M_DATA, 0x04), (PIC_M_DATA, 0x01),
      (PIC_S_CTRL, 0x11), (PIC_S_DATA, 0x28), (PIC_S_DATA, 0x02), (PIC_S_DATA, 0x01),
      (PIC_M_DATA, 0xf8), (PIC_S_DATA, 0xbf)]"

datatype scr_op = Put_str string | Put_char u8 | Put_int u32 | Set_cursor u32

text \<open>
  How a handler ends: it returns, or it stays in its final loop after the output.  A vector outside the table of names
  has no defined meaning.
\<close>

datatype intr_end = Returned | Halted "scr_op list"

definition newline :: string where "newline = [CHR 0x0A]"

definition general_intr_handler :: "string list \<Rightarrow> u32 \<Rightarrow> u8 \<Rightarrow> intr_end option" where
  "general_intr_handler intr_name cr2 vec_nr =
     (if vec_nr = 0x27 \<or> vec_nr = 0x2f then Some Returned
      else if unat vec_nr \<ge> length intr_name then None
      else Some (Halted
        (Set_cursor 0 # replicate 320 (Put_char 32) @
         [Set_cursor 0, Put_str (''!!!!!!!      excetion message begin  !!!!!!!!'' @ newline), Set_cursor 88,
          Put_str (intr_name ! unat vec_nr)] @
         (if vec_nr = 14 then [Put_str (newline @ ''page fault addr is ''), Put_int cr2] else []) @
         [Put_str (newline @ ''!!!!!!!      excetion message end    !!!!!!!!'' @ newline)])))"

definition exception_init :: "u32 \<Rightarrow> u32 list \<times> string list" where
  "exception_init general_handler =
     (replicate IDT_DESC_CNT general_handler,
      fold (\<lambda>(i, n) names. names[i := n])
        [(0, ''#DE Divide Error''), (1, ''#DB Debug Exception''), (2, ''NMI Interrupt''), (3, ''#BP Breakpoint Exception''),
         (4, ''#OF Overflow Exception''), (5, ''#BR BOUND Range Exceeded Exception''), (6, ''#UD Invalid Opcode Exception''),
         (7, ''#NM Device Not Available Exception''), (8, ''#DF Double Fault Exception''), (9, ''Coprocessor Segment Overrun''),
         (10, ''#TS Invalid TSS Exception''), (11, ''#NP Segment Not Present''), (12, ''#SS Stack Fault Exception''),
         (13, ''#GP General Protection Exception''), (14, ''#PF Page-Fault Exception''), (16, ''#MF x87 FPU Floating-Point Error''),
         (17, ''#AC Alignment Check Exception''), (18, ''#MC Machine-Check Exception''), (19, ''#XF SIMD Floating-Point Exception'')]
        (replicate IDT_DESC_CNT ''unknown''))"

record intr_setup =
  idt :: "gate_desc list"
  idt_table :: "u32 list"
  intr_name :: "string list"
  idtr :: "64 word"
  ports :: "(u16 \<times> u8) list"

text \<open>A gate has 8 bytes; the operand of \<open>lidt\<close> is the table's size minus 1 and its address.\<close>

definition idt_init :: "(nat \<Rightarrow> u32) \<Rightarrow> u32 \<Rightarrow> u32 \<Rightarrow> u32 \<Rightarrow> 'a intr_setup_scheme \<Rightarrow> 'a intr_setup_scheme" where
  "idt_init intr_entry_table syscall_handler general_handler idt_addr s =
     (let s = s\<lparr>idt := idt_desc_init intr_entry_table syscall_handler\<rparr>;
          (handlers, names) = exception_init general_handler;
          s = s\<lparr>idt_table := handlers, intr_name := names\<rparr>;
          s = s\<lparr>ports := ports s @ pic_init\<rparr>
      in s\<lparr>idtr := (of_nat (8 * IDT_DESC_CNT) - 1) OR push_bit 16 (ucast idt_addr)\<rparr>)"

section \<open>The controllers\<close>

text \<open>
  The 8259A as its data sheet describes it.  A command byte with bit 4 set starts the initialisation and clears the mask;
  then the data port takes the vector base, the cascade word (unless bit 1 of the command says there is one controller only)
  and the mode (when bit 0 asks for it); every later byte at the data port is the mask.
\<close>

record pic =
  icw1 :: u8
  pic_base :: u8
  imr :: u8
  expects :: nat

definition pic_ctrl :: "u8 \<Rightarrow> pic \<Rightarrow> pic" where
  "pic_ctrl v p = (if bit v 4 then p\<lparr>icw1 := v, imr := 0, expects := 2\<rparr> else p)"

definition pic_data :: "u8 \<Rightarrow> pic \<Rightarrow> pic" where
  "pic_data v p =
     (let after3 = (if bit (icw1 p) 0 then 4 else 0) in
      if expects p = 2 then p\<lparr>pic_base := v AND 0xf8, expects := (if bit (icw1 p) 1 then after3 else 3)\<rparr>
      else if expects p = 3 then p\<lparr>expects := after3\<rparr>
      else if expects p = 4 then p\<lparr>expects := 0\<rparr>
      else p\<lparr>imr := v\<rparr>)"

definition pic_out :: "u16 \<times> u8 \<Rightarrow> pic \<times> pic \<Rightarrow> pic \<times> pic" where
  "pic_out w ps =
     (case (w, ps) of ((port, v), (ma, sl)) \<Rightarrow>
        if port = 0x20 then (pic_ctrl v ma, sl) else if port = 0x21 then (pic_data v ma, sl)
        else if port = 0xa0 then (ma, pic_ctrl v sl) else if port = 0xa1 then (ma, pic_data v sl)
        else (ma, sl))"

definition irq_enabled :: "pic \<times> pic \<Rightarrow> nat \<Rightarrow> bool" where
  "irq_enabled ps irq =
     (if irq < 8 then \<not> bit (imr (fst ps)) irq else \<not> bit (imr (snd ps)) (irq - 8) \<and> \<not> bit (imr (fst ps)) 2)"

definition irq_vector :: "pic \<times> pic \<Rightarrow> nat \<Rightarrow> u8" where
  "irq_vector ps irq = (if irq < 8 then pic_base (fst ps) + of_nat irq else pic_base (snd ps) + of_nat (irq - 8))"

section \<open>Facts\<close>

lemma pic_init_effect:
  "fold pic_out pic_init ps =
     (\<lparr>icw1 = 0x11, pic_base = 0x20, imr = 0xf8, expects = 0\<rparr>, \<lparr>icw1 = 0x11, pic_base = 0x28, imr = 0xbf, expects = 0\<rparr>)"
proof -
  obtain ma sl where "ps = (ma, sl)" by (cases ps)
  then show ?thesis
    by (cases ma; cases sl)
      (simp add: pic_init_def PIC_M_CTRL_def PIC_M_DATA_def PIC_S_CTRL_def PIC_S_DATA_def pic_out_def pic_ctrl_def pic_data_def)
qed

lemma all_below_16: "(\<forall>n < (16 :: nat). P n) \<longleftrightarrow>
    P 0 \<and> P 1 \<and> P 2 \<and> P 3 \<and> P 4 \<and> P 5 \<and> P 6 \<and> P 7 \<and> P 8 \<and> P 9 \<and> P 10 \<and> P 11 \<and> P 12 \<and> P 13 \<and> P 14 \<and> P 15"
  by (simp add: numeral_eq_Suc less_Suc_eq all_conj_distrib)

lemma idt_init_tables:
  "idt (idt_init e sysc g a s) = idt_desc_init e sysc" "idt_table (idt_init e sysc g a s) = replicate IDT_DESC_CNT g"
  "ports (idt_init e sysc g a s) = ports s @ pic_init" "intr_name (idt_init e sysc g a s) = snd (exception_init g)"
  by (simp_all add: idt_init_def exception_init_def Let_def)

lemma length_intr_name: "length (snd (exception_init g)) = IDT_DESC_CNT"
  by (simp add: exception_init_def)

lemma register_handler_nth:
  "v < length t \<Longrightarrow> register_handler vec f t ! v = (if v = unat vec then f else t ! v)"
  by (simp add: register_handler_def)

text \<open>The interrupts that can arrive after \<open>pic_init\<close>: timer, keyboard, the line of the second controller, and the first disk channel.\<close>

lemma pic_init_irqs:
  assumes "irq < 16"
  shows "irq_enabled (fold pic_out pic_init ps) irq \<longleftrightarrow> irq \<in> {0, 1, 2, 14}" "irq_vector (fold pic_out pic_init ps) irq = 0x20 + of_nat irq"
proof -
  have "\<forall>n < 16. irq_enabled (fold pic_out pic_init ps) n \<longleftrightarrow> n \<in> {0, 1, 2, 14}"
    unfolding all_below_16 by (simp add: pic_init_effect irq_enabled_def)
  then show "irq_enabled (fold pic_out pic_init ps) irq \<longleftrightarrow> irq \<in> {0, 1, 2, 14}" using assms by blast
  have "\<forall>n < 16. irq_vector (fold pic_out pic_init ps) n = 0x20 + of_nat n"
    unfolding all_below_16 by (simp add: pic_init_effect irq_vector_def)
  then show "irq_vector (fold pic_out pic_init ps) irq = 0x20 + of_nat irq" using assms by blast
qed

text \<open>Every exception of the processor stops the machine with its name on the screen.\<close>

lemma exceptions_halt:
  assumes "v < 0x20"
  shows "\<exists>out. general_intr_handler (snd (exception_init g)) cr2 v = Some (Halted out) \<and>
     Put_str (snd (exception_init g) ! unat v) \<in> set out \<and> (v = 14 \<longrightarrow> Put_int cr2 \<in> set out)"
proof -
  have "unat v < 32" using assms by (simp add: word_less_nat_alt)
  then have "unat v < IDT_DESC_CNT" "v \<noteq> 0x27" "v \<noteq> 0x2f" by (auto simp: IDT_DESC_CNT_def)
  then show ?thesis by (simp add: general_intr_handler_def length_intr_name)
qed

end
