(* ===== verification/Platform.thy ===== *)
theory Platform
  imports Memory
begin

text \<open>
  The task state segment and the user segments (userprog/tss.c, kernel/global.h), the programming of the interval timer and
  sleeping (device/timer.c), and the console lock (device/console.c).  Port writes are the sequence of port and byte.
\<close>

section \<open>Segment descriptors\<close>

record gdt_desc =
  limit_low_word :: u16
  base_low_word :: u16
  base_mid_byte :: u8
  attr_low_byte :: u8
  limit_high_attr_high :: u8
  base_high_byte :: u8

definition make_gdt_desc :: "u32 \<Rightarrow> u32 \<Rightarrow> u8 \<Rightarrow> u8 \<Rightarrow> gdt_desc" where
  "make_gdt_desc desc_base limit attr_low attr_high =
     \<lparr>limit_low_word = ucast (limit AND 0x0000ffff), base_low_word = ucast (desc_base AND 0x0000ffff),
      base_mid_byte = ucast (drop_bit 16 (desc_base AND 0x00ff0000)), attr_low_byte = attr_low,
      limit_high_attr_high = ucast (drop_bit 16 (limit AND 0x000f0000)) + attr_high,
      base_high_byte = ucast (drop_bit 24 desc_base)\<rparr>"

definition GDT_ATTR_HIGH :: u8 where
  "GDT_ATTR_HIGH = push_bit 7 1 + push_bit 6 1 + push_bit 5 0 + push_bit 4 0"

definition GDT_CODE_ATTR_LOW_DPL3 :: u8 where
  "GDT_CODE_ATTR_LOW_DPL3 = push_bit 7 1 + push_bit 5 3 + push_bit 4 1 + 8"

definition GDT_DATA_ATTR_LOW_DPL3 :: u8 where
  "GDT_DATA_ATTR_LOW_DPL3 = push_bit 7 1 + push_bit 5 3 + push_bit 4 1 + 2"

definition TSS_ATTR_HIGH :: u8 where
  "TSS_ATTR_HIGH = push_bit 7 1 + push_bit 6 0 + push_bit 5 0 + push_bit 4 0 + 0"

definition TSS_ATTR_LOW :: u8 where
  "TSS_ATTR_LOW = push_bit 7 1 + push_bit 5 0 + push_bit 4 0 + 9"

definition SELECTOR_K_STACK :: u32 where "SELECTOR_K_STACK = push_bit 3 2 + push_bit 2 0 + 0"
definition SELECTOR_TSS :: u16 where "SELECTOR_TSS = push_bit 3 4 + push_bit 2 0 + 0"

text \<open>The fields of the segment that are ever set; it has 25 words and 2 half words, 104 bytes.\<close>

record tss =
  tss_ss0 :: u32
  tss_io_base :: u16

definition tss_size :: u16 where "tss_size = 104"

text \<open>\<open>tss_init\<close>: the segment, the three descriptors behind the boot loader's, the operand of \<open>lgdt\<close> and the selector of \<open>ltr\<close>.\<close>

definition tss_init :: "u32 \<Rightarrow> tss \<times> (u32 \<times> gdt_desc) list \<times> 64 word \<times> u16" where
  "tss_init tss_addr =
     (\<lparr>tss_ss0 = SELECTOR_K_STACK, tss_io_base = tss_size\<rparr>,
      [(0xc0000920, make_gdt_desc tss_addr (ucast tss_size - 1) TSS_ATTR_LOW TSS_ATTR_HIGH),
       (0xc0000928, make_gdt_desc 0 0xfffff GDT_CODE_ATTR_LOW_DPL3 GDT_ATTR_HIGH),
       (0xc0000930, make_gdt_desc 0 0xfffff GDT_DATA_ATTR_LOW_DPL3 GDT_ATTR_HIGH)],
      (8 * 7 - 1) OR push_bit 16 0xc0000900, SELECTOR_TSS)"

text \<open>The processor's reading of a descriptor.\<close>

definition desc_base :: "gdt_desc \<Rightarrow> u32" where
  "desc_base d = ucast (base_low_word d) OR push_bit 16 (ucast (base_mid_byte d)) OR push_bit 24 (ucast (base_high_byte d))"

definition desc_limit :: "gdt_desc \<Rightarrow> u32" where
  "desc_limit d =
     (let l = ucast (limit_low_word d) OR push_bit 16 (ucast (limit_high_attr_high d AND 0xf)) in
      if bit (limit_high_attr_high d) 7 then push_bit 12 l OR 0xfff else l)"

definition desc_dpl :: "gdt_desc \<Rightarrow> u8" where
  "desc_dpl d = drop_bit 5 (attr_low_byte d) AND 3"

lemma make_gdt_desc_base: "desc_base (make_gdt_desc b l lo hi) = b"
proof -
  have m: "(0x0000ffff :: u32) = mask 16" "(0x00ff0000 :: u32) = push_bit 16 (mask 8)" by (simp_all add: mask_eq_exp_minus_1)
  show ?thesis
    unfolding desc_base_def make_gdt_desc_def m
    apply (rule bit_eqI)
    subgoal for n by (cases "n < 24") (auto simp: bit_simps dest: bit_u32_less)
    done
qed

text \<open>
  The segment's descriptor counts its limit in pages, so the segment reaches far behind its 104 bytes and the
  permission bitmap at \<open>io_base\<close> lies inside it.
\<close>

lemma tss_covers_io_base: "desc_limit (snd (hd (fst (snd (tss_init a))))) = 0x67fff" "tss_io_base (fst (tss_init a)) = 104"
  by (simp_all add: tss_init_def desc_limit_def make_gdt_desc_def TSS_ATTR_HIGH_def tss_size_def Let_def bit_simps)

section \<open>Timer\<close>

definition IRQ0_FREQUENCY :: u32 where "IRQ0_FREQUENCY = 100"
definition INPUT_FREQUENCY :: u32 where "INPUT_FREQUENCY = 1193180"
definition COUNTER0_VALUE :: u32 where "COUNTER0_VALUE = INPUT_FREQUENCY div IRQ0_FREQUENCY"
definition mil_seconds_per_intr :: u32 where "mil_seconds_per_intr = 1000 div IRQ0_FREQUENCY"

definition frequency_set :: "u8 \<Rightarrow> u8 \<Rightarrow> u8 \<Rightarrow> u8 \<Rightarrow> u16 \<Rightarrow> (u16 \<times> u8) list" where
  "frequency_set counter_port counter_no rwl counter_mode counter_value =
     [(0x43, push_bit 6 counter_no OR push_bit 4 rwl OR push_bit 1 counter_mode),
      (ucast counter_port, ucast counter_value), (ucast counter_port, ucast (drop_bit 8 counter_value))]"

definition timer_init :: "(u16 \<times> u8) list" where
  "timer_init = frequency_set 0x40 0 3 2 (ucast COUNTER0_VALUE)"

text \<open>The counter is loaded with 11931, which gives an interrupt every 10 ms.\<close>

lemma timer_init_value: "timer_init = [(0x43, 0x34), (0x40, 0x9b), (0x40, 0x2e)]"
  by (simp add: timer_init_def frequency_set_def COUNTER0_VALUE_def INPUT_FREQUENCY_def IRQ0_FREQUENCY_def)

text \<open>
  One round of \<open>ticks_to_sleep\<close>: the caller gives the processor away (\<open>Inl\<close>) and runs the next round when it is resumed,
  or returns.
\<close>

definition ticks_to_sleep :: "u32 \<Rightarrow> u32 \<Rightarrow> 'a sched_scheme \<Rightarrow> (intr_status \<times> 'a sched_scheme + 'a sched_scheme) option" where
  "ticks_to_sleep start_tick sleep_ticks s =
     (if ticks s - start_tick < sleep_ticks then map_option Inl (thread_yield s) else Some (Inr s))"

definition mtime_sleep :: "u32 \<Rightarrow> 'a sched_scheme \<Rightarrow> (intr_status \<times> 'a sched_scheme + 'a sched_scheme) option" where
  "mtime_sleep m_seconds s =
     do {
       let sleep_ticks = DIV_ROUND_UP m_seconds mil_seconds_per_intr;
       ASSERT (sleep_ticks > 0);
       ticks_to_sleep (ticks s) sleep_ticks s
     }"

text \<open>The sleep ends after the given number of ticks, also when the tick counter wraps around in between.\<close>

lemma sleep_ends: "ticks s = start + n \<Longrightarrow> ticks_to_sleep start n s = Some (Inr s)"
  by (simp add: ticks_to_sleep_def)

lemma sleep_continues: "ticks s = start + of_nat k \<Longrightarrow> k < unat n \<Longrightarrow> ticks_to_sleep start n s = map_option Inl (thread_yield s)"
proof -
  assume a: "ticks s = start + of_nat k" "k < unat n"
  have "unat n < 4294967296" using unsigned_less [of n] by simp
  with a(2) have "unat (of_nat k :: u32) = k" by (intro unat_of_nat_small) linarith
  with a show ?thesis by (simp add: ticks_to_sleep_def word_less_nat_alt)
qed

section \<open>Console\<close>

text \<open>Text is written to the screen between acquiring and releasing the console lock; the screen driver is assembly code.\<close>

definition console_acquire :: "lock \<Rightarrow> 'a sched_scheme \<Rightarrow> (lock \<times> 'a sched_scheme) option" where
  "console_acquire console_lock s = lock_acquire console_lock s"

definition console_release :: "lock \<Rightarrow> 'a sched_scheme \<Rightarrow> (lock \<times> 'a sched_scheme) option" where
  "console_release console_lock s = lock_release console_lock s"

definition console_put_str :: "u8 list \<Rightarrow> lock \<Rightarrow> u8 list \<Rightarrow> 'a sched_scheme \<Rightarrow> (lock \<times> u8 list \<times> 'a sched_scheme) option" where
  "console_put_str text_bytes console_lock screen s =
     do {
       (l, s) \<leftarrow> console_acquire console_lock s;
       let screen = screen @ text_bytes;
       (l, s) \<leftarrow> console_release l s;
       Some (l, screen, s)
     }"

lemma console_put_str_free:
  assumes "lock_free l" "running_thread s \<noteq> 0"
  shows "\<exists>l'. console_put_str t l scr s = Some (l', scr @ t, s) \<and> lock_free l'"
proof -
  obtain l1 where l1: "lock_acquire l s = Some (l1, s)" "lock_held (running_thread s) 1 l1" by (rule lock_acquire_free [OF assms])
  obtain l2 where "lock_release l1 s = Some (l2, s)" "lock_free l2" by (rule lock_release_held [OF l1(2)])
  then show ?thesis using l1(1) by (simp add: console_put_str_def console_acquire_def console_release_def)
qed

end
