(* ===== verification/Console.thy ===== *)
theory Console
  imports Platform Shell
begin

text \<open>
  Kernel output above the screen driver: the remaining entries of device/console.c, \<open>printk\<close> of lib/kernel/stdio-kernel.c,
  \<open>sys_putchar\<close> and \<open>sys_help\<close> of fs/fs.c, and the failing user assertion of lib/user/assert.c.  The driver itself is assembly
  code; of \<open>put_int\<close> the characters for a number are a parameter.
\<close>

definition console_init :: lock where
  "console_init = lock_init"

definition console_put_char :: "u8 \<Rightarrow> lock \<Rightarrow> u8 list \<Rightarrow> 'a sched_scheme \<Rightarrow> (lock \<times> u8 list \<times> 'a sched_scheme) option" where
  "console_put_char char_asci console_lock screen s =
     do {
       (l, s) \<leftarrow> console_acquire console_lock s;
       let screen = screen @ [char_asci];
       (l, s) \<leftarrow> console_release l s;
       Some (l, screen, s)
     }"

definition console_put_int :: "(u32 \<Rightarrow> u8 list) \<Rightarrow> u32 \<Rightarrow> lock \<Rightarrow> u8 list \<Rightarrow> 'a sched_scheme \<Rightarrow> (lock \<times> u8 list \<times> 'a sched_scheme) option" where
  "console_put_int put_int num console_lock screen s =
     do {
       (l, s) \<leftarrow> console_acquire console_lock s;
       let screen = screen @ put_int num;
       (l, s) \<leftarrow> console_release l s;
       Some (l, screen, s)
     }"

definition printk :: "u8 list \<Rightarrow> va list \<Rightarrow> lock \<Rightarrow> u8 list \<Rightarrow> 'a sched_scheme \<Rightarrow> (lock \<times> u8 list \<times> 'a sched_scheme) option" where
  "printk format args console_lock screen s =
     do {
       (n, bf) \<leftarrow> vsprintf (replicate 1024 0) format args;
       console_put_str (take n bf) console_lock screen s
     }"

definition sys_putchar :: "u8 \<Rightarrow> lock \<Rightarrow> u8 list \<Rightarrow> 'a sched_scheme \<Rightarrow> (lock \<times> u8 list \<times> 'a sched_scheme) option" where
  "sys_putchar char_asci console_lock screen s = console_put_char char_asci console_lock screen s"

definition help_text :: "u8 list" where
  "help_text =
     concat (map (\<lambda>l. str l @ [10])
       ['' buildin commands:'', ''       ls: show directory or file information'', ''       cd: change current work directory'',
        ''       mkdir: create a directory'', ''       rmdir: remove a empty directory'', ''       rm: remove a regular file'',
        ''       pwd: show current work directory'', ''       ps: show process information'', ''       clear: clear screen'',
        '' shortcut key:'', ''       ctrl+l: clear screen'', ''       ctrl+u: clear input'', ''''])"

definition sys_help :: "lock \<Rightarrow> u8 list \<Rightarrow> 'a sched_scheme \<Rightarrow> (lock \<times> u8 list \<times> 'a sched_scheme) option" where
  "sys_help console_lock screen s = printk help_text [] console_lock screen s"

text \<open>A failed assertion of a user program: the text it prints before it loops for ever.\<close>

definition user_spin :: "u8 list \<Rightarrow> u32 \<Rightarrow> u8 list \<Rightarrow> u8 list \<Rightarrow> u8 list option" where
  "user_spin file_name line func condition =
     printf ([10, 10, 10, 10] @ str ''filename %s'' @ [10] @ str ''line %d'' @ [10] @ str ''function %s'' @ [10] @ str ''condition %s'' @ [10])
       [Str_arg file_name, Int_arg line, Str_arg func, Str_arg condition]"

section \<open>Output under the lock\<close>

lemma console_put_char_str: "console_put_char c = console_put_str [c]"
  by (intro ext) (simp add: console_put_char_def console_put_str_def)

text \<open>
  Text without directives of fewer than 1024 characters goes to the screen as it is, in one piece, and the lock is free
  again; a longer one overruns the buffer of \<open>printk\<close>.
\<close>

lemma vsprintf_plain:
  assumes "37 \<notin> set t" "pos + length t \<le> length bf"
  shows "vsprintf_loop t [] pos bf = Some (pos + length t, splice pos t bf)"
  using assms
proof (induction t arbitrary: pos bf)
  case (Cons c t)
  then have "c \<noteq> 37" "pos < length bf" by auto
  moreover have "splice (Suc pos) t (splice pos [c] bf) = splice pos (c # t) bf"
    using Cons.prems(2) by (simp add: splice_def min_def take_Cons' Suc_diff_le add.commute)
  moreover have "vsprintf_loop t [] (Suc pos) (splice pos [c] bf) = Some (Suc pos + length t, splice (Suc pos) t (splice pos [c] bf))"
    using Cons.prems by (intro Cons.IH) (auto simp: splice_def)
  ultimately show ?case by (simp add: put_bytes_def)
qed (simp add: splice_def)

lemma printk_plain:
  assumes "37 \<notin> set t" "0 \<notin> set t" "length t < 1024" "lock_free l" "running_thread s \<noteq> 0"
  shows "\<exists>l'. printk t [] l scr s = Some (l', scr @ t, s) \<and> lock_free l'"
proof -
  let ?b = "splice 0 t (replicate 1024 0)"
  have b: "?b = t @ replicate (1024 - length t) 0" using assms(3) by (simp add: splice_def)
  moreover have "takeWhile (\<lambda>c. c \<noteq> 0) (t @ replicate n 0) = t" for n
    using assms(2) by (cases n) (auto simp: takeWhile_tail)
  ultimately have "vsprintf (replicate 1024 0) t [] = Some (length t, t @ replicate (1024 - length t) 0)"
    using vsprintf_plain [OF assms(1), of 0 "replicate 1024 0"] assms(3) by (simp add: vsprintf_def)
  then show ?thesis using console_put_str_free [OF assms(4,5)] by (simp add: printk_def)
qed

lemma help_text_printed:
  assumes "lock_free l" "running_thread s \<noteq> 0"
  shows "\<exists>l'. sys_help l scr s = Some (l', scr @ help_text, s) \<and> lock_free l'"
proof -
  have "37 \<notin> set help_text" "0 \<notin> set help_text" "length help_text < 1024" by (simp_all add: help_text_def str_def)
  then show ?thesis using printk_plain [OF _ _ _ assms] by (simp add: sys_help_def)
qed

end
