(* ===== verification/Partitions.thy ===== *)
theory Partitions
  imports Ide
begin

text \<open>
  Discovery of disks and partitions and the completion interrupt of the disk controller, device/ide.c.  A partition table is
  four entries of 16 bytes from offset 446 of its sector; extended partitions (type 5) hold further tables, whose
  chain may be cyclic, so the scan is a partial function.  Names (\<open>sdb1\<close>, \<open>sdb5\<close>, ...) are the numbers they end in.
  The scan's memory for the sector is assumed to be there.
\<close>

section \<open>Channels\<close>

record ide_channel =
  port_base :: u16
  irq_no :: u8
  chan_lock :: lock
  expecting_intr :: bool
  disk_done :: semaphore

text \<open>The body of \<open>ide_init\<close> that sets up channel 0 or 1; other numbers leave port and vector alone.\<close>

definition init_channel :: "u8 \<Rightarrow> ide_channel \<Rightarrow> ide_channel" where
  "init_channel channel_no c =
     c\<lparr>port_base := (if channel_no = 0 then 0x1f0 else if channel_no = 1 then 0x170 else port_base c),
       irq_no := (if channel_no = 0 then 0x2e else if channel_no = 1 then 0x2f else irq_no c),
       expecting_intr := False, chan_lock := lock_init, disk_done := sema_init 0\<rparr>"

text \<open>Sending a command arms the channel; reading the status register afterwards acknowledges the interrupt.\<close>

definition cmd_out :: "ide_channel \<Rightarrow> ide_channel" where
  "cmd_out c = c\<lparr>expecting_intr := True\<rparr>"

definition intr_hd_handler :: "u8 \<Rightarrow> (u8 \<Rightarrow> ide_channel) \<Rightarrow> 'a sched_scheme \<Rightarrow> ((u8 \<Rightarrow> ide_channel) \<times> 'a sched_scheme) option" where
  "intr_hd_handler irq channels s =
     do {
       ASSERT (irq = 0x2e \<or> irq = 0x2f);
       let ch_no = irq - 0x2e;
       let c = channels ch_no;
       ASSERT (irq_no c = irq);
       (if expecting_intr c then
          do {
            (sem, s) \<leftarrow> sema_up (disk_done c) s;
            Some (channels(ch_no := c\<lparr>expecting_intr := False, disk_done := sem\<rparr>), s)
          }
        else Some (channels, s))
     }"

section \<open>Disk identification\<close>

text \<open>
  \<open>swap_pairs_bytes\<close>: the identification strings store their characters in swapped pairs.  The terminating 0 follows.
\<close>

fun swap_pairs_bytes :: "u8 list \<Rightarrow> u8 list" where
  "swap_pairs_bytes (a # b # r) = b # a # swap_pairs_bytes r"
| "swap_pairs_bytes _ = [0]"

text \<open>What \<open>identify_disk\<close> prints: serial number, model, number of sectors and megabytes, in 32-bit arithmetic.\<close>

record disk_info =
  serial :: "u8 list"
  model :: "u8 list"
  sectors :: u32
  capacity :: u32

definition identify_disk :: "u8 list \<Rightarrow> disk_info" where
  "identify_disk id_info =
     \<lparr>serial = swap_pairs_bytes (take 20 (drop 20 id_info)), model = swap_pairs_bytes (take 40 (drop 54 id_info)),
      sectors = rd32 id_info 120, capacity = rd32 id_info 120 * 512 div 1024 div 1024\<rparr>"

section \<open>Partition tables\<close>

record partition_table_entry =
  pt_type :: u8
  pt_start :: u32
  pt_cnt :: u32

definition table_entry :: "u8 list \<Rightarrow> nat \<Rightarrow> partition_table_entry" where
  "table_entry bs k =
     \<lparr>pt_type = bs ! (446 + 16 * k + 4), pt_start = rd32 bs (446 + 16 * k + 8), pt_cnt = rd32 bs (446 + 16 * k + 12)\<rparr>"

text \<open>A partition as the scan records it: the number in its name, first sector and length.\<close>

record part =
  part_nr :: u8
  part_start :: u32
  part_cnt :: u32

record scan_state =
  ext_lba_base :: u32
  p_no :: u8
  l_no :: u8
  partition_list :: "part list"

definition add_primary :: "u32 \<Rightarrow> partition_table_entry \<Rightarrow> scan_state \<Rightarrow> scan_state option" where
  "add_primary ext_lba p st =
     do {
       let st = st\<lparr>partition_list := partition_list st @ [\<lparr>part_nr = p_no st + 1, part_start = ext_lba + pt_start p, part_cnt = pt_cnt p\<rparr>],
                   p_no := p_no st + 1\<rparr>;
       ASSERT (p_no st < 4);
       Some st
     }"

text \<open>The array of logical partitions has 8 entries; the bound is tested after the store.\<close>

definition add_logical :: "u32 \<Rightarrow> partition_table_entry \<Rightarrow> scan_state \<Rightarrow> scan_state option" where
  "add_logical ext_lba p st =
     (if l_no st < 8 then
        Some (st\<lparr>partition_list := partition_list st @ [\<lparr>part_nr = l_no st + 5, part_start = ext_lba + pt_start p, part_cnt = pt_cnt p\<rparr>],
                 l_no := l_no st + 1\<rparr>)
      else None)"

text \<open>
  The loop of \<open>partition_scan\<close> from entry \<open>k\<close> of the table \<open>bs\<close> on, which was read from sector \<open>ext_lba\<close>; a nested scan
  starts with the first entry of its own table.
\<close>

partial_function (option) partition_scan_loop :: "ata_regs \<Rightarrow> disk \<Rightarrow> nat \<Rightarrow> u32 \<Rightarrow> u8 list \<Rightarrow> scan_state \<Rightarrow> scan_state option" where
  "partition_scan_loop r dk k ext_lba bs st =
     (if k \<ge> 4 then Some st
      else let p = table_entry bs k in
        if pt_type p = 5 then
          let (sc1, lba) = (if ext_lba_base st \<noteq> 0 then (st, pt_start p + ext_lba_base st)
                            else (st\<lparr>ext_lba_base := pt_start p\<rparr>, pt_start p)) in
          do {
            bs' \<leftarrow> ide_read 1 lba 1 r dk;
            sc2 \<leftarrow> partition_scan_loop r dk 0 lba bs' sc1;
            partition_scan_loop r dk (k + 1) ext_lba bs sc2
          }
        else if pt_type p \<noteq> 0 then
          (if ext_lba = 0 then do { sc1 \<leftarrow> add_primary ext_lba p st; partition_scan_loop r dk (k + 1) ext_lba bs sc1 }
           else do {
             sc1 \<leftarrow> add_logical ext_lba p st;
             (if l_no sc1 \<ge> 8 then Some sc1 else partition_scan_loop r dk (k + 1) ext_lba bs sc1)
           })
        else partition_scan_loop r dk (k + 1) ext_lba bs st)"

definition partition_scan :: "ata_regs \<Rightarrow> disk \<Rightarrow> u32 \<Rightarrow> scan_state \<Rightarrow> scan_state option" where
  "partition_scan r dk ext_lba st = do { bs \<leftarrow> ide_read 1 ext_lba 1 r dk; partition_scan_loop r dk 0 ext_lba bs st }"

section \<open>Facts\<close>

lemma swap_pairs_involution: "even (length xs) \<Longrightarrow> swap_pairs_bytes (butlast (swap_pairs_bytes xs)) = xs @ [0]"
proof (induction xs rule: swap_pairs_bytes.induct)
  case (1 a b r)
  have "swap_pairs_bytes r \<noteq> []" by (cases r rule: swap_pairs_bytes.cases) auto
  then show ?case using 1 by simp
qed auto

text \<open>Scanning a boot record whose entries are primary or unused.\<close>

fun primaries :: "u8 \<Rightarrow> partition_table_entry list \<Rightarrow> part list" where
  "primaries n [] = []"
| "primaries n (p # ps) =
     (if pt_type p = 0 then primaries n ps
      else \<lparr>part_nr = n + 1, part_start = pt_start p, part_cnt = pt_cnt p\<rparr> # primaries (n + 1) ps)"

lemma scan_primaries:
  assumes "k \<le> 4" "\<And>j. k \<le> j \<Longrightarrow> j < 4 \<Longrightarrow> pt_type (table_entry bs j) \<noteq> 5"
    and "unat (p_no st) + length (filter (\<lambda>p. pt_type p \<noteq> 0) (map (table_entry bs) [k..<4])) < 4"
  shows "\<exists>n. partition_scan_loop r dk k 0 bs st =
     Some (st\<lparr>p_no := n, partition_list := partition_list st @ primaries (p_no st) (map (table_entry bs) [k..<4])\<rparr>)"
  using assms
proof (induction "4 - k" arbitrary: k st)
  case 0
  then show ?case by (subst partition_scan_loop.simps) (auto intro!: exI [of _ "p_no st"])
next
  case (Suc m)
  let ?p = "table_entry bs k"
  have k: "k < 4" "[k..<4] = k # [Suc k..<4]" using Suc.hyps(2) by (simp_all add: upt_conv_Cons)
  have no5: "pt_type ?p \<noteq> 5" using Suc.prems(2) k by simp
  show ?case
  proof (cases "pt_type ?p = 0")
    case True
    then show ?thesis
      using Suc.hyps(1) [of "Suc k" st] Suc.hyps(2) Suc.prems k no5 by (subst partition_scan_loop.simps) (simp add: Let_def)
  next
    case False
    let ?st = "st\<lparr>partition_list := partition_list st @ [\<lparr>part_nr = p_no st + 1, part_start = pt_start ?p, part_cnt = pt_cnt ?p\<rparr>], p_no := p_no st + 1\<rparr>"
    have "unat (p_no st) < 3" using Suc.prems(3) k False by simp
    then have u: "unat (p_no st + 1) = unat (p_no st) + 1" by (simp add: unat_word_ariths)
    then have "p_no st + 1 < 4" using \<open>unat (p_no st) < 3\<close> by (simp add: word_less_nat_alt)
    then have "add_primary 0 ?p st = Some ?st" by (simp add: add_primary_def Let_def)
    moreover have "\<exists>n. partition_scan_loop r dk (Suc k) 0 bs ?st =
        Some (?st\<lparr>p_no := n, partition_list := partition_list ?st @ primaries (p_no ?st) (map (table_entry bs) [Suc k..<4])\<rparr>)"
      using Suc.hyps Suc.prems k False u by (intro Suc.hyps(1)) auto
    ultimately show ?thesis
      using k no5 False by (subst partition_scan_loop.simps) (auto simp: Let_def)
  qed
qed

end
