(* ===== verification/Format.thy ===== *)
theory Format
  imports DirSys
begin

text \<open>
  Creating and mounting a file system: \<open>partition_format\<close>, \<open>mount_partition\<close> and \<open>filesys_init\<close> of
  fs/fs.c.  The bytes of \<open>struct super_block\<close> behind its thirteen fields are never initialised
  and are an argument.
\<close>

definition SUPER_MAGIC :: u32 where "SUPER_MAGIC = 0x19590318"
definition MAX_FILES_PER_PART :: u32 where "MAX_FILES_PER_PART = 4096"
definition BITS_PER_SECTOR :: u32 where "BITS_PER_SECTOR = 4096"

section \<open>Formatting\<close>

text \<open>
  The number of sectors of the block bitmap: \<open>None\<close> as the bit length is the uninitialised
  variable before the first round.
\<close>

partial_function (option) bitmap_sects_loop :: "u32 \<Rightarrow> u32 \<Rightarrow> u32 \<Rightarrow> u32 option \<Rightarrow> (u32 \<times> u32 option) option" where
  "bitmap_sects_loop tot sects prev bit_len =
     (if sects \<noteq> prev
      then bitmap_sects_loop tot (DIV_ROUND_UP (tot - sects) BITS_PER_SECTOR) sects (Some (tot - sects))
      else Some (sects, bit_len))"

definition inode_sects :: u32 where
  "inode_sects = DIV_ROUND_UP (sizeof_inode * MAX_FILES_PER_PART) 512"

definition used_sects :: u32 where
  "used_sects = 1 + 1 + DIV_ROUND_UP MAX_FILES_PER_PART BITS_PER_SECTOR + inode_sects"

definition make_super_block :: "u32 \<Rightarrow> u32 \<Rightarrow> u32 \<Rightarrow> super_block" where
  "make_super_block start cnt sects =
     (let ibm = DIV_ROUND_UP MAX_FILES_PER_PART BITS_PER_SECTOR in
      \<lparr>magic = SUPER_MAGIC, sb_sec_cnt = cnt, inode_cnt = MAX_FILES_PER_PART, part_lba_base = start,
       block_bitmap_lba = start + 2, block_bitmap_sects = sects,
       inode_bitmap_lba = start + 2 + sects, inode_bitmap_sects = ibm,
       inode_table_lba = start + 2 + sects + ibm, inode_table_sects = inode_sects,
       data_start_lba = start + 2 + sects + ibm + inode_sects,
       root_inode_no = 0, dir_entry_size = 24\<rparr>)"

definition enc_sb :: "super_block \<Rightarrow> u8 list \<Rightarrow> u8 list" where
  "enc_sb b pad =
     enc_words [magic b, sb_sec_cnt b, inode_cnt b, part_lba_base b, block_bitmap_lba b, block_bitmap_sects b,
                inode_bitmap_lba b, inode_bitmap_sects b, inode_table_lba b, inode_table_sects b, data_start_lba b,
                root_inode_no b, dir_entry_size b] @ pad"

definition dec_sb :: "u8 list \<Rightarrow> super_block" where
  "dec_sb bs =
     \<lparr>magic = rd32 bs 0, sb_sec_cnt = rd32 bs 4, inode_cnt = rd32 bs 8, part_lba_base = rd32 bs 12,
      block_bitmap_lba = rd32 bs 16, block_bitmap_sects = rd32 bs 20, inode_bitmap_lba = rd32 bs 24,
      inode_bitmap_sects = rd32 bs 28, inode_table_lba = rd32 bs 32, inode_table_sects = rd32 bs 36,
      data_start_lba = rd32 bs 40, root_inode_no = rd32 bs 44, dir_entry_size = rd32 bs 48\<rparr>"

text \<open>The size of the buffer for the largest piece of metadata.\<close>

definition meta_buf_size :: "super_block \<Rightarrow> nat" where
  "meta_buf_size b =
     512 * max (max (unat (block_bitmap_sects b)) (unat (inode_bitmap_sects b))) (unat (inode_table_sects b))"

text \<open>The initial block bitmap: block 0 and everything behind the last block are taken.\<close>

definition init_block_bitmap :: "nat \<Rightarrow> u32 \<Rightarrow> u8 list option" where
  "init_block_bitmap buf_size bit_len =
     (let bs = (replicate buf_size 0)[0 := 1];
          last_byte = unat (bit_len div 8);
          last_bit = unat (bit_len mod 8);
          last_size = 512 - last_byte mod 512;
          bs = splice last_byte (replicate last_size 0xff) bs
      in if last_byte + last_size \<le> buf_size
         then Some (foldl (\<lambda>b j. b[last_byte := b ! last_byte AND NOT (push_bit j 1)]) bs [0..<last_bit])
         else None)"

definition root_inode :: "super_block \<Rightarrow> inode" where
  "root_inode b = \<lparr>i_no = 0, i_size = dir_entry_size b * 2, i_open_cnts = 0, write_deny = False,
     i_sectors = data_start_lba b # replicate 12 0\<rparr>"

definition partition_format :: "u32 \<Rightarrow> u32 \<Rightarrow> u8 list \<Rightarrow> 'a fs_scheme \<Rightarrow> 'a fs_scheme option" where
  "partition_format start cnt pad s =
     (let free_sects = cnt - used_sects in
      do {
        (sects, bit_len) \<leftarrow> bitmap_sects_loop free_sects (DIV_ROUND_UP free_sects BITS_PER_SECTOR) 0 None;
        let b = make_super_block start cnt sects;
        s \<leftarrow> hd_write (start + 1) (enc_sb b pad) 1 s;
        let buf_size = meta_buf_size b;
        let (bf, s) = fs_malloc s;
        NONNULL bf;
        bit_len \<leftarrow> bit_len;
        block_bs \<leftarrow> init_block_bitmap buf_size bit_len;
        s \<leftarrow> hd_write (block_bitmap_lba b) block_bs (unat (block_bitmap_sects b)) s;
        s \<leftarrow> hd_write (inode_bitmap_lba b) ((replicate buf_size 0)[0 := 1]) (unat (inode_bitmap_sects b)) s;
        s \<leftarrow> hd_write (inode_table_lba b) (splice 0 (enc_inode (root_inode b)) (replicate buf_size 0)) (unat (inode_table_sects b)) s;
        s \<leftarrow> hd_write (data_start_lba b) (dot_sector 0 0) 1 s;
        fs_free bf;
        Some s
      })"

section \<open>Mounting\<close>

text \<open>A bitmap read from disk; the byte behind it is never looked at (theory Bitmap) and taken as 0.\<close>

definition load_bitmap :: "u32 \<Rightarrow> u8 list \<Rightarrow> bitmap" where
  "load_bitmap len bs = \<lparr>btmp_bytes_len = len, bits = (\<lambda>i. if unat i < length bs then bs ! unat i else 0)\<rparr>"

definition mount_partition :: "u32 \<Rightarrow> u32 \<Rightarrow> 'a fs_scheme \<Rightarrow> 'a fs_scheme option" where
  "mount_partition start cnt s =
     (let (sb_buf, s) = fs_malloc s; (sb_mem, s) = fs_malloc s in
      do {
        (if sb_mem = 0 then panic_spin else Some ());
        ASSERT (sb_buf \<noteq> 0);
        bs \<leftarrow> hd_read (start + 1) 1 s;
        let b = dec_sb bs;
        let (bb, s) = fs_malloc s;
        (if bb = 0 then panic_spin else Some ());
        block_bs \<leftarrow> hd_read (block_bitmap_lba b) (unat (block_bitmap_sects b)) s;
        let (ib, s) = fs_malloc s;
        (if ib = 0 then panic_spin else Some ());
        inode_bs \<leftarrow> hd_read (inode_bitmap_lba b) (unat (inode_bitmap_sects b)) s;
        fs_free sb_buf;
        Some (s\<lparr>cur_part := \<lparr>start_lba = start, sec_cnt = cnt, sb = b,
                block_bitmap = load_bitmap (block_bitmap_sects b * 512) block_bs,
                inode_bitmap = load_bitmap (inode_bitmap_sects b * 512) inode_bs, open_inodes = []\<rparr>\<rparr>)
      })"

record part_desc =
  part_name :: "u8 list"
  part_start :: u32
  part_cnt :: u32

text \<open>Format every existing partition that carries no file system.\<close>

fun format_parts :: "part_desc list \<Rightarrow> u8 list \<Rightarrow> 'a fs_scheme \<Rightarrow> 'a fs_scheme option" where
  "format_parts [] pad s = Some s"
| "format_parts (p # ps) pad s =
     (if part_cnt p \<noteq> 0 then
        do {
          bs \<leftarrow> hd_read (part_start p + 1) 1 s;
          s \<leftarrow> (if magic (dec_sb bs) = SUPER_MAGIC then Some s else partition_format (part_start p) (part_cnt p) pad s);
          format_parts ps pad s
        }
      else format_parts ps pad s)"

text \<open>
  The scan runs over the twelve partitions of the first slave disk only: \<open>part_idx\<close> is not reset for the
  next disk.  Then partition \<open>sdb1\<close> of the list of partitions is mounted.
\<close>

definition sdb1 :: "u8 list" where
  "sdb1 = [115, 100, 98, 49]"

definition filesys_init :: "part_desc list \<Rightarrow> part_desc list \<Rightarrow> u8 list \<Rightarrow> 'a fs_scheme \<Rightarrow> 'a fs_scheme option" where
  "filesys_init parts partition_list pad s =
     (let (sb_buf, s) = fs_malloc s in
      do {
        (if sb_buf = 0 then panic_spin else Some ());
        s \<leftarrow> format_parts (take 12 parts) pad s;
        fs_free sb_buf;
        p \<leftarrow> List.find (\<lambda>p. part_name p = sdb1) partition_list;
        s \<leftarrow> mount_partition (part_start p) (part_cnt p) s;
        s \<leftarrow> open_root_dir s;
        Some (s\<lparr>file_table := map (\<lambda>f. f\<lparr>fd_inode := 0\<rparr>) (file_table s)\<rparr>)
      })"

section \<open>The size of the block bitmap\<close>

lemma round_up_4096:
  assumes "unat (x :: u32) + 4095 < 4294967296"
  shows "unat (DIV_ROUND_UP x BITS_PER_SECTOR) = (unat x + 4095) div 4096"
proof -
  have "x + BITS_PER_SECTOR - 1 = x + 4095" by (simp add: BITS_PER_SECTOR_def)
  moreover have "unat (x + 4095) = unat x + 4095" using unat_plus_small [of x 4095] assms by simp
  ultimately show ?thesis by (simp only: DIV_ROUND_UP_def unat_div) (simp add: BITS_PER_SECTOR_def)
qed

text \<open>One round of the loop on natural numbers.\<close>

definition sects_step :: "nat \<Rightarrow> nat \<Rightarrow> nat" where
  "sects_step n s = (n - s + 4095) div 4096"

lemma sects_step_word:
  assumes "unat n < 16777216" "unat s \<le> unat n"
  shows "unat (DIV_ROUND_UP (n - s) BITS_PER_SECTOR) = sects_step (unat n) (unat s)"
proof -
  have "unat (n - s) = unat n - unat s" using assms(2) by (rule unat_minus_small)
  then show ?thesis using round_up_4096 [of "n - s"] assms(1) by (simp add: sects_step_def)
qed

lemma sects_step_le: "0 < n \<Longrightarrow> sects_step n s \<le> n"
  unfolding sects_step_def by linarith

lemma fixpoint_iff: "s \<le> n \<Longrightarrow> sects_step n s = s \<longleftrightarrow> 4097 * s < n + 4096 \<and> n \<le> 4097 * s"
  unfolding sects_step_def by linarith

lemma no_fixpoint: "n mod 4097 = 1 \<Longrightarrow> s \<le> n \<Longrightarrow> sects_step n s \<noteq> s"
proof
  assume a: "n mod 4097 = 1" "s \<le> n" "sects_step n s = s"
  define q where "q = n div 4097"
  have "n = 4097 * q + 1" using a(1) mult_div_mod_eq [of 4097 n] by (simp add: q_def)
  then have "4097 * s < 4097 * (q + 1)" "4097 * q < 4097 * s" using fixpoint_iff [OF a(2)] a(3) by simp_all
  then show False by simp
qed

lemma loop_diverges:
  assumes "unat tot mod 4097 = 1" "unat tot < 16777216" "unat sects \<le> unat tot" "unat prev \<le> unat tot"
    and "unat sects = sects_step (unat tot) (unat prev) \<or> sects \<noteq> prev"
  shows "bitmap_sects_loop tot sects prev bl = None"
proof (rule ccontr)
  let ?I = "\<lambda>tot sects prev. unat tot mod 4097 = 1 \<and> unat tot < 16777216 \<and> unat sects \<le> unat tot \<and> unat prev \<le> unat tot \<and>
      (unat sects = sects_step (unat tot) (unat prev) \<or> sects \<noteq> prev)"
  assume "bitmap_sects_loop tot sects prev bl \<noteq> None"
  then obtain r where r: "bitmap_sects_loop tot sects prev bl = Some r" by blast
  have "\<not> ?I tot sects prev"
  proof (rule bitmap_sects_loop.raw_induct [where P = "\<lambda>tot sects prev bl r. \<not> ?I tot sects prev", OF _ r])
    fix f and tot sects prev :: u32 and bl :: "u32 option" and r :: "u32 \<times> u32 option"
    assume IH: "\<And>tot sects prev bl r. f tot sects prev bl = Some r \<Longrightarrow> \<not> ?I tot sects prev"
      and step: "(if sects \<noteq> prev
        then f tot (DIV_ROUND_UP (tot - sects) BITS_PER_SECTOR) sects (Some (tot - sects)) else Some (sects, bl)) = Some r"
    let ?d = "DIV_ROUND_UP (tot - sects) BITS_PER_SECTOR"
    show "\<not> ?I tot sects prev"
    proof
      assume a: "?I tot sects prev"
      then have u: "unat ?d = sects_step (unat tot) (unat sects)" by (intro sects_step_word) auto
      have "0 < unat tot" using a by (cases "unat tot") auto
      then have le: "unat ?d \<le> unat tot" by (simp add: u sects_step_le)
      have ne: "sects \<noteq> prev" using a no_fixpoint [of "unat tot" "unat prev"] by auto
      then have "f tot ?d sects (Some (tot - sects)) = Some r" using step by simp
      from IH [OF this] show False using a u le by simp
    qed
  qed
  then show False using assms by simp
qed

text \<open>The fixed point, when there is one, and how the loop reaches it.\<close>

lemma sects_fixpoint:
  assumes "n mod 4097 \<noteq> 1" "0 < n"
  shows "(n + 4096) div 4097 \<le> n" "sects_step n ((n + 4096) div 4097) = (n + 4096) div 4097"
proof -
  define q r where "q = n div 4097" and "r = n mod 4097"
  have n: "n = 4097 * q + r" "r < 4097" "r \<noteq> 1" using assms(1) by (simp_all add: q_def r_def)
  show le: "(n + 4096) div 4097 \<le> n" using assms(2) by linarith
  have "(n + 4096) div 4097 = (if r = 0 then q else q + 1)" using n by auto
  then show "sects_step n ((n + 4096) div 4097) = (n + 4096) div 4097"
    unfolding fixpoint_iff [OF le] using n by (auto split: if_splits)
qed

lemma sects_near:
  assumes "n mod 4097 \<noteq> 1" "0 < n" "n < 16777216" "c = (n + 4096) div 4097"
  shows "sects_step n 0 = c \<or> sects_step n 0 = c + 1"
    "sects_step n (c + 1) = c \<or> sects_step n (c + 1) + 1 = c \<and> sects_step n (sects_step n (c + 1)) = c"
proof -
  have c: "4097 * c \<le> n + 4096" "n \<le> 4097 * c" "c \<le> 4096" using assms(3) unfolding assms(4) by linarith+
  have f: "4097 * c < n + 4096"
    using sects_fixpoint [OF assms(1,2)] fixpoint_iff [of c n] assms(4) by simp
  show "sects_step n 0 = c \<or> sects_step n 0 = c + 1" unfolding sects_step_def using c by simp linarith
  show "sects_step n (c + 1) = c \<or> sects_step n (c + 1) + 1 = c \<and> sects_step n (sects_step n (c + 1)) = c"
  proof (cases "4097 * c < n + 4095")
    case True
    then have "sects_step n (c + 1) = c" unfolding sects_step_def using c by linarith
    then show ?thesis ..
  next
    case False
    then have n: "n + 4095 = 4097 * c" using f by simp
    then have "0 < c" "c + 1 \<le> n \<or> n = 2" using assms(2) by linarith+
    then obtain d where d: "c = Suc d" by (cases c) auto
    then have "n = 4097 * d + 2" using n by simp
    then have "sects_step n (c + 1) = d" "sects_step n d = c" unfolding sects_step_def d by simp_all
    then show ?thesis using d by simp
  qed
qed

lemma loop_settles:
  assumes "unat tot < 16777216" "unat sects \<le> unat tot" "sects \<noteq> prev" "sects_step (unat tot) (unat sects) = unat sects"
  shows "bitmap_sects_loop tot sects prev bl = Some (sects, Some (tot - sects))"
proof -
  have "DIV_ROUND_UP (tot - sects) BITS_PER_SECTOR = sects"
    using sects_step_word [OF assms(1,2)] assms(4) by (simp add: word_unat_eq_iff)
  then show ?thesis
    using assms(3) by (simp add: bitmap_sects_loop.simps [of tot sects prev] bitmap_sects_loop.simps [of tot sects sects])
qed

lemma loop_returns:
  assumes "unat tot < 16777216" "0 < unat tot" "unat tot mod 4097 \<noteq> 1"
  shows "bitmap_sects_loop tot (DIV_ROUND_UP tot BITS_PER_SECTOR) 0 None =
     Some (of_nat ((unat tot + 4096) div 4097), Some (tot - of_nat ((unat tot + 4096) div 4097)))"
proof -
  define n c where "n = unat tot" and "c = (unat tot + 4096) div 4097"
  have n: "n mod 4097 \<noteq> 1" "0 < n" "n < 16777216" "c = (n + 4096) div 4097" using assms by (simp_all add: n_def c_def)
  note fp = sects_fixpoint [OF n(1,2), folded n(4)] and near = sects_near [OF n]
  have uc: "unat (of_nat c :: u32) = c" using fp(1) n(3) by (simp add: unat_of_nat)
  have fin: "bitmap_sects_loop tot x prev bl = Some (of_nat c, Some (tot - of_nat c))"
    if "unat x = c" "x \<noteq> prev" for x prev bl
  proof -
    have "x = of_nat c" using that(1) uc by (simp add: word_unat_eq_iff)
    then show ?thesis using loop_settles [of tot x prev bl] that assms(1) fp by (simp add: n_def)
  qed
  let ?f = "\<lambda>x. DIV_ROUND_UP (tot - x) BITS_PER_SECTOR"
  have unf: "x \<noteq> prev \<Longrightarrow> bitmap_sects_loop tot x prev bl = bitmap_sects_loop tot (?f x) x (Some (tot - x))" for x prev bl
    by (subst bitmap_sects_loop.simps) simp
  have step: "unat (?f x) = sects_step n (unat x)" if "unat x \<le> n" for x
    using sects_step_word [of tot x] that n(3) by (simp add: n_def)
  have s0: "unat (?f 0) = sects_step n 0" using step [of 0] by simp
  have ne0: "?f 0 \<noteq> 0" using s0 n(2) by (auto simp: sects_step_def)
  show ?thesis
  proof (cases "sects_step n 0 = c")
    case True
    then show ?thesis using fin [of "?f 0" 0] s0 ne0 by (simp add: c_def)
  next
    case False
    then have s1: "unat (?f 0) = c + 1" using near(1) s0 by simp
    then have t: "unat (?f (?f 0)) = sects_step n (c + 1)" using step [of "?f 0"] s0 sects_step_le [OF n(2), of 0] by simp
    have u1: "bitmap_sects_loop tot (?f 0) 0 None = bitmap_sects_loop tot (?f (?f 0)) (?f 0) (Some (tot - ?f 0))"
      using ne0 by (rule unf)
    from near(2) show ?thesis
    proof
      assume "sects_step n (c + 1) = c"
      then show ?thesis using fin [of "?f (?f 0)" "?f 0"] t s1 u1 by (auto simp: c_def word_unat_eq_iff)
    next
      assume b: "sects_step n (c + 1) + 1 = c \<and> sects_step n (sects_step n (c + 1)) = c"
      then have "?f (?f 0) \<noteq> ?f 0" using t s1 by (auto simp: word_unat_eq_iff)
      then have u2: "bitmap_sects_loop tot (?f (?f 0)) (?f 0) (Some (tot - ?f 0)) =
          bitmap_sects_loop tot (?f (?f (?f 0))) (?f (?f 0)) (Some (tot - ?f (?f 0)))" by (rule unf)
      have "unat (?f (?f (?f 0))) = c" using step [of "?f (?f 0)"] t b sects_step_le [OF n(2)] by simp
      then show ?thesis using fin [of "?f (?f (?f 0))" "?f (?f 0)"] t b u1 u2 by (auto simp: c_def word_unat_eq_iff)
    qed
  qed
qed

lemma bitmap_sizing:
  assumes "0 < unat n" "unat n < 16777216" and r: "unat n mod 4097 \<noteq> 1"
  shows "\<exists>sects bit_len. bitmap_sects_loop n (DIV_ROUND_UP n BITS_PER_SECTOR) 0 None = Some (sects, Some bit_len) \<and>
      unat bit_len + unat sects = unat n \<and> unat bit_len \<le> 4096 * unat sects \<and> 4096 * unat sects < unat bit_len + 4096"
proof -
  define c where "c = (unat n + 4096) div 4097"
  have c: "c \<le> unat n" "4097 * c < unat n + 4096" "unat n \<le> 4097 * c"
    using sects_fixpoint [OF r assms(1)] fixpoint_iff [of c "unat n"] by (auto simp: c_def)
  define x :: u32 where "x = of_nat c"
  have u: "unat x = c" using c(1) assms(2) by (simp add: x_def unat_of_nat)
  have b: "unat (n - x) = unat n - c" using unat_minus_small [of x n] c(1) by (simp add: u)
  have "bitmap_sects_loop n (DIV_ROUND_UP n BITS_PER_SECTOR) 0 None = Some (x, Some (n - x))"
    using loop_returns [OF assms(2,1) r] by (simp only: c_def x_def)
  moreover have "unat (n - x) + unat x = unat n" "unat (n - x) \<le> 4096 * unat x" "4096 * unat x < unat (n - x) + 4096"
    unfolding u b using c by linarith+
  ultimately show ?thesis by blast
qed

section \<open>The initial bitmaps\<close>

lemma clear_low_bits:
  "p < length bs \<Longrightarrow>
     foldl (\<lambda>b j. b[p := b ! p AND NOT (push_bit j (1 :: u8))]) bs [0..<c] = bs[p := bs ! p AND NOT (mask c)]"
proof (induction c)
  case (Suc c)
  have "(x AND NOT (mask c)) AND NOT (push_bit c 1) = x AND NOT (mask (Suc c))" for x :: u8
    by (rule bit_eqI) (auto simp: bit_simps less_Suc_eq)
  then show ?case using Suc by simp
qed simp

lemma init_block_bitmap_bits:
  assumes "8 \<le> unat L" "unat L \<le> 4096 * m" "4096 * m < unat L + 4096" "m < 608"
  obtains bs where "init_block_bitmap 311296 L = Some bs" "length bs = 311296"
    "\<And>k. k < 4096 * m \<Longrightarrow> bit (bs ! (k div 8)) (k mod 8) \<longleftrightarrow> k = 0 \<or> unat L \<le> k"
proof -
  define p c where "p = unat L div 8" and "c = unat L mod 8"
  define n where "n = 512 - p mod 512"
  have L: "unat L = 8 * p + c" "c < 8" by (simp_all add: p_def c_def)
  have p: "1 \<le> p" "p \<le> 512 * m" "512 * m \<le> p + n" "p + n \<le> 311296" "0 < n"
  proof -
    define d where "d = p div 512"
    have d: "p = 512 * d + p mod 512" "p mod 512 < 512" by (simp_all add: d_def)
    then show "0 < n" by (simp add: n_def)
    have pn: "p + n = 512 * (d + 1)" using d by (simp add: n_def)
    show "1 \<le> p" "p \<le> 512 * m" using assms(1,2) L by linarith+
    have "512 * m < p + 513" using assms(3) L by linarith
    then have "512 * m < 512 * (d + 2)" using d by simp
    then have "m \<le> d + 1" by simp
    then show "512 * m \<le> p + n" unfolding pn by simp
    have "512 * d \<le> 512 * m" using d \<open>p \<le> 512 * m\<close> by linarith
    then show "p + n \<le> 311296" unfolding pn using assms(4) by simp
  qed
  define b0 :: "u8 list" where "b0 = splice p (replicate n 0xff) ((replicate 311296 0)[0 := 1])"
  have l0: "length b0 = 311296" using p by (simp add: b0_def)
  have e: "unat (L div 8) = p" "unat (L mod 8) = c" by (simp_all add: p_def c_def unat_div unat_mod)
  have i: "init_block_bitmap 311296 L = Some (b0[p := b0 ! p AND NOT (mask c)])"
    unfolding init_block_bitmap_def Let_def e n_def [symmetric] b0_def [symmetric]
    using clear_low_bits [of p b0 c] p l0 by simp
  have nth: "b0 ! j = (if p \<le> j \<and> j < p + n then 0xff else if j = 0 then 1 else 0)" if "j < 311296" for j
    using that p by (auto simp: b0_def nth_splice)
  have ff: "bit (0xff :: u8) j \<longleftrightarrow> j < 8" for j
  proof -
    have m: "(0xff :: u8) = mask 8" by (simp add: mask_eq_exp_minus_1)
    show ?thesis unfolding m bit_mask_iff by simp
  qed
  have "bit (b0[p := b0 ! p AND NOT (mask c)] ! (k div 8)) (k mod 8) \<longleftrightarrow> k = 0 \<or> unat L \<le> k" if k: "k < 4096 * m" for k
  proof -
    have kd: "k div 8 < p + n" "k div 8 < 311296" using k p by linarith+
    have km: "k = 8 * (k div 8) + k mod 8" "k mod 8 < 8" by simp_all
    consider "k div 8 < p" | "k div 8 = p" | "p < k div 8" by linarith
    then show ?thesis
    proof cases
      case 1
      then have "\<not> unat L \<le> k" using km L by linarith
      moreover have "bit (b0 ! (k div 8)) (k mod 8) \<longleftrightarrow> k = 0"
        using nth [OF kd(2)] 1 km by (auto simp: bit_1_iff)
      ultimately show ?thesis using 1 by simp
    next
      case 2
      then have "unat L \<le> k \<longleftrightarrow> c \<le> k mod 8" "k \<noteq> 0" using km L p by linarith+
      then show ?thesis using 2 nth [OF kd(2)] kd l0 km(2) p ff [of "k mod 8"] by (auto simp: bit_simps)
    next
      case 3
      then have "unat L \<le> k" using km L by linarith
      then show ?thesis using 3 nth [OF kd(2)] kd km(2) ff [of "k mod 8"] by simp
    qed
  qed
  then show thesis using that i l0 by simp
qed

section \<open>Formatting and mounting\<close>

lemma sizes [simp]: "inode_sects = 608" "used_sects = 611"
  by (simp_all add: inode_sects_def used_sects_def DIV_ROUND_UP_def sizeof_inode_def MAX_FILES_PER_PART_def BITS_PER_SECTOR_def)

lemma dec_enc_sb: "dec_sb (enc_sb b pad) = b"
proof -
  let ?ws = "[magic b, sb_sec_cnt b, inode_cnt b, part_lba_base b, block_bitmap_lba b, block_bitmap_sects b,
    inode_bitmap_lba b, inode_bitmap_sects b, inode_table_lba b, inode_table_sects b, data_start_lba b, root_inode_no b, dir_entry_size b]"
  have r: "rd32 (enc_sb b pad) (4 * k) = ?ws ! k" if "k < 13" for k
    using rd32_enc_words [of k ?ws "[]" pad] that by (simp add: enc_sb_def)
  show ?thesis
    using r [of 0] r [of 1] r [of 2] r [of 3] r [of 4] r [of 5] r [of 6] r [of 7] r [of 8] r [of 9] r [of 10] r [of 11] r [of 12]
    by (simp add: dec_sb_def eval_nat_numeral)
qed

text \<open>The areas of a partition of \<open>cnt\<close> sectors with \<open>x\<close> sectors of block bitmap.\<close>

lemma area_starts:
  assumes "unat (start :: u32) + unat (x :: u32) + 612 \<le> 163840"
  shows "unat (start + 1) = unat start + 1" "unat (start + 2) = unat start + 2" "unat (start + 2 + x) = unat start + 2 + unat x"
    "unat (start + 2 + x + 1) = unat start + 3 + unat x" "unat (start + 2 + x + 1 + 608) = unat start + 611 + unat x"
proof -
  show 1: "unat (start + 1) = unat start + 1" "unat (start + 2) = unat start + 2"
    using assms unat_plus_small [of start 1] unat_plus_small [of start 2] by simp_all
  show 2: "unat (start + 2 + x) = unat start + 2 + unat x"
    using assms unat_plus_small [of "start + 2" x] 1(2) by simp
  show 3: "unat (start + 2 + x + 1) = unat start + 3 + unat x"
    using assms unat_plus_small [of "start + 2 + x" 1] 2 by simp
  show "unat (start + 2 + x + 1 + 608) = unat start + 611 + unat x"
    using assms unat_plus_small [of "start + 2 + x + 1" 608] 3 by simp
qed

lemma make_super_block_fields:
  "block_bitmap_lba (make_super_block start cnt x) = start + 2" "block_bitmap_sects (make_super_block start cnt x) = x"
  "inode_bitmap_lba (make_super_block start cnt x) = start + 2 + x" "inode_bitmap_sects (make_super_block start cnt x) = 1"
  "inode_table_lba (make_super_block start cnt x) = start + 2 + x + 1" "inode_table_sects (make_super_block start cnt x) = 608"
  "data_start_lba (make_super_block start cnt x) = start + 2 + x + 1 + 608" "dir_entry_size (make_super_block start cnt x) = 24"
  by (simp_all add: make_super_block_def Let_def DIV_ROUND_UP_def MAX_FILES_PER_PART_def BITS_PER_SECTOR_def)

text \<open>The disk after formatting: five writes to areas that do not overlap.\<close>

definition formatted_disk :: "u32 \<Rightarrow> super_block \<Rightarrow> u8 list \<Rightarrow> u8 list \<Rightarrow> disk \<Rightarrow> disk" where
  "formatted_disk start b pad bbs d =
     hd_store (hd_store (hd_store (hd_store (hd_store d (start + 1) 1 (enc_sb b pad))
       (block_bitmap_lba b) (unat (block_bitmap_sects b)) bbs) (inode_bitmap_lba b) 1 ((replicate 311296 0)[0 := 1]))
       (inode_table_lba b) 608 (splice 0 (enc_inode (root_inode b)) (replicate 311296 0))) (data_start_lba b) 1 (dot_sector 0 0)"

lemma length_dot_sector [simp]: "length (dot_sector a b) = 512"
  by (simp add: dot_sector_def enc_de_def)

lemma partition_format_eq:
  assumes d: "disk_ok (hd0 s)" and x: "unat start + unat x + 612 \<le> 163840" "0 < unat x" "unat x < 608" and pad: "length pad = 460"
    and loop: "bitmap_sects_loop (cnt - 611) (DIV_ROUND_UP (cnt - 611) BITS_PER_SECTOR) 0 None = Some (x, Some L)"
    and bbs: "init_block_bitmap 311296 L = Some bbs" "length bbs = 311296"
    and mem: "mallocs s = a # r" "a \<noteq> 0"
  shows "partition_format start cnt pad s =
      Some (s\<lparr>mallocs := r, hd0 := formatted_disk start (make_super_block start cnt x) pad bbs (hd0 s)\<rparr>)"
    and "disk_ok (formatted_disk start (make_super_block start cnt x) pad bbs (hd0 s))"
proof -
  let ?b = "make_super_block start cnt x"
  note u = area_starts [OF x(1)] and f = make_super_block_fields [of start cnt x]
  have ms: "meta_buf_size ?b = 311296" using x(3) by (simp add: meta_buf_size_def f)
  have lsb: "length (enc_sb ?b pad) = 512" by (simp add: enc_sb_def pad)
  have li: "length (enc_inode (root_inode ?b)) = 76" by (simp add: root_inode_def)
  have o1: "disk_ok (hd_store (hd0 s) (start + 1) (Suc 0) (enc_sb ?b pad))" (is "disk_ok ?d1")
    using d by (rule hd_store_ok) (simp add: lsb)
  have o2: "disk_ok (hd_store ?d1 (start + 2) (unat x) bbs)" (is "disk_ok ?d2")
    using o1 by (rule hd_store_ok) (use bbs x in simp)
  have o3: "disk_ok (hd_store ?d2 (start + 2 + x) (Suc 0) ((replicate 311296 0)[0 := 1]))" (is "disk_ok ?d3")
    using o2 by (rule hd_store_ok) simp
  have o4: "disk_ok (hd_store ?d3 (start + 2 + x + 1) 608 (splice 0 (enc_inode (root_inode ?b)) (replicate 311296 0)))" (is "disk_ok ?d4")
    using o3 by (rule hd_store_ok) (simp add: li)
  have o5: "disk_ok (hd_store ?d4 (start + 2 + x + 1 + 608) (Suc 0) (dot_sector 0 0))" using o4 by (rule hd_store_ok) simp
  show "disk_ok (formatted_disk start ?b pad bbs (hd0 s))" using o5 by (simp only: formatted_disk_def f One_nat_def)
  show "partition_format start cnt pad s = Some (s\<lparr>mallocs := r, hd0 := formatted_disk start ?b pad bbs (hd0 s)\<rparr>)"
    unfolding partition_format_def Let_def sizes loop
    using d o1 o2 o3 o4 bbs mem x li lsb u
    by (simp add: f ms hd_write_eq fs_malloc_def NONNULL_def fs_free_def formatted_disk_def del: hd_store_1)
qed

lemma formatted_disk_areas:
  assumes x: "unat start + unat x + 612 \<le> 163840" and pad: "length pad = 460" and bbs: "length bbs = 311296" "unat x < 608"
  shows "formatted_disk start (make_super_block start cnt x) pad bbs d (start + 1) = enc_sb (make_super_block start cnt x) pad"
    "hd_sectors (formatted_disk start (make_super_block start cnt x) pad bbs d) (start + 2) (unat x) = take (512 * unat x) bbs"
    "formatted_disk start (make_super_block start cnt x) pad bbs d (start + 2 + x) = 1 # replicate 511 0"
    "hd_sectors (formatted_disk start (make_super_block start cnt x) pad bbs d) (start + 2 + x + 1) 608 =
       splice 0 (enc_inode (root_inode (make_super_block start cnt x))) (replicate 311296 0)"
    "formatted_disk start (make_super_block start cnt x) pad bbs d (start + 2 + x + 1 + 608) = dot_sector 0 0"
proof -
  let ?b = "make_super_block start cnt x"
  note u = area_starts [OF x] and f = make_super_block_fields [of start cnt x]
  have lsb: "length (enc_sb ?b pad) = 512" by (simp add: enc_sb_def pad)
  have li: "length (enc_inode (root_inode ?b)) = 76" by (simp add: root_inode_def)
  have i1: "hd_store e l 1 ((replicate 311296 0)[0 := 1]) l = 1 # replicate 511 0" for e l
    using hd_store_take [of 1 "(replicate 311296 0)[0 := 1]" e l] replicate_Suc [of 511 "0 :: u8"]
    by (simp add: take_update_swap)
  show "formatted_disk start ?b pad bbs d (start + 2 + x + 1 + 608) = dot_sector 0 0"
    by (simp add: formatted_disk_def f)
  show "formatted_disk start ?b pad bbs d (start + 1) = enc_sb ?b pad"
    unfolding formatted_disk_def f using u x lsb by (simp add: hd_sector_other disjoint_areas_def del: hd_store_1) (simp add: lsb)
  show "formatted_disk start ?b pad bbs d (start + 2 + x) = 1 # replicate 511 0"
    unfolding formatted_disk_def f using u x i1 by (simp add: hd_sector_other disjoint_areas_def del: hd_store_1)
  show "hd_sectors (formatted_disk start ?b pad bbs d) (start + 2) (unat x) = take (512 * unat x) bbs"
    unfolding formatted_disk_def f using u x bbs by (simp add: hd_sectors_other disjoint_areas_def hd_store_take del: hd_store_1)
  show "hd_sectors (formatted_disk start ?b pad bbs d) (start + 2 + x + 1) 608 = splice 0 (enc_inode (root_inode ?b)) (replicate 311296 0)"
    unfolding formatted_disk_def f using u x li by (simp add: hd_sectors_other disjoint_areas_def hd_store_read del: hd_store_1)
qed

lemma mount_formatted:
  assumes x: "unat start + unat x + 612 \<le> 163840" "0 < unat x" "unat x < 608"
    and pad: "length pad = 460" and bbs: "length bbs = 311296"
    and d: "hd0 s = formatted_disk start (make_super_block start cnt x) pad bbs d0" "disk_ok (hd0 s)"
    and mem: "mallocs s = a1 # a2 # a3 # a4 # r" "a1 \<noteq> 0" "a2 \<noteq> 0" "a3 \<noteq> 0" "a4 \<noteq> 0"
  shows "mount_partition start cnt s = Some (s\<lparr>mallocs := r, cur_part :=
     \<lparr>start_lba = start, sec_cnt = cnt, sb = make_super_block start cnt x,
      block_bitmap = load_bitmap (x * 512) (take (512 * unat x) bbs),
      inode_bitmap = load_bitmap 512 (1 # replicate 511 0), open_inodes = []\<rparr>\<rparr>)"
proof -
  note u = area_starts [OF x(1)] and f = make_super_block_fields [of start cnt x]
    and areas = formatted_disk_areas [OF x(1) pad bbs x(3), of cnt d0, folded d(1)]
  show ?thesis
    using mem d(2) x u by (simp add: mount_partition_def fs_malloc_def hd_read_eq areas dec_enc_sb f fs_free_def)
qed

lemma loaded_bit: "k div 8 < length bs \<Longrightarrow> length bs < 4294967296 \<Longrightarrow> bit_at (load_bitmap n bs) k \<longleftrightarrow> bit (bs ! (k div 8)) (k mod 8)"
  by (simp add: bit_at_def load_bitmap_def unat_of_nat_small)

lemma loaded_inode_map:
  assumes "k < 4096"
  shows "bit_at (load_bitmap 512 (1 # replicate 511 0)) k \<longleftrightarrow> k = 0"
proof -
  have d: "k div 8 < 512" using assms by linarith
  then have "bit_at (load_bitmap 512 (1 # replicate 511 0)) k \<longleftrightarrow> bit ((1 # replicate 511 0) ! (k div 8) :: u8) (k mod 8)"
    by (simp add: loaded_bit)
  then show ?thesis using d by (cases "k div 8") (auto simp: bit_1_iff dvd_imp_mod_0 mod_eq_self_iff_div_eq_0)
qed

lemma loaded_block_map:
  assumes "length bbs = 311296" "unat x < 608" "k < 4096 * unat x"
    and "\<And>k. k < 4096 * unat x \<Longrightarrow> bit (bbs ! (k div 8)) (k mod 8) \<longleftrightarrow> k = 0 \<or> L \<le> k"
  shows "bit_at (load_bitmap n (take (512 * unat x) bbs)) k \<longleftrightarrow> k = 0 \<or> L \<le> k"
proof -
  have "k div 8 < 512 * unat x" using assms(3) by linarith
  then show ?thesis using assms(1,2) assms(4) [OF assms(3)] by (simp add: loaded_bit)
qed

section \<open>Properties\<close>

text \<open>
  Property C31: the loop that sizes the block bitmap returns exactly when the number of free sectors does not
  leave the remainder 1 modulo 4097; then the bitmap has a bit for every remaining sector and no spare sector.
  For the remainder 1 the loop alternates between two sizes for ever, and so does formatting.
\<close>

theorem bitmap_sizing_terminates_iff:
  assumes "0 < unat n" "unat n < 16777216"
  shows "(unat n mod 4097 \<noteq> 1 \<longrightarrow>
            (\<exists>sects bit_len. bitmap_sects_loop n (DIV_ROUND_UP n BITS_PER_SECTOR) 0 None = Some (sects, Some bit_len) \<and>
               unat bit_len + unat sects = unat n \<and> unat bit_len \<le> 4096 * unat sects \<and> 4096 * unat sects < unat bit_len + 4096)) \<and>
         (unat n mod 4097 = 1 \<longrightarrow> bitmap_sects_loop n (DIV_ROUND_UP n BITS_PER_SECTOR) 0 None = None \<and>
            partition_format start (n + used_sects) pad s = None)"
proof (intro conjI impI)
  assume r: "unat n mod 4097 \<noteq> 1"
  then show "\<exists>sects bit_len. bitmap_sects_loop n (DIV_ROUND_UP n BITS_PER_SECTOR) 0 None = Some (sects, Some bit_len) \<and>
      unat bit_len + unat sects = unat n \<and> unat bit_len \<le> 4096 * unat sects \<and> 4096 * unat sects < unat bit_len + 4096"
    using assms by (intro bitmap_sizing)
next
  assume r: "unat n mod 4097 = 1"
  have "unat (DIV_ROUND_UP n BITS_PER_SECTOR) = sects_step (unat n) 0"
    using sects_step_word [of n 0] assms(2) by simp
  moreover have "sects_step (unat n) 0 \<noteq> 0" using assms(1) by (simp add: sects_step_def)
  ultimately have "unat (DIV_ROUND_UP n BITS_PER_SECTOR) \<le> unat n" "DIV_ROUND_UP n BITS_PER_SECTOR \<noteq> 0"
    using sects_step_le [OF assms(1), of 0] by auto
  then show d: "bitmap_sects_loop n (DIV_ROUND_UP n BITS_PER_SECTOR) 0 None = None"
    using r assms(2) by (intro loop_diverges) auto
  show "partition_format start (n + used_sects) pad s = None"
    by (simp add: partition_format_def d)
qed

theorem bitmap_sizing_terminates_iff_witness:
  "(\<exists>sects bit_len. bitmap_sects_loop 20000 (DIV_ROUND_UP 20000 BITS_PER_SECTOR) 0 None = Some (sects, Some bit_len)) \<and>
   partition_format 2048 (4098 + used_sects) [] demo_fs = None"
proof
  show "\<exists>sects bit_len. bitmap_sects_loop 20000 (DIV_ROUND_UP 20000 BITS_PER_SECTOR) 0 None = Some (sects, Some bit_len)"
    using bitmap_sizing_terminates_iff [of 20000] by auto
  show "partition_format 2048 (4098 + used_sects) [] demo_fs = None"
    using bitmap_sizing_terminates_iff [of 4098 2048 "[]" demo_fs] by simp
qed

text \<open>
  Property C18: formatting a partition (of at least 627 sectors, not hitting the divergence of the sizing loop, on
  the supported part of the disk) and mounting it gives a well-formed file system: the areas are laid out in order,
  exactly the blocks that exist behind the root directory's are free, only inode 0 is taken, it is the
  root directory's, and the root directory holds \<open>.\<close> and \<open>..\<close>.
\<close>

theorem format_then_mount:
  assumes d: "disk_ok (hd0 s)" and cnt: "627 \<le> unat cnt" "(unat cnt - 611) mod 4097 \<noteq> 1" "unat start + unat cnt \<le> 163840"
    and pad: "length pad = 460"
    and mem: "mallocs s = a # a1 # a2 # a3 # a4 # r" "a \<noteq> 0" "a1 \<noteq> 0" "a2 \<noteq> 0" "a3 \<noteq> 0" "a4 \<noteq> 0"
  shows "\<exists>s1 s2. partition_format start cnt pad s = Some s1 \<and> mount_partition start cnt s1 = Some s2 \<and> fs_ok s2 \<and>
     (\<forall>k < btmp_bits (block_bitmap (cur_part s2)).
        bit_at (block_bitmap (cur_part s2)) k \<longleftrightarrow>
          k = 0 \<or> unat start + unat cnt \<le> unat (data_start_lba (sb (cur_part s2))) + k) \<and>
     (\<forall>k < 4096. bit_at (inode_bitmap (cur_part s2)) k \<longleftrightarrow> k = 0) \<and>
     disk_inode s2 0 = root_inode (sb (cur_part s2)) \<and>
     hd0 s2 (data_start_lba (sb (cur_part s2))) = dot_sector 0 0"
proof -
  have n: "unat (cnt - 611) = unat cnt - 611" using cnt(1) unat_minus_small [of 611 cnt] by simp
  then have "0 < unat (cnt - 611)" "unat (cnt - 611) < 16777216" "unat (cnt - 611) mod 4097 \<noteq> 1" using cnt by simp_all
  from bitmap_sizing [OF this] obtain x L where loop: "bitmap_sects_loop (cnt - 611) (DIV_ROUND_UP (cnt - 611) BITS_PER_SECTOR) 0 None = Some (x, Some L)"
    and L: "unat L + unat x = unat cnt - 611" "unat L \<le> 4096 * unat x" "4096 * unat x < unat L + 4096"
    using n by auto
  have x: "unat start + unat x + 612 \<le> 163840" "0 < unat x" "unat x < 608" using L cnt by linarith+
  have "8 \<le> unat L" using L cnt(1) by linarith
  from init_block_bitmap_bits [OF this L(2,3) x(3)] obtain bbs where bbs: "init_block_bitmap 311296 L = Some bbs" "length bbs = 311296"
    "\<And>k. k < 4096 * unat x \<Longrightarrow> bit (bbs ! (k div 8)) (k mod 8) \<longleftrightarrow> k = 0 \<or> unat L \<le> k" by metis
  let ?b = "make_super_block start cnt x"
  define dk where "dk = formatted_disk start ?b pad bbs (hd0 s)"
  define s1 where "s1 = s\<lparr>mallocs := a1 # a2 # a3 # a4 # r, hd0 := dk\<rparr>"
  note pf = partition_format_eq [OF d x pad loop bbs(1,2) mem(1,2), folded dk_def]
  have m: "mount_partition start cnt s1 = Some (s1\<lparr>mallocs := r, cur_part :=
     \<lparr>start_lba = start, sec_cnt = cnt, sb = ?b, block_bitmap = load_bitmap (x * 512) (take (512 * unat x) bbs),
      inode_bitmap = load_bitmap 512 (1 # replicate 511 0), open_inodes = []\<rparr>\<rparr>)" (is "_ = Some ?s2")
    by (rule mount_formatted [OF x pad bbs(2), where ?d0.0 = "hd0 s" and ?a1.0 = a1 and ?a2.0 = a2 and ?a3.0 = a3 and ?a4.0 = a4])
      (use mem pf(2) in \<open>simp_all add: s1_def dk_def\<close>)
  note u = area_starts [OF x(1)] and f = make_super_block_fields [of start cnt x]
    and areas = formatted_disk_areas [OF x(1) pad bbs(2) x(3), of cnt "hd0 s", folded dk_def]
  have bl: "unat (x * 512) = 512 * unat x" using x(3) by (simp add: unat_word_ariths)
  have "unat (start + cnt) = unat start + unat cnt" using cnt(3) by (intro unat_plus_small) simp
  then have "layout_ok (cur_part ?s2)"
    using u x L bl cnt by (simp add: layout_ok_def Let_def f load_bitmap_def)
  then have ok: "fs_ok ?s2" using pf(2) by (simp add: fs_ok_def s1_def)
  have blocks: "bit_at (block_bitmap (cur_part ?s2)) k \<longleftrightarrow> k = 0 \<or> unat start + unat cnt \<le> unat (data_start_lba (sb (cur_part ?s2))) + k"
    if "k < btmp_bits (block_bitmap (cur_part ?s2))" for k
  proof -
    have k: "k < 4096 * unat x" using that by (simp add: btmp_bits_def load_bitmap_def bl)
    have "unat L \<le> k \<longleftrightarrow> unat start + unat cnt \<le> unat (data_start_lba ?b) + k" unfolding f u using L cnt(1) by linarith
    then show ?thesis using loaded_block_map [OF bbs(2) x(3) k bbs(3), of "x * 512"] by simp
  qed
  have inodes: "bit_at (inode_bitmap (cur_part ?s2)) k \<longleftrightarrow> k = 0" if "k < 4096" for k
    using loaded_inode_map [OF that] by simp
  have l13: "length (i_sectors (root_inode ?b)) = 13" by (simp add: root_inode_def)
  have "inode_table ?s2 = hd_sectors dk (inode_table_lba ?b) 608" by (simp add: inode_table_def s1_def)
  then have t: "inode_table ?s2 = splice 0 (enc_inode (root_inode ?b)) (replicate 311296 0)" unfolding f areas(4) .
  have rt: "disk_inode ?s2 0 = root_inode ?b" unfolding disk_inode_def t
    using splice_get [of 0 "enc_inode (root_inode ?b)" "replicate 311296 0"] dec_enc_inode [OF l13] l13 by simp
  have e: "sb (cur_part ?s2) = ?b" "hd0 ?s2 = dk" by (simp_all add: s1_def)
  show ?thesis
  proof (intro exI conjI)
    show "partition_format start cnt pad s = Some s1" using pf(1) by (simp only: s1_def)
    show "mount_partition start cnt s1 = Some ?s2" by (rule m)
    show "disk_inode ?s2 0 = root_inode (sb (cur_part ?s2))" by (simp only: rt e)
    show "hd0 ?s2 (data_start_lba (sb (cur_part ?s2))) = dot_sector 0 0" by (simp only: e f areas(5))
  qed (use ok blocks inodes in blast)+
qed

theorem format_then_mount_witness:
  "\<exists>s1 s2. partition_format 2048 4000 (replicate 460 0) (demo_fs\<lparr>mallocs := [1, 2, 3, 4, 5]\<rparr>) = Some s1 \<and>
     mount_partition 2048 4000 s1 = Some s2 \<and> fs_ok s2"
  using format_then_mount [of "demo_fs\<lparr>mallocs := [1, 2, 3, 4, 5]\<rparr>" 4000 2048 "replicate 460 0" 1 2 3 4 5 "[]"]
  by (auto simp: disk_ok_def)

end
