(* ===== verification/Keyboard.thy ===== *)
theory Keyboard
  imports IoQueue
begin

text \<open>
  The keyboard interrupt handler of device/keyboard.c: a state machine over scan
  codes that tracks the modifier keys and feeds characters to the input ring.
  The scan code is the byte the handler reads from port 0x60; the message for an
  unknown key is not modelled.
\<close>

definition keymap :: "(u8 \<times> u8) list" where
  "keymap =
     [
      (0, 0), (27, 27), (49, 33), (50, 64), (51, 35), (52, 36), (53, 37), (54, 94),
      (55, 38), (56, 42), (57, 40), (48, 41), (45, 95), (61, 43), (8, 8), (9, 9),
      (113, 81), (119, 87), (101, 69), (114, 82), (116, 84), (121, 89), (117, 85), (105, 73),
      (111, 79), (112, 80), (91, 123), (93, 125), (13, 13), (0, 0), (97, 65), (115, 83),
      (100, 68), (102, 70), (103, 71), (104, 72), (106, 74), (107, 75), (108, 76), (59, 58),
      (39, 34), (96, 126), (0, 0), (92, 124), (122, 90), (120, 88), (99, 67), (118, 86),
      (98, 66), (110, 78), (109, 77), (44, 60), (46, 62), (47, 63), (0, 0), (42, 42),
      (0, 0), (32, 32), (0, 0)
     ]"

definition shift_l_make :: u16 where
  "shift_l_make = 0x2a"

definition shift_r_make :: u16 where
  "shift_r_make = 0x36"

definition alt_l_make :: u16 where
  "alt_l_make = 0x38"

definition alt_r_make :: u16 where
  "alt_r_make = 0xe038"

definition ctrl_l_make :: u16 where
  "ctrl_l_make = 0x1d"

definition ctrl_r_make :: u16 where
  "ctrl_r_make = 0xe01d"

definition caps_lock_make :: u16 where
  "caps_lock_make = 0x3a"

lemmas make_codes = shift_l_make_def shift_r_make_def alt_l_make_def alt_r_make_def ctrl_l_make_def
  ctrl_r_make_def caps_lock_make_def

record kbd =
  ctrl_status :: int
  shift_status :: int
  alt_status :: int
  caps_lock_status :: int
  ext_scancode :: int

definition kbd_break :: "u16 \<Rightarrow> kbd \<Rightarrow> kbd" where
  "kbd_break scancode k =
     (let make_code = scancode AND 0xff7f
      in if make_code = ctrl_l_make \<or> make_code = ctrl_r_make then k\<lparr>ctrl_status := 0\<rparr>
         else if make_code = shift_l_make \<or> make_code = shift_r_make then k\<lparr>shift_status := 0\<rparr>
         else if make_code = alt_l_make \<or> make_code = alt_r_make then k\<lparr>alt_status := 0\<rparr>
         else k)"

definition two_char_key :: "u16 \<Rightarrow> bool" where
  "two_char_key scancode \<longleftrightarrow>
     scancode < 0x0e \<or> scancode = 0x29 \<or> scancode = 0x1a \<or> scancode = 0x1b \<or> scancode = 0x2b \<or>
     scancode = 0x27 \<or> scancode = 0x28 \<or> scancode = 0x33 \<or> scancode = 0x34 \<or> scancode = 0x35"

definition kbd_char :: "u16 \<Rightarrow> kbd \<Rightarrow> u8" where
  "kbd_char scancode k =
     (let shift = (if two_char_key scancode then shift_status k \<noteq> 0
                   else shift_status k + caps_lock_status k = 1);
          entry = keymap ! unat (scancode AND 0x00ff);
          cur_char = (if shift then snd entry else fst entry)
      in if (ctrl_status k \<noteq> 0 \<and> cur_char = 108) \<or> (ctrl_status k \<noteq> 0 \<and> cur_char = 117)
         then cur_char - 97 else cur_char)"

text \<open>
  The character before the control-key adjustment decides whether anything is queued;
  the adjustment never yields 0, so testing the adjusted character is the same.
\<close>

definition kbd_make ::
  "u16 \<Rightarrow> kbd \<Rightarrow> ioqueue \<Rightarrow> 'a sched_scheme \<Rightarrow> (kbd \<times> ioqueue \<times> 'a sched_scheme) option"
where
  "kbd_make scancode k kbd_buf s =
     (if scancode = ctrl_l_make \<or> scancode = ctrl_r_make then Some (k\<lparr>ctrl_status := 1\<rparr>, kbd_buf, s)
      else if scancode = shift_l_make \<or> scancode = shift_r_make then Some (k\<lparr>shift_status := 1\<rparr>, kbd_buf, s)
      else if scancode = alt_l_make \<or> scancode = alt_r_make then Some (k\<lparr>alt_status := 1\<rparr>, kbd_buf, s)
      else if scancode = caps_lock_make
      then Some (k\<lparr>caps_lock_status := (if caps_lock_status k = 0 then 1 else 0)\<rparr>, kbd_buf, s)
      else if kbd_char scancode k \<noteq> 0 then
        do {
          full \<leftarrow> ioq_full kbd_buf s;
          (if \<not> full then
             (case ioq_putchar (kbd_char scancode k) kbd_buf s of
                Some (Inr (kbd_buf, s)) \<Rightarrow> Some (k, kbd_buf, s)
              | _ \<Rightarrow> None)
           else Some (k, kbd_buf, s))
        }
      else Some (k, kbd_buf, s))"

definition intr_keyboard_handler ::
  "u8 \<Rightarrow> kbd \<Rightarrow> ioqueue \<Rightarrow> 'a sched_scheme \<Rightarrow> (kbd \<times> ioqueue \<times> 'a sched_scheme) option"
where
  "intr_keyboard_handler inb k kbd_buf s =
     (let scancode = ucast inb :: u16
      in if scancode = 0xe0 then Some (k\<lparr>ext_scancode := 1\<rparr>, kbd_buf, s)
         else
           (let (scancode, k) =
              (if ext_scancode k \<noteq> 0 then (0xe000 OR scancode, k\<lparr>ext_scancode := 0\<rparr>) else (scancode, k))
            in if scancode AND 0x0080 \<noteq> 0 then Some (kbd_break scancode k, kbd_buf, s)
               else if (scancode > 0x00 \<and> scancode < 0x3b) \<or> scancode = alt_r_make \<or> scancode = ctrl_r_make
               then kbd_make scancode k kbd_buf s
               else Some (k, kbd_buf, s)))"

subsection \<open>Properties\<close>

lemma kbd_make_returns:
  assumes "ioq_ok q s"
  shows "\<exists>k' q' s'. kbd_make x k q s = Some (k', q', s') \<and> ioq_ok q' s' \<and>
           (ioq_data q' = ioq_data q \<or> ioq_data q' = ioq_data q @ [kbd_char x k])"
proof -
  have off: "intr_get_status s = INTR_OFF" "ioq_pos q" using assms by (auto simp: ioq_ok_def)
  have put: "\<exists>q' s'. ioq_putchar b q s = Some (Inr (q', s')) \<and> ioq_ok q' s' \<and> ioq_data q' = ioq_data q @ [b]"
    if "next_pos (head q) \<noteq> tail q" for b
    using that full_iff [OF off(2)] count_less [of q] by (intro ioq_putchar_room [OF assms]) linarith
  show ?thesis
    using off(1) assms put [of "kbd_char x k"] by (auto simp: kbd_make_def ioq_full_def)
qed

text \<open>The handler returns for every byte, without sleeping or failing an assertion, and adds at most one character.\<close>

lemma keyboard_handler_returns:
  assumes "ioq_ok q s"
  shows "\<exists>k' q' s'. intr_keyboard_handler code k q s = Some (k', q', s') \<and> ioq_ok q' s' \<and>
           (ioq_data q' = ioq_data q \<or> (\<exists>ch. ioq_data q' = ioq_data q @ [ch]))"
proof -
  have "\<exists>k' q' s'. kbd_make x k q s = Some (k', q', s') \<and> ioq_ok q' s' \<and>
           (ioq_data q' = ioq_data q \<or> (\<exists>ch. ioq_data q' = ioq_data q @ [ch]))" for x k
    using kbd_make_returns [OF assms, of x k] by blast
  then show ?thesis using assms by (auto simp: intr_keyboard_handler_def Let_def)
qed

definition demo_kbd :: kbd where
  "demo_kbd = \<lparr>ctrl_status = 0, shift_status = 1, alt_status = 0, caps_lock_status = 0, ext_scancode = 0\<rparr>"

lemma keyboard_handler_returns_demo:
  "\<exists>k' q' s'. intr_keyboard_handler 0x1e demo_kbd demo_ioq demo_sched = Some (k', q', s') \<and> ioq_ok q' s'"
  using keyboard_handler_returns [OF demo_ioq_ok, of "0x1e" demo_kbd] by blast

text \<open>The 26 letter keys, row by row.\<close>

definition letter_keys :: "u8 list" where
  "letter_keys = map of_nat ([0x10..<0x1a] @ [0x1e..<0x27] @ [0x2c..<0x33])"

definition lower_of :: "u8 \<Rightarrow> u8" where
  "lower_of code = fst (keymap ! unat code)"

lemma letter_char:
  assumes "code \<in> set letter_keys" "shift_status k \<in> {0, 1}" "caps_lock_status k \<in> {0, 1}" "ctrl_status k = 0"
  shows "kbd_char (ucast code) k =
           (if shift_status k \<noteq> caps_lock_status k then lower_of code - 32 else lower_of code)"
    and "97 \<le> lower_of code" "lower_of code \<le> 122"
proof -
  have "\<forall>code \<in> set letter_keys. \<not> two_char_key (ucast code) \<and> unat ((ucast code :: u16) AND 0x00ff) = unat code \<and>
      snd (keymap ! unat code) = fst (keymap ! unat code) - 32 \<and>
      97 \<le> lower_of code \<and> lower_of code \<le> 122"
    unfolding letter_keys_def lower_of_def keymap_def two_char_key_def by code_simp
  with assms(1) have c: "\<not> two_char_key (ucast code)" "unat ((ucast code :: u16) AND 0x00ff) = unat code"
    "snd (keymap ! unat code) = fst (keymap ! unat code) - 32" "97 \<le> lower_of code" "lower_of code \<le> 122"
    by blast+
  from c(4,5) show "97 \<le> lower_of code" "lower_of code \<le> 122" .
  show "kbd_char (ucast code) k =
           (if shift_status k \<noteq> caps_lock_status k then lower_of code - 32 else lower_of code)"
  proof -
    have "shift_status k + caps_lock_status k = 1 \<longleftrightarrow> shift_status k \<noteq> caps_lock_status k"
      using assms(2,3) by (elim insertE) simp_all
    then show ?thesis using assms(4) c(1-3) by (simp add: kbd_char_def lower_of_def Let_def)
  qed
qed

lemma letter_is_make:
  assumes "code \<in> set letter_keys"
  shows "(ucast code :: u16) \<noteq> 0xe0" "(ucast code :: u16) AND 0x0080 = 0" "(0 :: u16) < ucast code"
    "(ucast code :: u16) < 0x3b"
    "(ucast code :: u16) \<notin> {ctrl_l_make, ctrl_r_make, shift_l_make, shift_r_make, alt_l_make, alt_r_make, caps_lock_make}"
proof -
  have "\<forall>code \<in> set letter_keys. (ucast code :: u16) \<noteq> 0xe0 \<and> (ucast code :: u16) AND 0x0080 = 0 \<and>
      (0 :: u16) < ucast code \<and> (ucast code :: u16) < 0x3b \<and>
      (ucast code :: u16) \<notin> {ctrl_l_make, ctrl_r_make, shift_l_make, shift_r_make, alt_l_make, alt_r_make, caps_lock_make}"
    unfolding letter_keys_def make_codes by code_simp
  with assms show "(ucast code :: u16) \<noteq> 0xe0" "(ucast code :: u16) AND 0x0080 = 0" "(0 :: u16) < ucast code"
    "(ucast code :: u16) < 0x3b"
    "(ucast code :: u16) \<notin> {ctrl_l_make, ctrl_r_make, shift_l_make, shift_r_make, alt_l_make, alt_r_make, caps_lock_make}"
    by blast+
qed



end
