(* ===== verification/Syscall.thy ===== *)
theory Syscall
  imports Process
begin

text \<open>
  The system-call interface: the numbers of lib/user/syscall.h, the user-level stubs of lib/user/syscall.c, the table that
  \<open>syscall_init\<close> (userprog/syscall-init.c) fills, and the dispatch through it.  A stub loads the number into \<open>eax\<close> and up
  to three arguments into \<open>ebx\<close>, \<open>ecx\<close> and \<open>edx\<close>; the handler of vector 0x80 pushes the three registers and calls the
  table's entry.  Handlers are named by the kernel function they are.
\<close>

section \<open>Numbers\<close>

datatype SYSCALL_NR =
  SYS_GETPID | SYS_WRITE | SYS_MALLOC | SYS_FREE | SYS_FORK | SYS_READ | SYS_PUTCHAR | SYS_CLEAR | SYS_GETCWD | SYS_OPEN
| SYS_CLOSE | SYS_LSEEK | SYS_UNLINK | SYS_MKDIR | SYS_OPENDIR | SYS_CLOSEDIR | SYS_CHDIR | SYS_RMDIR | SYS_READDIR | SYS_REWINDDIR
| SYS_STAT | SYS_PS | SYS_EXECV | SYS_EXIT | SYS_WAIT | SYS_PIPE | SYS_FD_REDIRECT | SYS_HELP

definition all_syscalls :: "SYSCALL_NR list" where
  "all_syscalls =
     [SYS_GETPID, SYS_WRITE, SYS_MALLOC, SYS_FREE, SYS_FORK, SYS_READ, SYS_PUTCHAR, SYS_CLEAR, SYS_GETCWD, SYS_OPEN,
      SYS_CLOSE, SYS_LSEEK, SYS_UNLINK, SYS_MKDIR, SYS_OPENDIR, SYS_CLOSEDIR, SYS_CHDIR, SYS_RMDIR, SYS_READDIR, SYS_REWINDDIR,
      SYS_STAT, SYS_PS, SYS_EXECV, SYS_EXIT, SYS_WAIT, SYS_PIPE, SYS_FD_REDIRECT, SYS_HELP]"

text \<open>The value of an enumeration constant is its position.\<close>

definition nr_of :: "SYSCALL_NR \<Rightarrow> u32" where
  "nr_of n = of_nat (length (takeWhile (\<lambda>m. m \<noteq> n) all_syscalls))"

section \<open>Kernel side\<close>

datatype handler =
  K_getpid | K_write | K_malloc | K_free | K_fork | K_read | K_putchar | K_cls_screen | K_getcwd | K_open
| K_close | K_lseek | K_unlink | K_mkdir | K_opendir | K_closedir | K_chdir | K_rmdir | K_readdir | K_rewinddir
| K_stat | K_ps | K_execv | K_exit | K_wait | K_pipe | K_fd_redirect | K_help

definition syscall_nr :: nat where "syscall_nr = 32"

definition sys_getpid :: "'a sched_scheme \<Rightarrow> u32" where
  "sys_getpid s = ucast (task_pid (tasks s (running_thread s)))"

definition syscall_init :: "handler option list" where
  "syscall_init =
     fold (\<lambda>(n, h) t. t[unat (nr_of n) := Some h])
       [(SYS_GETPID, K_getpid), (SYS_WRITE, K_write), (SYS_MALLOC, K_malloc), (SYS_FREE, K_free), (SYS_FORK, K_fork),
        (SYS_READ, K_read), (SYS_PUTCHAR, K_putchar), (SYS_CLEAR, K_cls_screen), (SYS_GETCWD, K_getcwd), (SYS_OPEN, K_open),
        (SYS_CLOSE, K_close), (SYS_LSEEK, K_lseek), (SYS_UNLINK, K_unlink), (SYS_MKDIR, K_mkdir), (SYS_OPENDIR, K_opendir),
        (SYS_CLOSEDIR, K_closedir), (SYS_CHDIR, K_chdir), (SYS_RMDIR, K_rmdir), (SYS_READDIR, K_readdir), (SYS_REWINDDIR, K_rewinddir),
        (SYS_STAT, K_stat), (SYS_PS, K_ps), (SYS_EXECV, K_execv), (SYS_EXIT, K_exit), (SYS_WAIT, K_wait),
        (SYS_PIPE, K_pipe), (SYS_FD_REDIRECT, K_fd_redirect), (SYS_HELP, K_help)]
       (replicate syscall_nr None)"

section \<open>User side\<close>

record user_regs =
  r_eax :: u32
  r_ebx :: u32
  r_ecx :: u32
  r_edx :: u32

definition syscall0 :: "SYSCALL_NR \<Rightarrow> user_regs \<Rightarrow> user_regs" where
  "syscall0 n r = r\<lparr>r_eax := nr_of n\<rparr>"

definition syscall1 :: "SYSCALL_NR \<Rightarrow> u32 \<Rightarrow> user_regs \<Rightarrow> user_regs" where
  "syscall1 n a r = r\<lparr>r_eax := nr_of n, r_ebx := a\<rparr>"

definition syscall2 :: "SYSCALL_NR \<Rightarrow> u32 \<Rightarrow> u32 \<Rightarrow> user_regs \<Rightarrow> user_regs" where
  "syscall2 n a b r = r\<lparr>r_eax := nr_of n, r_ebx := a, r_ecx := b\<rparr>"

definition syscall3 :: "SYSCALL_NR \<Rightarrow> u32 \<Rightarrow> u32 \<Rightarrow> u32 \<Rightarrow> user_regs \<Rightarrow> user_regs" where
  "syscall3 n a b c r = r\<lparr>r_eax := nr_of n, r_ebx := a, r_ecx := b, r_edx := c\<rparr>"

text \<open>The calls of the user library with their arguments; an 8-bit argument is widened.\<close>

datatype user_call =
  U_getpid | U_write u32 u32 u32 | U_malloc u32 | U_free u32 | U_fork | U_read u32 u32 u32 | U_putchar u8 | U_clear | U_getcwd u32 u32
| U_open u32 u8 | U_close u32 | U_lseek u32 u32 u8 | U_unlink u32 | U_mkdir u32 | U_opendir u32 | U_closedir u32 | U_rmdir u32
| U_readdir u32 | U_rewinddir u32 | U_stat u32 u32 | U_chdir u32 | U_ps | U_execv u32 u32 | U_exit u32 | U_wait u32 | U_pipe u32
| U_fd_redirect u32 u32 | U_help

fun stub :: "user_call \<Rightarrow> user_regs \<Rightarrow> user_regs" where
  "stub U_getpid = syscall0 SYS_GETPID"
| "stub (U_write fd bf n) = syscall3 SYS_WRITE fd bf n"
| "stub (U_malloc n) = syscall1 SYS_MALLOC n"
| "stub (U_free p) = syscall1 SYS_FREE p"
| "stub U_fork = syscall0 SYS_FORK"
| "stub (U_read fd bf n) = syscall3 SYS_READ fd bf n"
| "stub (U_putchar c) = syscall1 SYS_PUTCHAR (scast c)"
| "stub U_clear = syscall0 SYS_CLEAR"
| "stub (U_getcwd bf n) = syscall2 SYS_GETCWD bf n"
| "stub (U_open p flag) = syscall2 SYS_OPEN p (ucast flag)"
| "stub (U_close fd) = syscall1 SYS_CLOSE fd"
| "stub (U_lseek fd off wh) = syscall3 SYS_LSEEK fd off (ucast wh)"
| "stub (U_unlink p) = syscall1 SYS_UNLINK p"
| "stub (U_mkdir p) = syscall1 SYS_MKDIR p"
| "stub (U_opendir p) = syscall1 SYS_OPENDIR p"
| "stub (U_closedir d) = syscall1 SYS_CLOSEDIR d"
| "stub (U_rmdir p) = syscall1 SYS_RMDIR p"
| "stub (U_readdir d) = syscall1 SYS_READDIR d"
| "stub (U_rewinddir d) = syscall1 SYS_REWINDDIR d"
| "stub (U_stat p bf) = syscall2 SYS_STAT p bf"
| "stub (U_chdir p) = syscall1 SYS_CHDIR p"
| "stub U_ps = syscall0 SYS_PS"
| "stub (U_execv p argv) = syscall2 SYS_EXECV p argv"
| "stub (U_exit st) = syscall1 SYS_EXIT st"
| "stub (U_wait st) = syscall1 SYS_WAIT st"
| "stub (U_pipe fds) = syscall1 SYS_PIPE fds"
| "stub (U_fd_redirect old new) = syscall2 SYS_FD_REDIRECT old new"
| "stub U_help = syscall0 SYS_HELP"

text \<open>\<open>fork\<close> and \<open>wait\<close> return a \<open>pid_t\<close>: the low half of the register, without its sign.\<close>

definition user_result :: "user_call \<Rightarrow> u32 \<Rightarrow> u32" where
  "user_result c v = (case c of U_fork \<Rightarrow> ucast (ucast v :: u16) | U_wait _ \<Rightarrow> ucast (ucast v :: u16) | _ \<Rightarrow> v)"

section \<open>Dispatch\<close>

text \<open>The call through the table, with the three words the handler finds on its stack; there is no check of the number.\<close>

definition syscall_dispatch :: "user_regs \<Rightarrow> (handler \<times> u32 \<times> u32 \<times> u32) option" where
  "syscall_dispatch r =
     (if unat (r_eax r) < syscall_nr then map_option (\<lambda>h. (h, r_ebx r, r_ecx r, r_edx r)) (syscall_init ! unat (r_eax r)) else None)"

text \<open>The handler each library call is meant for.\<close>

fun target :: "user_call \<Rightarrow> handler" where
  "target U_getpid = K_getpid" | "target (U_write _ _ _) = K_write" | "target (U_malloc _) = K_malloc" | "target (U_free _) = K_free"
| "target U_fork = K_fork" | "target (U_read _ _ _) = K_read" | "target (U_putchar _) = K_putchar" | "target U_clear = K_cls_screen"
| "target (U_getcwd _ _) = K_getcwd" | "target (U_open _ _) = K_open" | "target (U_close _) = K_close" | "target (U_lseek _ _ _) = K_lseek"
| "target (U_unlink _) = K_unlink" | "target (U_mkdir _) = K_mkdir" | "target (U_opendir _) = K_opendir" | "target (U_closedir _) = K_closedir"
| "target (U_rmdir _) = K_rmdir" | "target (U_readdir _) = K_readdir" | "target (U_rewinddir _) = K_rewinddir" | "target (U_stat _ _) = K_stat"
| "target (U_chdir _) = K_chdir" | "target U_ps = K_ps" | "target (U_execv _ _) = K_execv" | "target (U_exit _) = K_exit"
| "target (U_wait _) = K_wait" | "target (U_pipe _) = K_pipe" | "target (U_fd_redirect _ _) = K_fd_redirect" | "target U_help = K_help"

lemma nr_of_simps: "nr_of SYS_GETPID = 0" "nr_of SYS_WRITE = 1" "nr_of SYS_MALLOC = 2" "nr_of SYS_FREE = 3" "nr_of SYS_FORK = 4"
  "nr_of SYS_READ = 5" "nr_of SYS_PUTCHAR = 6" "nr_of SYS_CLEAR = 7" "nr_of SYS_GETCWD = 8" "nr_of SYS_OPEN = 9" "nr_of SYS_CLOSE = 10"
  "nr_of SYS_LSEEK = 11" "nr_of SYS_UNLINK = 12" "nr_of SYS_MKDIR = 13" "nr_of SYS_OPENDIR = 14" "nr_of SYS_CLOSEDIR = 15"
  "nr_of SYS_CHDIR = 16" "nr_of SYS_RMDIR = 17" "nr_of SYS_READDIR = 18" "nr_of SYS_REWINDDIR = 19" "nr_of SYS_STAT = 20"
  "nr_of SYS_PS = 21" "nr_of SYS_EXECV = 22" "nr_of SYS_EXIT = 23" "nr_of SYS_WAIT = 24" "nr_of SYS_PIPE = 25"
  "nr_of SYS_FD_REDIRECT = 26" "nr_of SYS_HELP = 27"
  by (simp_all add: nr_of_def all_syscalls_def)

lemma syscall_table: "syscall_init =
  [Some K_getpid, Some K_write, Some K_malloc, Some K_free, Some K_fork, Some K_read, Some K_putchar, Some K_cls_screen, Some K_getcwd,
   Some K_open, Some K_close, Some K_lseek, Some K_unlink, Some K_mkdir, Some K_opendir, Some K_closedir, Some K_chdir, Some K_rmdir,
   Some K_readdir, Some K_rewinddir, Some K_stat, Some K_ps, Some K_execv, Some K_exit, Some K_wait, Some K_pipe, Some K_fd_redirect,
   Some K_help, None, None, None, None]"
proof -
  have "replicate 32 None = [None, None, None, None, None, None, None, None, None, None, None, None, None, None, None, None,
      None, None, None, None, None, None, None, None, None, None, None, None, None, None, None, None :: handler option]"
    by (simp add: numeral_eq_Suc)
  then show ?thesis by (simp add: syscall_init_def nr_of_simps syscall_nr_def)
qed

text \<open>Every library call reaches its kernel function, with its first argument first.\<close>

lemma stubs_reach_handlers: "\<exists>a b d. syscall_dispatch (stub c r) = Some (target c, a, b, d)"
  by (cases c) (simp_all add: syscall_dispatch_def syscall_nr_def nr_of_simps syscall_table syscall0_def syscall1_def syscall2_def syscall3_def)

lemma failed_fork_looks_like_a_pid: "user_result U_fork (-1) = 65535" "user_result (U_wait p) (-1) = 65535"
proof -
  have "(ucast (ucast (-1 :: u32) :: u16) :: u32) = 65535" by code_simp
  then show "user_result U_fork (-1) = 65535" "user_result (U_wait p) (-1) = 65535" by (simp_all add: user_result_def)
qed

end
