(* ===== verification/Startup.thy ===== *)
theory Startup
  imports IntrInit Partitions Format Keyboard Platform Syscall Console
begin

text \<open>
  The start of the kernel: \<open>init_all\<close> of kernel/init.c, \<open>ide_init\<close> of device/ide.c with the disks and partitions it
  finds, and \<open>main\<close> and the process \<open>init\<close> of kernel/main.c.  The addresses of the code are parameters, as are the disks.
  Messages of the initialisation are left out.
\<close>

section \<open>Surroundings\<close>

text \<open>Where the linker put the code and the tables.\<close>

record image =
  intr_entry_table :: "nat \<Rightarrow> u32"
  syscall_handler_pc :: u32
  general_handler_pc :: u32
  timer_handler_pc :: u32
  keyboard_handler_pc :: u32
  hd_handler_pc :: u32
  kernel_thread_pc :: u32
  start_process_pc :: u32
  init_pc :: u32
  idle_pc :: u32
  idt_addr :: u32
  tss_addr :: u32

text \<open>
  What the firmware and the boot loader left (memory size, number of disks at 0x475) and the disks; a disk that does not answer
  the identification command has no identification block.  The slave disk of channel 0 is the one of the file system.
\<close>

record hardware =
  mem_bytes_total :: u32
  hd_cnt :: u8
  identify_info :: "u8 \<Rightarrow> u8 \<Rightarrow> u8 list option"
  raw_disk :: "u8 \<Rightarrow> u8 \<Rightarrow> disk"
  format_pad :: "u8 list"

record boot = proc +
  irqs :: intr_setup
  console_lock :: lock
  kbd_buf :: ioqueue
  tss_seg :: tss
  gdt_entries :: "(u32 \<times> gdt_desc) list"
  gdtr :: "64 word"
  task_register :: u16
  syscall_table :: "handler option list"
  channels :: "u8 \<Rightarrow> ide_channel"
  scan :: scan_state
  disks_found :: "(u8 list \<times> disk_info) list"
  all_partitions :: "part_desc list"

section \<open>Handlers\<close>

definition install_handler :: "u8 \<Rightarrow> u32 \<Rightarrow> intr_setup \<Rightarrow> intr_setup" where
  "install_handler vector_no function r = r\<lparr>idt_table := register_handler vector_no function (idt_table r)\<rparr>"

definition timer_setup :: "image \<Rightarrow> intr_setup \<Rightarrow> intr_setup" where
  "timer_setup im r = install_handler 0x20 (timer_handler_pc im) (r\<lparr>ports := ports r @ timer_init\<rparr>)"

definition keyboard_init :: "image \<Rightarrow> 'a boot_scheme \<Rightarrow> 'a boot_scheme" where
  "keyboard_init im s = s\<lparr>kbd_buf := ioqueue_init (kbd_buf s), irqs := install_handler 0x21 (keyboard_handler_pc im) (irqs s)\<rparr>"

section \<open>Disks\<close>

definition disk_name :: "u8 \<Rightarrow> u8 \<Rightarrow> u8 list" where
  "disk_name channel_no dev_no = [115, 100, 97 + channel_no * 2 + dev_no]"

text \<open>\<open>sprintf(part->name, "%s%d", hd->name, n)\<close> on the partitions a scan has added.\<close>

definition part_label :: "u8 list \<Rightarrow> u32 \<Rightarrow> u8 list option" where
  "part_label hd_name n = do { ds \<leftarrow> itoa n 10; Some (hd_name @ ds) }"

fun name_parts :: "u8 list \<Rightarrow> part list \<Rightarrow> part_desc list option" where
  "name_parts hd_name [] = Some []"
| "name_parts hd_name (p # ps) =
     do {
       n \<leftarrow> part_label hd_name (ucast (part_nr p));
       r \<leftarrow> name_parts hd_name ps;
       Some (\<lparr>part_name = n, part_start = Partitions.part_start p, part_cnt = Partitions.part_cnt p\<rparr> # r)
     }"

definition disk_at :: "hardware \<Rightarrow> u8 \<Rightarrow> u8 \<Rightarrow> 'a fs_scheme \<Rightarrow> disk" where
  "disk_at hw channel_no dev_no s = (if channel_no = 0 \<and> dev_no = 1 then hd0 s else raw_disk hw channel_no dev_no)"

text \<open>The inner loop: both devices of the channel are identified, whether the disk counter of the firmware includes them or not.\<close>

definition ide_init_device :: "hardware \<Rightarrow> u8 \<Rightarrow> u8 \<Rightarrow> 'a boot_scheme \<Rightarrow> 'a boot_scheme option" where
  "ide_init_device hw channel_no dev_no s =
     do {
       let hd_name = disk_name channel_no dev_no;
       id_info \<leftarrow> identify_info hw channel_no dev_no;
       let s = s\<lparr>disks_found := disks_found s @ [(hd_name, identify_disk id_info)]\<rparr>;
       s \<leftarrow> (if dev_no \<noteq> 0 then
               do {
                 st \<leftarrow> partition_scan regs0 (disk_at hw channel_no dev_no s) 0 (scan s);
                 ps \<leftarrow> name_parts hd_name (drop (length (partition_list (scan s))) (partition_list st));
                 Some (s\<lparr>scan := st, all_partitions := all_partitions s @ ps\<rparr>)
               }
             else Some s);
       Some (s\<lparr>scan := (scan s)\<lparr>p_no := 0, l_no := 0\<rparr>\<rparr>)
     }"

definition ide_init_channel :: "image \<Rightarrow> hardware \<Rightarrow> u8 \<Rightarrow> 'a boot_scheme \<Rightarrow> 'a boot_scheme option" where
  "ide_init_channel im hw channel_no s =
     do {
       let c = init_channel channel_no (channels s channel_no);
       let s = s\<lparr>channels := (channels s)(channel_no := c), irqs := install_handler (irq_no c) (hd_handler_pc im) (irqs s)\<rparr>;
       s \<leftarrow> ide_init_device hw channel_no 0 s;
       ide_init_device hw channel_no 1 s
     }"

text \<open>There are two channel structures; a third channel lies behind them.\<close>

primrec ide_init_loop :: "nat \<Rightarrow> image \<Rightarrow> hardware \<Rightarrow> u8 \<Rightarrow> 'a boot_scheme \<Rightarrow> 'a boot_scheme option" where
  "ide_init_loop 0 im hw channel_no s = Some s"
| "ide_init_loop (Suc n) im hw channel_no s =
     (if channel_no < 2 then do { s \<leftarrow> ide_init_channel im hw channel_no s; ide_init_loop n im hw (channel_no + 1) s } else None)"

definition ide_init :: "image \<Rightarrow> hardware \<Rightarrow> 'a boot_scheme \<Rightarrow> 'a boot_scheme option" where
  "ide_init im hw s =
     do {
       ASSERT (hd_cnt hw > 0);
       let s = s\<lparr>scan := (scan s)\<lparr>partition_list := []\<rparr>, all_partitions := []\<rparr>;
       let channel_cnt = (unat (hd_cnt hw) + 2 - 1) div 2;
       ide_init_loop channel_cnt im hw 0 s
     }"

text \<open>One line of the list of partitions at the end of \<open>ide_init\<close>, as \<open>printk\<close> formats it.\<close>

definition partition_info :: "part_desc \<Rightarrow> u8 list option" where
  "partition_info p =
     printf (str ''   %s start_lba:0x%x, sec_cnt:0x%x'' @ [10]) [Str_arg (part_name p), Int_arg (part_start p), Int_arg (part_cnt p)]"

text \<open>The twelve partition structures of the file system's disk; a structure that the scan did not fill is zero.\<close>

definition slots_of :: "part_desc list \<Rightarrow> part_desc list" where
  "slots_of ps =
     map (\<lambda>n. case find (\<lambda>p. Some (part_name p) = part_label (disk_name 0 1) (of_nat n)) ps of
                None \<Rightarrow> \<lparr>part_name = [], part_start = 0, part_cnt = 0\<rparr> | Some p \<Rightarrow> p) [1..<13]"

section \<open>Initialisation\<close>

definition init_all :: "image \<Rightarrow> hardware \<Rightarrow> 'a boot_scheme \<Rightarrow> 'a boot_scheme option" where
  "init_all im hw s =
     do {
       let s = s\<lparr>irqs := idt_init (intr_entry_table im) (syscall_handler_pc im) (general_handler_pc im) (idt_addr im) (irqs s)\<rparr>;
       let s = mem_init (mem_bytes_total hw) s;
       s \<leftarrow> thread_init (kernel_thread_pc im) (start_process_pc im) (init_pc im) (idle_pc im) s;
       let s = s\<lparr>irqs := timer_setup im (irqs s)\<rparr>;
       let s = s\<lparr>console_lock := console_init\<rparr>;
       let s = keyboard_init im s;
       let (t, g, r, sel) = tss_init (tss_addr im);
       let s = s\<lparr>tss_seg := t, gdt_entries := g, gdtr := r, task_register := sel\<rparr>;
       let s = s\<lparr>syscall_table := syscall_init\<rparr>;
       let s = snd (intr_enable s);
       s \<leftarrow> ide_init im hw s;
       filesys_init (slots_of (all_partitions s)) (all_partitions s) (format_pad hw) s
     }"

section \<open>The main thread and the first process\<close>

definition program_size :: u32 where "program_size = 21816"

text \<open>
  \<open>main\<close> behind \<open>init_all\<close>: the program from sector 300 of the first disk on becomes the file \<open>/cat\<close>, unless there is one.  A failed
  write stops the machine.  Then the screen shows the first prompt and the thread ends.
\<close>

definition install_program :: "hardware \<Rightarrow> 'a fs_scheme \<Rightarrow> 'a fs_scheme option" where
  "install_program hw s =
     (let (prog_buf, s) = fs_malloc s in
      do {
        (if prog_buf = 0 then None else Some ());
        bs \<leftarrow> ide_read 0 300 (unat (DIV_ROUND_UP program_size 512)) regs0 (raw_disk hw 0 0);
        (fd, s) \<leftarrow> sys_open (str ''/cat'') (ucast (O_CREAT OR O_RDWR)) s;
        (if fd \<noteq> -1 then
           do {
             r \<leftarrow> sys_write fd bs program_size s;
             (case r of Inl _ \<Rightarrow> None | Inr (n, s) \<Rightarrow> if n = -1 then None else Some s)
           }
         else Some s)
      })"

definition main :: "image \<Rightarrow> hardware \<Rightarrow> 'a boot_scheme \<Rightarrow> (u8 list \<times> 'a boot_scheme) option" where
  "main im hw s =
     do {
       s \<leftarrow> init_all im hw s;
       s \<leftarrow> install_program hw s;
       (l, screen, s) \<leftarrow> console_put_str (str ''[rabbit@localhost /]$ '') (console_lock s) [] s;
       let s = s\<lparr>console_lock := l\<rparr>;
       s \<leftarrow> thread_exit (running_thread s) True s;
       Some (screen, s)
     }"

text \<open>
  Every kernel thread starts in \<open>kernel_thread\<close>; when its function returns there is no caller to return to.  The idle thread blocks
  itself, and when it is woken it waits for an interrupt with interrupts on.
\<close>

definition kernel_thread :: "('a sched_scheme \<Rightarrow> 'a sched_scheme option) \<Rightarrow> 'a sched_scheme \<Rightarrow> 'a sched_scheme option" where
  "kernel_thread function s = do { _ \<leftarrow> function (snd (intr_enable s)); None }"

definition idle_block :: "'a sched_scheme \<Rightarrow> (intr_status \<times> 'a sched_scheme) option" where
  "idle_block s = thread_block TASK_BLOCKED s"

definition idle_halt :: "'a sched_scheme \<Rightarrow> 'a sched_scheme" where
  "idle_halt s = sti s"

text \<open>
  The process \<open>init\<close>.  In the child \<open>fork\<close> returns 0 and the shell runs.  The parent collects children for ever: one
  round waits (\<open>Inl\<close>) or prints the line about the child; \<open>statusp\<close> is the address of the local variable.
\<close>

datatype init_role = Reaper | Shell_process

definition init_branch :: "u32 \<Rightarrow> init_role" where
  "init_branch ret_pid = (if ret_pid \<noteq> 0 then Reaper else Shell_process)"

definition init_round :: "u32 \<Rightarrow> 'a proc_scheme \<Rightarrow> (intr_status \<times> 'a proc_scheme + 'a proc_scheme) option" where
  "init_round statusp s =
     do {
       r \<leftarrow> sys_wait statusp s;
       (case r of
          Inl b \<Rightarrow> Some (Inl b)
        | Inr (child_pid, s) \<Rightarrow>
            do {
              st \<leftarrow> vread s statusp;
              s \<leftarrow> put (str ''I`m init, My pid is 1, I recieve a child, It`s pid is %d, status is %d'' @ [10])
                     [Int_arg (scast child_pid), Int_arg st] s;
              Some (Inr s)
            })
     }"


section \<open>Serving interrupts\<close>

lemma name_parts_total: "\<exists>qs. name_parts hd_name ps = Some qs"
proof (induction ps)
  case (Cons p ps)
  obtain ds where "itoa (ucast (part_nr p)) 10 = Some ds" using itoa_correct [of 10] by auto
  then show ?case using Cons by (auto simp: part_label_def)
qed simp

lemma ide_init_device_0:
  "identify_info hw c 0 = Some i \<Longrightarrow>
     ide_init_device hw c 0 s = Some (s\<lparr>disks_found := disks_found s @ [(disk_name c 0, identify_disk i)], scan := (scan s)\<lparr>p_no := 0, l_no := 0\<rparr>\<rparr>)"
  by (simp add: ide_init_device_def Let_def)

lemma ide_init_device_1:
  assumes "identify_info hw 0 1 = Some i" "disk_ok (hd0 s)" "p_no (scan s) = 0" "partition_list (scan s) = []" "all_partitions s = []"
    and mbr: "\<And>j. j < 4 \<Longrightarrow> pt_type (table_entry (hd0 s 0) j) \<noteq> 5"
      "length (filter (\<lambda>p. pt_type p \<noteq> 0) (map (table_entry (hd0 s 0)) [0..<4])) < 4"
  shows "\<exists>s'. ide_init_device hw 0 1 s = Some s' \<and> irqs s' = irqs s \<and> channels s' = channels s \<and>
    name_parts (disk_name 0 1) (primaries 0 (map (table_entry (hd0 s 0)) [0..<4])) = Some (all_partitions s')"
proof -
  let ?ps = "primaries 0 (map (table_entry (hd0 s 0)) [0..<4])"
  have rd: "ide_read 1 0 1 regs0 (hd0 s) = Some (hd0 s 0)"
    using ide_read_eq [OF assms(2), of 1 0 1 regs0] by (simp add: hd_sectors_def)
  obtain n where n: "partition_scan regs0 (hd0 s) 0 (scan s) = Some ((scan s)\<lparr>p_no := n, partition_list := ?ps\<rparr>)"
    using scan_primaries [of 0 "hd0 s 0" "scan s" regs0 "hd0 s"] mbr rd assms(3,4) by (auto simp: partition_scan_def)
  obtain qs where "name_parts (disk_name 0 1) ?ps = Some qs" using name_parts_total by blast
  then show ?thesis using assms(1,4,5) n by (simp add: ide_init_device_def disk_at_def Let_def)
qed

lemma ide_init_one_channel:
  assumes d: "hd_cnt hw \<in> {1, 2}" "identify_info hw 0 0 = Some i0" "identify_info hw 0 1 = Some i1" "disk_ok (hd0 s)"
    and mbr: "\<And>j. j < 4 \<Longrightarrow> pt_type (table_entry (hd0 s 0) j) \<noteq> 5"
      "length (filter (\<lambda>p. pt_type p \<noteq> 0) (map (table_entry (hd0 s 0)) [0..<4])) < 4"
  shows "\<exists>s'. ide_init im hw s = Some s' \<and> irqs s' = install_handler 0x2e (hd_handler_pc im) (irqs s) \<and>
    name_parts (disk_name 0 1) (primaries 0 (map (table_entry (hd0 s 0)) [0..<4])) = Some (all_partitions s')"
proof -
  define s0 where "s0 = s\<lparr>scan := (scan s)\<lparr>partition_list := []\<rparr>, all_partitions := []\<rparr>"
  define c where "c = init_channel 0 (channels s0 0)"
  define s1 where "s1 = s0\<lparr>channels := (channels s0)(0 := c), irqs := install_handler (irq_no c) (hd_handler_pc im) (irqs s0)\<rparr>"
  define s2 where "s2 = s1\<lparr>disks_found := disks_found s1 @ [(disk_name 0 0, identify_disk i0)], scan := (scan s1)\<lparr>p_no := 0, l_no := 0\<rparr>\<rparr>"
  have i2: "hd0 s2 = hd0 s" "p_no (scan s2) = 0" "partition_list (scan s2) = []" "all_partitions s2 = []"
    "irqs s2 = install_handler 0x2e (hd_handler_pc im) (irqs s)"
    by (simp_all add: s2_def s1_def s0_def c_def init_channel_def)
  obtain s' where s': "ide_init_device hw 0 1 s2 = Some s'" "irqs s' = irqs s2"
    "name_parts (disk_name 0 1) (primaries 0 (map (table_entry (hd0 s 0)) [0..<4])) = Some (all_partitions s')"
    using ide_init_device_1 [OF d(3), of s2] d(4) mbr i2 by auto
  have "ide_init_device hw 0 0 s1 = Some s2" unfolding s2_def by (rule ide_init_device_0 [OF d(2)])
  then have "ide_init_channel im hw 0 s0 = Some s'"
    using s'(1) by (simp add: ide_init_channel_def Let_def c_def [symmetric] s1_def [symmetric])
  moreover have "(unat (hd_cnt hw) + 2 - 1) div 2 = 1" "hd_cnt hw > 0" using d(1) by auto
  ultimately have "ide_init im hw s = Some s'" by (simp add: ide_init_def Let_def s0_def [symmetric])
  then show ?thesis using s' i2 by simp
qed

definition interrupts_up :: "image \<Rightarrow> 'a boot_scheme \<Rightarrow> 'a boot_scheme" where
  "interrupts_up im s = keyboard_init im
     (s\<lparr>irqs := timer_setup im (idt_init (intr_entry_table im) (syscall_handler_pc im) (general_handler_pc im) (idt_addr im) (irqs s))\<rparr>)"

lemma timer_keeps_pics: "fold pic_out timer_init ps = ps"
  by (cases ps) (simp add: timer_init_value pic_out_def)

lemma interrupts_up_irqs:
  fixes im s
  defines "r \<equiv> install_handler 0x2e (hd_handler_pc im) (irqs (interrupts_up im s))"
  shows "idt r = idt_desc_init (intr_entry_table im) (syscall_handler_pc im)"
    "fold pic_out (ports r) ps = fold pic_out pic_init ps"
    "v < 0x81 \<Longrightarrow> idt_table r ! v = (if v = 0x20 then timer_handler_pc im else if v = 0x21 then keyboard_handler_pc im
       else if v = 0x2e then hd_handler_pc im else general_handler_pc im)"
  by (auto simp: r_def interrupts_up_def keyboard_init_def timer_setup_def install_handler_def idt_init_tables timer_keeps_pics
      pic_init_effect register_handler_def IDT_DESC_CNT_def nth_list_update)


definition demo_image :: image where
  "demo_image =
     \<lparr>intr_entry_table = (\<lambda>v. 0xc0001000 + of_nat v * 16), syscall_handler_pc = 0xc0002000, general_handler_pc = 0xc0002100,
      timer_handler_pc = 0xc0002200, keyboard_handler_pc = 0xc0002300, hd_handler_pc = 0xc0002400, kernel_thread_pc = 0xc0002500,
      start_process_pc = 0xc0002600, init_pc = 0xc0002700, idle_pc = 0xc0002800, idt_addr = 0xc0008000, tss_addr = 0xc0009000\<rparr>"

definition demo_hardware :: hardware where
  "demo_hardware =
     \<lparr>mem_bytes_total = 0x2000000, hd_cnt = 2, identify_info = (\<lambda>c d. if c = 0 then Some (replicate 512 0) else None),
      raw_disk = (\<lambda>c d l. replicate 512 0), format_pad = []\<rparr>"

text \<open>A partition table with one entry of type 0x83, 1000 sectors from sector 63 on.\<close>

definition demo_mbr :: "u8 list" where
  "demo_mbr = replicate 446 0 @ [0, 0, 0, 0, 0x83, 0, 0, 0, 63, 0, 0, 0, 232, 3, 0, 0] @ replicate 50 0"

definition demo_boot :: boot where
  "demo_boot = proc.extend (demo_proc\<lparr>hd0 := (\<lambda>l. if l = 0 then demo_mbr else replicate 512 0)\<rparr>)
     \<lparr>irqs = \<lparr>idt = [], idt_table = [], intr_name = [], idtr = 0, ports = []\<rparr>, console_lock = lock_init,
      kbd_buf = \<lparr>ioq_lock = lock_init, producer = 0, consumer = 0, buf = (\<lambda>_. 0), head = 0, tail = 0\<rparr>,
      tss_seg = \<lparr>tss_ss0 = 0, tss_io_base = 0\<rparr>, gdt_entries = [], gdtr = 0, task_register = 0, syscall_table = [],
      channels = (\<lambda>_. \<lparr>port_base = 0, irq_no = 0, chan_lock = lock_init, expecting_intr = False, disk_done = sema_init 0\<rparr>),
      scan = \<lparr>ext_lba_base = 0, p_no = 0, l_no = 0, partition_list = []\<rparr>, disks_found = [], all_partitions = []\<rparr>"

lemma demo_boot_disk: "hd0 demo_boot = (\<lambda>l. if l = 0 then demo_mbr else replicate 512 0)"
  by (simp add: demo_boot_def proc.defs)

lemma demo_mbr_entries:
  "map (table_entry demo_mbr) [0..<4] =
     [\<lparr>pt_type = 0x83, pt_start = 63, pt_cnt = 1000\<rparr>, \<lparr>pt_type = 0, pt_start = 0, pt_cnt = 0\<rparr>,
      \<lparr>pt_type = 0, pt_start = 0, pt_cnt = 0\<rparr>, \<lparr>pt_type = 0, pt_start = 0, pt_cnt = 0\<rparr>]"
  by (simp add: demo_mbr_def table_entry_def rd32_def nth_append upt_rec)


text \<open>
  The firmware's disk counter is only rounded up to channels: with a single disk the missing slave is identified too, and the
  initialisation does not return.
\<close>

lemma single_disk_stops:
  assumes "hd_cnt hw = 1" "identify_info hw 0 1 = None"
  shows "ide_init im hw s = None"
  using assms by (cases "identify_info hw 0 0") (simp_all add: ide_init_def ide_init_channel_def ide_init_device_def Let_def)
end
