(* ===== verification/KList.thy ===== *)
theory KList
  imports Interrupt
begin

text \<open>
  The intrusive doubly linked list of lib/kernel/list.c, at the level of its
  pointers: a store maps the address of every \<open>struct list_elem\<close> to its two
  links.  A \<open>struct list\<close> at address \<open>p\<close> is its \<open>head\<close> element at \<open>p\<close> and its
  \<open>tail\<close> element at \<open>p + 8\<close>.  The operations run with interrupts off and
  restore the flag.  The second half relates the pointer structure to HOL lists
  and states the contract that the schedulers, semaphores and free lists use.
\<close>

record list_elem =
  e_prev :: u32
  e_next :: u32

record kheap = cpu +
  elems :: "u32 \<Rightarrow> list_elem"

abbreviation tail_of :: "u32 \<Rightarrow> u32" where
  "tail_of plist \<equiv> plist + 8"

definition set_prev :: "u32 \<Rightarrow> u32 \<Rightarrow> 'a kheap_scheme \<Rightarrow> 'a kheap_scheme" where
  "set_prev a v s = s\<lparr>elems := (elems s)(a := (elems s a)\<lparr>e_prev := v\<rparr>)\<rparr>"

definition set_next :: "u32 \<Rightarrow> u32 \<Rightarrow> 'a kheap_scheme \<Rightarrow> 'a kheap_scheme" where
  "set_next a v s = s\<lparr>elems := (elems s)(a := (elems s a)\<lparr>e_next := v\<rparr>)\<rparr>"

definition list_init :: "u32 \<Rightarrow> 'a kheap_scheme \<Rightarrow> 'a kheap_scheme" where
  "list_init plist s =
     (let s = set_prev plist 0 s;
          s = set_next plist (tail_of plist) s;
          s = set_prev (tail_of plist) plist s
      in set_next (tail_of plist) 0 s)"

definition list_insert_before :: "u32 \<Rightarrow> u32 \<Rightarrow> 'a kheap_scheme \<Rightarrow> 'a kheap_scheme" where
  "list_insert_before before elem s =
     (let (old_status, s) = intr_disable s;
          s = set_next (e_prev (elems s before)) elem s;
          s = set_prev elem (e_prev (elems s before)) s;
          s = set_next elem before s;
          s = set_prev before elem s
      in snd (intr_set_status old_status s))"

definition list_push :: "u32 \<Rightarrow> u32 \<Rightarrow> 'a kheap_scheme \<Rightarrow> 'a kheap_scheme" where
  "list_push plist elem s = list_insert_before (e_next (elems s plist)) elem s"

definition list_append :: "u32 \<Rightarrow> u32 \<Rightarrow> 'a kheap_scheme \<Rightarrow> 'a kheap_scheme" where
  "list_append plist elem s = list_insert_before (tail_of plist) elem s"

definition list_remove :: "u32 \<Rightarrow> 'a kheap_scheme \<Rightarrow> 'a kheap_scheme" where
  "list_remove pelem s =
     (let (old_status, s) = intr_disable s;
          s = set_next (e_prev (elems s pelem)) (e_next (elems s pelem)) s;
          s = set_prev (e_next (elems s pelem)) (e_prev (elems s pelem)) s
      in snd (intr_set_status old_status s))"

definition list_pop :: "u32 \<Rightarrow> 'a kheap_scheme \<Rightarrow> u32 \<times> 'a kheap_scheme" where
  "list_pop plist s =
     (let elem = e_next (elems s plist)
      in (elem, list_remove elem s))"

partial_function (option) elem_find_from :: "(u32 \<Rightarrow> list_elem) \<Rightarrow> u32 \<Rightarrow> u32 \<Rightarrow> u32 \<Rightarrow> bool option" where
  "elem_find_from h plist obj_elem elem =
     (if elem \<noteq> tail_of plist then
        if elem = obj_elem then Some True
        else elem_find_from h plist obj_elem (e_next (h elem))
      else Some False)"

definition elem_find :: "u32 \<Rightarrow> u32 \<Rightarrow> 'a kheap_scheme \<Rightarrow> bool option" where
  "elem_find plist obj_elem s = elem_find_from (elems s) plist obj_elem (e_next (elems s plist))"

definition list_empty :: "u32 \<Rightarrow> 'a kheap_scheme \<Rightarrow> bool" where
  "list_empty plist s \<longleftrightarrow> e_next (elems s plist) = tail_of plist"

text \<open>
  \<open>list_traversal\<close> calls back with each element; the callback may change the
  state (\<open>init_adopt_a_child\<close> does) and stops the walk by returning true.
  \<open>NULL\<close> is the address 0.
\<close>

partial_function (option) traverse_from ::
    "u32 \<Rightarrow> (u32 \<Rightarrow> 'a kheap_scheme \<Rightarrow> bool \<times> 'a kheap_scheme) \<Rightarrow> u32 \<Rightarrow> 'a kheap_scheme
      \<Rightarrow> (u32 \<times> 'a kheap_scheme) option" where
  "traverse_from plist func elem s =
     (if elem \<noteq> tail_of plist then
        (let (hit, s) = func elem s
         in if hit then Some (elem, s) else traverse_from plist func (e_next (elems s elem)) s)
      else Some (0, s))"

definition list_traversal ::
    "u32 \<Rightarrow> (u32 \<Rightarrow> 'a kheap_scheme \<Rightarrow> bool \<times> 'a kheap_scheme) \<Rightarrow> 'a kheap_scheme
      \<Rightarrow> (u32 \<times> 'a kheap_scheme) option" where
  "list_traversal plist func s =
     (let elem = e_next (elems s plist)
      in if list_empty plist s then Some (0, s) else traverse_from plist func elem s)"

partial_function (option) list_len_from :: "(u32 \<Rightarrow> list_elem) \<Rightarrow> u32 \<Rightarrow> u32 \<Rightarrow> u32 \<Rightarrow> u32 option" where
  "list_len_from h plist elem len =
     (if elem \<noteq> tail_of plist then list_len_from h plist (e_next (h elem)) (len + 1)
      else Some len)"

definition list_len :: "u32 \<Rightarrow> 'a kheap_scheme \<Rightarrow> u32 option" where
  "list_len plist s = list_len_from (elems s) plist (e_next (elems s plist)) 0"

subsection \<open>Chains of links\<close>

fun linked :: "(u32 \<Rightarrow> list_elem) \<Rightarrow> u32 list \<Rightarrow> bool" where
  "linked h (a # b # r) = (e_next (h a) = b \<and> e_prev (h b) = a \<and> linked h (b # r))"
| "linked h _ = True"

text \<open>\<open>dlist h p xs\<close>: the list at \<open>p\<close> holds exactly the elements \<open>xs\<close>, in order.\<close>

definition dlist :: "(u32 \<Rightarrow> list_elem) \<Rightarrow> u32 \<Rightarrow> u32 list \<Rightarrow> bool" where
  "dlist h p xs \<longleftrightarrow>
     linked h (p # xs @ [tail_of p]) \<and> distinct (p # xs @ [tail_of p])
     \<and> e_prev (h p) = 0 \<and> e_next (h (tail_of p)) = 0"

lemma linked_append: "linked h (xs @ a # ys) \<longleftrightarrow> linked h (xs @ [a]) \<and> linked h (a # ys)"
  by (induction xs rule: induct_list012) auto

text \<open>
  A chain depends on the \<open>next\<close> link of all but its last element and on the
  \<open>prev\<close> link of all but its first.
\<close>

lemma linked_cong:
  assumes "\<forall>x \<in> set (butlast zs). e_next (h' x) = e_next (h x)"
    and "\<forall>x \<in> set (tl zs). e_prev (h' x) = e_prev (h x)"
  shows "linked h' zs = linked h zs"
  using assms
proof (induction h zs rule: linked.induct)
  case (1 h a b r)
  then have "linked h' (b # r) = linked h (b # r)" by (cases r) auto
  with 1 show ?case by auto
qed auto

lemma linked_mid: "linked h (xs @ a # b # ys) \<Longrightarrow> e_next (h a) = b \<and> e_prev (h b) = a"
  by (simp add: linked_append [of h xs a "b # ys"])

text \<open>The two pointer surgeries, on the store alone.\<close>

definition splice_in :: "(u32 \<Rightarrow> list_elem) \<Rightarrow> u32 \<Rightarrow> u32 \<Rightarrow> u32 \<Rightarrow> (u32 \<Rightarrow> list_elem)" where
  "splice_in h a e b =
     h(a := (h a)\<lparr>e_next := e\<rparr>, e := \<lparr>e_prev = a, e_next = b\<rparr>, b := (h b)\<lparr>e_prev := e\<rparr>)"

definition splice_out :: "(u32 \<Rightarrow> list_elem) \<Rightarrow> u32 \<Rightarrow> u32 \<Rightarrow> (u32 \<Rightarrow> list_elem)" where
  "splice_out h a b = h(a := (h a)\<lparr>e_next := b\<rparr>, b := (h b)\<lparr>e_prev := a\<rparr>)"

lemma linked_splice_in:
  assumes "linked h (xs @ a # b # ys)" and "distinct (xs @ a # b # ys)" and "e \<notin> set (xs @ a # b # ys)"
  shows "linked (splice_in h a e b) (xs @ a # e # b # ys)"
proof -
  let ?h = "splice_in h a e b"
  from assms(1) have "linked h (xs @ [a])" and "linked h (b # ys)"
    by (simp_all add: linked_append [of h xs a "b # ys"])
  moreover have "linked ?h (xs @ [a]) = linked h (xs @ [a])"
    by (rule linked_cong) (use assms(2,3) in \<open>cases xs; auto simp: splice_in_def\<close>)+
  moreover have "linked ?h (b # ys) = linked h (b # ys)"
    by (rule linked_cong) (use assms(2,3) in \<open>auto simp: splice_in_def dest: in_set_butlastD\<close>)+
  moreover have "e_next (?h a) = e" "e_prev (?h e) = a" "e_next (?h e) = b" "e_prev (?h b) = e"
    using assms(2,3) by (auto simp: splice_in_def)
  ultimately show ?thesis by (simp add: linked_append [of ?h xs a "e # b # ys"])
qed

lemma linked_splice_out:
  assumes "linked h (xs @ a # e # b # ys)" and "distinct (xs @ a # e # b # ys)"
  shows "linked (splice_out h a b) (xs @ a # b # ys)"
proof -
  let ?h = "splice_out h a b"
  from assms(1) have "linked h (xs @ [a])" and "linked h (b # ys)"
    by (simp_all add: linked_append [of h xs a "e # b # ys"])
  moreover have "linked ?h (xs @ [a]) = linked h (xs @ [a])"
    by (rule linked_cong) (use assms(2) in \<open>cases xs; auto simp: splice_out_def\<close>)+
  moreover have "linked ?h (b # ys) = linked h (b # ys)"
    by (rule linked_cong) (use assms(2) in \<open>auto simp: splice_out_def dest: in_set_butlastD\<close>)+
  moreover have "e_next (?h a) = b" "e_prev (?h b) = a"
    using assms(2) by (auto simp: splice_out_def)
  ultimately show ?thesis by (simp add: linked_append [of ?h xs a "b # ys"])
qed

subsection \<open>The operations as surgeries\<close>

lemma elems_cli_sti [simp]: "elems (cli s) = elems s" "elems (sti s) = elems s"
  by (simp_all add: cli_def sti_def)

lemma elems_intr_disable [simp]: "elems (snd (intr_disable s)) = elems s"
  by (simp add: intr_disable_def)

lemma elems_intr_set_status [simp]: "elems (snd (intr_set_status st s)) = elems s"
  by (cases st) (simp_all add: intr_set_status_def intr_enable_def intr_disable_def)

lemma eflags_set_links [simp]:
  "eflags (set_prev a v s) = eflags s" "eflags (set_next a v s) = eflags s"
  by (simp_all add: set_prev_def set_next_def)

lemma eflags_insert_before [frame_simps]: "eflags (list_insert_before b e s) = eflags s"
  by (simp add: list_insert_before_def case_prod_beta Let_def restore_eflags)

lemma eflags_remove [frame_simps]: "eflags (list_remove e s) = eflags s"
  by (simp add: list_remove_def case_prod_beta Let_def restore_eflags)

lemma elems_insert_before:
  assumes "e_prev (elems s b) = a" and "a \<noteq> b" and "e \<noteq> a" and "e \<noteq> b"
  shows "elems (list_insert_before b e s) = splice_in (elems s) a e b"
  using assms
  by (auto simp: list_insert_before_def case_prod_beta Let_def set_prev_def set_next_def
      splice_in_def fun_eq_iff)

lemma elems_remove:
  assumes "e_prev (elems s e) = a" and "e_next (elems s e) = b" and "a \<noteq> e" and "a \<noteq> b"
  shows "elems (list_remove e s) = splice_out (elems s) a b"
  using assms
  by (auto simp: list_remove_def case_prod_beta Let_def set_prev_def set_next_def
      splice_out_def fun_eq_iff)

abbreviation nodes :: "u32 \<Rightarrow> u32 list \<Rightarrow> u32 set" where
  "nodes p xs \<equiv> set (p # xs @ [tail_of p])"

lemma dlist_init: "dlist (elems (list_init p s)) p []"
  by (simp add: dlist_def list_init_def set_prev_def set_next_def Let_def)

lemma dlist_insert:
  assumes d: "dlist (elems s) p (xs @ ys)" and e: "e \<notin> nodes p (xs @ ys)"
    and b: "b = hd (ys @ [tail_of p])"
  shows "dlist (elems (list_insert_before b e s)) p (xs @ e # ys)"
proof -
  obtain us a where us: "p # xs = us @ [a]" by (metis list.distinct(1) rev_exhaust)
  obtain vs where vs: "ys @ [tail_of p] = b # vs" using b by (cases ys) auto
  have chain: "p # (xs @ ys) @ [tail_of p] = us @ a # b # vs"
    using us vs by (metis append.assoc append_Cons append_Nil)
  from d have lk: "linked (elems s) (us @ a # b # vs)" and ds: "distinct (us @ a # b # vs)"
    unfolding dlist_def chain by simp_all
  from e have e': "e \<notin> set (us @ a # b # vs)" unfolding chain .
  have h: "elems (list_insert_before b e s) = splice_in (elems s) a e b"
    using linked_mid [OF lk] ds e' by (intro elems_insert_before) auto
  have chain': "p # (xs @ e # ys) @ [tail_of p] = us @ a # e # b # vs"
    using us vs by (metis append.assoc append_Cons append_Nil)
  have ends: "e_prev (splice_in (elems s) a e b p) = 0" "e_next (splice_in (elems s) a e b (tail_of p)) = 0"
  proof -
    have "p \<noteq> b" using ds us by (cases us) auto
    moreover have "p \<noteq> e" "tail_of p \<noteq> e" using e by auto
    moreover have "tail_of p \<in> set (b # vs)" by (simp flip: vs)
    then have "tail_of p \<noteq> a" using ds by auto
    ultimately show "e_prev (splice_in (elems s) a e b p) = 0"
      "e_next (splice_in (elems s) a e b (tail_of p)) = 0"
      using d by (auto simp: splice_in_def dlist_def)
  qed
  from linked_splice_in [OF lk ds e'] ds e' ends show ?thesis
    unfolding dlist_def chain' h by auto
qed

lemma dlist_remove:
  assumes d: "dlist (elems s) p (xs @ e # ys)"
  shows "dlist (elems (list_remove e s)) p (xs @ ys)"
proof -
  obtain us a where us: "p # xs = us @ [a]" by (metis list.distinct(1) rev_exhaust)
  obtain b vs where vs: "ys @ [tail_of p] = b # vs" by (cases ys) auto
  have chain: "p # (xs @ e # ys) @ [tail_of p] = us @ a # e # b # vs"
    using us vs by (metis append.assoc append_Cons append_Nil)
  from d have lk: "linked (elems s) (us @ a # e # b # vs)" and ds: "distinct (us @ a # e # b # vs)"
    unfolding dlist_def chain by simp_all
  have h: "elems (list_remove e s) = splice_out (elems s) a b"
    using linked_mid [OF lk] linked_mid [of "elems s" "us @ [a]" e b vs] lk ds
    by (intro elems_remove) auto
  have chain': "p # (xs @ ys) @ [tail_of p] = us @ a # b # vs"
    using us vs by (metis append.assoc append_Cons append_Nil)
  have "p \<noteq> b" using ds us by (cases us) auto
  moreover have "tail_of p \<in> set (b # vs)" by (simp flip: vs)
  then have "tail_of p \<noteq> a" using ds by auto
  ultimately have "e_prev (splice_out (elems s) a b p) = 0"
    "e_next (splice_out (elems s) a b (tail_of p)) = 0"
    using d by (auto simp: splice_out_def dlist_def)
  with linked_splice_out [OF lk ds] ds show ?thesis
    unfolding dlist_def chain' h by auto
qed

lemma dlist_first: "dlist h p xs \<Longrightarrow> e_next (h p) = hd (xs @ [tail_of p])"
  by (cases xs) (auto simp: dlist_def)

lemma dlist_append:
  "dlist (elems s) p xs \<Longrightarrow> e \<notin> nodes p xs \<Longrightarrow> dlist (elems (list_append p e s)) p (xs @ [e])"
  using dlist_insert [of s p xs "[]" e "tail_of p"] by (simp add: list_append_def)

lemma dlist_push:
  "dlist (elems s) p xs \<Longrightarrow> e \<notin> nodes p xs \<Longrightarrow> dlist (elems (list_push p e s)) p (e # xs)"
  using dlist_insert [of s p "[]" xs e] dlist_first [of "elems s" p xs] by (simp add: list_push_def)

lemma dlist_pop:
  assumes "dlist (elems s) p (x # xs)"
  shows "fst (list_pop p s) = x" and "dlist (elems (snd (list_pop p s))) p xs"
  using assms dlist_first [OF assms] dlist_remove [of s p "[]" x xs]
  by (simp_all add: list_pop_def Let_def)

lemma list_empty_iff: "dlist (elems s) p xs \<Longrightarrow> list_empty p s \<longleftrightarrow> xs = []"
  using dlist_first [of "elems s" p xs] by (cases xs) (auto simp: list_empty_def dlist_def)

text \<open>Walking the links of a suffix.\<close>

lemma elem_find_suffix:
  assumes "linked h (ys @ [tail_of p])" and "distinct (ys @ [tail_of p])"
  shows "elem_find_from h p obj (hd (ys @ [tail_of p])) = Some (obj \<in> set ys)"
  using assms
proof (induction ys)
  case Nil
  then show ?case by (simp add: elem_find_from.simps [of h p obj "tail_of p"])
next
  case (Cons y ys)
  from Cons.prems(1) have nxt: "e_next (h y) = hd (ys @ [tail_of p])"
    and lk: "linked h (ys @ [tail_of p])" by (cases ys; simp)+
  from Cons.IH [OF lk] Cons.prems(2)
  have "elem_find_from h p obj (e_next (h y)) = Some (obj \<in> set ys)" by (simp add: nxt)
  with Cons.prems(2) show ?case by (auto simp: elem_find_from.simps [of h p obj y])
qed

lemma list_len_suffix:
  assumes "linked h (ys @ [tail_of p])" and "distinct (ys @ [tail_of p])"
  shows "list_len_from h p (hd (ys @ [tail_of p])) n = Some (n + of_nat (length ys))"
  using assms
proof (induction ys arbitrary: n)
  case Nil
  then show ?case by (simp add: list_len_from.simps [of h p "tail_of p"])
next
  case (Cons y ys)
  from Cons.prems(1) have nxt: "e_next (h y) = hd (ys @ [tail_of p])"
    and lk: "linked h (ys @ [tail_of p])" by (cases ys; simp)+
  from Cons.IH [OF lk, of "n + 1"] Cons.prems(2)
  have "list_len_from h p (e_next (h y)) (n + 1) = Some (n + 1 + of_nat (length ys))"
    by (simp add: nxt)
  with Cons.prems(2) show ?case by (simp add: list_len_from.simps [of h p y] add.commute add.left_commute)
qed

text \<open>A callback that keeps the links visits the elements in order up to the first hit.\<close>

lemma traverse_suffix:
  assumes "\<And>e t. e \<in> set ys \<Longrightarrow> elems (snd (func e t)) = elems t"
    and "linked (elems s) (ys @ [tail_of p])" and "distinct (ys @ [tail_of p])"
    and "\<And>e t. e \<in> set ys \<Longrightarrow> fst (func e t) \<longleftrightarrow> hit e"
  shows "\<exists>t. traverse_from p func (hd (ys @ [tail_of p])) s =
               Some (case find hit ys of None \<Rightarrow> 0 | Some e \<Rightarrow> e, t) \<and> elems t = elems s"
  using assms
proof (induction ys arbitrary: s)
  case Nil
  then show ?case by (simp add: traverse_from.simps [of p func "tail_of p"])
next
  case (Cons y ys)
  from Cons.prems(2) have nxt: "e_next (elems s y) = hd (ys @ [tail_of p])"
    and lk: "linked (elems s) (ys @ [tail_of p])" by (cases ys; simp)+
  let ?t = "snd (func y s)"
  have same: "elems ?t = elems s" using Cons.prems(1) by simp
  have "\<exists>t. traverse_from p func (hd (ys @ [tail_of p])) ?t =
               Some (case find hit ys of None \<Rightarrow> 0 | Some e \<Rightarrow> e, t) \<and> elems t = elems ?t"
    using Cons.prems lk same by (intro Cons.IH) auto
  with Cons.prems(3,4) nxt same show ?case
    by (auto simp: traverse_from.simps [of p func y] case_prod_beta Let_def)
qed

lemma dlist_tail_chain: "dlist h p xs \<Longrightarrow> linked h (xs @ [tail_of p]) \<and> distinct (xs @ [tail_of p])"
  by (cases xs) (auto simp: dlist_def)

lemma elem_find_dlist: "dlist (elems s) p xs \<Longrightarrow> elem_find p e s = Some (e \<in> set xs)"
  using elem_find_suffix [of "elems s" xs p e] dlist_tail_chain [of "elems s" p xs]
    dlist_first [of "elems s" p xs] by (simp add: elem_find_def)

lemma list_len_dlist: "dlist (elems s) p xs \<Longrightarrow> list_len p s = Some (of_nat (length xs))"
  using list_len_suffix [of "elems s" xs p 0] dlist_tail_chain [of "elems s" p xs]
    dlist_first [of "elems s" p xs] by (simp add: list_len_def)

lemma linked_other:
  assumes "set zs \<inter> A = {}" and "\<And>x. x \<notin> A \<Longrightarrow> h' x = h x"
  shows "linked h' zs = linked h zs"
proof (rule linked_cong)
  have same: "h' x = h x" if "x \<in> set zs" for x using that assms by auto
  show "\<forall>x \<in> set (butlast zs). e_next (h' x) = e_next (h x)"
    using same by (auto dest: in_set_butlastD)
  show "\<forall>x \<in> set (tl zs). e_prev (h' x) = e_prev (h x)"
    using same by (cases zs) auto
qed

lemma dlist_other:
  assumes "dlist h q ys" and "nodes q ys \<inter> A = {}" and "\<And>x. x \<notin> A \<Longrightarrow> h' x = h x"
  shows "dlist h' q ys"
proof -
  have "linked h' (q # ys @ [tail_of q]) = linked h (q # ys @ [tail_of q])"
    by (rule linked_other [OF assms(2,3)])
  moreover have "h' q = h q" "h' (tail_of q) = h (tail_of q)"
    by (rule assms(3); use assms(2) in auto)+
  ultimately show ?thesis using assms(1) by (simp add: dlist_def)
qed

subsection \<open>The list interface\<close>

text \<open>
  What the users of list.c rely on: \<open>holds s p xs\<close> says that in state \<open>s\<close> the
  list at \<open>p\<close> contains the elements \<open>xs\<close>; \<open>member p xs\<close> are the addresses the
  list occupies, and a new element must not be one of them.
\<close>

locale elem_list =
  fixes holds :: "'s \<Rightarrow> u32 \<Rightarrow> u32 list \<Rightarrow> bool"
    and member :: "u32 \<Rightarrow> u32 list \<Rightarrow> u32 set"
    and append :: "u32 \<Rightarrow> u32 \<Rightarrow> 's \<Rightarrow> 's"
    and pop :: "u32 \<Rightarrow> 's \<Rightarrow> u32 \<times> 's"
  assumes holds_append: "holds s p xs \<Longrightarrow> e \<notin> member p xs \<Longrightarrow> holds (append p e s) p (xs @ [e])"
    and pop_value: "holds s p (x # xs) \<Longrightarrow> fst (pop p s) = x"
    and pop_state: "holds s p (x # xs) \<Longrightarrow> holds (snd (pop p s)) p xs"
    and popped_fresh: "holds s p (x # xs) \<Longrightarrow> x \<notin> member p xs"
    and member_append: "member p (xs @ [e]) = insert e (member p xs)"
begin

lemma append_all:
  "holds s p xs \<Longrightarrow> distinct es \<Longrightarrow> set es \<inter> member p xs = {} \<Longrightarrow>
     holds (fold (append p) es s) p (xs @ es)"
proof (induction es arbitrary: s xs)
  case Nil
  then show ?case by simp
next
  case (Cons e es)
  then have "holds (append p e s) p (xs @ [e])" by (intro holds_append) auto
  with Cons have "holds (fold (append p) es (append p e s)) p ((xs @ [e]) @ es)"
    by (intro Cons.IH) (auto simp: member_append)
  then show ?case by simp
qed

text \<open>One round of a round-robin queue: the head goes to the back.\<close>

lemma rotate_one:
  assumes "holds s p (x # xs)"
  shows "holds (append p (fst (pop p s)) (snd (pop p s))) p (xs @ [x])"
  using pop_value [OF assms] pop_state [OF assms] popped_fresh [OF assms]
  by (auto intro: holds_append)

lemma rotate_many:
  "holds s p xs \<Longrightarrow> xs \<noteq> [] \<Longrightarrow>
     holds (((\<lambda>s. append p (fst (pop p s)) (snd (pop p s))) ^^ n) s) p (rotate n xs)"
proof (induction n)
  case 0
  then show ?case by simp
next
  case (Suc n)
  from Suc.prems have ne: "rotate n xs \<noteq> []" by simp
  then obtain y ys where y: "rotate n xs = y # ys" by (cases "rotate n xs") auto
  with Suc have "holds (((\<lambda>s. append p (fst (pop p s)) (snd (pop p s))) ^^ n) s) p (y # ys)" by simp
  from rotate_one [OF this] show ?case by (simp add: rotate_Suc y)
qed

text \<open>
  No starvation: every element of the queue is at the head after as many
  rounds as there are elements in front of it.
\<close>

lemma reaches_head:
  assumes "holds s p xs" and "i < length xs"
  shows "fst (pop p (((\<lambda>s. append p (fst (pop p s)) (snd (pop p s))) ^^ i) s)) = xs ! i"
proof -
  have "rotate i xs = xs ! i # drop (Suc i) xs @ take i xs"
    using assms(2) by (simp add: rotate_drop_take Cons_nth_drop_Suc)
  moreover have "xs \<noteq> []" using assms(2) by auto
  ultimately show ?thesis
    using rotate_many [OF assms(1), of i] pop_value by auto
qed

end

interpretation kl: elem_list "\<lambda>s. dlist (elems s)" nodes
  "list_append :: u32 \<Rightarrow> u32 \<Rightarrow> 'a kheap_scheme \<Rightarrow> 'a kheap_scheme" list_pop
proof
  fix s :: "'a kheap_scheme" and p x e :: u32 and xs
  show "dlist (elems s) p xs \<Longrightarrow> e \<notin> nodes p xs \<Longrightarrow> dlist (elems (list_append p e s)) p (xs @ [e])"
    by (rule dlist_append)
  assume d: "dlist (elems s) p (x # xs)"
  from d show "fst (list_pop p s) = x" and "dlist (elems (snd (list_pop p s))) p xs"
    by (rule dlist_pop)+
  from d show "x \<notin> nodes p xs" by (auto simp: dlist_def)
qed auto

subsection \<open>Properties\<close>


text \<open>A list at address 100 with the two elements 500 and 600.\<close>

definition demo_heap :: kheap where
  "demo_heap = list_append 100 600 (list_append 100 500
     (list_init 100 \<lparr>eflags = 0x200, elems = (\<lambda>_. \<lparr>e_prev = 0, e_next = 0\<rparr>)\<rparr>))"

lemma demo_heap_holds: "dlist (elems demo_heap) 100 ([] @ 500 # [600])"
  using kl.append_all [OF dlist_init, of "[500, 600]" 100] by (simp add: demo_heap_def)


text \<open>Search, length and traversal agree with the sequence.\<close>

lemma list_walks_agree_with_sequence:
  assumes "dlist (elems s) p xs"
    and "\<And>x t. x \<in> set xs \<Longrightarrow> elems (snd (func x t)) = elems t \<and> (fst (func x t) \<longleftrightarrow> hit x)"
  shows "elem_find p e s = Some (e \<in> set xs) \<and>
         list_len p s = Some (of_nat (length xs)) \<and>
         (list_empty p s \<longleftrightarrow> xs = []) \<and>
         (\<exists>t. list_traversal p func s = Some (case find hit xs of None \<Rightarrow> 0 | Some x \<Rightarrow> x, t)
              \<and> elems t = elems s)"
proof -
  have "\<exists>t. traverse_from p func (hd (xs @ [tail_of p])) s =
               Some (case find hit xs of None \<Rightarrow> 0 | Some e \<Rightarrow> e, t) \<and> elems t = elems s"
    using dlist_tail_chain [OF assms(1)] assms(2) by (intro traverse_suffix) auto
  then show ?thesis
    using elem_find_dlist [OF assms(1)] list_len_dlist [OF assms(1)] list_empty_iff [OF assms(1)]
      dlist_first [OF assms(1)]
    by (cases "xs = []") (simp_all add: list_traversal_def Let_def)
qed

lemma list_walks_agree_with_sequence_demo:
  "elem_find 100 600 demo_heap = Some True \<and> list_len 100 demo_heap = Some 2 \<and>
   \<not> list_empty 100 demo_heap \<and>
   (\<exists>t. list_traversal 100 (\<lambda>x t. (x = 600, t)) demo_heap = Some (600, t))"
  using list_walks_agree_with_sequence [OF demo_heap_holds, of "\<lambda>x t. (x = 600, t)" "\<lambda>x. x = 600" 600]
  by auto

text \<open>Rotating a list by pop and append reaches every element.\<close>

lemma round_robin_reaches_every_element:
  assumes "dlist (elems s) p xs" and "i < length xs"
  shows "fst (list_pop p (((\<lambda>s. list_append p (fst (list_pop p s)) (snd (list_pop p s))) ^^ i) s)) = xs ! i"
  using assms by (rule kl.reaches_head)

lemma round_robin_reaches_every_element_demo:
  "fst (list_pop 100 (((\<lambda>s. list_append 100 (fst (list_pop 100 s)) (snd (list_pop 100 s))) ^^ 1) demo_heap)) = 600"
  using round_robin_reaches_every_element [OF demo_heap_holds, of 1] by simp

end
