(* ===== verification/CString.thy ===== *)
theory CString
  imports Prelude
begin

text \<open>
  The memory and string routines of lib/string.c over a flat byte memory.
  \<open>char\<close> is signed on the target, so \<open>memcmp\<close> and \<open>strcmp\<close> compare bytes as
  signed values, and the searches compare a sign-extended character with an
  unsigned argument.  Loops that stop at a terminator are partial: they do not
  return when memory holds none.
\<close>

type_synonym mem = "u32 \<Rightarrow> u8"

function memset_loop :: "mem \<Rightarrow> u32 \<Rightarrow> u8 \<Rightarrow> u32 \<Rightarrow> mem" where
  "memset_loop m dst v sz =
     (if 0 < sz then memset_loop (m(dst := v)) (dst + 1) v (sz - 1) else m)"
  by pat_completeness auto
termination
  by (relation "measure (\<lambda>(m, dst, v, sz). unat sz)") auto

definition memset :: "mem \<Rightarrow> u32 \<Rightarrow> u8 \<Rightarrow> u32 \<Rightarrow> mem option" where
  "memset m dst v sz = do { ASSERT (dst \<noteq> 0); Some (memset_loop m dst v sz) }"

function memcpy_loop :: "mem \<Rightarrow> u32 \<Rightarrow> u32 \<Rightarrow> u32 \<Rightarrow> mem" where
  "memcpy_loop m dst src sz =
     (if 0 < sz then memcpy_loop (m(dst := m src)) (dst + 1) (src + 1) (sz - 1) else m)"
  by pat_completeness auto
termination
  by (relation "measure (\<lambda>(m, dst, src, sz). unat sz)") auto

definition memcpy :: "mem \<Rightarrow> u32 \<Rightarrow> u32 \<Rightarrow> u32 \<Rightarrow> mem option" where
  "memcpy m dst src sz =
     do { ASSERT (dst \<noteq> 0 \<and> src \<noteq> 0); Some (memcpy_loop m dst src sz) }"

function memcmp_loop :: "mem \<Rightarrow> u32 \<Rightarrow> u32 \<Rightarrow> u32 \<Rightarrow> int" where
  "memcmp_loop m a b sz =
     (if 0 < sz then
        if m a \<noteq> m b then (if sint (m a) > sint (m b) then 1 else -1)
        else memcmp_loop m (a + 1) (b + 1) (sz - 1)
      else 0)"
  by pat_completeness auto
termination
  by (relation "measure (\<lambda>(m, a, b, sz). unat sz)") auto

definition memcmp :: "mem \<Rightarrow> u32 \<Rightarrow> u32 \<Rightarrow> u32 \<Rightarrow> int option" where
  "memcmp m a b sz = do { ASSERT (a \<noteq> 0 \<or> b \<noteq> 0); Some (memcmp_loop m a b sz) }"

declare memset_loop.simps [simp del] memcpy_loop.simps [simp del] memcmp_loop.simps [simp del]

partial_function (option) strcpy_loop :: "mem \<Rightarrow> u32 \<Rightarrow> u32 \<Rightarrow> mem option" where
  "strcpy_loop m dst src =
     (let c = m src; m' = m(dst := c)
      in if c \<noteq> 0 then strcpy_loop m' (dst + 1) (src + 1) else Some m')"

definition strcpy :: "mem \<Rightarrow> u32 \<Rightarrow> u32 \<Rightarrow> mem option" where
  "strcpy m dst src = do { ASSERT (dst \<noteq> 0 \<and> src \<noteq> 0); strcpy_loop m dst src }"

partial_function (option) strlen_loop :: "mem \<Rightarrow> u32 \<Rightarrow> u32 option" where
  "strlen_loop m p = (if m p \<noteq> 0 then strlen_loop m (p + 1) else Some (p + 1))"

definition strlen :: "mem \<Rightarrow> u32 \<Rightarrow> u32 option" where
  "strlen m str = do { ASSERT (str \<noteq> 0); p \<leftarrow> strlen_loop m str; Some (p - str - 1) }"

partial_function (option) strcmp_loop :: "mem \<Rightarrow> u32 \<Rightarrow> u32 \<Rightarrow> (u32 \<times> u32) option" where
  "strcmp_loop m a b =
     (if m a \<noteq> 0 \<and> m a = m b then strcmp_loop m (a + 1) (b + 1) else Some (a, b))"

definition strcmp :: "mem \<Rightarrow> u32 \<Rightarrow> u32 \<Rightarrow> int option" where
  "strcmp m a b =
     do {
       ASSERT (a \<noteq> 0 \<and> b \<noteq> 0);
       (a, b) \<leftarrow> strcmp_loop m a b;
       Some (if sint (m a) < sint (m b) then -1 else if sint (m a) > sint (m b) then 1 else 0)
     }"

partial_function (option) strchr_loop :: "mem \<Rightarrow> u32 \<Rightarrow> u8 \<Rightarrow> u32 option" where
  "strchr_loop m str ch =
     (if m str \<noteq> 0 then
        if sint (m str) = uint ch then Some str else strchr_loop m (str + 1) ch
      else Some 0)"

definition strchr :: "mem \<Rightarrow> u32 \<Rightarrow> u8 \<Rightarrow> u32 option" where
  "strchr m str ch = do { ASSERT (str \<noteq> 0); strchr_loop m str ch }"

partial_function (option) strrchr_loop :: "mem \<Rightarrow> u32 \<Rightarrow> u8 \<Rightarrow> u32 \<Rightarrow> u32 option" where
  "strrchr_loop m str ch last_char =
     (if m str \<noteq> 0 then
        strrchr_loop m (str + 1) ch (if sint (m str) = uint ch then str else last_char)
      else Some last_char)"

definition strrchr :: "mem \<Rightarrow> u32 \<Rightarrow> u8 \<Rightarrow> u32 option" where
  "strrchr m str ch = do { ASSERT (str \<noteq> 0); strrchr_loop m str ch 0 }"

definition strcat :: "mem \<Rightarrow> u32 \<Rightarrow> u32 \<Rightarrow> mem option" where
  "strcat m dst src =
     do {
       ASSERT (dst \<noteq> 0 \<and> src \<noteq> 0);
       str \<leftarrow> strlen_loop m dst;
       strcpy_loop m (str - 1) src
     }"

partial_function (option) strchrs_loop :: "mem \<Rightarrow> u32 \<Rightarrow> u8 \<Rightarrow> u32 \<Rightarrow> u32 option" where
  "strchrs_loop m p ch ch_cnt =
     (if m p \<noteq> 0 then strchrs_loop m (p + 1) ch (if sint (m p) = uint ch then ch_cnt + 1 else ch_cnt)
      else Some ch_cnt)"

definition strchrs :: "mem \<Rightarrow> u32 \<Rightarrow> u8 \<Rightarrow> u32 option" where
  "strchrs m str ch = do { ASSERT (str \<noteq> 0); strchrs_loop m str ch 0 }"

subsection \<open>Bytes in memory\<close>

text \<open>\<open>bytes_at m p bs\<close>: the bytes \<open>bs\<close> lie at \<open>p\<close>; \<open>cstr m p s\<close>: a terminated string \<open>s\<close> lies at \<open>p\<close>.\<close>

fun bytes_at :: "mem \<Rightarrow> u32 \<Rightarrow> u8 list \<Rightarrow> bool" where
  "bytes_at m p [] = True"
| "bytes_at m p (c # cs) = (m p = c \<and> bytes_at m (p + 1) cs)"

definition cstr :: "mem \<Rightarrow> u32 \<Rightarrow> u8 list \<Rightarrow> bool" where
  "cstr m p s \<longleftrightarrow> bytes_at m p (s @ [0]) \<and> 0 \<notin> set s"

fun write_bytes :: "mem \<Rightarrow> u32 \<Rightarrow> u8 list \<Rightarrow> mem" where
  "write_bytes m p [] = m"
| "write_bytes m p (c # cs) = write_bytes (m(p := c)) (p + 1) cs"

text \<open>The addresses of \<open>n\<close> bytes from \<open>p\<close> on.\<close>

fun region :: "u32 \<Rightarrow> nat \<Rightarrow> u32 set" where
  "region p 0 = {}"
| "region p (Suc n) = insert p (region (p + 1) n)"

lemma region_numeral [simp]:
  "region p (numeral k) = insert p (region (p + 1) (pred_numeral k))"
  by (simp add: numeral_eq_Suc)

lemma cstr_Nil [simp]: "cstr m p [] \<longleftrightarrow> m p = 0"
  by (simp add: cstr_def)

lemma cstr_Cons [simp]: "cstr m p (c # cs) \<longleftrightarrow> c \<noteq> 0 \<and> m p = c \<and> cstr m (p + 1) cs"
  by (auto simp: cstr_def)

lemma bytes_at_append:
  "bytes_at m p (xs @ ys) \<longleftrightarrow> bytes_at m p xs \<and> bytes_at m (p + of_nat (length xs)) ys"
  by (induction xs arbitrary: p) (simp_all add: add.assoc)

lemma region_iff: "a \<in> region p n \<longleftrightarrow> (\<exists>i < n. a = p + of_nat i)"
proof (induction n arbitrary: p)
  case 0
  then show ?case by simp
next
  case (Suc n)
  have "(\<exists>i < Suc n. a = p + of_nat i) \<longleftrightarrow> a = p \<or> (\<exists>i < n. a = p + 1 + of_nat i)"
    unfolding less_Suc_eq_0_disj by (auto simp: add.assoc)
  with Suc show ?case by simp
qed

lemma region_self: "n < 4294967296 \<Longrightarrow> p \<notin> region (p + 1) n"
proof
  assume n: "n < 4294967296" and "p \<in> region (p + 1) n"
  then obtain i where i: "i < n" "p = p + 1 + of_nat i" by (auto simp: region_iff)
  from i(2) have "(of_nat (Suc i) :: u32) = 0"
    by (metis add.assoc add_cancel_left_right of_nat_Suc)
  moreover have "unat (of_nat (Suc i) :: u32) = Suc i"
    using i(1) n by (intro unat_of_nat_small) simp
  ultimately show False by simp
qed

lemma bytes_at_cong: "(\<And>a. a \<in> region p (length bs) \<Longrightarrow> m' a = m a) \<Longrightarrow> bytes_at m' p bs = bytes_at m p bs"
  by (induction bs arbitrary: p) auto

lemma write_bytes_other: "a \<notin> region p (length bs) \<Longrightarrow> write_bytes m p bs a = m a"
  by (induction bs arbitrary: m p) auto

lemma write_bytes_append:
  "write_bytes m p (xs @ ys) = write_bytes (write_bytes m p xs) (p + of_nat (length xs)) ys"
  by (induction xs arbitrary: m p) (simp_all add: add.assoc)

lemma bytes_at_write: "length bs < 4294967296 \<Longrightarrow> bytes_at (write_bytes m p bs) p bs"
proof (induction bs arbitrary: m p)
  case Nil
  then show ?case by simp
next
  case (Cons b bs)
  have "write_bytes (m(p := b)) (p + 1) bs p = b"
    using Cons.prems region_self [of "length bs" p] by (simp add: write_bytes_other)
  with Cons show ?case by simp
qed

lemma bytes_at_write_other:
  "region p (length bs) \<inter> region q (length cs) = {} \<Longrightarrow> bytes_at (write_bytes m p bs) q cs = bytes_at m q cs"
  by (rule bytes_at_cong) (auto intro: write_bytes_other)

lemma cstr_cong:
  "(\<And>a. a \<in> region p (Suc (length s)) \<Longrightarrow> m' a = m a) \<Longrightarrow> cstr m' p s = cstr m p s"
  unfolding cstr_def using bytes_at_cong [of p "s @ [0]" m' m] by simp

lemma cstr_write_same:
  assumes "0 \<notin> set s" "Suc (length s) < 4294967296"
  shows "cstr (write_bytes m p (s @ [0])) p s"
  unfolding cstr_def using assms bytes_at_write [of "s @ [0]" m p] by simp

subsection \<open>Fills and copies\<close>

lemma memset_loop_eq: "memset_loop m dst v n = write_bytes m dst (replicate (unat n) v)"
proof (induction m dst v n rule: memset_loop.induct)
  case (1 m dst v n)
  show ?case
  proof (cases "0 < n")
    case True
    then have "unat n = Suc (unat (n - 1))" by (simp add: unat_dec word_less_nat_alt)
    with True 1 show ?thesis by (subst memset_loop.simps) (simp add: fun_upd_def)
  next
    case False
    then show ?thesis by (subst memset_loop.simps) (simp add: word_gt_0)
  qed
qed

lemma memcpy_loop_eq:
  assumes "bytes_at m src bs" "length bs = unat n" "region dst (unat n) \<inter> region src (unat n) = {}"
  shows "memcpy_loop m dst src n = write_bytes m dst bs"
  using assms
proof (induction m dst src n arbitrary: bs rule: memcpy_loop.induct)
  case (1 m dst src n)
  show ?case
  proof (cases "0 < n")
    case True
    then have n: "unat n = Suc (unat (n - 1))" by (simp add: unat_dec word_less_nat_alt)
    from 1(3) n obtain c cs where bs: "bs = c # cs" "length cs = unat (n - 1)" by (cases bs) auto
    have "bytes_at (m(dst := m src)) (src + 1) cs = bytes_at m (src + 1) cs"
      using 1(4) bs n by (intro bytes_at_cong) auto
    then have "bytes_at (m(dst := m src)) (src + 1) cs" using 1(2) bs by simp
    moreover have "region (dst + 1) (unat (n - 1)) \<inter> region (src + 1) (unat (n - 1)) = {}"
      using 1(4) n by auto
    ultimately have "memcpy_loop (m(dst := m src)) (dst + 1) (src + 1) (n - 1)
        = write_bytes (m(dst := m src)) (dst + 1) cs"
      using 1(1) [OF True] bs by blast
    moreover have "m src = c" using 1(2) bs by simp
    ultimately show ?thesis using True bs by (subst memcpy_loop.simps) simp
  next
    case False
    with 1(3) show ?thesis by (subst memcpy_loop.simps) (simp add: word_gt_0)
  qed
qed

subsection \<open>Terminated strings\<close>

lemma strlen_loop_eq: "cstr m p s \<Longrightarrow> strlen_loop m p = Some (p + of_nat (length s) + 1)"
proof (induction s arbitrary: p)
  case Nil
  then show ?case by (subst strlen_loop.simps) simp
next
  case (Cons c s)
  then show ?case by (subst strlen_loop.simps) (simp add: add_ac)
qed

lemma strlen_eq: "cstr m p s \<Longrightarrow> p \<noteq> 0 \<Longrightarrow> strlen m p = Some (of_nat (length s))"
  by (simp add: strlen_def strlen_loop_eq)

lemma strcpy_loop_eq:
  "cstr m src s \<Longrightarrow> region dst (Suc (length s)) \<inter> region src (Suc (length s)) = {}
    \<Longrightarrow> strcpy_loop m dst src = Some (write_bytes m dst (s @ [0]))"
proof (induction s arbitrary: m dst src)
  case Nil
  then show ?case by (subst strcpy_loop.simps) simp
next
  case (Cons c s)
  have "cstr (m(dst := c)) (src + 1) s = cstr m (src + 1) s"
    using Cons.prems(2) by (intro cstr_cong) auto
  moreover have "region (dst + 1) (Suc (length s)) \<inter> region (src + 1) (Suc (length s)) = {}"
    using Cons.prems(2) by auto
  ultimately have "strcpy_loop (m(dst := c)) (dst + 1) (src + 1)
      = Some (write_bytes (m(dst := c)) (dst + 1) (s @ [0]))"
    using Cons.IH [of "m(dst := c)" "src + 1" "dst + 1"] Cons.prems(1) by (simp only: cstr_Cons)
  then show ?case using Cons.prems(1) by (subst strcpy_loop.simps) simp
qed

lemma region_append: "region p (a + b) = region p a \<union> region (p + of_nat a) b"
  by (induction a arbitrary: p) (auto simp: add_ac)

lemma strcat_eq:
  assumes "cstr m dst d" "cstr m src s" "dst \<noteq> 0" "src \<noteq> 0"
    and "region (dst + of_nat (length d)) (Suc (length s)) \<inter> region src (Suc (length s)) = {}"
  shows "strcat m dst src = Some (write_bytes m (dst + of_nat (length d)) (s @ [0]))"
  using assms by (simp add: strcat_def strlen_loop_eq strcpy_loop_eq)

text \<open>The order \<open>strcmp\<close> decides: lexicographic on signed characters, with 0 as the end.\<close>

fun signed_order :: "u8 list \<Rightarrow> u8 list \<Rightarrow> int" where
  "signed_order [] [] = 0"
| "signed_order [] (y # ys) = (if 0 < sint y then -1 else 1)"
| "signed_order (x # xs) [] = (if sint x < 0 then -1 else 1)"
| "signed_order (x # xs) (y # ys) =
     (if x = y then signed_order xs ys else if sint x < sint y then -1 else 1)"

lemma sint_zero_u8 [simp]: "sint (c :: u8) = 0 \<longleftrightarrow> c = 0"
  by (metis sint_0 signed_word_eqI)

lemma sint_inj_u8: "sint (a :: u8) = sint b \<longleftrightarrow> a = b"
  by (auto intro: signed_word_eqI)

lemma signed_order_zero: "signed_order s t = 0 \<longleftrightarrow> s = t"
  by (induction s t rule: signed_order.induct) auto

definition sign_of :: "u8 \<Rightarrow> u8 \<Rightarrow> int" where
  "sign_of x y = (if sint x < sint y then -1 else if sint x > sint y then 1 else 0)"

lemma strcmp_loop_eq:
  "cstr m a s \<Longrightarrow> cstr m b t \<Longrightarrow>
    \<exists>a' b'. strcmp_loop m a b = Some (a', b') \<and> sign_of (m a') (m b') = signed_order s t"
proof (induction s t arbitrary: a b rule: signed_order.induct)
  case 1
  then show ?case by (subst strcmp_loop.simps) (simp add: sign_of_def)
next
  case (2 y ys)
  have "sint y \<noteq> 0" using 2 by auto
  with 2 show ?case by (subst strcmp_loop.simps) (auto simp: sign_of_def)
next
  case (3 x xs)
  have "sint x \<noteq> 0" using 3 by auto
  with 3 show ?case by (subst strcmp_loop.simps) (auto simp: sign_of_def)
next
  case (4 x xs y ys)
  show ?case
  proof (cases "x = y")
    case True
    with 4 show ?thesis by (subst strcmp_loop.simps) simp
  next
    case False
    then have "sint x \<noteq> sint y" by (simp add: sint_inj_u8)
    with 4 False show ?thesis by (subst strcmp_loop.simps) (auto simp: sign_of_def)
  qed
qed

lemma strcmp_eq:
  assumes "cstr m a s" "cstr m b t" "a \<noteq> 0" "b \<noteq> 0"
  shows "strcmp m a b = Some (signed_order s t)"
  using strcmp_loop_eq [OF assms(1,2)] assms(3,4) by (auto simp: strcmp_def sign_of_def)

text \<open>A character of the string compares equal to \<open>ch\<close> only below 128.\<close>

lemma signed_eq_unsigned: "sint (c :: u8) = uint ch \<longleftrightarrow> c = ch \<and> unat ch < 128"
proof (cases "unat ch < 128")
  case True
  moreover have "uint ch = int (unat ch)" by simp
  ultimately have "uint ch < 128" by linarith
  then have "uint ch < 2 ^ 7" by simp
  moreover have "- (2 ^ 7) \<le> uint ch" by (rule order_trans [of _ 0]) simp_all
  ultimately have "signed_take_bit 7 (uint ch) = uint ch"
    by (intro signed_take_bit_int_eq_self)
  then have "sint ch = uint ch" by (simp add: sint_uint)
  then show ?thesis using True by (metis sint_inj_u8)
next
  case False
  have "sint c < 128" using sint_lt [of c] by simp
  moreover have "uint ch = int (unat ch)" by simp
  ultimately show ?thesis using False by linarith
qed

fun positions :: "u32 \<Rightarrow> u8 list \<Rightarrow> u8 \<Rightarrow> u32 list" where
  "positions p [] ch = []"
| "positions p (c # cs) ch = (if c = ch then [p] else []) @ positions (p + 1) cs ch"

lemma strchr_loop_eq:
  "cstr m p s \<Longrightarrow> strchr_loop m p ch = Some (if unat ch < 128 \<and> ch \<in> set s then hd (positions p s ch) else 0)"
proof (induction s arbitrary: p)
  case Nil
  then show ?case by (subst strchr_loop.simps) simp
next
  case (Cons c s)
  then show ?case by (subst strchr_loop.simps) (auto simp: signed_eq_unsigned)
qed

lemma positions_Nil [simp]: "positions p s ch = [] \<longleftrightarrow> ch \<notin> set s"
  by (induction s arbitrary: p) auto

lemma length_positions: "length (positions p s ch) = count_list s ch"
  by (induction s arbitrary: p) auto

lemma strrchr_loop_eq:
  "cstr m p s \<Longrightarrow> strrchr_loop m p ch l
     = Some (if unat ch < 128 \<and> ch \<in> set s then last (positions p s ch) else l)"
proof (induction s arbitrary: p l)
  case Nil
  then show ?case by (subst strrchr_loop.simps) simp
next
  case (Cons c s)
  then show ?case by (subst strrchr_loop.simps) (auto simp: signed_eq_unsigned)
qed

lemma strchrs_loop_eq:
  "cstr m p s \<Longrightarrow> strchrs_loop m p ch n = Some (n + (if unat ch < 128 then of_nat (count_list s ch) else 0))"
proof (induction s arbitrary: p n)
  case Nil
  then show ?case by (subst strchrs_loop.simps) simp
next
  case (Cons c s)
  then show ?case by (subst strchrs_loop.simps) (simp add: signed_eq_unsigned)
qed

subsection \<open>Properties\<close>

lemma cstr_append:
  "cstr m p (d @ s) \<longleftrightarrow> bytes_at m p d \<and> 0 \<notin> set d \<and> cstr m (p + of_nat (length d)) s"
  by (auto simp: cstr_def bytes_at_append add_ac)

lemma region_unwrapped:
  assumes "unat p + n \<le> 4294967296"
  shows "a \<in> region p n \<longleftrightarrow> unat p \<le> unat a \<and> unat a < unat p + n"
proof
  assume "a \<in> region p n"
  then obtain i where "i < n" "a = p + of_nat i" by (auto simp: region_iff)
  moreover from this have "unat (p + of_nat i) = unat p + i"
    using assms by (simp add: unat_plus_small unat_of_nat_small)
  ultimately show "unat p \<le> unat a \<and> unat a < unat p + n" by simp
next
  assume a: "unat p \<le> unat a \<and> unat a < unat p + n"
  then have "a = p + of_nat (unat a - unat p)"
    by (simp add: of_nat_diff)
  with a show "a \<in> region p n" unfolding region_iff
    by (intro exI [of _ "unat a - unat p"]) auto
qed

text \<open>
  Property C36: \<open>strcat\<close> returns; when the text it writes stays inside the address space and
  apart from both the source and the old text, the destination then holds the two strings one after the other, and
  no other byte changes.
\<close>

theorem strcat_concatenates:
  assumes "cstr m dst d" "cstr m src s" "dst \<noteq> 0" "src \<noteq> 0"
    and "unat dst + length d + length s + 1 \<le> 4294967295"
    and "region (dst + of_nat (length d)) (Suc (length s)) \<inter> region src (Suc (length s)) = {}"
  shows "\<exists>m'. strcat m dst src = Some m' \<and> cstr m' dst (d @ s) \<and>
           (\<forall>a. a \<notin> region (dst + of_nat (length d)) (Suc (length s)) \<longrightarrow> m' a = m a)"
proof -
  let ?e = "dst + of_nat (length d)" and ?m = "write_bytes m (dst + of_nat (length d)) (s @ [0])"
  have e: "unat ?e = unat dst + length d"
    using assms(5) by (simp add: unat_plus_small unat_of_nat_small)
  have "bytes_at ?m dst d = bytes_at m dst d"
    using assms(5) e by (intro bytes_at_cong write_bytes_other)
      (simp add: region_unwrapped del: region.simps)
  moreover have "bytes_at m dst d" "0 \<notin> set d" using assms(1) by (simp_all add: cstr_def bytes_at_append)
  moreover have "cstr ?m ?e s" using assms(2,5) by (intro cstr_write_same) (simp_all add: cstr_def)
  ultimately have "cstr ?m dst (d @ s)" by (simp add: cstr_append)
  moreover have "\<forall>a. a \<notin> region ?e (Suc (length s)) \<longrightarrow> ?m a = m a"
    by (simp add: write_bytes_other)
  ultimately show ?thesis using strcat_eq [OF assms(1-4,6)] by blast
qed

definition demo_mem :: mem where
  "demo_mem = write_bytes (write_bytes (\<lambda>_. 0) 100 [47, 97, 0]) 200 [47, 98, 0]"

theorem strcat_concatenates_witness:
  "\<exists>m'. strcat demo_mem 100 200 = Some m' \<and> cstr m' 100 [47, 97, 47, 98]"
  using strcat_concatenates [of demo_mem 100 "[47, 97]" 200 "[47, 98]"]
  by (auto simp: demo_mem_def)

text \<open>\<open>strcmp\<close> returns on terminated strings; its result is the signed lexicographic order of the two texts and is zero exactly when they are equal.\<close>

lemma strcmp_decides_equality:
  assumes "cstr m a s" "cstr m b t" "a \<noteq> 0" "b \<noteq> 0"
  shows "strcmp m a b = Some (signed_order s t) \<and> (strcmp m a b = Some 0 \<longleftrightarrow> s = t)"
  using strcmp_eq [OF assms] by (simp add: signed_order_zero)

lemma strcmp_decides_equality_demo:
  "strcmp demo_mem 100 200 = Some (-1) \<and> strcmp demo_mem 100 100 = Some 0"
  using strcmp_decides_equality [of demo_mem 100 "[47, 97]" 200 "[47, 98]"]
    strcmp_decides_equality [of demo_mem 100 "[47, 97]" 100 "[47, 97]"]
  by (simp add: demo_mem_def)

text \<open>For a character below 128, \<open>strchr\<close> and \<open>strrchr\<close> return its first and last position in the string, or the null pointer, and \<open>strchrs\<close> counts it; a character from 128 on is never found, because it is compared as an unsigned value with signed text.\<close>

lemma string_searches:
  assumes "cstr m p s" "p \<noteq> 0"
  shows "(unat ch < 128 \<longrightarrow> strchr m p ch = Some (if ch \<in> set s then hd (positions p s ch) else 0) \<and>
           strrchr m p ch = Some (if ch \<in> set s then last (positions p s ch) else 0) \<and>
           strchrs m p ch = Some (of_nat (length (positions p s ch)))) \<and>
         (128 \<le> unat ch \<longrightarrow> strchr m p ch = Some 0 \<and> strrchr m p ch = Some 0 \<and> strchrs m p ch = Some 0)"
  using assms
  by (simp add: strchr_def strrchr_def strchrs_def strchr_loop_eq strrchr_loop_eq
      strchrs_loop_eq length_positions)

lemma string_searches_demo:
  "strchr demo_mem 100 97 = Some 101 \<and> strrchr demo_mem 100 47 = Some 100 \<and>
   strchrs demo_mem 100 47 = Some 1 \<and> strchr demo_mem 100 200 = Some 0"
  using string_searches [of demo_mem 100 "[47, 97]" 97] string_searches [of demo_mem 100 "[47, 97]" 47]
    string_searches [of demo_mem 100 "[47, 97]" 200]
  by (simp add: demo_mem_def)

text \<open>Filling and copying of memory.\<close>

lemma memory_fills_and_copies:
  assumes "dst \<noteq> 0" "src \<noteq> 0" "bytes_at m src bs" "length bs = unat n"
    and "region dst (unat n) \<inter> region src (unat n) = {}"
  shows "\<exists>m' m''. memset m dst v n = Some m' \<and> bytes_at m' dst (replicate (unat n) v) \<and>
           memcpy m dst src n = Some m'' \<and> bytes_at m'' dst bs \<and>
           (\<forall>a. a \<notin> region dst (unat n) \<longrightarrow> m' a = m a \<and> m'' a = m a)"
proof -
  have n: "length bs < 4294967296" "length (replicate (unat n) v) < 4294967296"
    using assms(4) by simp_all
  show ?thesis
    using assms n bytes_at_write [of bs m dst] bytes_at_write [of "replicate (unat n) v" m dst]
    by (auto simp: memset_def memcpy_def memset_loop_eq memcpy_loop_eq write_bytes_other)
qed

lemma memory_fills_and_copies_demo:
  "\<exists>m' m''. memset demo_mem 300 7 2 = Some m' \<and> bytes_at m' 300 (replicate 2 7) \<and>
     memcpy demo_mem 300 200 2 = Some m'' \<and> bytes_at m'' 300 [47, 98]"
  using memory_fills_and_copies [of 300 200 demo_mem "[47, 98]" 2 7]
  by (auto simp: demo_mem_def)

end
