(* ===== verification/Screen.thy ===== *)
theory Screen
  imports Stdio
begin

text \<open>
  The screen driver, lib/kernel/print.S.  Video memory is seen through the segment in \<open>gs\<close>, 32 KiB of cells, each a character and an
  attribute byte; a write behind the segment's limit is a protection fault, \<open>None\<close>.  The cursor lives in two registers of the
  video controller.  Text is shown on 25 lines of 80 cells.
\<close>

section \<open>The driver\<close>

record screen =
  cells :: "u16 \<Rightarrow> u16"
  cursor :: u16

definition blank :: u16 where "blank = 0x0720"

text \<open>
  Storing a character at cursor position \<open>bx\<close>: the offset is twice the position, in 16 bits; then the register moves to the
  attribute byte and back.
\<close>

definition write_cell :: "u8 \<Rightarrow> u16 \<Rightarrow> screen \<Rightarrow> (u16 \<times> screen) option" where
  "write_cell c bx s =
     (let off = push_bit 1 bx in
      if off < 0x8000 then Some (drop_bit 1 (off + 1), s\<lparr>cells := (cells s)(drop_bit 1 off := 0x0700 OR ucast c)\<rparr>)
      else None)"

definition roll_screen :: "screen \<Rightarrow> u16 \<times> screen" where
  "roll_screen s =
     (1920, s\<lparr>cells := (\<lambda>i. if i < 1920 then cells s (i + 80) else if i < 2000 then blank else cells s i)\<rparr>)"

text \<open>The jump that decides about scrolling compares signed numbers.\<close>

definition line_feed :: "u16 \<Rightarrow> screen \<Rightarrow> u16 \<times> screen" where
  "line_feed bx s =
     (let bx = bx - bx mod 80; bx = bx + 80 in if sint bx < 2000 then (bx, s) else roll_screen s)"

definition put_char :: "u8 \<Rightarrow> screen \<Rightarrow> screen option" where
  "put_char c s =
     (let bx = cursor s in
      do {
        (bx, s) \<leftarrow>
          (if c = 0xd \<or> c = 0xa then Some (line_feed bx s)
           else if c = 0x8 then write_cell 0x20 (bx - 1) s
           else do {
             (bx, s) \<leftarrow> write_cell c bx s;
             let bx = bx + 1;
             Some (if sint bx < 2000 then (bx, s) else line_feed bx s)
           });
        Some (s\<lparr>cursor := bx\<rparr>)
      })"

fun put_str :: "u8 list \<Rightarrow> screen \<Rightarrow> screen option" where
  "put_str [] s = Some s"
| "put_str (c # r) s = (if c = 0 then Some s else do { s \<leftarrow> put_char c s; put_str r s })"

text \<open>\<open>put_int\<close>: the eight hexadecimal digits go into the buffer from its end on; then leading zeros are skipped.\<close>

definition hex_char :: "u32 \<Rightarrow> u8" where
  "hex_char d = (if d \<le> 9 then ucast d + 48 else ucast d - 10 + 65)"

primrec put_int_buffer :: "nat \<Rightarrow> u32 \<Rightarrow> u8 list \<Rightarrow> u8 list" where
  "put_int_buffer 0 v acc = acc"
| "put_int_buffer (Suc n) v acc = put_int_buffer n (drop_bit 4 v) (hex_char (v AND 0xf) # acc)"

definition put_int :: "u32 \<Rightarrow> screen \<Rightarrow> screen option" where
  "put_int v s =
     (case dropWhile (\<lambda>c. c = 48) (put_int_buffer 8 v []) of
        [] \<Rightarrow> put_char 48 s
      | ds \<Rightarrow> put_str ds s)"

definition set_cursor :: "u16 \<Rightarrow> screen \<Rightarrow> screen" where
  "set_cursor n s = s\<lparr>cursor := n\<rparr>"

definition cls_screen :: "screen \<Rightarrow> screen" where
  "cls_screen s = s\<lparr>cells := (\<lambda>i. if i < 2000 then blank else cells s i), cursor := 0\<rparr>"

section \<open>The screen as a window on a sheet\<close>

text \<open>
  What the user sees: text is laid out on an endless sheet of 80 columns, and the screen shows 25 lines of it, from line \<open>top\<close>
  on.  The window moves down when the writing position leaves it, and never up.
\<close>

record sheet =
  paper :: "nat \<Rightarrow> u16"
  pos :: nat
  top :: nat

definition next_line :: "nat \<Rightarrow> nat" where
  "next_line n = (n div 80 + 1) * 80"

definition follow :: "sheet \<Rightarrow> sheet" where
  "follow p = (if 80 * top p + 2000 \<le> pos p then p\<lparr>top := top p + 1\<rparr> else p)"

definition write_sheet :: "u8 \<Rightarrow> sheet \<Rightarrow> sheet option" where
  "write_sheet c p =
     (if c = 13 \<or> c = 10 then Some (follow (p\<lparr>pos := next_line (pos p)\<rparr>))
      else if c = 8 then
        (if 80 * top p < pos p then Some (p\<lparr>paper := (paper p)(pos p - 1 := blank), pos := pos p - 1\<rparr>) else None)
      else Some (follow (p\<lparr>paper := (paper p)(pos p := 0x0700 OR ucast c), pos := pos p + 1\<rparr>)))"

fun write_text :: "u8 list \<Rightarrow> sheet \<Rightarrow> sheet option" where
  "write_text [] p = Some p"
| "write_text (c # r) p = do { p \<leftarrow> write_sheet c p; write_text r p }"

definition shows_sheet :: "sheet \<Rightarrow> screen \<Rightarrow> bool" where
  "shows_sheet p s \<longleftrightarrow> 80 * top p \<le> pos p \<and> pos p < 80 * top p + 2000 \<and> cursor s = of_nat (pos p - 80 * top p) \<and>
     (\<forall>i < 2000. cells s (of_nat i) = paper p (80 * top p + i)) \<and> (\<forall>i \<ge> 80 * top p + 2000. paper p i = blank)"

lemma u16_small [simp]: "n < 65536 \<Longrightarrow> unat (of_nat n :: u16) = n"
  by (simp add: unat_of_nat)

lemma u16_eq: "m < 65536 \<Longrightarrow> n < 65536 \<Longrightarrow> (of_nat m :: u16) = of_nat n \<longleftrightarrow> m = n"
  by (metis u16_small)

lemma u16_less: "n < 65536 \<Longrightarrow> k < 65536 \<Longrightarrow> (of_nat n :: u16) < of_nat k \<longleftrightarrow> n < k"
  by (simp add: word_less_nat_alt)

lemma sint_u16: "n < 32768 \<Longrightarrow> sint (of_nat n :: u16) = int n"
  by (simp add: sint_uint uint_nat signed_take_bit_int_eq_self)

lemma write_cell_ok:
  assumes "n < 2000"
  shows "write_cell c (of_nat n) s = Some (of_nat n, s\<lparr>cells := (cells s)(of_nat n := 0x0700 OR ucast c)\<rparr>)"
proof -
  have off: "push_bit 1 (of_nat n :: u16) = of_nat (2 * n)" by (simp add: push_bit_eq_mult)
  have "drop_bit 1 (of_nat (2 * n) :: u16) = of_nat n" "drop_bit 1 (of_nat (2 * n) + 1 :: u16) = of_nat n"
    using assms by (auto intro!: word_unat_eq_iff [THEN iffD2] simp: drop_bit_eq_div unat_div unat_word_ariths unat_of_nat simp del: of_nat_mult)
  moreover have "(of_nat (2 * n) :: u16) < 0x8000" using assms u16_less [of "2 * n" 32768] by simp
  ultimately show ?thesis unfolding write_cell_def off Let_def by simp
qed


lemma next_line_facts:
  "next_line (80 * t + n) = 80 * t + next_line n" "n < 1920 \<Longrightarrow> next_line n < 2000"
  "1920 \<le> n \<Longrightarrow> n < 2000 \<Longrightarrow> next_line n = 2000" "next_line 2000 = 2080" "n < next_line n"
proof -
  show "n < 1920 \<Longrightarrow> next_line n < 2000" using less_mult_imp_div_less [of n 24 80] by (simp add: next_line_def)
  show "1920 \<le> n \<Longrightarrow> n < 2000 \<Longrightarrow> next_line n = 2000"
    using less_mult_imp_div_less [of n 25 80] div_le_mono [of 1920 n 80] by (simp add: next_line_def)
  show "n < next_line n" using dividend_less_div_times [of 80 n] by (simp add: next_line_def add.commute)
qed (simp_all add: next_line_def)

lemma line_feed_eq:
  assumes "n \<le> 2000"
  shows "line_feed (of_nat n) s = (if next_line n < 2000 then (of_nat (next_line n), s) else roll_screen s)"
proof -
  have m: "(of_nat n :: u16) mod 80 = of_nat (n mod 80)"
    using assms by (auto intro!: word_unat_eq_iff [THEN iffD2] simp: unat_mod)
  have "(of_nat n :: u16) = of_nat (80 * (n div 80) + n mod 80)" by simp
  then have e: "(of_nat n :: u16) - of_nat (n mod 80) + 80 = of_nat (next_line n)"
    unfolding next_line_def of_nat_add of_nat_mult by (simp add: algebra_simps)
  have "next_line n \<le> 2080" using assms next_line_facts(2,3) [of n] next_line_facts(4) by (cases "n < 1920"; cases "n = 2000") auto
  then show ?thesis using sint_u16 [of "next_line n"] unfolding line_feed_def m Let_def e by simp
qed

text \<open>Scrolling the screen moves the window down by one line.\<close>

lemma roll_follows:
  assumes c: "\<And>i. i < 2000 \<Longrightarrow> cells s (of_nat i) = paper p (80 * top p + i)" and b: "\<And>i. 80 * top p + 2000 \<le> i \<Longrightarrow> paper p i = blank"
    and p: "pos p = 80 * top p + 2000"
  shows "shows_sheet (follow p) ((snd (roll_screen s))\<lparr>cursor := fst (roll_screen s)\<rparr>)"
proof -
  have "cells (snd (roll_screen s)) (of_nat i) = paper p (80 * (top p + 1) + i)" if "i < 2000" for i
  proof (cases "i < 1920")
    case True
    have "(of_nat i :: u16) + 80 = of_nat (i + 80)" "(of_nat i :: u16) < 1920" using True u16_less [of i 1920] by simp_all
    then show ?thesis using c [of "i + 80"] True by (simp add: roll_screen_def add.assoc add.commute)
  next
    case False
    then have "\<not> (of_nat i :: u16) < 1920" "(of_nat i :: u16) < 2000" using that u16_less [of i 1920] u16_less [of i 2000] by simp_all
    then show ?thesis using b [of "80 * (top p + 1) + i"] False by (simp add: roll_screen_def)
  qed
  then show ?thesis using p b by (simp add: shows_sheet_def follow_def) (simp add: roll_screen_def)
qed

lemma put_char_simulates:
  assumes "shows_sheet p s" "write_sheet c p = Some p'"
  shows "\<exists>s'. put_char c s = Some s' \<and> shows_sheet p' s'"
proof -
  define n where "n = pos p - 80 * top p"
  have n: "n < 2000" "cursor s = of_nat n" "pos p = 80 * top p + n"
    and cl: "\<And>i. i < 2000 \<Longrightarrow> cells s (of_nat i) = paper p (80 * top p + i)" and bl: "\<And>i. 80 * top p + 2000 \<le> i \<Longrightarrow> paper p i = blank"
    using assms(1) by (auto simp: shows_sheet_def n_def)
  consider (nl) "c = 13 \<or> c = 10" | (bs) "c = 8" | (ch) "c \<noteq> 13" "c \<noteq> 10" "c \<noteq> 8" by blast
  then show ?thesis
  proof cases
    case nl
    have p': "p' = follow (p\<lparr>pos := 80 * top p + next_line n\<rparr>)" using assms(2) nl by (auto simp: write_sheet_def n(3) next_line_facts(1))
    have pc: "put_char c s = (case line_feed (of_nat n) s of (bx, s) \<Rightarrow> Some (s\<lparr>cursor := bx\<rparr>))"
      using nl n(2) by (auto simp: put_char_def Let_def)
    show ?thesis
    proof (cases "next_line n < 2000")
      case True
      then show ?thesis using cl bl p' pc n(1) line_feed_eq [of n s] by (simp add: shows_sheet_def follow_def)
    next
      case False
      then have "next_line n = 2000" using next_line_facts(2,3) [of n] n(1) by linarith
      then show ?thesis using roll_follows [of s "p\<lparr>pos := 80 * top p + 2000\<rparr>"] cl bl p' pc n(1) line_feed_eq [of n s]
        by (simp add: roll_screen_def)
    qed
  next
    case bs
    then have n0: "0 < n" and p': "p' = p\<lparr>paper := (paper p)(pos p - 1 := blank), pos := pos p - 1\<rparr>"
      using assms(2) n(3) by (auto simp: write_sheet_def split: if_splits)
    have "(of_nat n - 1 :: u16) = of_nat (n - 1)" using n0 by (simp add: of_nat_diff)
    then have "put_char c s = Some (s\<lparr>cells := (cells s)(of_nat (n - 1) := blank), cursor := of_nat (n - 1)\<rparr>)"
      using bs n write_cell_ok [of "n - 1" "0x20" s] by (simp add: put_char_def Let_def blank_def)
    moreover have "of_nat i = (of_nat (n - 1) :: u16) \<longleftrightarrow> i = n - 1" if "i < 2000" for i using that n(1) by (intro u16_eq) simp_all
    ultimately show ?thesis using n n0 cl bl p' by (auto simp: shows_sheet_def)
  next
    case ch
    let ?s = "s\<lparr>cells := (cells s)(of_nat n := 0x0700 OR ucast c)\<rparr>" and ?p = "p\<lparr>paper := (paper p)(pos p := 0x0700 OR ucast c), pos := pos p + 1\<rparr>"
    have p': "p' = follow ?p" using assms(2) ch by (simp add: write_sheet_def)
    have e: "of_nat i = (of_nat n :: u16) \<longleftrightarrow> i = n" if "i < 2000" for i using that n(1) by (intro u16_eq) simp_all
    have cl': "cells ?s (of_nat i) = paper ?p (80 * top ?p + i)" if "i < 2000" for i using that cl [OF that] e [OF that] n(3) by simp
    have bl': "paper ?p i = blank" if "80 * top ?p + 2000 \<le> i" for i using that bl [of i] n by simp
    show ?thesis
    proof (cases "n < 1999")
      case True
      then have "sint (of_nat (n + 1) :: u16) < 2000" using sint_u16 [of "n + 1"] by simp
      then have "put_char c s = Some (?s\<lparr>cursor := of_nat (n + 1)\<rparr>)"
        using ch n write_cell_ok [of n c s] by (simp add: put_char_def Let_def add.commute)
      then show ?thesis using True n cl' bl' p' by (simp add: shows_sheet_def follow_def)
    next
      case False
      then have "n = 1999" using n(1) by simp
      then have "put_char c s = Some ((snd (roll_screen ?s))\<lparr>cursor := fst (roll_screen ?s)\<rparr>)"
        using ch n write_cell_ok [of n c s] sint_u16 [of 2000] line_feed_eq [of 2000 ?s] by (simp add: put_char_def Let_def roll_screen_def next_line_facts(4))
      then show ?thesis using roll_follows [of ?s ?p] cl' bl' p' n(3) \<open>n = 1999\<close> by simp
    qed
  qed
qed

lemma put_str_simulates:
  assumes "shows_sheet p s" "write_text t p = Some p'" "0 \<notin> set t"
  shows "\<exists>s'. put_str t s = Some s' \<and> shows_sheet p' s'"
  using assms
proof (induction t arbitrary: p s)
  case (Cons c t)
  then obtain p1 where p1: "write_sheet c p = Some p1" "write_text t p1 = Some p'" by (auto simp: bind_eq_Some_conv)
  obtain s1 where "put_char c s = Some s1" "shows_sheet p1 s1" using put_char_simulates [OF Cons.prems(1) p1(1)] by blast
  then show ?case using Cons.IH [OF _ p1(2)] Cons.prems(3) by auto
qed simp

text \<open>Without backspaces every text can be written.\<close>

lemma write_text_total: "8 \<notin> set t \<Longrightarrow> \<exists>p'. write_text t p = Some p'"
proof (induction t arbitrary: p)
  case (Cons c t)
  then show ?case by (cases "c = 13 \<or> c = 10") (auto simp: write_sheet_def)
qed simp

section \<open>Numbers\<close>

lemma put_int_buffer_append: "put_int_buffer n v acc = put_int_buffer n v [] @ acc"
proof (induction n arbitrary: v acc)
  case (Suc n)
  show ?case using Suc [of "drop_bit 4 v" "hex_char (v AND 15) # acc"] Suc [of "drop_bit 4 v" "[hex_char (v AND 15)]"] by simp
qed simp

lemma hex_char_alt: "hex_char d = (if d < 10 then ucast d + 48 else ucast d - 10 + 65)"
proof -
  have "d \<le> 9 \<longleftrightarrow> d < 10" unfolding word_less_nat_alt word_le_nat_alt by simp linarith
  then show ?thesis by (simp add: hex_char_def)
qed

lemma hex_char_zero: "unat d < 16 \<Longrightarrow> hex_char d = 48 \<longleftrightarrow> d = 0"
  using digit_char(3) [of d 16] by (simp add: hex_char_alt)

lemma nibble: "(v :: u32) AND 15 = v mod 16" "drop_bit 4 v = v div 16"
proof -
  have m: "(15 :: u32) = mask 4" by (simp add: mask_eq_exp_minus_1)
  show "v AND 15 = v mod 16" unfolding m take_bit_eq_mask [symmetric] by (simp add: take_bit_eq_mod)
  show "drop_bit 4 v = v div 16" by (simp add: drop_bit_eq_div)
qed

lemma put_str_Nil: "put_str [] = Some"
  by (rule ext) simp

lemma put_int_buffer_zero: "dropWhile (\<lambda>c. c = 48) (put_int_buffer n 0 []) = []"
  by (induction n) (simp_all add: put_int_buffer_append [of _ _ "[_]"] hex_char_def)

text \<open>The driver prints the same digits as the conversion routine of the C library.\<close>

lemma put_int_digits:
  assumes "v \<noteq> 0" "unat v < 16 ^ n"
  shows "itoa v 16 = Some (dropWhile (\<lambda>c. c = 48) (put_int_buffer n v []))"
  using assms
proof (induction n arbitrary: v)
  case (Suc n)
  let ?r = "v div 16" and ?d = "hex_char (v mod 16)"
  have b: "put_int_buffer (Suc n) v [] = put_int_buffer n ?r [] @ [?d]"
    using put_int_buffer_append [of n "drop_bit 4 v" "[hex_char (v AND 15)]"] by (simp add: nibble)
  have it: "itoa v 16 = do { front \<leftarrow> (if ?r \<noteq> 0 then itoa ?r 16 else Some []); Some (front @ [?d]) }"
    by (subst itoa.simps) (simp add: Let_def hex_char_alt)
  show ?case
  proof (cases "?r = 0")
    case True
    then have "v mod 16 = v" using div_mult_mod_eq [of v 16] by simp
    moreover from this have "unat v < 16" using unat_mod [of v 16] by simp
    ultimately have "?d \<noteq> 48" using hex_char_zero [of v] Suc.prems(1) by simp
    then show ?thesis using True it put_int_buffer_zero [of n] unfolding b True by (simp add: dropWhile_append)
  next
    case False
    have "unat ?r < 16 ^ n" using Suc.prems(2) by (simp add: unat_div less_mult_imp_div_less mult.commute)
    note ih = Suc.IH [OF False this]
    then have "dropWhile (\<lambda>c. c = 48) (put_int_buffer n ?r []) \<noteq> []" using itoa_correct [of 16 ?r] by auto
    then show ?thesis using it ih False unfolding b by (auto simp: dropWhile_append)
  qed
qed (simp add: unat_eq_zero)

lemma put_int_itoa: "put_int v s = do { ds \<leftarrow> itoa v 16; put_str ds s }"
proof (cases "v = 0")
  case True
  have "itoa 0 16 = Some [48]" by (subst itoa.simps) simp
  then show ?thesis unfolding put_int_def True put_int_buffer_zero by (simp add: put_str_Nil)
next
  case False
  have "unat v < 16 ^ 8" using unsigned_less [of v, where 'a = nat] by simp
  note d = put_int_digits [OF False this]
  then have "dropWhile (\<lambda>c. c = 48) (put_int_buffer 8 v []) \<noteq> []" using itoa_correct [of 16 v] by auto
  then show ?thesis using d by (cases "dropWhile (\<lambda>c. c = 48) (put_int_buffer 8 v [])") (simp_all add: put_int_def)
qed

section \<open>Properties\<close>

lemma cls_shows: "shows_sheet \<lparr>paper = (\<lambda>_. blank), pos = 0, top = 0\<rparr> (cls_screen s)"
proof -
  have "(of_nat i :: u16) < 2000" if "i < 2000" for i using that u16_less [of i 2000] by simp
  then show ?thesis by (simp add: shows_sheet_def cls_screen_def)
qed

text \<open>
  Property C33: the screen is a window of 25 lines on an endless sheet.  If the screen shows the sheet, then \<open>put_str\<close> of a text
  returns, and the screen shows the sheet with the text written on it, moved down to the last line written; \<open>put_int\<close>
  writes the same digits as the C library's conversion to base 16.  A backspace before the first visible cell is the only thing
  that cannot be written: at the first cell of the screen it is a protection fault.
\<close>

theorem screen_shows_the_text:
  assumes "shows_sheet p s" "0 \<notin> set t"
  shows "(\<forall>p'. write_text t p = Some p' \<longrightarrow> (\<exists>s'. put_str t s = Some s' \<and> shows_sheet p' s')) \<and>
    (8 \<notin> set t \<longrightarrow> write_text t p \<noteq> None) \<and>
    put_int v s = do { ds \<leftarrow> itoa v 16; put_str ds s } \<and>
    (pos p = 80 * top p \<longrightarrow> put_char 8 s = None)"
proof (intro conjI allI impI)
  fix p' assume "write_text t p = Some p'"
  then show "\<exists>s'. put_str t s = Some s' \<and> shows_sheet p' s'" using put_str_simulates [OF assms(1) _ assms(2)] by blast
next
  show "8 \<notin> set t \<Longrightarrow> write_text t p \<noteq> None" using write_text_total [of t p] by auto
  show "put_int v s = do { ds \<leftarrow> itoa v 16; put_str ds s }" by (rule put_int_itoa)
  assume "pos p = 80 * top p"
  then have "cursor s = 0" using assms(1) by (simp add: shows_sheet_def)
  then show "put_char 8 s = None" by (simp add: put_char_def write_cell_def Let_def)
qed

definition demo_screen :: screen where
  "demo_screen = cls_screen \<lparr>cells = (\<lambda>_. 0), cursor = 700\<rparr>"

theorem screen_shows_the_text_witness:
  "\<exists>s'. put_str [104, 105, 10, 33] demo_screen = Some s' \<and> cells s' 0 = 0x0768 \<and> cells s' 80 = 0x0721 \<and> cursor s' = 81"
proof -
  let ?p = "\<lparr>paper = (\<lambda>_. blank), pos = 0, top = 0\<rparr>"
  have w: "write_text [104, 105, 10, 33] ?p = Some \<lparr>paper = (\<lambda>_. blank)(0 := 0x0768, 1 := 0x0769, 80 := 0x0721), pos = 81, top = 0\<rparr>"
    by (simp add: write_sheet_def follow_def next_line_def)
  have "shows_sheet ?p demo_screen" unfolding demo_screen_def by (rule cls_shows)
  then obtain s' where s': "put_str [104, 105, 10, 33] demo_screen = Some s'"
    "shows_sheet \<lparr>paper = (\<lambda>_. blank)(0 := 0x0768, 1 := 0x0769, 80 := 0x0721), pos = 81, top = 0\<rparr> s'"
    using screen_shows_the_text [of ?p demo_screen "[104, 105, 10, 33]"] w by auto
  have cs: "cells s' (of_nat i) = ((\<lambda>_. blank)(0 := 0x0768, 1 := 0x0769, 80 := 0x0721)) i" if "i < 2000" for i
    using s'(2) that by (simp add: shows_sheet_def)
  have "cursor s' = 81" using s'(2) by (simp add: shows_sheet_def)
  then show ?thesis using s'(1) cs [of 0] cs [of 80] by auto
qed
end
