(* ===== verification/Entry.thy ===== *)
theory Entry
  imports Sched Syscall Platform
begin

text \<open>
  The assembly between tasks and the C code: the interrupt stubs, \<open>intr_exit\<close> and the system-call entry of kernel/kernel.S, and
  \<open>switch_to\<close> of thread/switch.S, instruction by instruction on the registers and the words of the stack.  The processor's part of an
  interrupt and of \<open>iretd\<close> is written down from its manual.  Selectors are pushed as words.
\<close>

section \<open>Machine\<close>

record cpu_context =
  c_eax :: u32
  c_ecx :: u32
  c_edx :: u32
  c_ebx :: u32
  c_esp :: u32
  c_ebp :: u32
  c_esi :: u32
  c_edi :: u32
  c_ds :: u16
  c_es :: u16
  c_fs :: u16
  c_gs :: u16
  c_cs :: u16
  c_ss :: u16
  c_eip :: u32
  c_eflags :: u32

record core = cpu_context +
  mem :: "u32 \<Rightarrow> u32"
  eoi :: "(u16 \<times> u8) list"

definition push :: "u32 \<Rightarrow> core \<Rightarrow> core" where
  "push v s = s\<lparr>c_esp := c_esp s - 4, mem := (mem s)(c_esp s - 4 := v)\<rparr>"

definition pop :: "(u32 \<Rightarrow> core \<Rightarrow> core) \<Rightarrow> core \<Rightarrow> core" where
  "pop put s = put (mem s (c_esp s)) (s\<lparr>c_esp := c_esp s + 4\<rparr>)"

text \<open>\<open>pushad\<close> stores the stack pointer from before it, and \<open>popad\<close> drops that word.\<close>

definition pushad :: "core \<Rightarrow> core" where
  "pushad s = push (c_edi s) (push (c_esi s) (push (c_ebp s) (push (c_esp s) (push (c_ebx s) (push (c_edx s) (push (c_ecx s) (push (c_eax s) s)))))))"

definition popad :: "core \<Rightarrow> core" where
  "popad s =
     (let s = pop (\<lambda>v s. s\<lparr>c_edi := v\<rparr>) s; s = pop (\<lambda>v s. s\<lparr>c_esi := v\<rparr>) s; s = pop (\<lambda>v s. s\<lparr>c_ebp := v\<rparr>) s;
          s = pop (\<lambda>v s. s) s; s = pop (\<lambda>v s. s\<lparr>c_ebx := v\<rparr>) s; s = pop (\<lambda>v s. s\<lparr>c_edx := v\<rparr>) s;
          s = pop (\<lambda>v s. s\<lparr>c_ecx := v\<rparr>) s
      in pop (\<lambda>v s. s\<lparr>c_eax := v\<rparr>) s)"

text \<open>
  The processor's response to an interrupt through a gate: from user mode it takes the kernel stack out of the task state
  segment and saves the user's; then flags, code segment and instruction pointer, and the error code of the exceptions that have one.
\<close>

definition user_mode :: "'a cpu_context_scheme \<Rightarrow> bool" where
  "user_mode s \<longleftrightarrow> c_cs s AND 3 = 3"

definition interrupt :: "u32 \<Rightarrow> u32 option \<Rightarrow> u32 \<Rightarrow> core \<Rightarrow> core" where
  "interrupt kstack err entry s =
     (let old = s;
          s = (if user_mode s
               then push (c_esp old) (push (ucast (c_ss old)) (s\<lparr>c_esp := kstack, c_ss := ucast SELECTOR_K_STACK\<rparr>)) else s);
          s = push (c_eip old) (push (ucast (c_cs old)) (push (c_eflags old) s));
          s = (case err of None \<Rightarrow> s | Some e \<Rightarrow> push e s)
      in s\<lparr>c_eflags := c_eflags s AND NOT EFLAGS_IF, c_cs := SELECTOR_K_CODE, c_eip := entry\<rparr>)"

definition iretd :: "core \<Rightarrow> core" where
  "iretd s =
     (let s = pop (\<lambda>v s. s\<lparr>c_eip := v\<rparr>) s; s = pop (\<lambda>v s. s\<lparr>c_cs := ucast v\<rparr>) s; s = pop (\<lambda>v s. s\<lparr>c_eflags := v\<rparr>) s
      in if user_mode s then
           let new_esp = mem s (c_esp s); new_ss = mem s (c_esp s + 4) in s\<lparr>c_esp := new_esp, c_ss := ucast new_ss\<rparr>
         else s)"

section \<open>The code\<close>

text \<open>The common part of all entries: the four data segments and the general registers.\<close>

definition save_context :: "core \<Rightarrow> core" where
  "save_context s = pushad (push (ucast (c_gs s)) (push (ucast (c_fs s)) (push (ucast (c_es s)) (push (ucast (c_ds s)) s))))"

text \<open>
  A stub: \<open>ZERO\<close> stubs push a 0 where the processor pushes no error code.  Both controllers get the end-of-interrupt command, the
  vector number is pushed and the handler of the table is called.
\<close>

definition vector_entry :: "bool \<Rightarrow> u32 \<Rightarrow> core \<Rightarrow> core" where
  "vector_entry zero vec s =
     (let s = save_context (if zero then push 0 s else s)
      in push vec (s\<lparr>c_eax := (c_eax s AND 0xffffff00) OR 0x20, eoi := eoi s @ [(0xa0, 0x20), (0x20, 0x20)]\<rparr>))"

definition intr_exit :: "core \<Rightarrow> core" where
  "intr_exit s =
     (let s = s\<lparr>c_esp := c_esp s + 4\<rparr>; s = popad s;
          s = pop (\<lambda>v s. s\<lparr>c_gs := ucast v\<rparr>) s; s = pop (\<lambda>v s. s\<lparr>c_fs := ucast v\<rparr>) s;
          s = pop (\<lambda>v s. s\<lparr>c_es := ucast v\<rparr>) s; s = pop (\<lambda>v s. s\<lparr>c_ds := ucast v\<rparr>) s;
          s = s\<lparr>c_esp := c_esp s + 4\<rparr>
      in iretd s)"

definition syscall_entry :: "core \<Rightarrow> core" where
  "syscall_entry s =
     (let s = push 0x80 (save_context (push 0 s)) in push (c_ebx s) (push (c_ecx s) (push (c_edx s) s)))"

text \<open>Behind the call: the arguments are dropped and the result replaces the saved \<open>eax\<close>.\<close>

definition syscall_return :: "core \<Rightarrow> core" where
  "syscall_return s =
     (let s = s\<lparr>c_esp := c_esp s + 12\<rparr>; s = s\<lparr>mem := (mem s)(c_esp s + 32 := c_eax s)\<rparr> in intr_exit s)"

text \<open>\<open>switch_to\<close>, entered with the return address and the two control blocks on the stack; the first word of a block is its saved stack pointer.\<close>

definition switch_out :: "core \<Rightarrow> core" where
  "switch_out s =
     (let s = push (c_ebp s) (push (c_ebx s) (push (c_edi s) (push (c_esi s) s)));
          cur = mem s (c_esp s + 20)
      in s\<lparr>c_eax := cur, mem := (mem s)(cur := c_esp s)\<rparr>)"

definition switch_in :: "core \<Rightarrow> core" where
  "switch_in s =
     (let nxt = mem s (c_esp s + 24); s = s\<lparr>c_eax := nxt, c_esp := mem s nxt\<rparr>;
          s = pop (\<lambda>v s. s\<lparr>c_ebp := v\<rparr>) s; s = pop (\<lambda>v s. s\<lparr>c_ebx := v\<rparr>) s; s = pop (\<lambda>v s. s\<lparr>c_edi := v\<rparr>) s;
          s = pop (\<lambda>v s. s\<lparr>c_esi := v\<rparr>) s
      in pop (\<lambda>v s. s\<lparr>c_eip := v\<rparr>) s)"

definition switch_code :: "core \<Rightarrow> core" where
  "switch_code s = switch_in (switch_out s)"

section \<open>Frames\<close>

text \<open>The words of \<open>ws\<close> lie on the stack from \<open>sp\<close> upwards.\<close>

definition frame_at :: "(u32 \<Rightarrow> u32) \<Rightarrow> u32 \<Rightarrow> u32 list \<Rightarrow> bool" where
  "frame_at m sp ws \<longleftrightarrow> (\<forall>i < length ws. m (sp + 4 * of_nat i) = ws ! i)"

lemma frame_Nil [simp]: "frame_at m sp []"
  by (simp add: frame_at_def)

lemma frame_Cons: "frame_at m sp (w # ws) \<longleftrightarrow> m sp = w \<and> frame_at m (sp + 4) ws"
  by (auto simp: frame_at_def less_Suc_eq_0_disj algebra_simps)

lemma frame_upd:
  assumes "frame_at m (sp + 4) ws" "length ws \<le> 100"
  shows "frame_at (m(sp := v)) (sp + 4) ws"
proof -
  have "sp + 4 + 4 * of_nat i \<noteq> sp" if "i < length ws" for i
  proof
    assume "sp + 4 + 4 * of_nat i = sp"
    then have "(of_nat (4 + 4 * i) :: u32) = 0" by (simp add: algebra_simps)
    moreover have "unat (of_nat (4 + 4 * i) :: u32) = 4 + 4 * i" using that assms(2) by (intro unat_of_nat_small) simp
    ultimately show False by simp
  qed
  then show ?thesis using assms(1) by (simp add: frame_at_def)
qed

text \<open>Pushing in front of a frame.\<close>

lemma frame_push:
  assumes "frame_at (mem s) (c_esp s) ws" "length ws \<le> 100"
  shows "frame_at (mem (push v s)) (c_esp (push v s)) (v # ws)"
  using frame_upd [of "mem s" "c_esp s - 4" ws v] assms by (simp add: push_def frame_Cons)


text \<open>
  The frame of an interrupt, \<open>struct intr_stack\<close> of thread/thread.h: what \<open>vector_entry\<close> leaves on the kernel stack for a context.  An
  interrupt in the kernel has no stack pointer and no stack segment at its end.
\<close>

definition intr_stack :: "u32 \<Rightarrow> u32 \<Rightarrow> u32 \<Rightarrow> 'a cpu_context_scheme \<Rightarrow> u32 list" where
  "intr_stack vec dummy err u =
     [vec, c_edi u, c_esi u, c_ebp u, dummy, c_ebx u, c_edx u, c_ecx u, c_eax u,
      ucast (c_gs u), ucast (c_fs u), ucast (c_es u), ucast (c_ds u), err, c_eip u, ucast (c_cs u), c_eflags u] @
     (if user_mode u then [c_esp u, ucast (c_ss u)] else [])"

lemma push_simps [simp]:
  "c_esp (push v s) = c_esp s - 4" "c_eax (push v s) = c_eax s" "c_ecx (push v s) = c_ecx s" "c_edx (push v s) = c_edx s"
  "c_ebx (push v s) = c_ebx s" "c_ebp (push v s) = c_ebp s" "c_esi (push v s) = c_esi s" "c_edi (push v s) = c_edi s"
  "c_ds (push v s) = c_ds s" "c_es (push v s) = c_es s" "c_fs (push v s) = c_fs s" "c_gs (push v s) = c_gs s"
  "c_cs (push v s) = c_cs s" "c_ss (push v s) = c_ss s" "c_eip (push v s) = c_eip s" "c_eflags (push v s) = c_eflags s"
  by (simp_all add: push_def)

definition has_frame :: "core \<Rightarrow> u32 list \<Rightarrow> bool" where
  "has_frame s ws \<longleftrightarrow> frame_at (mem s) (c_esp s) ws"

lemma has_frame_push: "has_frame s ws \<Longrightarrow> length ws \<le> 100 \<Longrightarrow> has_frame (push v s) (v # ws)"
  using frame_push [of s ws v] by (simp add: has_frame_def)

lemma has_frame_Nil: "has_frame s []"
  by (simp add: has_frame_def)

lemma has_frame_upd [simp]:
  "has_frame (s\<lparr>c_eflags := x\<rparr>) ws = has_frame s ws" "has_frame (s\<lparr>c_cs := y\<rparr>) ws = has_frame s ws"
  "has_frame (s\<lparr>c_eip := x\<rparr>) ws = has_frame s ws" "has_frame (s\<lparr>c_eax := x\<rparr>) ws = has_frame s ws" "has_frame (s\<lparr>eoi := z\<rparr>) ws = has_frame s ws"
  by (simp_all add: has_frame_def)

text \<open>Registers saved on top of a frame.\<close>

definition saved_regs :: "u32 \<Rightarrow> 'a cpu_context_scheme \<Rightarrow> u32 list" where
  "saved_regs dummy u =
     [c_edi u, c_esi u, c_ebp u, dummy, c_ebx u, c_edx u, c_ecx u, c_eax u, ucast (c_gs u), ucast (c_fs u), ucast (c_es u), ucast (c_ds u)]"

lemma save_context_frame:
  assumes "has_frame s ws" "length ws \<le> 10"
  shows "has_frame (save_context s) (saved_regs (c_esp s - 16) s @ ws)"
  using assms unfolding save_context_def pushad_def saved_regs_def by (simp add: has_frame_push)

lemma save_context_regs [simp]:
  "c_eax (save_context s) = c_eax s" "c_ecx (save_context s) = c_ecx s" "c_edx (save_context s) = c_edx s" "c_ebx (save_context s) = c_ebx s"
  by (simp_all add: save_context_def pushad_def)

definition hw_frame :: "u32 option \<Rightarrow> 'a cpu_context_scheme \<Rightarrow> u32 list" where
  "hw_frame err u =
     (case err of None \<Rightarrow> [] | Some e \<Rightarrow> [e]) @ [c_eip u, ucast (c_cs u), c_eflags u] @ (if user_mode u then [c_esp u, ucast (c_ss u)] else [])"

lemma interrupt_frame: "has_frame (interrupt kstack err entry u) (hw_frame err u)"
proof -
  have "has_frame (push (c_esp u) (push (ucast (c_ss u)) t)) [c_esp u, ucast (c_ss u)]" for t by (simp add: has_frame_push has_frame_Nil)
  then show ?thesis
    unfolding interrupt_def Let_def hw_frame_def
    by (cases err; cases "user_mode u") (simp_all add: has_frame_push has_frame_Nil)
qed

lemma interrupt_regs:
  "c_eax (interrupt e err entry u) = c_eax u" "c_ecx (interrupt e err entry u) = c_ecx u" "c_edx (interrupt e err entry u) = c_edx u"
  "c_ebx (interrupt e err entry u) = c_ebx u" "c_ebp (interrupt e err entry u) = c_ebp u" "c_esi (interrupt e err entry u) = c_esi u"
  "c_edi (interrupt e err entry u) = c_edi u" "c_ds (interrupt e err entry u) = c_ds u" "c_es (interrupt e err entry u) = c_es u"
  "c_fs (interrupt e err entry u) = c_fs u" "c_gs (interrupt e err entry u) = c_gs u"
  by (cases err; simp add: interrupt_def Let_def)+

lemma saved_regs_cong:
  assumes "c_eax s = c_eax u" "c_ecx s = c_ecx u" "c_edx s = c_edx u" "c_ebx s = c_ebx u" "c_ebp s = c_ebp u" "c_esi s = c_esi u"
    "c_edi s = c_edi u" "c_ds s = c_ds u" "c_es s = c_es u" "c_fs s = c_fs u" "c_gs s = c_gs u"
  shows "saved_regs d s = saved_regs d u"
  using assms by (simp add: saved_regs_def)

lemma vector_entry_frame:
  assumes "zero \<longleftrightarrow> err = None"
  shows "\<exists>d e. has_frame (vector_entry zero vec (interrupt kstack err entry u)) (intr_stack vec d e u)"
proof -
  let ?i = "interrupt kstack err entry u"
  let ?s = "if zero then push 0 ?i else ?i"
  define e where "e = (case err of None \<Rightarrow> 0 | Some e \<Rightarrow> e)"
  have "has_frame ?s (e # hw_frame None u)"
    using interrupt_frame [of kstack err entry u] assms by (cases err) (auto simp: e_def hw_frame_def has_frame_push)
  then have "has_frame (save_context ?s) (saved_regs (c_esp ?s - 16) ?s @ e # hw_frame None u)"
    by (intro save_context_frame) (simp_all add: hw_frame_def)
  moreover have "saved_regs d ?s = saved_regs d u" for d by (rule saved_regs_cong) (simp_all add: interrupt_regs)
  ultimately have "has_frame (push vec (save_context ?s)) (vec # saved_regs (c_esp ?s - 16) u @ e # hw_frame None u)"
    by (intro has_frame_push) (simp_all add: saved_regs_def hw_frame_def)
  then have "has_frame (vector_entry zero vec ?i) (vec # saved_regs (c_esp ?s - 16) u @ e # hw_frame None u)"
    by (simp add: vector_entry_def Let_def has_frame_def push_def)
  then show ?thesis by (intro exI [of _ "c_esp ?s - 16"] exI [of _ e]) (simp add: intr_stack_def saved_regs_def hw_frame_def)
qed

section \<open>Leaving\<close>

text \<open>\<open>intr_exit\<close> puts back the context whose frame is on top of the stack.\<close>

lemma ucast_up_down [simp]: "ucast (ucast (x :: u16) :: u32) = x"
  by (rule bit_eqI) (auto simp: bit_simps)

lemma user_mode_upd [simp]:
  "user_mode (s\<lparr>c_eip := x\<rparr>) = user_mode s" "user_mode (s\<lparr>c_eflags := x\<rparr>) = user_mode s" "user_mode (s\<lparr>c_cs := y\<rparr>) \<longleftrightarrow> y AND 3 = 3"
  "user_mode (s\<lparr>c_esp := x\<rparr>) = user_mode s"
  by (simp_all add: user_mode_def)

lemma popad_frame:
  assumes "frame_at (mem s) (c_esp s) [edi, esi, ebp, d, ebx, edx, ecx, eax]"
  shows "popad s = s\<lparr>c_edi := edi, c_esi := esi, c_ebp := ebp, c_ebx := ebx, c_edx := edx, c_ecx := ecx, c_eax := eax, c_esp := c_esp s + 32\<rparr>"
  using assms by (simp add: popad_def Let_def pop_def frame_Cons)

lemma pop_segs_frame:
  assumes "frame_at (mem s) (c_esp s) [ucast gs, ucast fs, ucast es, ucast ds]"
  shows "pop (\<lambda>v s. s\<lparr>c_ds := ucast v\<rparr>) (pop (\<lambda>v s. s\<lparr>c_es := ucast v\<rparr>) (pop (\<lambda>v s. s\<lparr>c_fs := ucast v\<rparr>) (pop (\<lambda>v s. s\<lparr>c_gs := ucast v\<rparr>) s))) =
    s\<lparr>c_gs := gs, c_fs := fs, c_es := es, c_ds := ds, c_esp := c_esp s + 16\<rparr>"
  using assms by (simp add: pop_def frame_Cons)

lemma iretd_frame:
  assumes "frame_at (mem s) (c_esp s) ([eip, ucast cs, efl] @ (if cs AND 3 = 3 then [sp, ucast ss] else []))"
  shows "iretd s = s\<lparr>c_eip := eip, c_cs := cs, c_eflags := efl, c_esp := (if cs AND 3 = 3 then sp else c_esp s + 12),
      c_ss := (if cs AND 3 = 3 then ss else c_ss s)\<rparr>"
  using assms by (cases "cs AND 3 = 3") (simp_all add: iretd_def Let_def pop_def frame_Cons)

lemma frame_append: "frame_at m sp (xs @ ys) \<longleftrightarrow> frame_at m sp xs \<and> frame_at m (sp + 4 * of_nat (length xs)) ys"
  by (induction xs arbitrary: sp) (auto simp: frame_Cons algebra_simps)

lemma intr_exit_restores:
  assumes f: "has_frame s (intr_stack vec d e u)" and k: "\<not> user_mode u \<longrightarrow> c_esp s + 68 = c_esp u \<and> c_ss s = c_ss u"
  shows "cpu_context.truncate (intr_exit s) = cpu_context.truncate u"
proof -
  let ?sp = "c_esp s" and ?m = "mem s" and ?t = "if user_mode u then [c_esp u, ucast (c_ss u)] else []"
  have f: "frame_at ?m (?sp + 4) [c_edi u, c_esi u, c_ebp u, d, c_ebx u, c_edx u, c_ecx u, c_eax u]"
    "frame_at ?m (?sp + 36) [ucast (c_gs u), ucast (c_fs u), ucast (c_es u), ucast (c_ds u)]"
    "frame_at ?m (?sp + 56) ([c_eip u, ucast (c_cs u), c_eflags u] @ ?t)"
    using f by (simp_all add: has_frame_def intr_stack_def frame_Cons ac_simps)
  define s1 where "s1 = popad (s\<lparr>c_esp := ?sp + 4\<rparr>)"
  have s1: "s1 = s\<lparr>c_edi := c_edi u, c_esi := c_esi u, c_ebp := c_ebp u, c_ebx := c_ebx u, c_edx := c_edx u, c_ecx := c_ecx u, c_eax := c_eax u, c_esp := ?sp + 36\<rparr>"
    using popad_frame [of "s\<lparr>c_esp := ?sp + 4\<rparr>"] f(1) by (simp add: s1_def)
  define s2 where "s2 = s1\<lparr>c_gs := c_gs u, c_fs := c_fs u, c_es := c_es u, c_ds := c_ds u, c_esp := ?sp + 52\<rparr>"
  have s2: "pop (\<lambda>v s. s\<lparr>c_ds := ucast v\<rparr>) (pop (\<lambda>v s. s\<lparr>c_es := ucast v\<rparr>) (pop (\<lambda>v s. s\<lparr>c_fs := ucast v\<rparr>) (pop (\<lambda>v s. s\<lparr>c_gs := ucast v\<rparr>) s1))) = s2"
    using pop_segs_frame [of s1] f(2) by (simp add: s1 s2_def)
  have x: "intr_exit s = iretd (s2\<lparr>c_esp := ?sp + 56\<rparr>)"
    by (simp add: intr_exit_def Let_def s1_def [symmetric] s2) (simp add: s2_def add.commute)
  have m2: "mem s2 = ?m" "c_ss s2 = c_ss s" by (simp_all add: s2_def s1)
  have "iretd (s2\<lparr>c_esp := ?sp + 56\<rparr>) = s2\<lparr>c_eip := c_eip u, c_cs := c_cs u, c_eflags := c_eflags u,
      c_esp := (if c_cs u AND 3 = 3 then c_esp u else ?sp + 68), c_ss := (if c_cs u AND 3 = 3 then c_ss u else c_ss s)\<rparr>"
    using iretd_frame [of "s2\<lparr>c_esp := ?sp + 56\<rparr>" "c_eip u" "c_cs u" "c_eflags u" "c_esp u" "c_ss u"] f(3) m2 by (simp add: user_mode_def)
  moreover have "(if c_cs u AND 3 = 3 then c_esp u else ?sp + 68) = c_esp u" "(if c_cs u AND 3 = 3 then c_ss u else c_ss s) = c_ss u"
    using k by (auto simp: user_mode_def)
  ultimately show ?thesis unfolding x by (simp add: cpu_context.defs s2_def s1)
qed

section \<open>Interrupts and system calls\<close>

text \<open>What the code called in between owes its caller: the stack pointer, the stack segment and the words above the arguments.\<close>

definition keeps_stack :: "nat \<Rightarrow> core \<Rightarrow> core \<Rightarrow> bool" where
  "keeps_stack args s t \<longleftrightarrow> c_esp t = c_esp s \<and> c_ss t = c_ss s \<and>
     (\<forall>k. args \<le> k \<and> k < 22 \<longrightarrow> mem t (c_esp s + 4 * of_nat k) = mem s (c_esp s + 4 * of_nat k))"

lemma keeps_frame:
  assumes "keeps_stack n s t" "frame_at (mem s) (c_esp s) (xs @ ws)" "length xs = n" "n + length ws \<le> 22"
  shows "frame_at (mem t) (c_esp t + 4 * of_nat n) ws"
  unfolding frame_at_def
proof (intro allI impI)
  fix i assume i: "i < length ws"
  have a: "c_esp s + 4 * of_nat n + 4 * of_nat i = c_esp s + 4 * of_nat (n + i)" by (simp add: algebra_simps)
  have "mem s (c_esp s + 4 * of_nat (n + i)) = (xs @ ws) ! (n + i)"
    using assms(2,3) i unfolding frame_at_def by (metis length_append nat_add_left_cancel_less)
  then show "mem t (c_esp t + 4 * of_nat n + 4 * of_nat i) = ws ! i"
    using assms i unfolding keeps_stack_def by (simp add: a nth_append del: of_nat_add)
qed

lemma length_intr_stack: "length (intr_stack vec d e u) = (if user_mode u then 19 else 17)"
  by (simp add: intr_stack_def)

lemma interrupt_kernel:
  assumes "\<not> user_mode u"
  shows "c_esp (interrupt kstack err entry u) = c_esp u - 12 - (case err of None \<Rightarrow> 0 | Some _ \<Rightarrow> 4)" "c_ss (interrupt kstack err entry u) = c_ss u"
  using assms by (cases err; simp add: interrupt_def Let_def)+

text \<open>
  Property C25: an interrupt is invisible to the interrupted code.  In user or kernel mode, for a vector with or without error code whose
  stub matches: after the processor's entry, the stub, any handler that leaves the frame on the stack alone, and
  \<open>intr_exit\<close>, every register, segment, the flags, the stack and the instruction pointer are as before.
\<close>

theorem interrupts_are_transparent:
  assumes "zero \<longleftrightarrow> err = None" "keeps_stack 0 (vector_entry zero vec (interrupt kstack err entry u)) t"
  shows "cpu_context.truncate (intr_exit t) = cpu_context.truncate u"
proof -
  let ?e = "vector_entry zero vec (interrupt kstack err entry u)"
  obtain d x where f: "has_frame ?e (intr_stack vec d x u)" using vector_entry_frame [OF assms(1)] by blast
  then have "has_frame t (intr_stack vec d x u)"
    using keeps_frame [OF assms(2), of "[]" "intr_stack vec d x u"] by (simp add: has_frame_def length_intr_stack)
  moreover have "c_esp t + 68 = c_esp u \<and> c_ss t = c_ss u" if "\<not> user_mode u"
    using assms interrupt_kernel [OF that, of kstack err entry]
    by (cases err) (simp_all add: keeps_stack_def vector_entry_def save_context_def pushad_def Let_def)
  ultimately show ?thesis by (intro intr_exit_restores) auto
qed

definition demo_user :: core where
  "demo_user =
     \<lparr>c_eax = 1, c_ecx = 2, c_edx = 3, c_ebx = 4, c_esp = 0xbfffff00, c_ebp = 0xbfffff40, c_esi = 6, c_edi = 7,
      c_ds = 0x33, c_es = 0x33, c_fs = 0x33, c_gs = 0, c_cs = 0x2b, c_ss = 0x33, c_eip = 0x08048100, c_eflags = 0x202,
      mem = (\<lambda>_. 0), eoi = []\<rparr>"

theorem interrupts_are_transparent_witness:
  "c_eip (intr_exit (vector_entry True 0x20 (interrupt 0xc0102000 None 0xc0001200 demo_user))) = 0x08048100"
proof -
  let ?e = "vector_entry True 0x20 (interrupt 0xc0102000 None 0xc0001200 demo_user)"
  have "keeps_stack 0 ?e ?e" by (simp add: keeps_stack_def)
  then have "cpu_context.truncate (intr_exit ?e) = cpu_context.truncate demo_user"
    by (intro interrupts_are_transparent [where zero = True and err = None]) simp_all
  then show ?thesis by (simp add: cpu_context.defs demo_user_def)
qed

lemma syscall_entry_frame:
  "\<exists>d. has_frame (syscall_entry (interrupt kstack None entry u)) ([c_ebx u, c_ecx u, c_edx u] @ intr_stack 0x80 d 0 u)"
proof -
  let ?i = "interrupt kstack None entry u"
  have "has_frame (push 0 ?i) (0 # hw_frame None u)" using interrupt_frame [of kstack None entry u] by (intro has_frame_push) (simp_all add: hw_frame_def)
  then have "has_frame (save_context (push 0 ?i)) (saved_regs (c_esp ?i - 20) u @ 0 # hw_frame None u)"
    using save_context_frame [of "push 0 ?i" "0 # hw_frame None u"] saved_regs_cong [of "push 0 ?i" u] by (simp add: hw_frame_def interrupt_regs)
  then have "has_frame (push 0x80 (save_context (push 0 ?i))) (intr_stack 0x80 (c_esp ?i - 20) 0 u)"
    using has_frame_push [of "save_context (push 0 ?i)" _ "0x80"] by (simp add: intr_stack_def saved_regs_def hw_frame_def)
  then have "has_frame (syscall_entry ?i) ([c_ebx u, c_ecx u, c_edx u] @ intr_stack 0x80 (c_esp ?i - 20) 0 u)"
    unfolding syscall_entry_def Let_def by (simp add: has_frame_push length_intr_stack interrupt_regs)
  then show ?thesis by blast
qed

text \<open>Storing the result changes the saved \<open>eax\<close>, the ninth word of the frame, and nothing else.\<close>

lemma frame_set_eax:
  assumes "frame_at m sp (intr_stack vec d e u)"
  shows "frame_at (m(sp + 32 := r)) sp (intr_stack vec d e (u\<lparr>c_eax := r\<rparr>))"
proof -
  let ?ws = "intr_stack vec d e u"
  have ne: "sp + 4 * of_nat i \<noteq> sp + 32" if "i < length ?ws" "i \<noteq> 8" for i
  proof
    assume "sp + 4 * of_nat i = sp + 32"
    then have "(of_nat (4 * i) :: u32) = of_nat 32" by simp
    then have "unat (of_nat (4 * i) :: u32) = unat (of_nat 32 :: u32)" by simp
    moreover have "4 * i < 4294967296" using that(1) by (simp add: length_intr_stack split: if_splits)
    ultimately show False using that(2) unat_of_nat_small [of "4 * i"] unat_of_nat_small [of 32] by simp
  qed
  have ws: "intr_stack vec d e (u\<lparr>c_eax := r\<rparr>) = ?ws[8 := r]" by (simp add: intr_stack_def user_mode_def)
  show ?thesis
    unfolding frame_at_def ws
  proof (intro allI impI)
    fix i assume i: "i < length (?ws[8 := r])"
    show "(m(sp + 32 := r)) (sp + 4 * of_nat i) = ?ws[8 := r] ! i"
      using assms ne [of i] i by (cases "i = 8") (simp_all add: frame_at_def)
  qed
qed

text \<open>
  Property C26: a system call changes the caller's \<open>eax\<close> and nothing else.  The kernel function finds the caller's \<open>ebx\<close>, \<open>ecx\<close> and \<open>edx\<close> as
  its three arguments; when it returns with the stack as the calling convention demands, the caller continues behind the \<open>int\<close>
  instruction with the result in \<open>eax\<close> and every other register as it was.
\<close>

theorem syscall_changes_eax_only:
  assumes "user_mode u"
  shows "frame_at (mem (syscall_entry (interrupt kstack None entry u))) (c_esp (syscall_entry (interrupt kstack None entry u))) [c_ebx u, c_ecx u, c_edx u] \<and>
    (\<forall>t. keeps_stack 3 (syscall_entry (interrupt kstack None entry u)) t \<longrightarrow>
       cpu_context.truncate (syscall_return t) = (cpu_context.truncate u)\<lparr>c_eax := c_eax t\<rparr>)"
proof (intro conjI allI impI)
  let ?e = "syscall_entry (interrupt kstack None entry u)"
  obtain d where f: "frame_at (mem ?e) (c_esp ?e) ([c_ebx u, c_ecx u, c_edx u] @ intr_stack 0x80 d 0 u)"
    using syscall_entry_frame [of kstack entry u] by (auto simp: has_frame_def)
  then show "frame_at (mem ?e) (c_esp ?e) [c_ebx u, c_ecx u, c_edx u]" unfolding frame_append by blast
  fix t assume "keeps_stack 3 ?e t"
  then have "frame_at (mem t) (c_esp t + 12) (intr_stack 0x80 d 0 u)"
    using keeps_frame [of 3 ?e t "[c_ebx u, c_ecx u, c_edx u]"] f by (simp add: length_intr_stack)
  from frame_set_eax [OF this, of "c_eax t"]
  have "has_frame (t\<lparr>c_esp := c_esp t + 12, mem := (mem t)(c_esp t + 12 + 32 := c_eax t)\<rparr>) (intr_stack 0x80 d 0 (u\<lparr>c_eax := c_eax t\<rparr>))"
    by (simp add: has_frame_def)
  moreover have "user_mode (u\<lparr>c_eax := c_eax t\<rparr>)" using assms by (simp add: user_mode_def)
  ultimately have "cpu_context.truncate (syscall_return t) = cpu_context.truncate (u\<lparr>c_eax := c_eax t\<rparr>)"
    using intr_exit_restores [of "t\<lparr>c_esp := c_esp t + 12, mem := (mem t)(c_esp t + 12 + 32 := c_eax t)\<rparr>" "0x80" d 0 "u\<lparr>c_eax := c_eax t\<rparr>"]
    by (simp add: syscall_return_def Let_def)
  then show "cpu_context.truncate (syscall_return t) = (cpu_context.truncate u)\<lparr>c_eax := c_eax t\<rparr>" by (simp add: cpu_context.defs)
qed

theorem syscall_changes_eax_only_witness:
  "cpu_context.truncate (syscall_return ((syscall_entry (interrupt 0xc0102000 None 0xc0002000 demo_user))\<lparr>c_eax := 42, c_ecx := 0\<rparr>)) =
     (cpu_context.truncate demo_user)\<lparr>c_eax := 42\<rparr>"
proof -
  let ?e = "syscall_entry (interrupt 0xc0102000 None 0xc0002000 demo_user)"
  have "user_mode demo_user" by (simp add: user_mode_def demo_user_def)
  moreover have "keeps_stack 3 ?e (?e\<lparr>c_eax := 42, c_ecx := 0\<rparr>)" by (simp add: keeps_stack_def)
  ultimately show ?thesis using syscall_changes_eax_only [of demo_user "0xc0102000" "0xc0002000"] by simp
qed

section \<open>Switching\<close>

text \<open>The words \<open>switch_to\<close> writes for a task lie in the page of its control block, above the block's first word.\<close>

definition on_stack :: "u32 \<Rightarrow> u32 \<Rightarrow> bool" where
  "on_stack t sp \<longleftrightarrow> frame t = t \<and> (\<forall>k \<le> 6. frame (sp + 8 - 4 * of_nat k) = t \<and> sp + 8 - 4 * of_nat k \<noteq> t)"

lemma on_stackD:
  assumes "on_stack t sp"
  shows "frame t = t" "frame sp = t" "frame (sp - 4) = t" "frame (sp - 8) = t" "frame (sp - 12) = t" "frame (sp - 16) = t"
    "sp \<noteq> t" "sp - 4 \<noteq> t" "sp - 8 \<noteq> t" "sp - 12 \<noteq> t" "sp - 16 \<noteq> t" "sp + 8 \<noteq> t"
proof -
  have a: "frame (sp + 8 - 4 * of_nat k) = t" "sp + 8 - 4 * of_nat k \<noteq> t" if "k \<le> 6" for k using assms that by (simp_all add: on_stack_def)
  show "frame t = t" using assms by (simp add: on_stack_def)
  show "frame sp = t" "frame (sp - 4) = t" "frame (sp - 8) = t" "frame (sp - 12) = t" "frame (sp - 16) = t"
    "sp \<noteq> t" "sp - 4 \<noteq> t" "sp - 8 \<noteq> t" "sp - 12 \<noteq> t" "sp - 16 \<noteq> t" "sp + 8 \<noteq> t"
    using a [of 0] a [of 2] a [of 3] a [of 4] a [of 5] a [of 6] by simp_all
qed

lemma switch_out_eq:
  assumes "on_stack cur (c_esp s)" "frame_at (mem s) (c_esp s) [ret, cur, nxt]"
  shows "mem (switch_out s) = (mem s)(c_esp s - 4 := c_esi s, c_esp s - 8 := c_edi s, c_esp s - 12 := c_ebx s, c_esp s - 16 := c_ebp s, cur := c_esp s - 16)"
    "c_esp (switch_out s) = c_esp s - 16"
proof -
  have "mem s (c_esp s + 4) = cur" using assms(2) by (simp add: frame_Cons)
  then have "mem s (4 + c_esp s) = cur" by (simp add: add.commute)
  then show "mem (switch_out s) = (mem s)(c_esp s - 4 := c_esi s, c_esp s - 8 := c_edi s, c_esp s - 12 := c_ebx s, c_esp s - 16 := c_ebp s, cur := c_esp s - 16)"
    "c_esp (switch_out s) = c_esp s - 16"
    by (simp_all add: switch_out_def push_def Let_def)
qed

lemma switch_out_next:
  assumes "on_stack cur (c_esp s)" "frame_at (mem s) (c_esp s) [ret, cur, nxt]"
  shows "mem (switch_out s) (c_esp s - 16 + 24) = nxt"
proof -
  have "mem s (c_esp s + 8) = nxt" using assms(2) by (simp add: frame_Cons add.commute)
  moreover have "c_esp s - 16 + 24 = c_esp s + 8" by simp
  moreover have "c_esp s + 8 \<noteq> c_esp s - 4" "c_esp s + 8 \<noteq> c_esp s - 8" "c_esp s + 8 \<noteq> c_esp s - 12" "c_esp s + 8 \<noteq> c_esp s - 16" by simp_all
  moreover have "c_esp s + 8 \<noteq> cur" by (rule on_stackD(12) [OF assms(1)])
  ultimately show ?thesis unfolding switch_out_eq(1) [OF assms] by (simp add: add.commute)
qed

text \<open>
  Property C24: a task that is switched out continues where it was.  Task \<open>a\<close> calls \<open>switch_to (a, b)\<close>; whatever runs afterwards
  leaves the page of \<open>a\<close> alone; when another task \<open>b'\<close>, on its own stack, calls \<open>switch_to (b', a)\<close>, the processor
  returns from the call of \<open>a\<close>: at its return address, with its stack pointer and the registers a function has to preserve.
  The task state the scheduler's model keeps for a switch, the saved stack pointer, is the one the code stores.
\<close>

theorem switched_out_task_continues:
  assumes a: "on_stack a (c_esp s)" "frame_at (mem s) (c_esp s) [ret, a, b]"
    and away: "\<forall>x. frame x = a \<longrightarrow> mem t x = mem (switch_out s) x"
    and b: "on_stack b' (c_esp t)" "frame_at (mem t) (c_esp t) [ret', b', a]" "b' \<noteq> a"
  shows "c_eip (switch_code t) = ret \<and> c_esp (switch_code t) = c_esp s + 4 \<and> c_ebp (switch_code t) = c_ebp s \<and>
    c_ebx (switch_code t) = c_ebx s \<and> c_esi (switch_code t) = c_esi s \<and> c_edi (switch_code t) = c_edi s \<and>
    mem (switch_out s) a = self_kstack (tasks (Sched.switch_to a b (k\<lparr>esp := c_esp s\<rparr>)) a)"
proof -
  note fa = on_stackD [OF a(1)] and fb = on_stackD [OF b(1)]
  note oa = switch_out_eq [OF a] and ob = switch_out_eq [OF b(1,2)]
  let ?sp = "c_esp s - 16"
  have ret: "mem s (c_esp s) = ret" using a(2) by (simp_all add: frame_Cons add.commute)
  have keep: "mem (switch_out t) x = mem (switch_out s) x" if "frame x = a" for x
    using away that fb b(3) unfolding ob(1) by auto
  have words: "mem (switch_out s) a = ?sp" "mem (switch_out s) ?sp = c_ebp s" "mem (switch_out s) (c_esp s - 12) = c_ebx s"
    "mem (switch_out s) (c_esp s - 8) = c_edi s" "mem (switch_out s) (c_esp s - 4) = c_esi s" "mem (switch_out s) (c_esp s) = ret"
    using fa ret unfolding oa(1) by simp_all
  have na: "mem (switch_out t) (c_esp t - 16 + 24) = a" by (rule switch_out_next [OF b(1,2)])
  show ?thesis
    using keep words na fa ob(2) by (simp add: switch_code_def switch_in_def pop_def Let_def Sched.switch_to_def)
qed

text \<open>Task \<open>a\<close> at 0xc0101000 and task \<open>b\<close> at 0xc0102000, each inside a call of \<open>switch_to\<close>.\<close>

definition demo_caller :: "u32 \<Rightarrow> u32 \<Rightarrow> u32 \<Rightarrow> (u32 \<Rightarrow> u32) \<Rightarrow> core" where
  "demo_caller cur nxt ret m = demo_user\<lparr>c_esp := cur + 0xe00, c_cs := 8, mem := m(cur + 0xe00 := ret, cur + 0xe04 := cur, cur + 0xe08 := nxt)\<rparr>"

lemma demo_on_stack: "on_stack 0xc0101000 0xc0101e00" "on_stack 0xc0102000 0xc0102e00"
proof -
  have "k \<le> 6 \<longleftrightarrow> k \<in> {0, 1, 2, 3, 4, 5, 6}" for k :: nat by auto
  then have "(\<forall>k \<le> (6 :: nat). P k) \<longleftrightarrow> (\<forall>k \<in> {0, 1, 2, 3, 4, 5, 6}. P k)" for P by blast
  then show "on_stack 0xc0101000 0xc0101e00" "on_stack 0xc0102000 0xc0102e00" unfolding on_stack_def by (simp_all add: frame_def)
qed

theorem switched_out_task_continues_witness:
  "c_eip (switch_code (demo_caller 0xc0102000 0xc0101000 0xc0003333
     (mem (switch_out (demo_caller 0xc0101000 0xc0102000 0xc0004444 (\<lambda>_. 0)))))) = 0xc0004444"
proof -
  let ?s = "demo_caller 0xc0101000 0xc0102000 0xc0004444 (\<lambda>_. 0)"
  let ?t = "demo_caller 0xc0102000 0xc0101000 0xc0003333 (mem (switch_out ?s))"
  have s: "c_esp ?s = 0xc0101e00" "frame_at (mem ?s) (c_esp ?s) [0xc0004444, 0xc0101000, 0xc0102000]" by (simp_all add: demo_caller_def frame_Cons)
  have t: "c_esp ?t = 0xc0102e00" "frame_at (mem ?t) (c_esp ?t) [0xc0003333, 0xc0102000, 0xc0101000]" by (simp_all add: demo_caller_def frame_Cons)
  have "mem ?t x = mem (switch_out ?s) x" if "frame x = 0xc0101000" for x
    using that by (auto simp: demo_caller_def frame_def)
  then show ?thesis
    using switched_out_task_continues [of "0xc0101000" ?s "0xc0004444" "0xc0102000" ?t "0xc0102000" "0xc0003333" demo_sched] s t demo_on_stack
    by simp
qed

text \<open>A new thread: its first switch leads to \<open>kernel_thread\<close> with the function and its argument where a called function looks for them.\<close>

lemma first_switch_starts_thread:
  assumes "frame_at (mem s) (c_esp s) [ret, cur, nxt]" "on_stack cur (c_esp s)" "cur \<noteq> nxt"
    and "mem s nxt = k" "frame_at (mem s) k [ebp, ebx, edi, esi, kernel_thread, unused, function, arg]"
    and own: "frame nxt = nxt" "\<And>i. i < 8 \<Longrightarrow> frame (k + 4 * of_nat i) = nxt"
  shows "c_eip (switch_code s) = kernel_thread \<and>
    frame_at (mem (switch_code s)) (c_esp (switch_code s)) [unused, function, arg]"
proof -
  note f = on_stackD [OF assms(2)] and o = switch_out_eq [OF assms(2,1)]
  have keep: "mem (switch_out s) x = mem s x" if "frame x = nxt" for x using that f assms(3) unfolding o(1) by auto
  have nx: "mem (switch_out s) (c_esp s - 16 + 24) = nxt" by (rule switch_out_next [OF assms(2,1)])
  have "frame_at (mem (switch_out s)) k [ebp, ebx, edi, esi, kernel_thread, unused, function, arg]"
    using assms(5) own(2) keep by (simp add: frame_at_def)
  then show ?thesis using keep [OF own(1)] assms(4) nx o(2)
    by (simp add: switch_code_def switch_in_def pop_def Let_def frame_Cons add.commute)
qed
end
