(* ===== verification/Ports.thy ===== *)
theory Ports
  imports CString
begin

text \<open>
  The port instructions of lib/kernel/io.h.  A device is given by what it does on reading and writing a port; string instructions
  move 16-bit words between the port and memory, low byte first, with the direction flag cleared.
\<close>

definition outb :: "(u16 \<Rightarrow> u16 \<Rightarrow> 'd \<Rightarrow> 'd) \<Rightarrow> u16 \<Rightarrow> u8 \<Rightarrow> 'd \<Rightarrow> 'd" where
  "outb wr port data d = wr port (ucast data) d"

definition inb :: "(u16 \<Rightarrow> 'd \<Rightarrow> u16 \<times> 'd) \<Rightarrow> u16 \<Rightarrow> 'd \<Rightarrow> u8 \<times> 'd" where
  "inb rd port d = (let (v, d) = rd port d in (ucast v, d))"

definition word_at :: "mem \<Rightarrow> u32 \<Rightarrow> u16" where
  "word_at m a = ucast (m a) OR push_bit 8 (ucast (m (a + 1)))"

primrec outsw :: "(u16 \<Rightarrow> u16 \<Rightarrow> 'd \<Rightarrow> 'd) \<Rightarrow> u16 \<Rightarrow> mem \<Rightarrow> u32 \<Rightarrow> nat \<Rightarrow> 'd \<Rightarrow> 'd" where
  "outsw wr port m addr 0 d = d"
| "outsw wr port m addr (Suc word_cnt) d = outsw wr port m (addr + 2) word_cnt (wr port (word_at m addr) d)"

primrec insw :: "(u16 \<Rightarrow> 'd \<Rightarrow> u16 \<times> 'd) \<Rightarrow> u16 \<Rightarrow> u32 \<Rightarrow> nat \<Rightarrow> mem \<Rightarrow> 'd \<Rightarrow> mem \<times> 'd" where
  "insw rd port addr 0 m d = (m, d)"
| "insw rd port addr (Suc word_cnt) m d =
     (let (v, d) = rd port d in insw rd port (addr + 2) word_cnt (m(addr := ucast v, addr + 1 := ucast (drop_bit 8 v))) d)"

section \<open>A block through a data port\<close>

text \<open>A device that keeps the words written to its data port in order, as the buffer of a disk controller does.\<close>

definition fifo_wr :: "u16 \<Rightarrow> u16 \<Rightarrow> u16 list \<Rightarrow> u16 list" where
  "fifo_wr port v q = q @ [v]"

fun fifo_rd :: "u16 \<Rightarrow> u16 list \<Rightarrow> u16 \<times> u16 list" where
  "fifo_rd port [] = (0xffff, [])"
| "fifo_rd port (v # q) = (v, q)"

lemma outsw_fifo: "outsw fifo_wr port m addr n q = q @ map (\<lambda>i. word_at m (addr + 2 * of_nat i)) [0..<n]"
proof (induction n arbitrary: addr q)
  case (Suc n)
  have "map (\<lambda>i. word_at m (addr + 2 * of_nat i)) [0..<Suc n] = word_at m addr # map (\<lambda>i. word_at m (addr + 2 + 2 * of_nat i)) [0..<n]"
    by (rule nth_equalityI) (auto simp: nth_Cons algebra_simps split: nat.split simp del: upt_Suc)
  then show ?case using Suc by (simp add: fifo_wr_def del: upt_Suc)
qed simp

lemma word_bytes: "ucast (word_at m a) = m a" "ucast (drop_bit 8 (word_at m a)) = m (a + 1)"
  by (rule bit_eqI; auto simp: word_at_def bit_simps dest: bit_imp_le_length)+

lemma insw_fifo:
  assumes "length vs = n" "2 * n \<le> 4096"
  shows "\<exists>m'. insw fifo_rd port addr n m (vs @ q) = (m', q) \<and>
    (\<forall>i < n. m' (addr + 2 * of_nat i) = ucast (vs ! i) \<and> m' (addr + 2 * of_nat i + 1) = ucast (drop_bit 8 (vs ! i))) \<and>
    (\<forall>x. (\<forall>k < 2 * n. x \<noteq> addr + of_nat k) \<longrightarrow> m' x = m x)"
  using assms
proof (induction n arbitrary: addr m vs)
  case (Suc n)
  obtain v us where vs: "vs = v # us" "length us = n" using Suc.prems(1) by (cases vs) auto
  define m1 where "m1 = m(addr := ucast v, addr + 1 := ucast (drop_bit 8 v))"
  obtain m' where m': "insw fifo_rd port (addr + 2) n m1 (us @ q) = (m', q)"
    "\<And>i. i < n \<Longrightarrow> m' (addr + 2 + 2 * of_nat i) = ucast (us ! i) \<and> m' (addr + 2 + 2 * of_nat i + 1) = ucast (drop_bit 8 (us ! i))"
    "\<And>x. (\<forall>k < 2 * n. x \<noteq> addr + 2 + of_nat k) \<Longrightarrow> m' x = m1 x"
    using Suc.IH [OF vs(2), of "addr + 2" m1] Suc.prems(2) by auto
  have far: "addr + of_nat j \<noteq> addr + 2 + of_nat k" if "j < 2" "k < 2 * n" for j k
  proof
    assume "addr + of_nat j = addr + 2 + of_nat k"
    then have "(of_nat j :: u32) = of_nat (2 + k)" by simp
    then have "unat (of_nat j :: u32) = unat (of_nat (2 + k) :: u32)" by simp
    then show False using that Suc.prems(2) unat_of_nat_small [of j] unat_of_nat_small [of "2 + k"] by simp
  qed
  have lo: "m' addr = ucast v" "m' (addr + 1) = ucast (drop_bit 8 v)"
    using m'(3) [of addr] m'(3) [of "addr + 1"] far [of 0] far [of 1] by (simp_all add: m1_def)
  have "m' (addr + 2 * of_nat i) = ucast (vs ! i) \<and> m' (addr + 2 * of_nat i + 1) = ucast (drop_bit 8 (vs ! i))" if "i < Suc n" for i
  proof (cases i)
    case 0
    then show ?thesis using lo vs by simp
  next
    case (Suc j)
    have "addr + 2 * of_nat i = addr + 2 + 2 * of_nat j" using Suc by (simp add: algebra_simps)
    then show ?thesis using m'(2) [of j] Suc that vs by (simp add: algebra_simps)
  qed
  moreover have "m' x = m x" if "\<forall>k < 2 * Suc n. x \<noteq> addr + of_nat k" for x
  proof -
    have "x \<noteq> addr + 2 + of_nat k" if "k < 2 * n" for k
      using \<open>\<forall>k < 2 * Suc n. x \<noteq> addr + of_nat k\<close> [rule_format, of "k + 2"] that by (simp add: algebra_simps)
    moreover have "x \<noteq> addr" "x \<noteq> addr + 1" using that [rule_format, of 0] that [rule_format, of 1] by simp_all
    ultimately show ?thesis using m'(3) [of x] by (simp add: m1_def)
  qed
  ultimately show ?case using m'(1) vs by (auto simp: m1_def)
qed simp

text \<open>Words sent with \<open>outsw\<close> and fetched with \<open>insw\<close> arrive byte for byte, and no other byte of memory changes.\<close>

lemma port_block_round_trip:
  assumes "2 * n \<le> 4096"
  shows "\<exists>m'. insw fifo_rd port dst n m (outsw fifo_wr port m src n []) = (m', []) \<and>
    (\<forall>i < n. m' (dst + 2 * of_nat i) = m (src + 2 * of_nat i) \<and> m' (dst + 2 * of_nat i + 1) = m (src + 2 * of_nat i + 1)) \<and>
    (\<forall>x. (\<forall>k < 2 * n. x \<noteq> dst + of_nat k) \<longrightarrow> m' x = m x)"
  using insw_fifo [of "map (\<lambda>i. word_at m (src + 2 * of_nat i)) [0..<n]" n port dst m "[]"] assms
  by (auto simp: outsw_fifo word_bytes)

end
