(* ===== verification/Loader.thy ===== *)
theory Loader
  imports HeapSpace
begin

text \<open>
  What the boot loader (boot/loader.S) leaves for the kernel: the memory size it computes from the firmware's list of address ranges,
  and the page directory and first page table of \<open>setup_page\<close>.  Loops over registers are recursions over their counters; physical memory is
  seen as words.  They are joined to the memory manager: what they leave makes \<open>mem_init\<close> succeed and the heap start empty.  The rest of the loader (firmware calls, protected mode, reading the kernel's sectors and copying its segments)
  runs before there is any kernel state.
\<close>

section \<open>The code\<close>

definition PAGE_DIR_TABLE_POS :: u32 where "PAGE_DIR_TABLE_POS = 0x100000"

text \<open>Base and length, low words, of each range (the firmware reports at least one); the comparison is signed.\<close>

fun find_max_mem_area :: "(u32 \<times> u32) list \<Rightarrow> u32 \<Rightarrow> u32" where
  "find_max_mem_area [] edx = edx"
| "find_max_mem_area ((base_add_low, length_low) # r) edx =
     (let eax = base_add_low + length_low in find_max_mem_area r (if sint edx \<ge> sint eax then edx else eax))"

text \<open>\<open>mov byte [a], 0\<close> clears one byte of the word that holds it.\<close>

definition clear_byte :: "u32 \<Rightarrow> (u32 \<Rightarrow> u32) \<Rightarrow> u32 \<Rightarrow> u32" where
  "clear_byte a p = (let w = a AND NOT 3 in p(w := p w AND NOT (push_bit (8 * unat (a AND 3)) 0xff)))"

primrec clear_page_dir :: "nat \<Rightarrow> u32 \<Rightarrow> (u32 \<Rightarrow> u32) \<Rightarrow> u32 \<Rightarrow> u32" where
  "clear_page_dir 0 esi p = p"
| "clear_page_dir (Suc ecx) esi p = clear_page_dir ecx (esi + 1) (clear_byte (PAGE_DIR_TABLE_POS + esi) p)"

primrec create_pte :: "nat \<Rightarrow> u32 \<Rightarrow> u32 \<Rightarrow> u32 \<Rightarrow> (u32 \<Rightarrow> u32) \<Rightarrow> u32 \<Rightarrow> u32" where
  "create_pte 0 ebx esi edx p = p"
| "create_pte (Suc ecx) ebx esi edx p = create_pte ecx ebx (esi + 1) (edx + 4096) (p(ebx + esi * 4 := edx))"

primrec create_kernel_pde :: "nat \<Rightarrow> u32 \<Rightarrow> u32 \<Rightarrow> u32 \<Rightarrow> (u32 \<Rightarrow> u32) \<Rightarrow> u32 \<Rightarrow> u32" where
  "create_kernel_pde 0 ebx esi eax p = p"
| "create_kernel_pde (Suc ecx) ebx esi eax p = create_kernel_pde ecx ebx (esi + 1) (eax + 0x1000) (p(ebx + esi * 4 := eax))"

definition setup_page :: "(u32 \<Rightarrow> u32) \<Rightarrow> u32 \<Rightarrow> u32" where
  "setup_page p =
     (let p = clear_page_dir 4096 0 p;
          ebx = PAGE_DIR_TABLE_POS + 0x1000;
          eax = ebx OR (PG_US_U OR PG_RW_W OR PG_P_1);
          p = p(PAGE_DIR_TABLE_POS + 0 := eax, PAGE_DIR_TABLE_POS + 0xc00 := eax);
          p = p(PAGE_DIR_TABLE_POS + 4092 := eax - 0x1000);
          p = create_pte 256 ebx 0 (PG_US_U OR PG_RW_W OR PG_P_1) p
      in create_kernel_pde 254 PAGE_DIR_TABLE_POS 769 ((PAGE_DIR_TABLE_POS + 0x2000) OR (PG_US_U OR PG_RW_W OR PG_P_1)) p)"

section \<open>The tables\<close>

lemma word_index_less:
  assumes "m < 1024" "n < 1024"
  shows "(b :: u32) + 4 * of_nat m = b + 4 * of_nat n \<longleftrightarrow> m = n"
proof
  assume "b + 4 * of_nat m = b + 4 * of_nat n"
  then have "unat (of_nat (4 * m) :: u32) = unat (of_nat (4 * n) :: u32)" by simp
  then show "m = n" using assms unat_of_nat_small [of "4 * m"] unat_of_nat_small [of "4 * n"] by simp
qed simp

text \<open>All three loops fill consecutive words with values that grow by a fixed amount.\<close>

primrec fill_words :: "nat \<Rightarrow> u32 \<Rightarrow> u32 \<Rightarrow> u32 \<Rightarrow> (u32 \<Rightarrow> u32) \<Rightarrow> u32 \<Rightarrow> u32" where
  "fill_words 0 a v st p = p"
| "fill_words (Suc n) a v st p = fill_words n (a + 4) (v + st) st (p(a := v))"

lemma fill_words_other: "(\<And>k. k < n \<Longrightarrow> x \<noteq> a + 4 * of_nat k) \<Longrightarrow> fill_words n a v st p x = p x"
proof (induction n arbitrary: a v p)
  case (Suc n)
  have "x \<noteq> a + 4 + 4 * of_nat k" if "k < n" for k using Suc.prems [of "Suc k"] that by (simp add: algebra_simps)
  then show ?case using Suc.IH [of "a + 4"] Suc.prems [of 0] by simp
qed simp

lemma fill_words_at:
  assumes "k < n" "n \<le> 1024"
  shows "fill_words n a v st p (a + 4 * of_nat k) = v + st * of_nat k"
  using assms
proof (induction n arbitrary: a v p k)
  case (Suc n)
  show ?case
  proof (cases k)
    case 0
    have "a \<noteq> a + 4 + 4 * of_nat j" if "j < n" for j
      using word_index_less [of 0 "Suc j" a] that Suc.prems(2) by (simp add: algebra_simps)
    then show ?thesis using 0 fill_words_other [of n a "a + 4"] by simp
  next
    case (Suc j)
    then have "fill_words n (a + 4) (v + st) st (p(a := v)) (a + 4 + 4 * of_nat j) = v + st + st * of_nat j"
      using Suc.prems by (intro Suc.IH) simp_all
    then show ?thesis using Suc by (simp add: algebra_simps)
  qed
qed simp

lemma byte_of_word:
  assumes "i \<in> {0, 1, 2, 3 :: u32}"
  shows "(4 * w + i) AND NOT 3 = 4 * w" "(4 * w + i) AND 3 = i"
proof -
  have m: "(3 :: u32) = mask 2" "4 * w = push_bit 2 w" by (simp_all add: mask_eq_exp_minus_1 push_bit_eq_mult)
  have i: "i = take_bit 2 i" using assms by auto
  have "push_bit 2 w + take_bit 2 i = push_bit 2 w OR take_bit 2 i"
    by (rule disjunctive_add_eq_or, rule bit_eqI) (auto simp: bit_simps)
  then have s: "4 * w + i = push_bit 2 w OR take_bit 2 i" using i m(2) by simp
  have "(4 * w + i) AND NOT 3 = push_bit 2 w" unfolding s m(1) by (rule bit_eqI) (auto simp: bit_simps)
  then show "(4 * w + i) AND NOT 3 = 4 * w" using m(2) by simp
  have "(4 * w + i) AND 3 = take_bit 2 i" unfolding s m(1) by (rule bit_eqI) (auto simp: bit_simps)
  then show "(4 * w + i) AND 3 = i" using i by simp
qed

lemma no_bytes_left:
  "(((x :: u32) AND NOT 0xff) AND NOT 0xff00 AND NOT 0xff0000) AND NOT 0xff000000 = 0"
proof -
  have "NOT 0xff AND NOT 0xff00 AND NOT 0xff0000 AND NOT 0xff000000 = (0 :: u32)" by simp
  then show ?thesis by (simp only: and.assoc and_zero_eq)
qed

text \<open>Four byte writes clear one word.\<close>

lemma clear_word:
  "clear_byte (4 * w + 3) (clear_byte (4 * w + 2) (clear_byte (4 * w + 1) (clear_byte (4 * w) p))) = p(4 * w := 0)"
  using byte_of_word [of 0 w] byte_of_word [of 1 w] byte_of_word [of 2 w] byte_of_word [of 3 w] no_bytes_left
  by (simp add: clear_byte_def Let_def fun_eq_iff and.assoc push_bit_eq_mult)

lemma clear_fill: "clear_page_dir (4 * n) (4 * w) p = fill_words n (PAGE_DIR_TABLE_POS + 4 * w) 0 0 p"
proof (induction n arbitrary: w p)
  case (Suc n)
  have four: "4 * Suc n = Suc (Suc (Suc (Suc (4 * n))))" by simp
  have at: "PAGE_DIR_TABLE_POS + (4 * w + i) = 4 * (0x40000 + w) + i" for i by (simp add: PAGE_DIR_TABLE_POS_def algebra_simps)
  have "clear_page_dir (4 * Suc n) (4 * w) p = clear_page_dir (4 * n) (4 * (w + 1)) (p(4 * (0x40000 + w) := 0))"
    unfolding four clear_page_dir.simps
    using at [of 0] at [of 1] at [of 2] at [of 3] clear_word [of "0x40000 + w" p] by (simp add: algebra_simps)
  also have "\<dots> = fill_words n (PAGE_DIR_TABLE_POS + 4 * (w + 1)) 0 0 (p(4 * (0x40000 + w) := 0))" by (rule Suc.IH)
  finally show ?case using at [of 0] by (simp add: algebra_simps)
qed simp
lemma pte_fill: "create_pte n ebx esi edx p = fill_words n (ebx + esi * 4) edx 4096 p"
  by (induction n arbitrary: esi edx p) (simp_all add: algebra_simps)

lemma pde_fill: "create_kernel_pde n ebx esi eax p = fill_words n (ebx + esi * 4) eax 0x1000 p"
  by (induction n arbitrary: esi eax p) (simp_all add: algebra_simps)

lemma setup_page_fill:
  "setup_page p = fill_words 254 0x100c04 0x102007 0x1000 (fill_words 256 0x101000 7 4096
     ((fill_words 1024 0x100000 0 0 p)(0x100000 := 0x101007, 0x100c00 := 0x101007, 0x100ffc := 0x100007)))"
  using clear_fill [of 1024 0] by (simp add: setup_page_def pte_fill pde_fill PAGE_DIR_TABLE_POS_def PG_US_U_def PG_RW_W_def PG_P_1_def Let_def)

lemma unat_word_at:
  assumes "unat (a :: u32) + 4 * k < 4294967296"
  shows "unat (a + 4 * of_nat k) = unat a + 4 * k"
proof -
  have k: "unat (of_nat (4 * k) :: u32) = 4 * k" using assms by (intro unat_of_nat_small) simp
  then have "unat (a + of_nat (4 * k)) = unat a + 4 * k" using assms unat_plus_simple [of a "of_nat (4 * k)"] by (simp add: word_le_nat_alt unat_word_ariths)
  then show ?thesis by simp
qed

lemma fill_words_outside:
  assumes "unat x < unat a \<or> unat a + 4 * n \<le> unat x" "unat a + 4 * n < 4294967296"
  shows "fill_words n a v st p x = p x"
proof (rule fill_words_other)
  fix k assume "k < n"
  with assms unat_word_at [of a k] show "x \<noteq> a + 4 * of_nat k" by auto
qed

text \<open>Number of the frame that directory entry \<open>i\<close> names, for the entries that are present.\<close>

definition boot_frame :: "nat \<Rightarrow> nat" where
  "boot_frame i = (if i = 0 then 0x101 else if i = 1023 then 0x100 else 0x101 + (i - 768))"

lemma setup_page_dir:
  assumes "i < 1024"
  shows "setup_page p (0x100000 + 4 * of_nat i) =
    (if i = 0 \<or> 768 \<le> i then 4096 * of_nat (boot_frame i) + 7 else 0)"
proof -
  let ?x = "0x100000 + 4 * of_nat i :: u32"
  let ?p0 = "fill_words 1024 0x100000 0 0 p"
  let ?p1 = "?p0(0x100000 := 0x101007, 0x100c00 := 0x101007, 0x100ffc := 0x100007)"
  have x: "unat ?x = 0x100000 + 4 * i" using unat_word_at [of "0x100000" i] assms by simp
  have eq: "?x = 0x100000 + 4 * of_nat j \<longleftrightarrow> i = j" if "j < 1024" for j
    using word_index_less [OF assms that, of "0x100000"] by simp
  have p2: "fill_words 256 0x101000 7 4096 ?p1 ?x = ?p1 ?x"
    using x assms by (intro fill_words_outside) simp_all
  have e: "?x = 0x100000 \<longleftrightarrow> i = 0" "?x = 0x100c00 \<longleftrightarrow> i = 768" "?x = 0x100ffc \<longleftrightarrow> i = 1023"
    using eq [of 0] eq [of 768] eq [of 1023] by simp_all
  have p0: "?p0 ?x = 0" using fill_words_at [OF assms, where a = "0x100000"] by simp
  have p1: "?p1 ?x = (if i = 0 \<or> i = 768 then 0x101007 else if i = 1023 then 0x100007 else 0)"
    using e p0 by (simp only: fun_upd_apply) (simp split: if_splits)
  show ?thesis
  proof (cases "769 \<le> i \<and> i < 1023")
    case True
    define k where "k = i - 769"
    have k: "k < 254" "i = 769 + k" unfolding k_def using True by linarith+
    have "?x = 0x100c04 + 4 * of_nat k" using k(2) by simp
    then show ?thesis using fill_words_at [of k 254 "0x100c04"] k by (simp add: setup_page_fill boot_frame_def algebra_simps)
  next
    case False
    then have "fill_words 254 0x100c04 0x102007 0x1000 (fill_words 256 0x101000 7 4096 ?p1) ?x = ?p1 ?x"
      unfolding p2 [symmetric] using x assms by (intro fill_words_outside) auto
    then have v: "setup_page p ?x = ?p1 ?x" by (simp only: setup_page_fill)
    have "i < 768 \<or> i = 768 \<or> i = 1023" using False assms by linarith
    then show ?thesis unfolding v p1 by (auto simp: boot_frame_def)
  qed
qed

lemma setup_page_table:
  assumes "i < 1024"
  shows "setup_page p (0x101000 + 4 * of_nat i) =
    (if i < 256 then 4096 * of_nat i + 7 else p (0x101000 + 4 * of_nat i))"
proof -
  let ?x = "0x101000 + 4 * of_nat i :: u32"
  let ?p0 = "fill_words 1024 0x100000 0 0 p"
  let ?p1 = "?p0(0x100000 := 0x101007, 0x100c00 := 0x101007, 0x100ffc := 0x100007)"
  let ?p2 = "fill_words 256 0x101000 7 4096 ?p1"
  have x: "unat ?x = 0x101000 + 4 * i" using unat_word_at [of "0x101000" i] assms by simp
  have p3: "setup_page p ?x = ?p2 ?x"
    unfolding setup_page_fill using x by (intro fill_words_outside) simp_all
  show ?thesis
  proof (cases "i < 256")
    case True
    then show ?thesis using p3 fill_words_at [of i 256 "0x101000"] by (simp add: algebra_simps)
  next
    case False
    have ne: "?x \<noteq> y" if "unat y < 0x101000" for y using x that by auto
    have "?p2 ?x = ?p1 ?x" using x False by (intro fill_words_outside) simp_all
    also have "\<dots> = ?p0 ?x" using ne [of "0x100000"] ne [of "0x100c00"] ne [of "0x100ffc"] by simp
    also have "\<dots> = p ?x" using x by (intro fill_words_outside) simp_all
    finally show ?thesis using False p3 by simp
  qed
qed

section \<open>Entries and indices\<close>

lemma entry_bits:
  assumes "n < 0x100000"
  shows "present (4096 * of_nat n + 7)" "frame (4096 * of_nat n + 7) = 4096 * of_nat n"
proof -
  have p: "4096 * of_nat n = push_bit 12 (of_nat n :: u32)" by (simp add: push_bit_eq_mult)
  have s: "(7 :: u32) = mask 3" by (simp add: mask_eq_exp_minus_1)
  have o: "push_bit 12 (of_nat n :: u32) + mask 3 = push_bit 12 (of_nat n) OR mask 3"
    by (rule disjunctive_add_eq_or, rule bit_eqI) (auto simp: bit_simps)
  show "present (4096 * of_nat n + 7)" "frame (4096 * of_nat n + 7) = 4096 * of_nat n"
    unfolding p s o present_bit frame_bits by (simp add: bit_simps, rule bit_eqI, auto simp: bit_simps)
qed

lemma frame_number_inj:
  assumes "m < 0x100000" "n < 0x100000"
  shows "4096 * of_nat m = (4096 * of_nat n :: u32) \<longleftrightarrow> m = n"
proof
  assume "4096 * of_nat m = (4096 * of_nat n :: u32)"
  then have "unat (of_nat (4096 * m) :: u32) = unat (of_nat (4096 * n) :: u32)" by simp
  then show "m = n" using assms unat_of_nat_small [of "4096 * m"] unat_of_nat_small [of "4096 * n"] by simp
qed simp

lemma boot_frame_less: "i < 1024 \<Longrightarrow> boot_frame i < 0x100000"
  by (auto simp: boot_frame_def)

lemma aligned_or:
  assumes "i < 1024"
  shows "4096 * of_nat n OR push_bit 2 (of_nat i :: u32) = 4096 * of_nat n + 4 * of_nat i"
proof -
  have t: "(of_nat i :: u32) = take_bit 10 (of_nat i)" using assms by (simp add: take_bit_of_nat take_bit_nat_eq_self)
  have "4096 * of_nat n = push_bit 12 (of_nat n :: u32)" "4 * of_nat i = push_bit 2 (of_nat i :: u32)" by (simp_all add: push_bit_eq_mult)
  moreover have "push_bit 12 (of_nat n) + push_bit 2 (take_bit 10 (of_nat i)) = push_bit 12 (of_nat n) OR push_bit 2 (take_bit 10 (of_nat i) :: u32)"
    by (rule disjunctive_add_eq_or, rule bit_eqI) (auto simp: bit_simps)
  ultimately show ?thesis using t by simp
qed

lemma index_value: "unat (PDE_IDX a) = unat a div 0x400000" "unat (PTE_IDX a) = unat a div 4096 mod 1024"
  by (simp_all add: PDE_IDX_drop PTE_IDX_take drop_bit_eq_div take_bit_eq_mod unat_div unat_mod)

lemma unat_u32_less: "unat (a :: u32) < 4294967296"
  using unsigned_less [of a, where ?'a = nat] by simp

lemma index_bounds: "unat (PDE_IDX a) < 1024" "unat (PTE_IDX a) < 1024"
  using unat_u32_less [of a] unfolding index_value by (simp_all add: less_mult_imp_div_less)

lemma table_slot: "pte_in (4096 * of_nat n) a = 4096 * of_nat n + 4 * of_nat (unat (PTE_IDX a))"
  using aligned_or [OF index_bounds(2), of n a] by (simp add: pte_in_def)

text \<open>The directory and the first table, as the processor indexes them.\<close>

lemma boot_pde:
  assumes "phys s = setup_page p" "cr3 s = PAGE_DIR_TABLE_POS"
  shows "phys s (pde_at s a) =
    (if unat a < 0x400000 \<or> 0xc0000000 \<le> unat a then 4096 * of_nat (boot_frame (unat (PDE_IDX a))) + 7 else 0)"
proof -
  have "pde_at s a = 0x100000 + 4 * of_nat (unat (PDE_IDX a))"
    using aligned_or [OF index_bounds(1), of 256 a] assms(2) by (simp add: pde_at_def PAGE_DIR_TABLE_POS_def frame_def)
  moreover have "unat (PDE_IDX a) = 0 \<longleftrightarrow> unat a < 0x400000" "768 \<le> unat (PDE_IDX a) \<longleftrightarrow> 0xc0000000 \<le> unat a"
    unfolding index_value by linarith+
  ultimately show ?thesis using setup_page_dir [OF index_bounds(1), of p a] assms(1) by simp
qed

lemma boot_pde_present:
  assumes "phys s = setup_page p" "cr3 s = PAGE_DIR_TABLE_POS"
  shows "present (phys s (pde_at s a)) \<longleftrightarrow> unat a < 0x400000 \<or> 0xc0000000 \<le> unat a"
    "present (phys s (pde_at s a)) \<Longrightarrow> frame (phys s (pde_at s a)) = 4096 * of_nat (boot_frame (unat (PDE_IDX a)))"
proof -
  note e = entry_bits [OF boot_frame_less [OF index_bounds(1)], of a]
  show p: "present (phys s (pde_at s a)) \<longleftrightarrow> unat a < 0x400000 \<or> 0xc0000000 \<le> unat a"
    unfolding boot_pde [OF assms] using e(1) by (auto simp: present_def)
  show "frame (phys s (pde_at s a)) = 4096 * of_nat (boot_frame (unat (PDE_IDX a)))" if "present (phys s (pde_at s a))"
    unfolding boot_pde [OF assms] using e(2) that p by (simp only: if_True)
qed

lemma boot_first_table:
  assumes "phys s = setup_page p"
  shows "phys s (pte_in (4096 * of_nat 0x101) a) =
    (if unat (PTE_IDX a) < 256 then 4096 * of_nat (unat (PTE_IDX a)) + 7 else p (pte_in (4096 * of_nat 0x101) a))"
  using setup_page_table [OF index_bounds(2), of p a] assms unfolding table_slot by simp

lemma boot_frame_values [simp]: "boot_frame 0 = 0x101" "boot_frame 768 = 0x101" "boot_frame 1023 = 0x100"
  by (simp_all add: boot_frame_def)

lemma div_less_u32: "unat (a :: u32) div n mod 4294967296 = unat a div n"
  using unat_u32_less [of a] by (metis div_le_dividend le_less_trans mod_less)

lemma page_recompose: "4096 * of_nat (unat a div 4096) OR (a AND 0xfff) = (a :: u32)"
proof -
  have "of_nat (unat a div 4096) = drop_bit 12 a" 
    by (simp add: word_unat_eq_iff drop_bit_eq_div unat_div unat_of_nat take_bit_nat_eq_self div_less_u32)
  then have "4096 * of_nat (unat a div 4096) = push_bit 12 (drop_bit 12 a)" by (simp add: push_bit_eq_mult)
  moreover have "push_bit 12 (drop_bit 12 a) OR (a AND mask 12) = a" by (rule bit_eqI) (auto simp: bit_simps)
  ultimately show ?thesis by (simp add: mask_consts(3))
qed

lemma mmu_first_table:
  assumes "phys s = setup_page p" "cr3 s = PAGE_DIR_TABLE_POS"
    "unat (PDE_IDX a) \<in> {0, 768}" "unat (PTE_IDX a) < 256"
  shows "mmu s a = Some (4096 * of_nat (unat (PTE_IDX a)) OR (a AND 0xfff))"
proof -
  have "unat a < 0x400000 \<or> 0xc0000000 \<le> unat a" using assms(3) unfolding index_value by auto
  then have "phys s (pde_at s a) = 4096 * of_nat 0x101 + 7"
    unfolding boot_pde [OF assms(1,2)] using assms(3) by (auto simp only: boot_frame_values if_True insert_iff empty_iff)
  moreover have "phys s (pte_in (4096 * of_nat 0x101) a) = 4096 * of_nat (unat (PTE_IDX a)) + 7"
    unfolding boot_first_table [OF assms(1)] using assms(4) by simp
  ultimately show ?thesis using entry_bits [of "0x101"] entry_bits [of "unat (PTE_IDX a)"] assms(4)
    unfolding mmu_def Let_def by (simp only: if_True)
qed

lemma boot_identity:
  assumes "phys s = setup_page p" "cr3 s = PAGE_DIR_TABLE_POS" "a < 0x100000"
  shows "mmu s a = Some a" "mmu s (a + 0xc0000000) = Some a"
proof -
  have ua: "unat a < 0x100000" using assms(3) by (simp add: word_less_nat_alt)
  have uc: "unat (a + 0xc0000000) = unat a + 0xc0000000" using ua by (simp add: unat_word_ariths)
  have i: "unat (PDE_IDX a) = 0" "unat (PTE_IDX a) = unat a div 4096" "unat (PTE_IDX a) < 256"
    unfolding index_value using ua by (simp_all add: less_mult_imp_div_less)
  have j: "unat (PDE_IDX (a + 0xc0000000)) = 768" "unat (PTE_IDX (a + 0xc0000000)) = unat a div 4096"
  proof -
    have "(unat a + 0xc0000000) div 4096 = unat a div 4096 + 768 * 1024" by linarith
    moreover have "unat a div 4096 < 1024" using ua by linarith
    ultimately show "unat (PTE_IDX (a + 0xc0000000)) = unat a div 4096" unfolding index_value uc by (simp only: mod_mult_self1 mod_less)
    show "unat (PDE_IDX (a + 0xc0000000)) = 768" unfolding index_value uc using ua by linarith
  qed
  have "(unat a + 0xc0000000) mod 4096 = unat a mod 4096" using mod_mult_self1 [of "unat a" "0xc0000" 4096] by simp
  then have low: "(a + 0xc0000000) AND 0xfff = a AND 0xfff"
    using uc by (simp add: mask_consts(3) take_bit_eq_mask [symmetric] take_bit_eq_mod word_unat_eq_iff unat_mod)
  show "mmu s a = Some a" using mmu_first_table [OF assms(1,2), of a] i page_recompose [of a] by simp
  show "mmu s (a + 0xc0000000) = Some a"
    using mmu_first_table [OF assms(1,2), of "a + 0xc0000000"] i(2,3) j low page_recompose [of a] by simp
qed

lemma boot_self_mapped:
  assumes "phys s = setup_page p" "cr3 s = PAGE_DIR_TABLE_POS"
  shows "self_mapped s"
proof -
  have "PDE_IDX (-1) = mask 10" unfolding PDE_IDX_drop by (rule bit_eqI) (auto simp: bit_simps)
  then have i: "unat (PDE_IDX (-1)) = 1023" by (simp add: mask_eq_exp_minus_1)
  then have big: "0xc0000000 \<le> unat (-1 :: u32)" unfolding index_value by linarith
  have "phys s (pde_at s (-1)) = 4096 * of_nat 0x100 + 7"
    unfolding boot_pde [OF assms] i using big by simp
  moreover have "frame (cr3 s) = 4096 * of_nat 0x100" using assms(2) by (simp add: PAGE_DIR_TABLE_POS_def frame_def)
  ultimately show ?thesis using entry_bits [of "0x100"] unfolding self_mapped_def self_entry_at Let_def by (simp only:)
qed

lemma boot_same_frame:
  assumes boot: "phys s = setup_page p" "cr3 s = PAGE_DIR_TABLE_POS"
    and pr: "present (phys s (pde_at s a))" "present (phys s (pde_at s b))"
  shows "frame (phys s (pde_at s a)) = frame (phys s (pde_at s b)) \<longleftrightarrow>
    boot_frame (unat (PDE_IDX a)) = boot_frame (unat (PDE_IDX b))"
  unfolding boot_pde_present(2) [OF boot pr(1)] boot_pde_present(2) [OF boot pr(2)]
  using frame_number_inj [OF boot_frame_less boot_frame_less, OF index_bounds(1) index_bounds(1)] by blast

lemma boot_not_directory:
  assumes boot: "phys s = setup_page p" "cr3 s = PAGE_DIR_TABLE_POS" and a: "0xc0000000 \<le> unat a" "unat a < 0xffc00000"
  shows "frame (phys s (pde_at s a)) \<noteq> frame (cr3 s)"
proof -
  have f: "frame (phys s (pde_at s a)) = 4096 * of_nat (boot_frame (unat (PDE_IDX a)))"
    using boot_pde_present [OF boot, of a] a(1) by simp
  have "unat (PDE_IDX a) < 1023" "768 \<le> unat (PDE_IDX a)" unfolding index_value using a by linarith+
  then have "boot_frame (unat (PDE_IDX a)) \<noteq> 0x100" by (simp add: boot_frame_def)
  moreover have "frame (cr3 s) = 4096 * of_nat 0x100" using boot(2) by (simp add: PAGE_DIR_TABLE_POS_def frame_def)
  ultimately show ?thesis
    unfolding f using frame_number_inj [OF boot_frame_less [OF index_bounds(1)], of "0x100" a] by simp
qed

lemma index_eq: "unat (PDE_IDX a) = unat (PDE_IDX b) \<Longrightarrow> PDE_IDX a = PDE_IDX b"
  by (simp add: word_unat_eq_iff)

lemma boot_private:
  assumes boot: "phys s = setup_page p" "cr3 s = PAGE_DIR_TABLE_POS" and a: "0xc0400000 \<le> a" "a < 0xffc00000"
  shows "table_private s a"
proof -
  have ua: "0xc0400000 \<le> unat a" "unat a < 0xffc00000" using a by (simp_all add: word_less_nat_alt word_le_nat_alt)
  have i: "769 \<le> unat (PDE_IDX a)" "unat (PDE_IDX a) < 1023" unfolding index_value using ua by linarith+
  have "present (phys s (pde_at s a))" using boot_pde_present(1) [OF boot] ua(1) by simp
  then have "PDE_IDX b = PDE_IDX a"
    if b: "present (phys s (pde_at s b))" "frame (phys s (pde_at s b)) = frame (phys s (pde_at s a))" for b
  proof -
    have "boot_frame (unat (PDE_IDX b)) = boot_frame (unat (PDE_IDX a))"
      using boot_same_frame [OF boot b(1)] b(2) \<open>present (phys s (pde_at s a))\<close> by blast
    moreover have "unat (PDE_IDX b) = 0 \<or> 768 \<le> unat (PDE_IDX b)"
      using b(1) boot_pde_present(1) [OF boot, of b] unfolding index_value by linarith
    ultimately show ?thesis using i by (intro index_eq) (auto simp: boot_frame_def split: if_splits)
  qed
  then show ?thesis using boot_not_directory [OF boot _ ua(2)] ua(1) unfolding table_private_def Let_def by simp
qed

lemma boot_kernel_table:
  assumes boot: "phys s = setup_page p" "cr3 s = PAGE_DIR_TABLE_POS" and a: "0xc0000000 \<le> unat a" "unat a < 0xffc00000"
  shows "kernel_table s a"
proof -
  have i: "768 \<le> unat (PDE_IDX a)" unfolding index_value using a(1) by linarith
  have pr: "present (phys s (pde_at s a))" using boot_pde_present(1) [OF boot] a(1) by simp
  have "PDE_IDX b = PDE_IDX a"
    if b: "768 \<le> PDE_IDX b" "present (phys s (pde_at s b))" "frame (phys s (pde_at s b)) = frame (phys s (pde_at s a))" for b
  proof -
    have "boot_frame (unat (PDE_IDX b)) = boot_frame (unat (PDE_IDX a))"
      using boot_same_frame [OF boot b(2) pr] b(3) by blast
    moreover have "768 \<le> unat (PDE_IDX b)" using b(1) by (simp add: word_le_nat_alt)
    ultimately show ?thesis using i by (intro index_eq) (auto simp: boot_frame_def split: if_splits)
  qed
  moreover have "768 \<le> PDE_IDX a" using i by (simp add: word_le_nat_alt)
  ultimately show ?thesis using boot_not_directory [OF boot a] unfolding kernel_table_def by blast
qed

text \<open>Above the first MiB nothing is mapped, provided the tables' memory was zero.\<close>

lemma setup_page_outside: "0x101400 \<le> unat x \<Longrightarrow> setup_page p x = p x"
  unfolding setup_page_fill
  by (subst fill_words_outside, simp_all, subst fill_words_outside, simp_all) (subst fill_words_outside, auto)

lemma boot_unmapped:
  assumes boot: "phys s = setup_page p" "cr3 s = PAGE_DIR_TABLE_POS" and a: "0xc0100000 \<le> unat a" "unat a < 0xffc00000"
    and zero: "\<forall>x. 0x101400 \<le> unat x \<and> unat x < 0x200000 \<longrightarrow> p x = 0"
  shows "mmu s a = None"
proof -
  let ?i = "unat (PDE_IDX a)" and ?j = "unat (PTE_IDX a)"
  let ?n = "boot_frame ?i"
  have i: "768 \<le> ?i" "?i < 1023" unfolding index_value using a by linarith+
  then have n: "?n = 0x101 + (?i - 768)" by (simp add: boot_frame_def)
  have j: "256 \<le> ?j" if "?i = 768"
  proof -
    have d: "unat a div 4096 < 769 * 1024" "768 * 1024 + 256 \<le> unat a div 4096" using that a(1) unfolding index_value by linarith+
    then have "unat a div 4096 = 768 * 1024 + (unat a div 4096 - 768 * 1024)" "unat a div 4096 - 768 * 1024 < 1024" by linarith+
    then have "unat a div 4096 mod 1024 = unat a div 4096 - 768 * 1024" by (metis mod_less mod_mult_self3)
    then show ?thesis unfolding index_value using d(2) by linarith
  qed
  have fr: "frame (phys s (pde_at s a)) = 4096 * of_nat ?n" using boot_pde_present [OF boot, of a] a(1) by simp
  have "unat (4096 * of_nat ?n :: u32) = 4096 * ?n"
    using unat_of_nat_small [of "4096 * ?n"] n index_bounds(1) [of a] by simp
  then have u: "unat (pte_in (4096 * of_nat ?n) a) = 4096 * ?n + 4 * ?j"
    unfolding table_slot using unat_word_at [of "4096 * of_nat ?n" ?j] n index_bounds [of a] by simp
  have "0x101400 \<le> 4096 * ?n + 4 * ?j" using n i(1) j by (cases "?i = 768") simp_all
  moreover have "4096 * ?n + 4 * ?j < 0x200000" using n i(2) index_bounds(2) [of a] by linarith
  ultimately have "phys s (pte_in (4096 * of_nat ?n) a) = 0" using u zero setup_page_outside boot(1) by simp
  then show ?thesis by (simp add: mmu_def Let_def fr present_def)
qed

lemma boot_same_table:
  assumes boot: "phys s = setup_page p" "cr3 s = PAGE_DIR_TABLE_POS" and va: "unat (PDE_IDX va) = 768"
  shows "frame (phys s (pde_at s va)) \<noteq> frame (cr3 s)"
    "same_entry s va a \<longleftrightarrow> unat (PDE_IDX a) \<in> {0, 768} \<and> PTE_IDX a = PTE_IDX va"
proof -
  have "0xc0000000 \<le> unat va" using va unfolding index_value by linarith
  then have f: "frame (phys s (pde_at s va)) = 4096 * of_nat 0x101" using boot_pde_present [OF boot, of va] va by simp
  show "frame (phys s (pde_at s va)) \<noteq> frame (cr3 s)"
    unfolding f using boot(2) by (simp add: PAGE_DIR_TABLE_POS_def frame_def)
  have "frame (phys s (pde_at s a)) = 4096 * of_nat 0x101 \<longleftrightarrow> boot_frame (unat (PDE_IDX a)) = 0x101" if "present (phys s (pde_at s a))"
    using boot_pde_present(2) [OF boot that] frame_number_inj [OF boot_frame_less [OF index_bounds(1)], of "0x101" a] by simp
  moreover have "present (phys s (pde_at s a)) \<longleftrightarrow> unat (PDE_IDX a) = 0 \<or> 768 \<le> unat (PDE_IDX a)"
    unfolding boot_pde_present(1) [OF boot] index_value by linarith
  ultimately show "same_entry s va a \<longleftrightarrow> unat (PDE_IDX a) \<in> {0, 768} \<and> PTE_IDX a = PTE_IDX va"
    unfolding same_entry_def f by (auto simp: boot_frame_def split: if_splits)
qed

text \<open>Pages of the last GiB and of the first 4 MiB that lie in table 0x101000 at the same offset.\<close>

lemma shared_pages:
  assumes "0xc0000000 \<le> va" "va < 0xc0400000"
  shows "unat (PDE_IDX a) \<in> {0, 768} \<and> PTE_IDX a = PTE_IDX va \<longleftrightarrow> frame a = frame va \<or> frame a = frame (va - 0xc0000000)"
proof -
  let ?w = "va - 0xc0000000"
  have ua: "0xc0000000 \<le> unat va" "unat va < 0xc0400000" using assms by (simp_all add: word_less_nat_alt word_le_nat_alt)
  have uw: "unat ?w = unat va - 0xc0000000" using assms(1) by (simp add: unat_sub)
  have i: "unat (PDE_IDX va) = 768" "unat (PDE_IDX ?w) = 0" unfolding index_value uw using ua by linarith+
  have "unat va = unat ?w + 0xc0000000" using uw ua by simp
  then have "unat va div 4096 = unat ?w div 4096 + 768 * 1024" by linarith
  then have "unat (PTE_IDX va) = unat (PTE_IDX ?w)" unfolding index_value by (simp only: mod_mult_self1)
  then have j: "PTE_IDX va = PTE_IDX ?w" by (simp add: word_unat_eq_iff)
  have k: "unat (PDE_IDX a) = unat (PDE_IDX b) \<longleftrightarrow> PDE_IDX a = PDE_IDX b" for b by (simp add: word_unat_eq_iff)
  show ?thesis unfolding same_page using i j k [of va] k [of ?w] by auto
qed

section \<open>Properties\<close>

text \<open>The tables of \<open>setup_page\<close>: the last directory entry maps the directory itself; the first MiB is mapped onto itself, at its own addresses and from 0xc0000000 on; no user address above 4 MiB is mapped; every address of the kernel's GiB has a page table, and from 0xc0400000 to the window of the directory that table is served by this one entry only.\<close>

lemma boot_page_tables:
  fixes s :: "'a machine_scheme"
  assumes "phys s = setup_page p" "cr3 s = PAGE_DIR_TABLE_POS"
  shows "self_mapped s \<and>
    (a < 0x100000 \<longrightarrow> mmu s a = Some a \<and> mmu s (a + 0xc0000000) = Some a) \<and>
    (0x400000 \<le> a \<and> a < 0xc0000000 \<longrightarrow> mmu s a = None) \<and>
    (0xc0000000 \<le> a \<longrightarrow> present (phys s (pde_at s a))) \<and>
    (0xc0400000 \<le> a \<and> a < 0xffc00000 \<longrightarrow> table_private s a)"
proof (intro conjI impI)
  show "self_mapped s" by (rule boot_self_mapped [OF assms])
  show "0xc0000000 \<le> a \<Longrightarrow> present (phys s (pde_at s a))" using boot_pde_present(1) [OF assms] by (simp add: word_le_nat_alt)
  show "0xc0400000 \<le> a \<and> a < 0xffc00000 \<Longrightarrow> table_private s a" using boot_private [OF assms] by blast
  show "0x400000 \<le> a \<and> a < 0xc0000000 \<Longrightarrow> mmu s a = None"
    using boot_pde_present(1) [OF assms, of a] by (simp add: mmu_def Let_def word_le_nat_alt word_less_nat_alt)
qed (use boot_identity [OF assms] in blast)+

definition boot_machine :: machine where
  "boot_machine = demo_machine\<lparr>phys := setup_page (\<lambda>_. 0), cr3 := PAGE_DIR_TABLE_POS\<rparr>"

lemma boot_page_tables_demo:
  "self_mapped boot_machine \<and> mmu boot_machine 0xb8000 = Some 0xb8000 \<and> mmu boot_machine 0xc00b8000 = Some 0xb8000 \<and> mmu boot_machine 0x8048000 = None \<and> table_private boot_machine 0xc0800000"
  using boot_page_tables [of boot_machine "\<lambda>_. 0" "0xb8000"] boot_page_tables [of boot_machine "\<lambda>_. 0" "0x8048000"] boot_page_tables [of boot_machine "\<lambda>_. 0" "0xc0800000"]
  by (simp add: boot_machine_def)

text \<open>
  The identity mapping of the first 4 MiB is never removed: directory entries 0 and 768 keep sharing one table.  A page
  that the kernel maps below 0xc0400000 (its heap starts at 0xc0100000) therefore appears a second time, 3 GiB lower.
\<close>

lemma heap_page_appears_twice:
  assumes "phys s = setup_page p" "cr3 s = PAGE_DIR_TABLE_POS" "0xc0000000 \<le> va" "va < 0xc0400000"
    and "mmu s va = None" "frame pa = pa"
  shows "\<exists>s'. page_table_add va pa s = Some s' \<and>
    (\<forall>a. mmu s' a = (if frame a = frame va \<or> frame a = frame (va - 0xc0000000) then Some (pa OR (a AND 0xfff)) else mmu s a))"
proof -
  let ?e = "pa OR PG_US_U OR PG_RW_W OR PG_P_1"
  have "0xc0000000 \<le> unat va" "unat va < 0xc0400000" using assms(3,4) by (simp_all add: word_less_nat_alt word_le_nat_alt)
  then have i: "unat (PDE_IDX va) = 768" and p: "present (phys s (pde_at s va))"
    using boot_pde_present(1) [OF assms(1,2), of va] unfolding index_value by (linarith, simp)
  have "page_table_add va pa s = Some (set_pte va ?e s)"
    by (rule page_table_add_present [OF boot_self_mapped [OF assms(1,2)] p assms(5)])
  moreover have "mmu (set_pte va ?e s) a =
      (if frame a = frame va \<or> frame a = frame (va - 0xc0000000) then Some (pa OR (a AND 0xfff)) else mmu s a)" for a
    unfolding set_pte_mmu_entry [OF boot_same_table(1) [OF assms(1,2) i]] boot_same_table(2) [OF assms(1,2) i] shared_pages [OF assms(3,4)]
    using assms(6) by (simp add: attr_bits mask_consts(3))
  ultimately show ?thesis by blast
qed

text \<open>The kernel's address pool after \<open>mem_init\<close>.\<close>

lemma mem_init_fields [simp]:
  "phys (mem_init m s) = phys s" "cr3 (mem_init m s) = cr3 s" "vaddr_start (kernel_vaddr (mem_init m s)) = 0xc0100000"
  "kernel_pool (mem_init m s) = kernel_pool (mem_pool_init m s)" "user_pool (mem_init m s) = user_pool (mem_pool_init m s)"
  "kernel_vaddr (mem_init m s) = kernel_vaddr (mem_pool_init m s)"
  "btmp_bits (vaddr_bitmap (kernel_vaddr (mem_pool_init m s))) = frames (kernel_pool (mem_pool_init m s))"
  by (simp_all add: mem_init_def mem_pool_init_def Let_def K_HEAP_START_def frames_def btmp_bits_def)

lemma mem_init_vaddr_free:
  "k < frames (kernel_pool (mem_pool_init m s)) \<Longrightarrow> \<not> bit_at (vaddr_bitmap (kernel_vaddr (mem_pool_init m s))) k"
  using bitmap_init_clear by (auto simp: frames_def mem_pool_init_def Let_def btmp_bits_def)

lemma mem_init_pools_cong: "pools_ok (mem_init m s) = pools_ok (mem_pool_init m s)"
  by (simp add: pools_ok_def)

lemma boot_kernel_space:
  assumes boot: "phys s = setup_page p" "cr3 s = PAGE_DIR_TABLE_POS"
    and zero: "\<forall>x. 0x101400 \<le> unat x \<and> unat x < 0x200000 \<longrightarrow> p x = 0"
    and size: "0x200000 \<le> unat m" "unat m < 0x10200000"
  shows "kernel_space_ok (mem_init m s)"
proof -
  let ?t = "mem_init m s"
  have bt: "phys ?t = setup_page p" "cr3 ?t = PAGE_DIR_TABLE_POS" using boot by simp_all
  have "pool_pages m < 65536" using size by (simp add: pool_pages_def less_mult_imp_div_less)
  then have n: "frames (kernel_pool (mem_pool_init m s)) < 32768" using mem_pool_init_fields(3) [OF size, of s] by linarith
  have u: "unat (kpage ?t k) = 0xc0100000 + 4096 * k" if "k < frames (kernel_pool (mem_pool_init m s))" for k
    using unat_page [of "0xc0100000" "frames (kernel_pool (mem_pool_init m s))" k] that n mem_init_fields(3) [of m s] by (simp add: kpage_def)
  have "present (phys ?t (pde_at ?t (kpage ?t k))) \<and> kernel_table ?t (kpage ?t k) \<and> mmu ?t (kpage ?t k) = None"
    if "k < frames (kernel_pool (mem_pool_init m s))" for k
    using boot_pde_present(1) [OF bt, of "kpage ?t k"] boot_kernel_table [OF bt, of "kpage ?t k"]
      boot_unmapped [OF bt _ _ zero, of "kpage ?t k"] u [OF that] that n by simp
  then show ?thesis
    unfolding kernel_space_ok_def using boot_self_mapped [OF bt] n mem_init_fields(3) [of m s]
    by (simp add: btmp_ok_def frame_def)
qed

lemma boot_tables_outside:
  assumes boot: "phys s = setup_page p" "cr3 s = PAGE_DIR_TABLE_POS" and size: "0x200000 \<le> unat m" "unat m < 0x10200000"
  shows "tables_outside (mem_init m s)"
  unfolding tables_outside_def data_word_def
proof (intro allI impI conjI)
  let ?t = "mem_init m s"
  fix f x a assume f: "f < frames (kernel_pool ?t)" and x: "frame x = frame_of (kernel_pool ?t) f"
  have bt: "phys ?t = setup_page p" "cr3 ?t = PAGE_DIR_TABLE_POS" using boot by simp_all
  have pk: "pool_ok (kernel_pool ?t)" using pools_partition_memory [OF size, of s] by (simp add: pools_ok_def)
  have u: "0x200000 \<le> unat (frame x)" unfolding x unat_frame_of [OF pk f] using mem_pool_init_fields(1) [OF size, of s] by simp
  show "frame x \<noteq> frame (cr3 ?t)" using u bt(2) by (auto simp: PAGE_DIR_TABLE_POS_def frame_def)
  assume pr: "present (phys ?t (pde_at ?t a))"
  let ?n = "boot_frame (unat (PDE_IDX a))"
  have "unat (PDE_IDX a) = 0 \<or> 768 \<le> unat (PDE_IDX a)" using pr boot_pde_present(1) [OF bt, of a] unfolding index_value by linarith
  then have n: "?n < 0x200" using index_bounds(1) [of a] by (auto simp: boot_frame_def)
  have "unat (4096 * of_nat ?n :: u32) = 4096 * ?n" using unat_of_nat_small [of "4096 * ?n"] n by simp
  then have "unat (frame (phys ?t (pde_at ?t a))) < 0x200000" unfolding boot_pde_present(2) [OF bt pr] using n by linarith
  then show "frame x \<noteq> frame (phys ?t (pde_at ?t a))" using u by auto
qed

lemma boot_heap:
  assumes boot: "phys s = setup_page p" "cr3 s = PAGE_DIR_TABLE_POS"
    and zero: "\<forall>x. 0x101400 \<le> unat x \<and> unat x < 0x200000 \<longrightarrow> p x = 0"
    and size: "0x200000 \<le> unat m" "unat m < 0x10200000" and k: "in_kernel s" "running_thread s \<noteq> 0"
  shows "heap_inv {} (mem_init m s)" "in_use {} (mem_init m s) = {}"
proof -
  let ?t = "mem_init m s"
  have d: "k_block_descs ?t = block_desc_init" by (simp add: mem_init_def)
  have "heap_ok {} ?t"
    using block_desc_init_free by (simp add: heap_ok_def d descs_ok_def free_of_def)
  moreover have "pools_ok ?t" using pools_partition_memory [OF size, of s] mem_init_pools_cong by blast
  then have "space_ok ?t"
    using boot_kernel_space [OF boot zero size] boot_tables_outside [OF boot size] mem_pool_init_fields(1) [OF size, of s] mem_init_fields(3) [of m s]
    by (simp add: space_ok_def K_HEAP_START_def word_le_nat_alt)
  moreover have "in_kernel ?t" "pool_free ?t" using k
    by (simp_all add: pool_free_def in_kernel_def running_thread_def mem_init_def mem_pool_init_def Let_def lock_free_def lock_init_def sema_init_def)
  ultimately show "heap_inv {} ?t" by (simp add: heap_inv_def backed_def)
  show "in_use {} ?t = {}" by (simp add: in_use_def is_block_def)
qed

text \<open>
  Property C6: what the boot loader leaves is enough for the kernel's memory management.  With the loader's page tables, memory
  behind them that was zero, and the size the loader computed (2 MiB up to less than 258 MiB), \<open>mem_init\<close> sets up a sound kernel address
  space and two disjoint pools inside memory that lose at most 14 pages to rounding; a first request for up to as many pages as the kernel
  pool has is granted, each page mapped to its own free frame.
\<close>

theorem boot_memory_is_sound:
  assumes boot: "phys s = setup_page p" "cr3 s = PAGE_DIR_TABLE_POS"
    and zero: "\<forall>x. 0x101400 \<le> unat x \<and> unat x < 0x200000 \<longrightarrow> p x = 0"
    and m: "m = find_max_mem_area ards 0" and size: "0x200000 \<le> unat m" "unat m < 0x10200000"
    and n: "0 < unat n" "unat n < 3840" "unat n \<le> frames (kernel_pool (mem_init m s))"
  shows "kernel_space_ok (mem_init m s) \<and> pools_ok (mem_init m s) \<and>
    unat (phy_addr_start (user_pool (mem_init m s))) + 4096 * frames (user_pool (mem_init m s)) \<le> unat m \<and>
    frames (kernel_pool (mem_init m s)) + frames (user_pool (mem_init m s)) + 14 \<ge> pool_pages m \<and>
    (\<exists>r fs s'. malloc_page PF_KERNEL n (mem_init m s) = Some (kpage (mem_init m s) r, s') \<and> length fs = unat n \<and>
       maps_run (kpage (mem_init m s) r) fs (mem_init m s) s' \<and> kernel_space_ok s' \<and> pools_ok s')"
proof -
  note ks = boot_kernel_space [OF boot zero size]
  note pp = pools_partition_memory [OF size, of s]
  have po: "pools_ok (mem_init m s)" using pp mem_init_pools_cong by blast
  have fit: "fits (vaddr_bitmap (kernel_vaddr (mem_init m s))) (unat n) 0"
    using n(3) mem_init_vaddr_free [of _ m s] by (simp add: fits_def)
  have free: "unat n \<le> card (free_frames (kernel_pool (mem_init m s)))" using n(3) by (simp add: init_free)
  obtain r fs s' where "malloc_page PF_KERNEL n (mem_init m s) = Some (kpage (mem_init m s) r, s')" "length fs = unat n"
    "maps_run (kpage (mem_init m s) r) fs (mem_init m s) s'" "kernel_space_ok s'" "pools_ok s'"
    using malloc_page_kernel [OF ks po n(1,2) fit free] by metis
  then show ?thesis using ks po pp by (simp add: init_free) blast
qed

definition boot_memory :: memory where
  "boot_memory = demo_memory\<lparr>phys := setup_page (\<lambda>_. 0), cr3 := PAGE_DIR_TABLE_POS\<rparr>"

text \<open>A machine with 32 MiB: the firmware reports the range below 640 KiB and the one from 1 MiB on.\<close>

lemma demo_size: "find_max_mem_area [(0, 0x9fc00), (0x100000, 0x1f00000)] 0 = 0x2000000"
  by (simp add: signed_take_bit_def sint_uint Let_def)

theorem boot_memory_is_sound_witness:
  "\<exists>r s'. malloc_page PF_KERNEL 2 (mem_init 0x2000000 boot_memory) = Some (kpage (mem_init 0x2000000 boot_memory) r, s') \<and> kernel_space_ok s'"
proof -
  have "frames (kernel_pool (mem_init 0x2000000 boot_memory)) = 3840"
    using mem_pool_init_fields(3) [of "0x2000000" boot_memory] by (simp add: pool_pages_def)
  then show ?thesis
    using boot_memory_is_sound [of boot_memory "\<lambda>_. 0" "0x2000000" "[(0, 0x9fc00), (0x100000, 0x1f00000)]" 2] demo_size
    by (auto simp: boot_memory_def)
qed

end
