(* ===== verification/Spec2Isabelle.thy ===== *)
theory Spec2Isabelle
  imports Prelude FileData FileInv Cat SchedInv HeapInv HeapSpace IntrInit Console Startup Bitmap Interrupt KList CString Paging Sched Sync IoQueue Keyboard Memory Heap Ide Inode Dir File Path FileSys DirSys Format Process Fork Exec Stdio Shell Partitions Platform Syscall Screen Entry Ports Loader
begin

text \<open>
  Sparrow-OS, a 32-bit x86 kernel with its shell: a verification of the code under src/sparrow.

  \<^bold>\<open>The program.\<close>  The boot code loads the kernel and turns paging on; \<open>init_all\<close> sets up interrupts, memory,
  threads, timer, console, keyboard, task state segment, system calls, disk and file system, in this order.  Then the timer
  interrupt drives a round-robin scheduler; blocking (semaphores, locks, the ring buffers of keyboard and pipes) takes
  tasks off the ready list.  Memory is handed out in pages from bitmap pools and in blocks from arenas.
  The file system lives on one partition of the second disk: super block, block bitmap, inode bitmap, inode array, data
  blocks; directories are files of 24-byte entries.  Processes are created by \<open>fork\<close> and \<open>exec\<close>, end with \<open>exit\<close> and are
  collected by \<open>wait\<close>; the shell is the first user program.

  \<^bold>\<open>Theories and sources.\<close>
  \<^item> \<open>Prelude\<close>: integer types, the \<open>ASSERT\<close> of kernel/debug.h, \<open>DIV_ROUND_UP\<close>, shared lemmas on words and lists.
  \<^item> \<open>Bitmap\<close>: lib/kernel/bitmap.c.  First fit against the set of free bits; locale \<open>slot_map\<close> states what the
    allocators above rely on and is interpreted on the bitmap.
  \<^item> \<open>Interrupt\<close>: kernel/interrupt.c: the flag, its save and restore, the descriptor table.
  \<^item> \<open>KList\<close>: lib/kernel/list.c on a store of linked cells; refinement of sequences, locale \<open>elem_list\<close>.
  \<^item> \<open>CString\<close>: lib/string.c on a flat byte memory.
  \<^item> \<open>Paging\<close>: the recursive page-table window of kernel/memory.c, against a model of the processor's table walk.
  \<^item> \<open>Sched\<close>: thread/thread.c (\<open>schedule\<close>, block, unblock, yield), userprog/process.c (\<open>process_activate\<close>) and the
    timer interrupt of device/timer.c.  \<open>SchedInv\<close>: the transition system of these operations and its invariant.
  \<^item> \<open>Sync\<close>: thread/sync.c; a step relation of interleaved tasks with its reachable states, locale \<open>mutex\<close>.
  \<^item> \<open>IoQueue\<close>: device/ioqueue.c and the copying loops of shell/pipe.c; locale \<open>byte_queue\<close>.
  \<^item> \<open>Keyboard\<close>: device/keyboard.c, the scan-code state machine.
  \<^item> \<open>Memory\<close>, \<open>Heap\<close>: kernel/memory.c, pages and arenas.  \<open>HeapInv\<close>: the invariant of the kernel heap and its blocks in use while the arenas stay;
    \<open>HeapSpace\<close>: arenas made and given back, with the pages, frames and page tables behind them.
  \<^item> \<open>Ide\<close>, \<open>Partitions\<close>: device/ide.c, transfers, completion interrupt, identification, partition tables.
  \<^item> \<open>Inode\<close>, \<open>Dir\<close>, \<open>File\<close>: fs/inode.c, fs/dir.c, fs/file.c.  \<open>FileData\<close>, \<open>FileInv\<close>: the contents of open files that fit the
    direct blocks as append-only logs, and what happens to them when the disk is full.
  \<^item> \<open>Path\<close>, \<open>FileSys\<close>, \<open>DirSys\<close>, \<open>Format\<close>: fs/fs.c: path resolution, calls on descriptors (with
    \<open>sys_pipe\<close> of shell/pipe.c), calls on the directory tree, formatting and mounting.
  \<^item> \<open>Process\<close>, \<open>Fork\<close>, \<open>Exec\<close>: thread/thread.c and userprog/: identifiers, control blocks, address spaces, exit,
    wait, fork, exec.
  \<^item> \<open>Stdio\<close>: lib/stdio.c.  \<open>Shell\<close>: shell/shell.c, shell/buildin\_cmd.c and \<open>sys_ps\<close>.  \<open>Cat\<close>: command/cat.c, the user program;
    its loop is written over the locale \<open>byte_source\<close>, which open files interpret.
  \<^item> \<open>Platform\<close>: userprog/tss.c, kernel/global.h, the timer chip, device/console.c.
  \<^item> \<open>Syscall\<close>: lib/user/syscall.c and userprog/syscall-init.c.
  \<^item> \<open>IntrInit\<close>: kernel/interrupt.c, the interrupt controllers, the exception table and \<open>idt_init\<close>.
    \<open>Console\<close>: \<open>printk\<close>, the help text, the last handler of exceptions.  \<open>Startup\<close>: kernel/init.c, \<open>ide_init\<close>, kernel/main.c.
  \<^item> \<open>Entry\<close>: kernel/kernel.S and thread/switch.S, on registers and stack words.  \<open>Screen\<close>: lib/kernel/print.S.
    \<open>Ports\<close>: lib/kernel/io.h.  \<open>Loader\<close>: from boot/loader.S the memory size and the page tables.

  \<^bold>\<open>State.\<close>  A C structure is a record; global state grows along the layers by record extension: the scheduler's record
  (control blocks, lists, flag, physical memory), then the memory manager's pools, the file system's disk, inode and file tables,
  the pool of process identifiers, the shell's cached directory.  Pointers to structures are 32-bit addresses that index a store.  Operations are
  functions from the state to \<open>option\<close>: \<open>None\<close> is a failed assertion, a panic, a loop that never ends or behaviour that C
  leaves undefined, so a theorem that says \<open>Some\<close> excludes all of them.  Errors that the code returns are
  values (-1, 0, NULL as words).  Where a call can give up the processor, \<open>Inl\<close> is the state at the switch and \<open>Inr\<close> the
  return.  No definition uses fuel: a loop is structurally recursive, or has a termination proof, or is a
  \<open>partial_function\<close> whose divergence is \<open>None\<close>.

  \<^bold>\<open>What is shown.\<close>  Allocators: first fit, freshness, disjoint pools, exact page mappings; every allocation of up to 1024 bytes and every
  release in the kernel heap, from booting on.
  Lists and queues: refinement of sequences.  Scheduling: the head of the ready list runs next, every ready task gets
  its turn, a time slice lasts as long as its priority.  Locks: mutual exclusion in every reachable state, no
  lost wake-up.  Strings and formatted output: the standard meaning of each routine.  Disk and file system:
  round trips (sector, inode, directory entry, formatted partition), path components, and the branches in which the code
  loses data or hangs.  Files: a write appends to one file and to no other, what was written is read back, \<open>cat\<close> prints it.
  Processes: what \<open>wait\<close> collects, page by page.  Shell: canonical paths, words of a command line.  The border of the C code: an interrupt
  restores every register, a system call changes \<open>eax\<close> only, a task that was switched out returns from its call of \<open>switch_to\<close>; the screen shows the
  last lines of the text; the boot loader's tables map what the kernel's code takes for granted.

  \<^bold>\<open>How the layers meet.\<close>  \<open>Loader\<close> joins the boot loader to the memory manager: its tables and its memory size satisfy what the allocator's
  theorems assume (\<open>boot_memory_is_sound\<close>) and leave an empty heap, from which \<open>kernel_heap_is_safe\<close> below starts, given that the memory behind the first 256 table entries is zero, which the loader does not ensure.
  Directory entries 0 and 768 share the first page table after booting, so a kernel page below 0xc0400000 has a twin 3 GiB
  lower; \<open>kernel_table\<close> and \<open>low_twin\<close> in \<open>Paging\<close> allow for it, and in the directories of processes, where entry 0 is not set, there is
  none.  \<open>Startup\<close> joins the interrupt table, the controllers and the handlers; \<open>Entry\<close> the stack words of a switch and the scheduler's task
  records; \<open>Cat\<close> the user program and the files.

  \<^bold>\<open>Not modelled.\<close>  The boot sector (boot/mbr.S), the firmware calls, the switch to protected mode, and the reading and copying of the kernel image in
  boot/loader.S: they run before the kernel exists and leave no state it looks at.  Messages printed while booting are dropped.
  In the theories above \<open>Ports\<close> the bytes of port instructions are parameters or traces of the operations that use them, and
  in the theories above \<open>Entry\<close> a switch is the change of the current task and its saved stack pointer.
\<close>

text \<open>
  Property C2: the kernel's heap, from the boot loader on.  With the page tables and the memory size that the loader leaves, after \<open>mem_init\<close> and any
  sequence of allocations of up to 1024 bytes and of releases by a kernel thread, the blocks it holds do not overlap; the next allocation returns,
  with null or with a block that is large enough and overlaps none of them; the next release of one of them returns.  Neither changes the contents
  of the other blocks.
\<close>

theorem kernel_heap_is_safe:
  assumes boot: "phys s = setup_page p" "cr3 s = PAGE_DIR_TABLE_POS"
    and zero: "\<forall>x. 0x101400 \<le> unat x \<and> unat x < 0x200000 \<longrightarrow> p x = 0"
    and m: "m = find_max_mem_area ards 0" and size: "0x200000 \<le> unat m" "unat m < 0x10200000"
    and k: "in_kernel s" "running_thread s \<noteq> 0" and tr: "heap_trace (mem_init m s) U t"
  shows "(\<forall>i b j c. (i, b) \<in> U \<and> (j, c) \<in> U \<and> (i, b) \<noteq> (j, c) \<longrightarrow>
      unat b + unat (bsize i) \<le> unat c \<or> unat c + unat (bsize j) \<le> unat b) \<and>
    (\<forall>sz. sz \<le> 1024 \<longrightarrow> (\<exists>b t'. sys_malloc sz t = Some (b, t') \<and> kept U t t' \<and> (b \<noteq> 0 \<longrightarrow> sz \<le> bsize (desc_for sz (k_block_descs t)) \<and>
      (\<forall>j c. (j, c) \<in> U \<longrightarrow> unat b + unat (bsize (desc_for sz (k_block_descs t))) \<le> unat c \<or> unat c + unat (bsize j) \<le> unat b)))) \<and>
    (\<forall>i b. (i, b) \<in> U \<longrightarrow> (\<exists>t'. sys_free b t = Some t' \<and> kept (U - {(i, b)}) t t'))"
proof -
  obtain B where B: "heap_inv B t" "in_use B t = U" using heap_trace_inv [OF tr boot_heap [OF boot zero size k]] by blast
  have alloc: "\<exists>b t'. sys_malloc sz t = Some (b, t') \<and> kept U t t' \<and> (b \<noteq> 0 \<longrightarrow> sz \<le> bsize (desc_for sz (k_block_descs t)) \<and>
      (\<forall>j c. (j, c) \<in> U \<longrightarrow> unat b + unat (bsize (desc_for sz (k_block_descs t))) \<le> unat c \<or> unat c + unat (bsize j) \<le> unat b))"
    if sz: "sz \<le> 1024" for sz
  proof -
    let ?i = "desc_for sz (k_block_descs t)"
    obtain b t' C where a: "sys_malloc sz t = Some (b, t')" "in_use C t' = (if b = 0 then U else insert (?i, b) U)"
      "b \<noteq> 0 \<longrightarrow> sz \<le> bsize ?i \<and> (?i, b) \<notin> U" "kept U t t'" using malloc_any [OF B(1) sz] unfolding B(2) by blast
    have "unat b + unat (bsize ?i) \<le> unat c \<or> unat c + unat (bsize j) \<le> unat b" if "b \<noteq> 0" "(j, c) \<in> U" for j c
      using in_use_apart [of ?i b C t' j c] a(2,3) that by auto
    then show ?thesis using a by blast
  qed
  have release: "\<exists>t'. sys_free b t = Some t' \<and> kept (U - {(i, b)}) t t'" if u: "(i, b) \<in> U" for i b
    by (rule sys_free_ok [OF B(1) u [folded B(2)]]) (use B(2) in blast)
  show ?thesis using in_use_apart [of _ _ B t] alloc release unfolding B(2) by blast
qed

lemma boot_memory_kernel: "in_kernel boot_memory" "running_thread boot_memory \<noteq> 0"
  by (simp_all add: in_kernel_def running_thread_def boot_memory_def demo_memory_def demo_sched_def demo_task_def)

theorem kernel_heap_is_safe_witness:
  "\<exists>b t'. sys_malloc 100 (mem_init 0x2000000 boot_memory) = Some (b, t')"
proof -
  have boot: "phys boot_memory = setup_page (\<lambda>_. 0)" "cr3 boot_memory = PAGE_DIR_TABLE_POS" by (simp_all add: boot_memory_def)
  have "heap_trace (mem_init 0x2000000 boot_memory) {} (mem_init 0x2000000 boot_memory)" by (rule ht_start)
  from kernel_heap_is_safe [OF boot _ demo_size [symmetric] _ _ boot_memory_kernel this]
  have "\<forall>sz. sz \<le> 1024 \<longrightarrow> (\<exists>b t'. sys_malloc sz (mem_init 0x2000000 boot_memory) = Some (b, t'))" by auto
  then show ?thesis by (rule allE [of _ 100]) simp
qed

end
